(* ===== verification/Prelude.thy ===== *)
theory Prelude
  imports Main
begin

text \<open>
  Shared vocabulary of the development: the Python list operations the harness uses
  (\<open>list.index\<close>, \<open>max (.., key=..)\<close>, \<open>next (.. for .. if ..)\<close>), the result type of a
  call that may raise, and the interface of a closed enumeration ordered by a rank table
  (the \<open>_TIER_RANK\<close> / \<open>_GATE_RANK\<close> dictionaries that every axis package declares).
  The component theories interpret the rank interface on their own tables and rest their
  monotonicity properties on its lemmas.
\<close>

named_theorems rank_simps "rank tables of the closed enumerations"

named_theorems data_simps "static tables of the program"

section \<open>Python list operations\<close>

text \<open>\<open>xs.index (x)\<close>: the first position of \<open>x\<close>; \<open>None\<close> stands for \<open>ValueError\<close>.\<close>

fun py_index :: "'a list \<Rightarrow> 'a \<Rightarrow> nat option" where
  "py_index [] x = None"
| "py_index (y # ys) x = (if y = x then Some 0 else map_option Suc (py_index ys x))"

lemma py_index_None_iff: "py_index xs x = None \<longleftrightarrow> x \<notin> set xs"
  by (induction xs) auto

lemma py_index_Some_nth: "py_index xs x = Some i \<Longrightarrow> i < length xs \<and> xs ! i = x"
  by (induction xs arbitrary: i) (auto split: if_splits)

lemma py_index_first: "py_index xs x = Some i \<Longrightarrow> j < i \<Longrightarrow> xs ! j \<noteq> x"
proof (induction xs arbitrary: i j)
  case Nil
  then show ?case by simp
next
  case (Cons y ys)
  then show ?case by (cases j) (auto split: if_splits)
qed

lemma py_index_distinct:
  assumes "distinct xs" and "i < length xs"
  shows "py_index xs (xs ! i) = Some i"
  using assms
proof (induction xs arbitrary: i)
  case Nil
  then show ?case by simp
next
  case (Cons y ys)
  then show ?case by (cases i) (auto simp: in_set_conv_nth)
qed

text \<open>\<open>max (xs, key=f)\<close> keeps the first element whose key is maximal; \<open>None\<close> stands for the
  \<open>ValueError\<close> that Python raises on an empty iterable.\<close>

fun py_max_from :: "('a \<Rightarrow> nat) \<Rightarrow> 'a \<Rightarrow> 'a list \<Rightarrow> 'a" where
  "py_max_from key best [] = best"
| "py_max_from key best (x # xs) = py_max_from key (if key best < key x then x else best) xs"

definition py_max_by :: "('a \<Rightarrow> nat) \<Rightarrow> 'a list \<Rightarrow> 'a option" where
  "py_max_by key xs = (case xs of [] \<Rightarrow> None | x # xs' \<Rightarrow> Some (py_max_from key x xs'))"

lemma py_max_from_mem: "py_max_from key best xs \<in> insert best (set xs)"
proof (induction xs arbitrary: best)
  case Nil
  then show ?case by simp
next
  case (Cons x xs)
  show ?case using Cons.IH [of "if key best < key x then x else best"] by (auto split: if_splits)
qed

lemma py_max_from_ge:
  "key best \<le> key (py_max_from key best xs) \<and> (\<forall>x \<in> set xs. key x \<le> key (py_max_from key best xs))"
proof (induction xs arbitrary: best)
  case Nil
  then show ?case by simp
next
  case (Cons x xs)
  show ?case
    using Cons.IH [of "if key best < key x then x else best"] by (auto split: if_splits)
qed

lemma py_max_from_key: "key (py_max_from key best xs) = Max (key ` insert best (set xs))"
proof (rule Max_eqI [symmetric])
  show "finite (key ` insert best (set xs))" by simp
next
  fix y
  assume "y \<in> key ` insert best (set xs)"
  then show "y \<le> key (py_max_from key best xs)" using py_max_from_ge [of key best xs] by auto
next
  show "key (py_max_from key best xs) \<in> key ` insert best (set xs)"
    using py_max_from_mem [of key best xs] by blast
qed

text \<open>\<open>next (x for x in xs if P x)\<close>; \<open>None\<close> stands for \<open>StopIteration\<close>.\<close>

definition py_next :: "('a \<Rightarrow> bool) \<Rightarrow> 'a list \<Rightarrow> 'a option" where
  "py_next P xs = find P xs"

lemma py_next_Some: "py_next P xs = Some x \<Longrightarrow> x \<in> set xs \<and> P x"
  by (auto simp: py_next_def find_Some_iff)

lemma py_next_exists: "x \<in> set xs \<Longrightarrow> P x \<Longrightarrow> \<exists>y. py_next P xs = Some y"
  by (metis find_None_iff not_Some_eq py_next_def)

section \<open>Closed enumerations ordered by a rank table\<close>

text \<open>\<open>a if RANK[a] >= RANK[b] else b\<close>, the join of two values of a ranked enumeration.\<close>

definition rank_max :: "('a \<Rightarrow> nat) \<Rightarrow> 'a \<Rightarrow> 'a \<Rightarrow> 'a" where
  "rank_max rank a b = (if rank b \<le> rank a then a else b)"

text \<open>The interface: the rank table tells the members apart.\<close>

locale ranked =
  fixes rank :: "'a \<Rightarrow> nat"
  assumes rank_inj: "rank a = rank b \<Longrightarrow> a = b"
begin

lemma rank_eq_iff: "rank a = rank b \<longleftrightarrow> a = b"
  using rank_inj by blast

lemma rank_of_max: "rank (rank_max rank a b) = max (rank a) (rank b)"
  by (simp add: rank_max_def max_def)

lemma max_commute: "rank_max rank a b = rank_max rank b a"
  by (rule rank_inj) (simp add: rank_of_max max.commute)

lemma max_assoc: "rank_max rank (rank_max rank a b) c = rank_max rank a (rank_max rank b c)"
  by (rule rank_inj) (simp add: rank_of_max max.assoc)

lemma max_idem: "rank_max rank a a = a"
  by (simp add: rank_max_def)

lemma max_least: "rank a \<le> rank c \<Longrightarrow> rank b \<le> rank c \<Longrightarrow> rank (rank_max rank a b) \<le> rank c"
  by (simp add: rank_of_max)

lemma max_upper: "rank a \<le> rank (rank_max rank a b)" "rank b \<le> rank (rank_max rank a b)"
  by (simp_all add: rank_of_max)

lemma max_mono:
  "rank a \<le> rank a' \<Longrightarrow> rank b \<le> rank b' \<Longrightarrow> rank (rank_max rank a b) \<le> rank (rank_max rank a' b')"
  by (auto simp: rank_of_max)

text \<open>The value \<open>max (xs, key=rank)\<close> picks is the only member of maximal rank.\<close>

lemma max_by_unique:
  assumes "py_max_by rank xs = Some m" and "x \<in> set xs" and "\<forall>y \<in> set xs. rank y \<le> rank x"
  shows "m = x"
proof -
  obtain z zs where xs: "xs = z # zs" using assms(2) by (cases xs) auto
  have m: "m = py_max_from rank z zs" using assms(1) by (simp add: xs py_max_by_def)
  have "rank m \<le> rank x" using assms(3) py_max_from_mem [of rank z zs] by (auto simp: m xs)
  moreover have "rank x \<le> rank m" using assms(2) py_max_from_ge [of rank z zs] by (auto simp: m xs)
  ultimately show ?thesis using rank_inj by (simp add: order_antisym)
qed

end

section \<open>Calls that may raise\<close>

text \<open>A call returns \<open>Inr v\<close> or raises \<open>Inl e\<close>; sequencing stops at the first exception.\<close>

definition raise_bind :: "'e + 'a \<Rightarrow> ('a \<Rightarrow> 'e + 'b) \<Rightarrow> 'e + 'b" where
  "raise_bind m f = (case m of Inl e \<Rightarrow> Inl e | Inr a \<Rightarrow> f a)"

lemma raise_bind_simps [simp]:
  "raise_bind (Inl e) f = Inl e"
  "raise_bind (Inr a) f = f a"
  by (simp_all add: raise_bind_def)

lemma raise_bind_Inr_iff: "raise_bind m f = Inr b \<longleftrightarrow> (\<exists>a. m = Inr a \<and> f a = Inr b)"
  by (cases m) auto

end
