(* ===== verification/Core_Types.thy ===== *)
theory Core_Types
  imports Prelude
begin

text \<open>
  \<open>harness-core\<close>: the closed enumerations that more than one axis package uses
  (deployment surface, persona tier, workload class, lifecycle event class). The declaration
  order of the members is the order \<open>enumerate\<close> gives them in the rank tables of the axis
  packages. Python strings are lists of code points (\<open>pystr\<close>); \<open>lit\<close> embeds an ASCII literal.
\<close>

type_synonym pystr = "nat list"

definition lit :: "string \<Rightarrow> pystr" where
  "lit s = map of_char s"

lemma lit_Nil [simp]: "lit [] = []"
  by (simp add: lit_def)

lemma lit_Cons [simp]: "lit (c # s) = of_char c # lit s"
  by (simp add: lit_def)

lemma lit_inject [simp]: "lit s = lit t \<longleftrightarrow> s = t"
  unfolding lit_def by (simp add: inj_map_eq_map inj_of_char)

datatype deployment_surface = LOCAL_DEVELOPMENT | SELF_HOSTED_SERVER | MANAGED_CLOUD

datatype persona_tier = SOLO_DEVELOPER | TEAM_BINDING | MULTI_TENANT_COMPLIANCE

datatype workload_class = SOFTWARE_ENGINEERING | CONTENT_CREATION | PIPELINE_AUTOMATION | RESEARCH

datatype workflow_event_class =
    WORKFLOW_START | STEP_BOUNDARY | FALLBACK_TRIGGER | RETRY_ATTEMPT
  | BREAKER_TRIP | LEASE_ACQUIRED | LEASE_RELEASED | RESUMPTION

fun deployment_surface_value :: "deployment_surface \<Rightarrow> string" where
  "deployment_surface_value LOCAL_DEVELOPMENT = ''local-development''"
| "deployment_surface_value SELF_HOSTED_SERVER = ''self-hosted-server''"
| "deployment_surface_value MANAGED_CLOUD = ''managed-cloud''"

fun persona_tier_value :: "persona_tier \<Rightarrow> string" where
  "persona_tier_value SOLO_DEVELOPER = ''solo-developer''"
| "persona_tier_value TEAM_BINDING = ''team-binding''"
| "persona_tier_value MULTI_TENANT_COMPLIANCE = ''multi-tenant-compliance''"

fun persona_rank :: "persona_tier \<Rightarrow> nat" where
  "persona_rank SOLO_DEVELOPER = 0"
| "persona_rank TEAM_BINDING = 1"
| "persona_rank MULTI_TENANT_COMPLIANCE = 2"

declare persona_rank.simps [rank_simps]

interpretation persona: ranked persona_rank
proof unfold_locales
  fix a b :: persona_tier
  show "persona_rank a = persona_rank b \<Longrightarrow> a = b" by (cases a; cases b) simp_all
qed

text \<open>The string value tells the members of an enumeration apart, so a value read back from a
  span attribute or a manifest names exactly one member.\<close>

lemma persona_tier_value_inj: "persona_tier_value a = persona_tier_value b \<Longrightarrow> a = b"
  by (cases a; cases b) simp_all

lemma deployment_surface_value_inj: "deployment_surface_value a = deployment_surface_value b \<Longrightarrow> a = b"
  by (cases a; cases b) simp_all

end
