(* ===== verification/Sandbox_Tiers.thy ===== *)
theory Sandbox_Tiers
  imports Core_Types
begin

text \<open>
  \<open>harness-as\<close>: the sandbox-tier ladder and the tables keyed on it (\<open>sandbox_tier.py\<close>,
  \<open>blast_radius_floor.py\<close>, \<open>forced_tier_resolution.py\<close>, \<open>sandbox_tier_floor.py\<close>,
  \<open>mcp_transport_floor.py\<close>, \<open>sandbox_provider_class.py\<close>, \<open>deployment_matrix.py\<close>).
  A tier is compared by its position in the declaration order (\<open>_TIER_RANK\<close>).
\<close>

section \<open>The ladder\<close>

datatype sandbox_tier = TIER_1_PROCESS | TIER_2_CONTAINER | TIER_3_MICROVM | TIER_4_FULL_VM

datatype mechanism_class =
    LANGUAGE_LEVEL_PLUS_FS_ACL | PROCESS_ISOLATION_SECCOMP_NS
  | SHARED_KERNEL_CONTAINER_OR_GVISOR_OR_KATA | HARDWARE_VIRT_MICROVM_OR_FULL_VM

datatype blast_radius_tier = READ_ONLY | LOCAL_MUTATION | EXTERNAL_REVERSIBLE | EXTERNAL_IRREVERSIBLE

record sandbox_tier_metadata =
  stm_tier :: sandbox_tier
  stm_label :: string
  stm_mechanism_class :: mechanism_class
  stm_capability_lower_bound :: blast_radius_tier

fun tier_rank :: "sandbox_tier \<Rightarrow> nat" where
  "tier_rank TIER_1_PROCESS = 0"
| "tier_rank TIER_2_CONTAINER = 1"
| "tier_rank TIER_3_MICROVM = 2"
| "tier_rank TIER_4_FULL_VM = 3"

fun blast_rank :: "blast_radius_tier \<Rightarrow> nat" where
  "blast_rank READ_ONLY = 0"
| "blast_rank LOCAL_MUTATION = 1"
| "blast_rank EXTERNAL_REVERSIBLE = 2"
| "blast_rank EXTERNAL_IRREVERSIBLE = 3"

declare tier_rank.simps [rank_simps] blast_rank.simps [rank_simps]

interpretation tier: ranked tier_rank
proof unfold_locales
  fix a b :: sandbox_tier
  show "tier_rank a = tier_rank b \<Longrightarrow> a = b" by (cases a; cases b) simp_all
qed

interpretation blast: ranked blast_rank
proof unfold_locales
  fix a b :: blast_radius_tier
  show "blast_rank a = blast_rank b \<Longrightarrow> a = b" by (cases a; cases b) simp_all
qed

instantiation sandbox_tier :: linorder
begin

definition less_eq_sandbox_tier :: "sandbox_tier \<Rightarrow> sandbox_tier \<Rightarrow> bool" where
  "less_eq_sandbox_tier a b \<longleftrightarrow> tier_rank a \<le> tier_rank b"

definition less_sandbox_tier :: "sandbox_tier \<Rightarrow> sandbox_tier \<Rightarrow> bool" where
  "less_sandbox_tier a b \<longleftrightarrow> tier_rank a < tier_rank b"

instance
  by standard (auto simp: less_eq_sandbox_tier_def less_sandbox_tier_def intro: tier.rank_inj)

end

fun tier_metadata :: "sandbox_tier \<Rightarrow> sandbox_tier_metadata" where
  "tier_metadata TIER_1_PROCESS =
     \<lparr>stm_tier = TIER_1_PROCESS, stm_label = ''Tier 1 minimal isolation'',
      stm_mechanism_class = LANGUAGE_LEVEL_PLUS_FS_ACL, stm_capability_lower_bound = READ_ONLY\<rparr>"
| "tier_metadata TIER_2_CONTAINER =
     \<lparr>stm_tier = TIER_2_CONTAINER, stm_label = ''Tier 2 process isolation'',
      stm_mechanism_class = PROCESS_ISOLATION_SECCOMP_NS, stm_capability_lower_bound = LOCAL_MUTATION\<rparr>"
| "tier_metadata TIER_3_MICROVM =
     \<lparr>stm_tier = TIER_3_MICROVM, stm_label = ''Tier 3 container isolation'',
      stm_mechanism_class = SHARED_KERNEL_CONTAINER_OR_GVISOR_OR_KATA,
      stm_capability_lower_bound = EXTERNAL_REVERSIBLE\<rparr>"
| "tier_metadata TIER_4_FULL_VM =
     \<lparr>stm_tier = TIER_4_FULL_VM, stm_label = ''Tier 4 VM isolation'',
      stm_mechanism_class = HARDWARE_VIRT_MICROVM_OR_FULL_VM,
      stm_capability_lower_bound = EXTERNAL_IRREVERSIBLE\<rparr>"

definition is_tier_at_or_above :: "sandbox_tier \<Rightarrow> sandbox_tier \<Rightarrow> bool" where
  "is_tier_at_or_above candidate floor = (tier_rank floor \<le> tier_rank candidate)"

lemma is_tier_at_or_above_order: "is_tier_at_or_above c f \<longleftrightarrow> f \<le> c"
  by (simp add: is_tier_at_or_above_def less_eq_sandbox_tier_def)

text \<open>\<open>_tier_max\<close> of \<open>sandbox_tier_floor.py\<close> and \<open>mcp_transport_floor.py\<close>.\<close>

definition tier_max :: "sandbox_tier \<Rightarrow> sandbox_tier \<Rightarrow> sandbox_tier" where
  "tier_max a b = (if tier_rank b \<le> tier_rank a then a else b)"

lemma tier_max_rank_max: "tier_max a b = rank_max tier_rank a b"
  by (simp add: tier_max_def rank_max_def)

lemma tier_max_eq_max: "tier_max a b = max a b"
  by (auto simp: tier_max_def max_def less_eq_sandbox_tier_def intro: tier.rank_inj)

section \<open>Blast-radius default floor\<close>

fun blast_radius_floor :: "blast_radius_tier \<Rightarrow> sandbox_tier" where
  "blast_radius_floor READ_ONLY = TIER_1_PROCESS"
| "blast_radius_floor LOCAL_MUTATION = TIER_2_CONTAINER"
| "blast_radius_floor EXTERNAL_REVERSIBLE = TIER_3_MICROVM"
| "blast_radius_floor EXTERNAL_IRREVERSIBLE = TIER_4_FULL_VM"

lemma blast_radius_floor_rank: "tier_rank (blast_radius_floor b) = blast_rank b"
  by (cases b) simp_all

lemma blast_radius_floor_mono: "blast_rank b \<le> blast_rank b' \<Longrightarrow> blast_radius_floor b \<le> blast_radius_floor b'"
  by (simp add: less_eq_sandbox_tier_def blast_radius_floor_rank)

lemma blast_radius_floor_lower_bound: "stm_capability_lower_bound (tier_metadata (blast_radius_floor b)) = b"
  by (cases b) simp_all

section \<open>Forced tier\<close>

record tool_context =
  tc_computer_use_bound :: bool
  tc_code_execution_beta_invoked :: bool

datatype forced_tier_cause = COMPUTER_USE_BOUND | CODE_EXECUTION_BETA

record forced_tier_result =
  ftr_tier :: sandbox_tier
  ftr_cause :: forced_tier_cause

definition forced_tier :: "tool_context \<Rightarrow> forced_tier_result option" where
  "forced_tier ctx =
     (if tc_computer_use_bound ctx
      then Some \<lparr>ftr_tier = TIER_4_FULL_VM, ftr_cause = COMPUTER_USE_BOUND\<rparr>
      else if tc_code_execution_beta_invoked ctx
      then Some \<lparr>ftr_tier = TIER_4_FULL_VM, ftr_cause = CODE_EXECUTION_BETA\<rparr>
      else None)"

lemma forced_tier_full_vm: "forced_tier ctx = Some r \<Longrightarrow> ftr_tier r = TIER_4_FULL_VM"
  by (auto simp: forced_tier_def split: if_splits)

section \<open>The per-call-site floor\<close>

datatype mcp_transport =
    STDIO | STREAMABLE_HTTP_L0_REFUSE | STREAMABLE_HTTP_L1_PINNED
  | STREAMABLE_HTTP_L2_SANDBOX | STREAMABLE_HTTP_L3_AUDIT

datatype mcp_server_trust_level = L0_REFUSE_REMOTE | L1_SIGNED_PINNED | L2_SANDBOX_ALL | L3_ALLOW_WITH_AUDIT

record tool_metadata =
  tm_is_deterministic_inhouse :: bool
  tm_forces_computer_use :: bool
  tm_forces_code_execution :: bool

record mcp_server =
  ms_server_id :: pystr
  ms_trust_level :: mcp_server_trust_level

text \<open>\<open>SandboxTierFloorResult\<close> pairs an outcome with an optional tier; the constructors
  \<open>_resolved\<close> and \<open>REFUSE\<close> are the only two values the code builds.\<close>

datatype sandbox_tier_floor_outcome = STF_RESOLVED | STF_REFUSE

record sandbox_tier_floor_result =
  stf_outcome :: sandbox_tier_floor_outcome
  stf_tier :: "sandbox_tier option"

definition stf_resolved :: "sandbox_tier \<Rightarrow> sandbox_tier_floor_result" where
  "stf_resolved t = \<lparr>stf_outcome = STF_RESOLVED, stf_tier = Some t\<rparr>"

definition REFUSE :: sandbox_tier_floor_result where
  "REFUSE = \<lparr>stf_outcome = STF_REFUSE, stf_tier = None\<rparr>"

definition sandbox_tier_floor ::
  "tool_metadata \<Rightarrow> deployment_surface \<Rightarrow> blast_radius_tier \<Rightarrow> mcp_transport option
   \<Rightarrow> mcp_server option \<Rightarrow> sandbox_tier_floor_result" where
  "sandbox_tier_floor tool surface blast transport server =
     (if tm_forces_computer_use tool then stf_resolved TIER_4_FULL_VM
      else if tm_forces_code_execution tool then stf_resolved TIER_4_FULL_VM
      else
        let floor = blast_radius_floor blast in
        if transport = Some STDIO then stf_resolved (tier_max TIER_3_MICROVM floor)
        else
          (case server of
             Some s \<Rightarrow>
               (case ms_trust_level s of
                  L0_REFUSE_REMOTE \<Rightarrow> REFUSE
                | L2_SANDBOX_ALL \<Rightarrow> stf_resolved (tier_max TIER_4_FULL_VM floor)
                | L1_SIGNED_PINNED \<Rightarrow> stf_resolved floor
                | L3_ALLOW_WITH_AUDIT \<Rightarrow> stf_resolved floor)
           | None \<Rightarrow> stf_resolved floor))"

definition mcp_transport_floor ::
  "mcp_transport \<Rightarrow> mcp_server_trust_level \<Rightarrow> blast_radius_tier \<Rightarrow> sandbox_tier_floor_result" where
  "mcp_transport_floor transport trust_level blast =
     (let floor = blast_radius_floor blast in
      if transport = STDIO then stf_resolved (tier_max TIER_3_MICROVM floor)
      else
        (case trust_level of
           L0_REFUSE_REMOTE \<Rightarrow> REFUSE
         | L2_SANDBOX_ALL \<Rightarrow> stf_resolved (tier_max TIER_4_FULL_VM floor)
         | L1_SIGNED_PINNED \<Rightarrow> stf_resolved floor
         | L3_ALLOW_WITH_AUDIT \<Rightarrow> stf_resolved floor))"

definition rejects_at_registration :: "mcp_transport \<Rightarrow> mcp_server_trust_level \<Rightarrow> bool" where
  "rejects_at_registration transport trust_level =
     (stf_outcome (mcp_transport_floor transport trust_level READ_ONLY) = STF_REFUSE)"

lemma stf_outcome_simps [simp]:
  "stf_outcome (stf_resolved t) = STF_RESOLVED" "stf_tier (stf_resolved t) = Some t"
  "stf_outcome REFUSE = STF_REFUSE" "stf_tier REFUSE = None"
  "stf_resolved t \<noteq> REFUSE" "stf_resolved t = stf_resolved u \<longleftrightarrow> t = u"
  by (auto simp: stf_resolved_def REFUSE_def)

lemma stf_resolved_neq_REFUSE' [simp]: "REFUSE \<noteq> stf_resolved t"
  by (metis stf_outcome_simps(5))

lemmas floor_defs = sandbox_tier_floor_def mcp_transport_floor_def Let_def

text \<open>The two constructors are the only shapes: a floor is refused or carries a tier, so the
  code's \<open>assert stf.tier is not None\<close> never fires.\<close>

lemma sandbox_tier_floor_shape:
  "sandbox_tier_floor tool surface blast transport server = REFUSE \<or>
   (\<exists>t. sandbox_tier_floor tool surface blast transport server = stf_resolved t)"
  by (auto simp: floor_defs split: if_splits option.splits mcp_server_trust_level.splits)

lemma sandbox_tier_floor_refuse_iff:
  "sandbox_tier_floor tool surface blast transport server = REFUSE \<longleftrightarrow>
   \<not> tm_forces_computer_use tool \<and> \<not> tm_forces_code_execution tool \<and> transport \<noteq> Some STDIO \<and>
   (\<exists>s. server = Some s \<and> ms_trust_level s = L0_REFUSE_REMOTE)"
  by (auto simp: floor_defs split: option.splits mcp_server_trust_level.splits)

lemma sandbox_tier_floor_ge_blast:
  "sandbox_tier_floor tool surface blast transport server = stf_resolved t \<Longrightarrow> blast_radius_floor blast \<le> t"
  by (cases blast)
    (auto simp: floor_defs tier_max_def less_eq_sandbox_tier_def
      split: if_splits option.splits mcp_server_trust_level.splits)

lemma sandbox_tier_floor_mono:
  "sandbox_tier_floor tool surface b transport server = stf_resolved t \<Longrightarrow>
   sandbox_tier_floor tool surface b' transport server = stf_resolved t' \<Longrightarrow>
   blast_rank b \<le> blast_rank b' \<Longrightarrow> t \<le> t'"
  by (cases b; cases b')
    (auto simp: floor_defs tier_max_def less_eq_sandbox_tier_def
      split: if_splits option.splits mcp_server_trust_level.splits)

lemma mcp_transport_floor_refines:
  assumes "\<not> tm_forces_computer_use tool" and "\<not> tm_forces_code_execution tool"
  shows "sandbox_tier_floor tool surface blast (Some transport) (Some s)
         = mcp_transport_floor transport (ms_trust_level s) blast"
  using assms by (simp add: floor_defs)

lemma rejects_at_registration_iff:
  "rejects_at_registration transport trust \<longleftrightarrow> transport \<noteq> STDIO \<and> trust = L0_REFUSE_REMOTE"
  by (auto simp: rejects_at_registration_def floor_defs split: mcp_server_trust_level.splits)

section \<open>Properties\<close>

text \<open>Along a fixed tool, surface, transport and server, a call that resolves never runs
  below the tier its blast radius requires, and a call with a larger blast radius never runs in a
  weaker tier.\<close>

theorem sandbox_tier_floor_sound:
  assumes "sandbox_tier_floor tool surface b transport server = stf_resolved t"
    and "sandbox_tier_floor tool surface b' transport server = stf_resolved t'"
    and "blast_rank b \<le> blast_rank b'"
  shows "blast_radius_floor b \<le> t \<and> t \<le> t' \<and> blast_radius_floor b' \<le> t'"
  using assms sandbox_tier_floor_ge_blast sandbox_tier_floor_mono by blast

lemma sandbox_tier_floor_sound_witness:
  "TIER_2_CONTAINER \<le> TIER_2_CONTAINER \<and> TIER_2_CONTAINER \<le> TIER_3_MICROVM \<and> TIER_3_MICROVM \<le> TIER_3_MICROVM"
  using sandbox_tier_floor_sound
    [of "\<lparr>tm_is_deterministic_inhouse = True, tm_forces_computer_use = False, tm_forces_code_execution = False\<rparr>" LOCAL_DEVELOPMENT
      LOCAL_MUTATION None None TIER_2_CONTAINER EXTERNAL_REVERSIBLE TIER_3_MICROVM]
  by (simp add: floor_defs)

text \<open>A remote MCP server at trust level 0 is rejected when it registers exactly when no
  call through it could ever be placed: for a tool that forces no tier, registration rejects a
  transport and trust level iff the transport is remote and the per-call floor refuses every blast
  radius.\<close>

theorem registration_matches_dispatch:
  assumes "\<not> tm_forces_computer_use tool" and "\<not> tm_forces_code_execution tool"
  shows "rejects_at_registration transport (ms_trust_level s) \<longleftrightarrow>
    (\<forall>blast. sandbox_tier_floor tool surface blast (Some transport) (Some s) = REFUSE)"
  using assms by (simp add: rejects_at_registration_iff sandbox_tier_floor_refuse_iff)

lemma registration_matches_dispatch_witness:
  "rejects_at_registration STREAMABLE_HTTP_L0_REFUSE L0_REFUSE_REMOTE \<and>
   sandbox_tier_floor \<lparr>tm_is_deterministic_inhouse = False, tm_forces_computer_use = False,
       tm_forces_code_execution = False\<rparr> MANAGED_CLOUD LOCAL_MUTATION (Some STREAMABLE_HTTP_L0_REFUSE)
     (Some \<lparr>ms_server_id = lit ''srv'', ms_trust_level = L0_REFUSE_REMOTE\<rparr>) = REFUSE"
  using registration_matches_dispatch
    [of "\<lparr>tm_is_deterministic_inhouse = False, tm_forces_computer_use = False,
          tm_forces_code_execution = False\<rparr>" STREAMABLE_HTTP_L0_REFUSE
      "\<lparr>ms_server_id = lit ''srv'', ms_trust_level = L0_REFUSE_REMOTE\<rparr>" MANAGED_CLOUD]
  by (simp add: rejects_at_registration_def floor_defs)

end
