(* ===== verification/Deployment_Matrix.thy ===== *)
theory Deployment_Matrix
  imports Sandbox_Tiers
begin

text \<open>
  \<open>harness-as\<close>: the provider classes a sandbox tier is realised by
  (\<open>sandbox_provider_class.py\<close>), the 12-cell matrix of deployment surface and blast radius
  (\<open>deployment_matrix.py\<close>), the operator-policy override scope of a cell
  (\<open>operator_policy_override_scope.py\<close>) and the governance of tier changes across persona tiers
  (\<open>cross_deployment_monotonicity.py\<close>).
\<close>

section \<open>Provider classes\<close>

datatype sandbox_provider_class =
    LANGUAGE_LEVEL | FILESYSTEM_OVERLAY_WORKTREE | PROCESS_ULIMIT_BUBBLEWRAP_SEATBELT
  | CONTAINER | MICROVM_FIRECRACKER | FULL_VM

datatype class_cardinality = OPEN_CARDINALITY

record provider_class_meta =
  pcm_provider_class :: sandbox_provider_class
  pcm_mechanism_description :: string
  pcm_tier_mapping :: "sandbox_tier list"
  pcm_cardinality :: class_cardinality

definition open_class :: "sandbox_provider_class \<Rightarrow> string \<Rightarrow> sandbox_tier list \<Rightarrow> provider_class_meta" where
  "open_class c d ts = \<lparr>pcm_provider_class = c, pcm_mechanism_description = d, pcm_tier_mapping = ts,
     pcm_cardinality = OPEN_CARDINALITY\<rparr>"

fun provider_class_metadata :: "sandbox_provider_class \<Rightarrow> provider_class_meta" where
  "provider_class_metadata LANGUAGE_LEVEL =
     open_class LANGUAGE_LEVEL ''In-process language sandbox (Pyodide / Starlark / ulimit)''
       [TIER_1_PROCESS, TIER_2_CONTAINER]"
| "provider_class_metadata FILESYSTEM_OVERLAY_WORKTREE =
     open_class FILESYSTEM_OVERLAY_WORKTREE
       (''Git-worktree isolation (kilocode pattern); '' @
        ''fuse-overlay / fuse-projfs (oh-my-pi pattern)'') [TIER_2_CONTAINER]"
| "provider_class_metadata PROCESS_ULIMIT_BUBBLEWRAP_SEATBELT =
     open_class PROCESS_ULIMIT_BUBBLEWRAP_SEATBELT
       ''OS-level process isolation with seccomp / namespacing / sandbox-exec'' [TIER_2_CONTAINER]"
| "provider_class_metadata CONTAINER =
     open_class CONTAINER
       (''Shared-kernel container (Docker / Podman) OR user-space kernel '' @
        ''(gVisor) OR microVM-backed container (Kata)'') [TIER_3_MICROVM]"
| "provider_class_metadata MICROVM_FIRECRACKER =
     open_class MICROVM_FIRECRACKER ''Hardware-virt microVM with KVM'' [TIER_4_FULL_VM]"
| "provider_class_metadata FULL_VM =
     open_class FULL_VM ''Hardware-virt full VM; ephemeral; network-egress-restricted'' [TIER_4_FULL_VM]"

declare open_class_def [data_simps] provider_class_metadata.simps [data_simps]

section \<open>The 12-cell matrix\<close>

record deployment_matrix_cell =
  dmc_sandbox_tier :: sandbox_tier
  dmc_provider_class :: sandbox_provider_class
  dmc_candidate_witnesses :: "string list"

definition cell :: "sandbox_tier \<Rightarrow> sandbox_provider_class \<Rightarrow> string list \<Rightarrow> deployment_matrix_cell" where
  "cell t p ws = \<lparr>dmc_sandbox_tier = t, dmc_provider_class = p, dmc_candidate_witnesses = ws\<rparr>"

fun DEPLOYMENT_MATRIX :: "deployment_surface \<Rightarrow> blast_radius_tier \<Rightarrow> deployment_matrix_cell" where
  "DEPLOYMENT_MATRIX LOCAL_DEVELOPMENT READ_ONLY =
     cell TIER_1_PROCESS LANGUAGE_LEVEL [''in-process'', ''deer-flow LocalSandboxProvider'']"
| "DEPLOYMENT_MATRIX LOCAL_DEVELOPMENT LOCAL_MUTATION =
     cell TIER_2_CONTAINER PROCESS_ULIMIT_BUBBLEWRAP_SEATBELT
       [''Seatbelt (macOS)'', ''bubblewrap+socat (Linux/WSL)'', ''kilocode-style worktree'']"
| "DEPLOYMENT_MATRIX LOCAL_DEVELOPMENT EXTERNAL_REVERSIBLE =
     cell TIER_3_MICROVM CONTAINER
       [''Docker-on-OCI'', ''gVisor'', ''OpenHands Docker reference'', ''dify-sandbox'']"
| "DEPLOYMENT_MATRIX LOCAL_DEVELOPMENT EXTERNAL_IRREVERSIBLE =
     cell TIER_4_FULL_VM MICROVM_FIRECRACKER
       [''Firecracker (E2B class)'', ''E2B self-host'', ''full VM for computer-use cells'']"
| "DEPLOYMENT_MATRIX SELF_HOSTED_SERVER READ_ONLY =
     cell TIER_1_PROCESS LANGUAGE_LEVEL [''in-process'', ''deer-flow LocalSandboxProvider'']"
| "DEPLOYMENT_MATRIX SELF_HOSTED_SERVER LOCAL_MUTATION =
     cell TIER_2_CONTAINER PROCESS_ULIMIT_BUBBLEWRAP_SEATBELT
       [''bubblewrap+socat (Linux)'', ''container upgrade acceptable'']"
| "DEPLOYMENT_MATRIX SELF_HOSTED_SERVER EXTERNAL_REVERSIBLE =
     cell TIER_3_MICROVM CONTAINER
       [''Docker-on-OCI default'', ''Kata Containers'', ''gVisor'', ''K8s-resident'']"
| "DEPLOYMENT_MATRIX SELF_HOSTED_SERVER EXTERNAL_IRREVERSIBLE =
     cell TIER_4_FULL_VM MICROVM_FIRECRACKER
       [''Firecracker (E2B self-host)'', ''Modal gVisor'', ''Kata as microVM-backed'']"
| "DEPLOYMENT_MATRIX MANAGED_CLOUD READ_ONLY =
     cell TIER_1_PROCESS LANGUAGE_LEVEL
       [''vendor-managed runtime'', ''Lambda / Cloud Run / Cloud Functions class'']"
| "DEPLOYMENT_MATRIX MANAGED_CLOUD LOCAL_MUTATION =
     cell TIER_2_CONTAINER PROCESS_ULIMIT_BUBBLEWRAP_SEATBELT
       [''Bedrock AgentCore Runtime sandbox primitive'', ''Vertex Agent Engine'',
        ''Cloudflare Workers Durable Objects'']"
| "DEPLOYMENT_MATRIX MANAGED_CLOUD EXTERNAL_REVERSIBLE =
     cell TIER_3_MICROVM CONTAINER
       [''Bedrock AgentCore Runtime (vendor-managed sandbox)'', ''Vertex Agent Engine'']"
| "DEPLOYMENT_MATRIX MANAGED_CLOUD EXTERNAL_IRREVERSIBLE =
     cell TIER_4_FULL_VM FULL_VM
       [''Bedrock AgentCore Runtime computer-use sandbox primitive'',
        ''Anthropic Computer Use VMs (vendor-managed full VM)'']"

declare cell_def [data_simps] DEPLOYMENT_MATRIX.simps [data_simps]

definition lookup_cell :: "deployment_surface \<Rightarrow> blast_radius_tier \<Rightarrow> deployment_matrix_cell" where
  "lookup_cell surface blast = DEPLOYMENT_MATRIX surface blast"

definition lookup_cell_with_forcing ::
  "deployment_surface \<Rightarrow> blast_radius_tier \<Rightarrow> tool_context \<Rightarrow> deployment_matrix_cell" where
  "lookup_cell_with_forcing surface blast ctx =
     (if forced_tier ctx \<noteq> None then DEPLOYMENT_MATRIX surface EXTERNAL_IRREVERSIBLE
      else DEPLOYMENT_MATRIX surface blast)"

lemma matrix_tier: "dmc_sandbox_tier (DEPLOYMENT_MATRIX surface blast) = blast_radius_floor blast"
  by (cases surface; cases blast) (simp_all add: cell_def)

lemma matrix_provider_realises_tier:
  "dmc_sandbox_tier (DEPLOYMENT_MATRIX surface blast)
   \<in> set (pcm_tier_mapping (provider_class_metadata (dmc_provider_class (DEPLOYMENT_MATRIX surface blast))))"
  by (cases surface; cases blast) (simp_all add: cell_def open_class_def)

lemma matrix_witnesses_nonempty: "dmc_candidate_witnesses (DEPLOYMENT_MATRIX surface blast) \<noteq> []"
  by (cases surface; cases blast) (simp_all add: cell_def)

section \<open>Override scope of a cell\<close>

datatype override_scope_result =
    PERMITTED_APPEND_ONLY | PERMITTED_HASH_CHAINED | PROHIBITED_STRUCTURAL | PROHIBITED_BLAST_RADIUS_TIER

definition override_scope ::
  "persona_tier \<Rightarrow> deployment_surface \<times> blast_radius_tier \<Rightarrow> override_scope_result" where
  "override_scope persona proposed_cell =
     (case persona of
        SOLO_DEVELOPER \<Rightarrow> PERMITTED_APPEND_ONLY
      | TEAM_BINDING \<Rightarrow>
          (if snd proposed_cell = EXTERNAL_IRREVERSIBLE then PROHIBITED_BLAST_RADIUS_TIER
           else PERMITTED_HASH_CHAINED)
      | MULTI_TENANT_COMPLIANCE \<Rightarrow> PROHIBITED_STRUCTURAL)"

definition override_permitted :: "override_scope_result \<Rightarrow> bool" where
  "override_permitted r \<longleftrightarrow> r = PERMITTED_APPEND_ONLY \<or> r = PERMITTED_HASH_CHAINED"

lemma override_scope_antitone:
  assumes "persona_rank p \<le> persona_rank q" and "override_permitted (override_scope q c)"
  shows "override_permitted (override_scope p c)"
  using assms by (cases p; cases q) (auto simp: override_scope_def override_permitted_def split: if_splits)

section \<open>Tier changes across persona tiers\<close>

record tier_raise_result =
  trr_old_floor :: sandbox_tier
  trr_new_floor :: sandbox_tier
  trr_raised_immediately :: bool
  trr_affected_workflows :: int

datatype governance_violation_kind = TIER_DOWNGRADE_REQUIRES_CLASS_2_REVISION

record governance_violation =
  gv_kind :: governance_violation_kind
  gv_cell :: "deployment_surface \<times> blast_radius_tier"
  gv_from_tier :: sandbox_tier
  gv_to_tier :: sandbox_tier

definition persona_tier_traversal_ascends :: "persona_tier \<Rightarrow> persona_tier \<Rightarrow> bool" where
  "persona_tier_traversal_ascends from to = (persona_rank from < persona_rank to)"

text \<open>\<open>PersonaTierFloor\<close> is a protocol the caller supplies: a parameter.\<close>

definition bridging_arc_effective_tier_raise ::
  "persona_tier \<Rightarrow> persona_tier \<Rightarrow> deployment_surface \<times> blast_radius_tier \<Rightarrow> int
   \<Rightarrow> (persona_tier \<Rightarrow> deployment_surface \<times> blast_radius_tier \<Rightarrow> sandbox_tier) \<Rightarrow> tier_raise_result" where
  "bridging_arc_effective_tier_raise from to c in_flight floor =
     (let old_floor = floor from c;
          to_floor = floor to c;
          raises = persona_tier_traversal_ascends from to \<and> tier_rank old_floor < tier_rank to_floor
      in \<lparr>trr_old_floor = old_floor, trr_new_floor = (if raises then to_floor else old_floor),
          trr_raised_immediately = raises, trr_affected_workflows = (if raises then in_flight else 0)\<rparr>)"

definition detect_tier_downgrade_governance_violation ::
  "deployment_surface \<times> blast_radius_tier \<times> sandbox_tier \<times> sandbox_tier \<Rightarrow> governance_violation option" where
  "detect_tier_downgrade_governance_violation change =
     (case change of (surface, blast, tier_old, tier_new) \<Rightarrow>
        if tier_rank tier_old \<le> tier_rank tier_new then None
        else Some \<lparr>gv_kind = TIER_DOWNGRADE_REQUIRES_CLASS_2_REVISION, gv_cell = (surface, blast),
                   gv_from_tier = tier_old, gv_to_tier = tier_new\<rparr>)"

lemma bridging_arc_never_lowers:
  "trr_old_floor (bridging_arc_effective_tier_raise p q c n f)
   \<le> trr_new_floor (bridging_arc_effective_tier_raise p q c n f)"
  by (simp add: bridging_arc_effective_tier_raise_def Let_def less_eq_sandbox_tier_def)

text \<open>A change a bridging arc makes never trips the downgrade detector.\<close>

lemma bridging_arc_no_violation:
  "detect_tier_downgrade_governance_violation
     (surface, blast, trr_old_floor (bridging_arc_effective_tier_raise p q c n f),
      trr_new_floor (bridging_arc_effective_tier_raise p q c n f)) = None"
  using bridging_arc_never_lowers [of p q c n f]
  by (simp add: detect_tier_downgrade_governance_violation_def less_eq_sandbox_tier_def)

section \<open>Properties\<close>

text \<open>The deployment matrix agrees with the blast-radius floor on every surface: a cell
  names the tier the floor requires, a provider class that can realise that tier and at least one
  candidate implementation, and a forced tool lands in a full-VM cell whatever its blast radius.\<close>

theorem deployment_matrix_sound:
  "dmc_sandbox_tier (lookup_cell surface blast) = blast_radius_floor blast \<and>
   dmc_sandbox_tier (lookup_cell surface blast)
     \<in> set (pcm_tier_mapping (provider_class_metadata (dmc_provider_class (lookup_cell surface blast)))) \<and>
   dmc_candidate_witnesses (lookup_cell surface blast) \<noteq> [] \<and>
   dmc_sandbox_tier (lookup_cell_with_forcing surface blast ctx) =
     (case forced_tier ctx of Some r \<Rightarrow> ftr_tier r | None \<Rightarrow> blast_radius_floor blast)"
  using matrix_provider_realises_tier [of surface blast]
  by (auto simp: lookup_cell_def lookup_cell_with_forcing_def matrix_tier matrix_witnesses_nonempty
      forced_tier_full_vm split: option.split)

text \<open>A workflow that is promoted along a bridging arc never loses isolation, whatever
  floor table the caller supplies: the tier in force afterwards is the maximum of the two floors
  when the persona ascends and the old floor otherwise, in-flight workflows are counted exactly
  when the tier rises, and the change never trips the downgrade detector.\<close>

theorem bridging_arc_sound:
  "(let r = bridging_arc_effective_tier_raise p q c n f in
    trr_new_floor r = (if persona_rank p < persona_rank q then max (f p c) (f q c) else f p c) \<and>
    trr_affected_workflows r = (if trr_old_floor r < trr_new_floor r then n else 0) \<and>
    detect_tier_downgrade_governance_violation (fst c, snd c, trr_old_floor r, trr_new_floor r) = None)"
  using bridging_arc_no_violation [of "fst c" "snd c" p q c n f]
  by (auto simp: Let_def bridging_arc_effective_tier_raise_def persona_tier_traversal_ascends_def
      max_def less_eq_sandbox_tier_def less_sandbox_tier_def intro: tier.rank_inj)

end
