(* ===== verification/Sandbox_Composition.thy ===== *)
theory Sandbox_Composition
  imports Deployment_Matrix
begin

text \<open>
  \<open>harness-as\<close>: the tool contract and its registration check (\<open>tool_contract.py\<close>), the secret
  allowlist (\<open>secret_allowlist.py\<close>, \<open>secret_fetch.py\<close>), the five-floor composition that assigns
  a call site its sandbox tier (\<open>sandbox_tier_composition.py\<close>) and the tier of a sub-agent
  dispatch (\<open>sub_agent_sandbox_tier.py\<close>). The floors that the code takes through the protocol
  \<open>FloorInterfaces\<close> are parameters. A JSON schema is carried as an opaque value of type \<open>'j\<close>.
\<close>

section \<open>The tool contract\<close>

record secret_scope =
  ss_name :: pystr

record secret_allowlist_entry =
  sae_name :: pystr
  sae_scope :: secret_scope

record 'j tool_contract =
  tct_name :: pystr
  tct_description :: pystr
  tct_input_schema :: 'j
  tct_output_schema :: 'j
  tct_minimum_tier :: sandbox_tier
  tct_blast_radius_tier :: blast_radius_tier
  tct_required_secrets :: "secret_allowlist_entry list"
  tct_forces_computer_use :: bool
  tct_forces_code_execution :: bool
  tct_is_deterministic_inhouse :: bool
  tct_idempotent :: bool

record 'j raw_contract_input =
  rci_name :: pystr
  rci_description :: pystr
  rci_input_schema :: 'j
  rci_output_schema :: 'j
  rci_minimum_tier :: "sandbox_tier option"
  rci_blast_radius_tier :: "blast_radius_tier option"
  rci_required_secrets :: "secret_allowlist_entry list option"
  rci_forces_computer_use :: bool
  rci_forces_code_execution :: bool
  rci_is_deterministic_inhouse :: bool
  rci_idempotent :: bool

datatype contract_validation_outcome = CV_VALID | MISSING_MINIMUM_TIER | MISSING_BLAST_RADIUS_TIER

record 'j contract_validation_result =
  cvr_outcome :: contract_validation_outcome
  cvr_contract :: "'j tool_contract option"

definition RECOMMENDED_CONTRACT_DEFAULT_TIER :: sandbox_tier where
  "RECOMMENDED_CONTRACT_DEFAULT_TIER = TIER_4_FULL_VM"

definition validate_tool_contract_at_registration ::
  "'j raw_contract_input \<Rightarrow> 'j contract_validation_result" where
  "validate_tool_contract_at_registration raw =
     (case rci_minimum_tier raw of
        None \<Rightarrow> \<lparr>cvr_outcome = MISSING_MINIMUM_TIER, cvr_contract = None\<rparr>
      | Some min_tier \<Rightarrow>
          (case rci_blast_radius_tier raw of
             None \<Rightarrow> \<lparr>cvr_outcome = MISSING_BLAST_RADIUS_TIER, cvr_contract = None\<rparr>
           | Some blast \<Rightarrow>
               \<lparr>cvr_outcome = CV_VALID,
                cvr_contract = Some
                  \<lparr>tct_name = rci_name raw, tct_description = rci_description raw,
                   tct_input_schema = rci_input_schema raw, tct_output_schema = rci_output_schema raw,
                   tct_minimum_tier = min_tier, tct_blast_radius_tier = blast,
                   tct_required_secrets = (case rci_required_secrets raw of None \<Rightarrow> [] | Some ss \<Rightarrow> ss),
                   tct_forces_computer_use = rci_forces_computer_use raw,
                   tct_forces_code_execution = rci_forces_code_execution raw,
                   tct_is_deterministic_inhouse = rci_is_deterministic_inhouse raw,
                   tct_idempotent = rci_idempotent raw\<rparr>\<rparr>))"

lemma validate_contract_iff:
  "cvr_outcome (validate_tool_contract_at_registration raw) = CV_VALID \<longleftrightarrow>
   cvr_contract (validate_tool_contract_at_registration raw) \<noteq> None"
  by (simp add: validate_tool_contract_at_registration_def split: option.splits)

section \<open>Secrets\<close>

datatype allowlist_decision =
    PERMITTED | DENIED_NOT_IN_TOOL_ALLOWLIST | DENIED_NOT_IN_OPERATOR_POLICY_OVERRIDE

definition check_secret_allowlist ::
  "'j tool_contract \<Rightarrow> pystr \<Rightarrow> secret_scope \<Rightarrow> secret_allowlist_entry list \<Rightarrow> allowlist_decision" where
  "check_secret_allowlist tool requested_name requested_scope override =
     (let requested = \<lparr>sae_name = requested_name, sae_scope = requested_scope\<rparr> in
      if requested \<notin> set (tct_required_secrets tool) then DENIED_NOT_IN_TOOL_ALLOWLIST
      else if requested \<notin> set override then DENIED_NOT_IN_OPERATOR_POLICY_OVERRIDE
      else PERMITTED)"

record secret_ref =
  sr_name :: pystr
  sr_scope :: secret_scope
  sr_tier :: sandbox_tier

datatype secret_resolution_mechanism =
    ENV_VAR_AT_SANDBOX_STARTUP | CONTAINER_ENV_VAR_WITH_KEYRING_HANDLES
  | IN_SANDBOX_HTTP_BOOTSTRAP_TOKEN | IN_SANDBOX_HTTP_WITH_ROTATION_REFRESH

datatype t_perm_2_pole = C2_WITHIN_TURN_SNAPSHOT | C3_ACROSS_TURN_FRESH_FETCH

fun tier_resolution_mechanism :: "sandbox_tier \<Rightarrow> secret_resolution_mechanism \<times> t_perm_2_pole" where
  "tier_resolution_mechanism TIER_1_PROCESS = (ENV_VAR_AT_SANDBOX_STARTUP, C2_WITHIN_TURN_SNAPSHOT)"
| "tier_resolution_mechanism TIER_2_CONTAINER =
     (CONTAINER_ENV_VAR_WITH_KEYRING_HANDLES, C2_WITHIN_TURN_SNAPSHOT)"
| "tier_resolution_mechanism TIER_3_MICROVM = (IN_SANDBOX_HTTP_BOOTSTRAP_TOKEN, C3_ACROSS_TURN_FRESH_FETCH)"
| "tier_resolution_mechanism TIER_4_FULL_VM =
     (IN_SANDBOX_HTTP_WITH_ROTATION_REFRESH, C3_ACROSS_TURN_FRESH_FETCH)"

definition fetch_secret :: "pystr \<Rightarrow> secret_scope \<Rightarrow> sandbox_tier \<Rightarrow> secret_ref" where
  "fetch_secret name scope t = \<lparr>sr_name = name, sr_scope = scope, sr_tier = t\<rparr>"

lemma check_secret_allowlist_permitted_iff:
  "check_secret_allowlist tool n s override = PERMITTED \<longleftrightarrow>
   \<lparr>sae_name = n, sae_scope = s\<rparr> \<in> set (tct_required_secrets tool) \<inter> set override"
  by (simp add: check_secret_allowlist_def Let_def)

section \<open>Five-floor composition\<close>

datatype taint_state = UNTAINTED | TAINTED

record call_site_context =
  csc_taint_state :: taint_state
  csc_mcp_server :: "mcp_server option"
  csc_deployment_surface :: deployment_surface
  csc_blast_radius_tier :: blast_radius_tier
  csc_mcp_transport :: "mcp_transport option"
  csc_persona_tier :: persona_tier
  csc_computer_use_bound :: bool
  csc_code_execution_beta_invoked :: bool

record floor_interfaces =
  mcp_server_trust_tier_floor :: "mcp_server option \<Rightarrow> sandbox_tier"
  operator_policy_floor :: "persona_tier \<Rightarrow> sandbox_tier"

datatype assigned_tier_reason =
    CONTRACT_MINIMUM | BLAST_RADIUS_FLOOR | MCP_SERVER_TRUST_FLOOR | OPERATOR_POLICY_FLOOR
  | SANDBOX_TIER_FLOOR | PERSONA_TIER_FLOOR | SUB_AGENT_MONOTONIC_ASCENSION

datatype sandbox_tier_composition_outcome = STC_RESOLVED | STC_REFUSE

record sandbox_tier_composition_result =
  stc_outcome :: sandbox_tier_composition_outcome
  stc_tier :: "sandbox_tier option"
  stc_assigned_tier_reason :: "assigned_tier_reason option"
  stc_forced_tier_cause :: "forced_tier_cause option"

definition FLOOR_PRECEDENCE :: "assigned_tier_reason list" where
  "FLOOR_PRECEDENCE = [SANDBOX_TIER_FLOOR, OPERATOR_POLICY_FLOOR, MCP_SERVER_TRUST_FLOOR,
     BLAST_RADIUS_FLOOR, CONTRACT_MINIMUM]"

text \<open>The dictionary \<open>floor_tiers\<close>: only the five reasons of the precedence list are keys.\<close>

fun floor_tiers ::
  "sandbox_tier \<Rightarrow> blast_radius_tier \<Rightarrow> sandbox_tier \<Rightarrow> sandbox_tier \<Rightarrow> sandbox_tier
   \<Rightarrow> assigned_tier_reason \<Rightarrow> sandbox_tier option" where
  "floor_tiers minimum blast trust stf operator CONTRACT_MINIMUM = Some minimum"
| "floor_tiers minimum blast trust stf operator BLAST_RADIUS_FLOOR = Some (blast_radius_floor blast)"
| "floor_tiers minimum blast trust stf operator MCP_SERVER_TRUST_FLOOR = Some trust"
| "floor_tiers minimum blast trust stf operator SANDBOX_TIER_FLOOR = Some stf"
| "floor_tiers minimum blast trust stf operator OPERATOR_POLICY_FLOOR = Some operator"
| "floor_tiers minimum blast trust stf operator _ = None"

text \<open>\<open>sandbox_tier\<close>: \<open>assert stf.tier is not None\<close> is the \<open>None\<close> branch of the inner case, and
  \<open>next (..)\<close> without a match is the outer one; both are unreachable
  (\<open>assigned_tier_floor_tiers\<close> below).\<close>

definition assigned_tier ::
  "(assigned_tier_reason \<Rightarrow> sandbox_tier option) \<Rightarrow> sandbox_tier_composition_result option" where
  "assigned_tier tiers =
     (let ranks = map tier_rank (List.map_filter tiers FLOOR_PRECEDENCE);
          winning_rank = Max (set ranks)
      in case py_next (\<lambda>r. map_option tier_rank (tiers r) = Some winning_rank) FLOOR_PRECEDENCE of
           None \<Rightarrow> None
         | Some reason \<Rightarrow> Some
             \<lparr>stc_outcome = STC_RESOLVED, stc_tier = tiers reason,
              stc_assigned_tier_reason = Some reason, stc_forced_tier_cause = None\<rparr>)"

definition compose_sandbox_tier ::
  "'j tool_contract \<Rightarrow> tool_metadata \<Rightarrow> call_site_context \<Rightarrow> floor_interfaces
   \<Rightarrow> sandbox_tier_composition_result option" where
  "compose_sandbox_tier tool meta ctx floors =
     (case forced_tier \<lparr>tc_computer_use_bound = csc_computer_use_bound ctx,
                        tc_code_execution_beta_invoked = csc_code_execution_beta_invoked ctx\<rparr> of
        Some forced \<Rightarrow> Some
          \<lparr>stc_outcome = STC_RESOLVED, stc_tier = Some (ftr_tier forced),
           stc_assigned_tier_reason = None, stc_forced_tier_cause = Some (ftr_cause forced)\<rparr>
      | None \<Rightarrow>
          (let stf = sandbox_tier_floor meta (csc_deployment_surface ctx) (csc_blast_radius_tier ctx)
                       (csc_mcp_transport ctx) (csc_mcp_server ctx)
           in if stf_outcome stf = STF_REFUSE
              then Some \<lparr>stc_outcome = STC_REFUSE, stc_tier = None,
                         stc_assigned_tier_reason = None, stc_forced_tier_cause = None\<rparr>
              else case stf_tier stf of
                     None \<Rightarrow> None
                   | Some t \<Rightarrow>
                       assigned_tier (floor_tiers (tct_minimum_tier tool) (csc_blast_radius_tier ctx)
                         (mcp_server_trust_tier_floor floors (csc_mcp_server ctx)) t
                         (operator_policy_floor floors (csc_persona_tier ctx)))))"

text \<open>The five floors of a call site, in the precedence order of the code.\<close>

definition call_site_floors ::
  "'j tool_contract \<Rightarrow> call_site_context \<Rightarrow> floor_interfaces \<Rightarrow> sandbox_tier \<Rightarrow> sandbox_tier list" where
  "call_site_floors tool ctx floors stf =
     [stf, operator_policy_floor floors (csc_persona_tier ctx),
      mcp_server_trust_tier_floor floors (csc_mcp_server ctx),
      blast_radius_floor (csc_blast_radius_tier ctx), tct_minimum_tier tool]"

lemma assigned_tier_floor_tiers:
  assumes "r = assigned_tier (floor_tiers m b tr s op)"
  defines "fs \<equiv> [s, op, tr, blast_radius_floor b, m]"
  shows "\<exists>res. r = Some res \<and> stc_outcome res = STC_RESOLVED \<and> stc_forced_tier_cause res = None \<and>
           stc_tier res = Some (Max (set fs))"
proof -
  have ranks: "map tier_rank (List.map_filter (floor_tiers m b tr s op) FLOOR_PRECEDENCE) = map tier_rank fs"
    by (simp add: FLOOR_PRECEDENCE_def List.map_filter_def fs_def)
  have maxr: "Max (set (map tier_rank fs)) = tier_rank (Max (set fs))"
  proof -
    have "mono tier_rank" by (auto simp: mono_def less_eq_sandbox_tier_def)
    then have "tier_rank (Max (set fs)) = Max (tier_rank ` set fs)"
      by (rule mono_Max_commute) (auto simp: fs_def)
    then show ?thesis by simp
  qed
  have "\<exists>q \<in> set FLOOR_PRECEDENCE. map_option tier_rank (floor_tiers m b tr s op q) = Some (tier_rank (Max (set fs)))"
  proof -
    have "Max (set fs) \<in> set fs" by (rule Max_in) (auto simp: fs_def)
    then show ?thesis by (auto simp: fs_def FLOOR_PRECEDENCE_def)
  qed
  then obtain q where q: "py_next (\<lambda>r. map_option tier_rank (floor_tiers m b tr s op r)
      = Some (tier_rank (Max (set fs)))) FLOOR_PRECEDENCE = Some q"
    using py_next_exists by (metis (mono_tags, lifting))
  then have "map_option tier_rank (floor_tiers m b tr s op q) = Some (tier_rank (Max (set fs)))"
    using py_next_Some by (metis (mono_tags, lifting))
  then have "floor_tiers m b tr s op q = Some (Max (set fs))"
    by (cases "floor_tiers m b tr s op q") (auto intro: tier.rank_inj)
  with q show ?thesis
    unfolding assms(1) assigned_tier_def Let_def ranks maxr by simp
qed

text \<open>The reason named is the first of the precedence list whose floor is the winning tier.\<close>

lemma assigned_tier_reason_first:
  assumes "assigned_tier tiers = Some res" and "stc_assigned_tier_reason res = Some reason"
  shows "stc_tier res = tiers reason \<and>
    (\<exists>pre post. FLOOR_PRECEDENCE = pre @ reason # post \<and> (\<forall>q \<in> set pre. tiers q \<noteq> tiers reason))"
proof -
  let ?w = "Max (set (map tier_rank (List.map_filter tiers FLOOR_PRECEDENCE)))"
  let ?P = "\<lambda>r. map_option tier_rank (tiers r) = Some ?w"
  from assms have next_r: "py_next ?P FLOOR_PRECEDENCE = Some reason" and res: "stc_tier res = tiers reason"
    by (auto simp: assigned_tier_def Let_def split: option.splits)
  from next_r obtain i where i: "i < length FLOOR_PRECEDENCE" "?P (FLOOR_PRECEDENCE ! i)"
    "reason = FLOOR_PRECEDENCE ! i" "\<forall>j<i. \<not> ?P (FLOOR_PRECEDENCE ! j)"
    by (auto simp: py_next_def find_Some_iff)
  have "FLOOR_PRECEDENCE = take i FLOOR_PRECEDENCE @ reason # drop (Suc i) FLOOR_PRECEDENCE"
    using i(1,3) by (simp add: id_take_nth_drop)
  moreover have "\<forall>q \<in> set (take i FLOOR_PRECEDENCE). tiers q \<noteq> tiers reason"
    using i by (auto simp: in_set_conv_nth)
  ultimately show ?thesis using res by blast
qed

lemma sandbox_tier_forced:
  assumes "csc_computer_use_bound ctx \<or> csc_code_execution_beta_invoked ctx"
  shows "\<exists>res. compose_sandbox_tier tool meta ctx floors = Some res \<and> stc_tier res = Some TIER_4_FULL_VM"
  using assms by (auto simp: compose_sandbox_tier_def forced_tier_def)

lemma sandbox_tier_unforced:
  assumes "\<not> csc_computer_use_bound ctx" and "\<not> csc_code_execution_beta_invoked ctx"
  shows "compose_sandbox_tier tool meta ctx floors =
    (case stf_tier (sandbox_tier_floor meta (csc_deployment_surface ctx) (csc_blast_radius_tier ctx)
        (csc_mcp_transport ctx) (csc_mcp_server ctx)) of
       None \<Rightarrow> Some \<lparr>stc_outcome = STC_REFUSE, stc_tier = None,
                     stc_assigned_tier_reason = None, stc_forced_tier_cause = None\<rparr>
     | Some t \<Rightarrow> assigned_tier (floor_tiers (tct_minimum_tier tool) (csc_blast_radius_tier ctx)
         (mcp_server_trust_tier_floor floors (csc_mcp_server ctx)) t
         (operator_policy_floor floors (csc_persona_tier ctx))))"
  using sandbox_tier_floor_shape [of meta "csc_deployment_surface ctx" "csc_blast_radius_tier ctx"
      "csc_mcp_transport ctx" "csc_mcp_server ctx"] assms
  by (auto simp: compose_sandbox_tier_def forced_tier_def)

section \<open>Sub-agent dispatch\<close>

datatype sub_agent_boundary_violation_kind = TIER_DOWNGRADE_ATTEMPTED | REGISTRY_OVERRIDE_WITH_TIER_DOWNGRADE

record sub_agent_boundary_violation =
  sabv_kind :: sub_agent_boundary_violation_kind
  sabv_parent :: sandbox_tier
  sabv_attempted_child :: sandbox_tier

datatype sub_agent_error = RefusedToolReachedDispatch

definition sub_agent_sandbox_tier ::
  "sandbox_tier \<Rightarrow> tool_metadata \<Rightarrow> blast_radius_tier \<Rightarrow> mcp_transport option \<Rightarrow> deployment_surface
   \<Rightarrow> mcp_server option \<Rightarrow> sub_agent_error + sandbox_tier" where
  "sub_agent_sandbox_tier parent tool blast transport surface server =
     (case stf_tier (sandbox_tier_floor tool surface blast transport server) of
        None \<Rightarrow> Inl RefusedToolReachedDispatch
      | Some t \<Rightarrow> if tier_rank t \<le> tier_rank parent then Inr parent else Inr t)"

definition detect_sub_agent_tier_downgrade ::
  "sandbox_tier \<Rightarrow> sandbox_tier \<Rightarrow> bool \<Rightarrow> sub_agent_boundary_violation option" where
  "detect_sub_agent_tier_downgrade parent proposed_child registry_override_active =
     (if tier_rank parent \<le> tier_rank proposed_child then None
      else Some \<lparr>sabv_kind = (if registry_override_active then REGISTRY_OVERRIDE_WITH_TIER_DOWNGRADE
                              else TIER_DOWNGRADE_ATTEMPTED),
                 sabv_parent = parent, sabv_attempted_child = proposed_child\<rparr>)"

lemma sub_agent_sandbox_tier_max:
  "sub_agent_sandbox_tier parent tool blast transport surface server =
   (case stf_tier (sandbox_tier_floor tool surface blast transport server) of
      None \<Rightarrow> Inl RefusedToolReachedDispatch | Some f \<Rightarrow> Inr (max parent f))"
proof -
  have "(if tier_rank f \<le> tier_rank parent then parent else f) = max parent f" for f
    using tier_max_eq_max [of parent f] by (simp add: tier_max_def)
  then show ?thesis by (simp add: sub_agent_sandbox_tier_def split: option.splits) (metis (full_types))
qed

lemma sub_agent_sandbox_tier_ge:
  "sub_agent_sandbox_tier parent tool blast transport surface server = Inr t \<Longrightarrow> parent \<le> t"
  by (auto simp: sub_agent_sandbox_tier_max split: option.splits)

text \<open>A delegation chain: each dispatch runs in the tier the previous one resolved.\<close>

record dispatch_site =
  ds_tool :: tool_metadata
  ds_blast :: blast_radius_tier
  ds_transport :: "mcp_transport option"
  ds_surface :: deployment_surface
  ds_server :: "mcp_server option"

fun delegation_chain :: "sandbox_tier \<Rightarrow> dispatch_site list \<Rightarrow> sub_agent_error + sandbox_tier list" where
  "delegation_chain parent [] = Inr []"
| "delegation_chain parent (d # ds) =
     raise_bind (sub_agent_sandbox_tier parent (ds_tool d) (ds_blast d) (ds_transport d) (ds_surface d) (ds_server d))
       (\<lambda>t. raise_bind (delegation_chain t ds) (\<lambda>ts. Inr (t # ts)))"

lemma delegation_chain_sorted: "delegation_chain parent ds = Inr ts \<Longrightarrow> sorted (parent # ts)"
proof (induction ds arbitrary: parent ts)
  case Nil
  then show ?case by simp
next
  case (Cons d ds)
  from Cons.prems obtain t us where t: "sub_agent_sandbox_tier parent (ds_tool d) (ds_blast d)
      (ds_transport d) (ds_surface d) (ds_server d) = Inr t"
    and us: "delegation_chain t ds = Inr us" and ts: "ts = t # us"
    by (auto simp: raise_bind_Inr_iff)
  from Cons.IH [OF us] have "sorted (t # us)" .
  moreover from t have "parent \<le> t" by (rule sub_agent_sandbox_tier_ge)
  ultimately show ?case by (auto simp: ts)
qed

text \<open>The tier a chain of dispatches reaches, as one maximum; \<open>None\<close> when a call site refuses.\<close>

fun delegated_tier :: "sandbox_tier \<Rightarrow> dispatch_site list \<Rightarrow> sandbox_tier option" where
  "delegated_tier parent [] = Some parent"
| "delegated_tier parent (d # ds) =
     (case stf_tier (sandbox_tier_floor (ds_tool d) (ds_surface d) (ds_blast d) (ds_transport d) (ds_server d)) of
        None \<Rightarrow> None
      | Some f \<Rightarrow> map_option (max f) (delegated_tier parent ds))"

lemma delegated_tier_start:
  "delegated_tier (max parent f) ds = map_option (max f) (delegated_tier parent ds)"
  by (induction ds) (auto split: option.split simp: option.map_comp comp_def max.left_commute max.commute)

lemma delegation_chain_tiers:
  "delegation_chain parent ds = Inr ts \<Longrightarrow>
   map Some ts = map (\<lambda>k. delegated_tier parent (take (Suc k) ds)) [0..<length ds]"
proof (induction ds arbitrary: parent ts)
  case Nil
  then show ?case by simp
next
  case (Cons d ds)
  from Cons.prems obtain t us where t: "sub_agent_sandbox_tier parent (ds_tool d) (ds_blast d)
      (ds_transport d) (ds_surface d) (ds_server d) = Inr t"
    and us: "delegation_chain t ds = Inr us" and ts: "ts = t # us"
    by (auto simp: raise_bind_Inr_iff)
  from t obtain f where f: "stf_tier (sandbox_tier_floor (ds_tool d) (ds_surface d) (ds_blast d)
      (ds_transport d) (ds_server d)) = Some f" and tf: "t = max parent f"
    by (auto simp: sub_agent_sandbox_tier_max split: option.splits)
  have step: "delegated_tier parent (d # xs) = delegated_tier t xs" for xs
    by (simp add: f tf delegated_tier_start)
  have "[0..<length (d # ds)] = 0 # map Suc [0..<length ds]"
    by (simp add: upt_conv_Cons map_Suc_upt del: upt_Suc)
  then show ?case
    using Cons.IH [OF us] by (simp add: ts step comp_def del: delegated_tier.simps(2) upt_Suc)
qed

lemma call_site_assigned:
  "\<exists>res. assigned_tier (floor_tiers m b tr s op) = Some res \<and> stc_outcome res = STC_RESOLVED \<and>
     stc_tier res = Some (Max (set [s, op, tr, blast_radius_floor b, m])) \<and>
     (\<exists>k<5. stc_assigned_tier_reason res = Some (FLOOR_PRECEDENCE ! k) \<and>
        stc_tier res = Some ([s, op, tr, blast_radius_floor b, m] ! k) \<and>
        stc_tier res \<notin> Some ` set (take k [s, op, tr, blast_radius_floor b, m]))"
proof -
  let ?fs = "[s, op, tr, blast_radius_floor b, m]"
  have tiers: "map (floor_tiers m b tr s op) FLOOR_PRECEDENCE = map Some ?fs"
    by (simp add: FLOOR_PRECEDENCE_def)
  have five: "length FLOOR_PRECEDENCE = 5" by (simp add: FLOOR_PRECEDENCE_def)
  obtain res where res: "assigned_tier (floor_tiers m b tr s op) = Some res" "stc_outcome res = STC_RESOLVED"
    "stc_tier res = Some (Max (set ?fs))" using assigned_tier_floor_tiers by metis
  obtain reason where reason: "stc_assigned_tier_reason res = Some reason"
    using res(1) by (auto simp: assigned_tier_def Let_def split: option.splits)
  obtain pre post where split: "FLOOR_PRECEDENCE = pre @ reason # post"
    and first: "\<forall>q \<in> set pre. floor_tiers m b tr s op q \<noteq> floor_tiers m b tr s op reason"
    and tier: "stc_tier res = floor_tiers m b tr s op reason"
    using assigned_tier_reason_first [OF res(1) reason] by blast
  have k: "length pre < 5" "FLOOR_PRECEDENCE ! length pre = reason"
    by (simp_all add: split five [symmetric])
  have "map (floor_tiers m b tr s op) FLOOR_PRECEDENCE ! length pre = floor_tiers m b tr s op reason"
    using k five by simp
  moreover have "map Some ?fs ! length pre = Some (?fs ! length pre)"
    using k(1) by (intro nth_map) simp
  ultimately have nth: "stc_tier res = Some (?fs ! length pre)" using tiers tier by metis
  have "take (length pre) (map Some ?fs) = map (floor_tiers m b tr s op) pre"
    unfolding tiers [symmetric] split by simp
  then have img: "Some ` set (take (length pre) ?fs) = floor_tiers m b tr s op ` set pre"
    by (metis list.set_map take_map)
  have "stc_tier res \<notin> floor_tiers m b tr s op ` set pre" using first tier by auto
  then have "stc_tier res \<notin> Some ` set (take (length pre) ?fs)" unfolding img .
  then have "\<exists>k<5. stc_assigned_tier_reason res = Some (FLOOR_PRECEDENCE ! k) \<and>
      stc_tier res = Some (?fs ! k) \<and> stc_tier res \<notin> Some ` set (take k ?fs)"
    using k nth reason by (intro exI [of _ "length pre"] conjI) simp_all
  with res show ?thesis by (intro exI [of _ res] conjI)
qed

section \<open>Properties\<close>

text \<open>Property C17. The composed tier of a call site is never undefined. A forcing condition gives the
  full VM; otherwise a refused transport refuses the call; otherwise the tier is exactly the maximum
  of the five floors, and the reason reported is the first in the precedence order whose floor
  attains it.\<close>

theorem compose_sandbox_tier_spec:
  "\<exists>res. compose_sandbox_tier tool meta ctx floors = Some res \<and>
    (if csc_computer_use_bound ctx \<or> csc_code_execution_beta_invoked ctx
     then stc_outcome res = STC_RESOLVED \<and> stc_tier res = Some TIER_4_FULL_VM
     else case stf_tier (sandbox_tier_floor meta (csc_deployment_surface ctx) (csc_blast_radius_tier ctx)
            (csc_mcp_transport ctx) (csc_mcp_server ctx)) of
        None \<Rightarrow> stc_outcome res = STC_REFUSE \<and> stc_tier res = None
      | Some t \<Rightarrow> stc_outcome res = STC_RESOLVED \<and>
          stc_tier res = Some (Max (set (call_site_floors tool ctx floors t))) \<and>
          (\<exists>k<5. stc_assigned_tier_reason res = Some (FLOOR_PRECEDENCE ! k) \<and>
             stc_tier res = Some (call_site_floors tool ctx floors t ! k) \<and>
             stc_tier res \<notin> Some ` set (take k (call_site_floors tool ctx floors t))))"
proof -
  consider "csc_computer_use_bound ctx \<or> csc_code_execution_beta_invoked ctx"
    | "\<not> csc_computer_use_bound ctx" "\<not> csc_code_execution_beta_invoked ctx" by blast
  then show ?thesis
  proof cases
    case 1
    then show ?thesis by (auto simp: compose_sandbox_tier_def forced_tier_def)
  next
    case 2
    let ?stf = "stf_tier (sandbox_tier_floor meta (csc_deployment_surface ctx) (csc_blast_radius_tier ctx)
            (csc_mcp_transport ctx) (csc_mcp_server ctx))"
    show ?thesis
    proof (cases ?stf)
      case None
      with 2 show ?thesis by (simp add: sandbox_tier_unforced)
    next
      case (Some t)
      with 2 show ?thesis
        using call_site_assigned [of "tct_minimum_tier tool" "csc_blast_radius_tier ctx"
            "mcp_server_trust_tier_floor floors (csc_mcp_server ctx)" t
            "operator_policy_floor floors (csc_persona_tier ctx)"]
        by (simp add: sandbox_tier_unforced call_site_floors_def)
    qed
  qed
qed

text \<open>Property C18. In a chain of sub-agent dispatches every sub-agent runs at least at the isolation of
  its parent: the \<open>i\<close>-th dispatch runs in the maximum of the root tier and the floors of the first
  \<open>i + 1\<close> call sites, so tiers only rise along the chain.\<close>

theorem delegation_chain_monotone:
  assumes "delegation_chain parent ds = Inr ts"
  shows "sorted (parent # ts) \<and>
    map Some ts = map (\<lambda>k. delegated_tier parent (take (Suc k) ds)) [0..<length ds]"
  using assms delegation_chain_sorted delegation_chain_tiers by blast

lemma delegation_chain_monotone_witness:
  "\<exists>ts. delegation_chain TIER_1_PROCESS
     [\<lparr>ds_tool = \<lparr>tm_is_deterministic_inhouse = True, tm_forces_computer_use = False,
         tm_forces_code_execution = False\<rparr>, ds_blast = EXTERNAL_REVERSIBLE, ds_transport = None,
       ds_surface = LOCAL_DEVELOPMENT, ds_server = None\<rparr>,
      \<lparr>ds_tool = \<lparr>tm_is_deterministic_inhouse = True, tm_forces_computer_use = False,
         tm_forces_code_execution = False\<rparr>, ds_blast = READ_ONLY, ds_transport = None,
       ds_surface = LOCAL_DEVELOPMENT, ds_server = None\<rparr>] = Inr ts \<and> sorted (TIER_1_PROCESS # ts)"
proof -
  let ?t = "\<lparr>tm_is_deterministic_inhouse = True, tm_forces_computer_use = False,
      tm_forces_code_execution = False\<rparr>"
  have chain: "delegation_chain TIER_1_PROCESS
     [\<lparr>ds_tool = ?t, ds_blast = EXTERNAL_REVERSIBLE, ds_transport = None, ds_surface = LOCAL_DEVELOPMENT, ds_server = None\<rparr>,
      \<lparr>ds_tool = ?t, ds_blast = READ_ONLY, ds_transport = None, ds_surface = LOCAL_DEVELOPMENT, ds_server = None\<rparr>]
     = Inr [TIER_3_MICROVM, TIER_3_MICROVM]"
    by (simp add: sub_agent_sandbox_tier_def floor_defs)
  then show ?thesis using delegation_chain_monotone [OF chain] by blast
qed

end
