(* ===== verification/Gate_Levels.thy ===== *)
theory Gate_Levels
  imports Sandbox_Composition
begin

text \<open>
  The approval gate of an action. \<open>harness-as\<close> composes it from the sandbox floor and four
  injected floors (\<open>gate_level_composition.py\<close>); \<open>harness-cp\<close> composes it from four axis floors
  with two operator overrides (\<open>gate_level_rule.py\<close>), hands it to a sub-agent
  (\<open>sub_agent_gate_level_descent.py\<close>, \<open>default_downgrade_rule.py\<close>) and wraps it into the five-axis
  result to which operator-policy overrides and signing-key rotation apply
  (\<open>five_axis_composition.py\<close>). Both packages declare \<open>GateLevel\<close> with the same three members and
  convert by value, so one datatype serves both.
\<close>

section \<open>Gate levels\<close>

datatype gate_level = AUTO | ASK | DENY

fun gate_rank :: "gate_level \<Rightarrow> nat" where
  "gate_rank AUTO = 0"
| "gate_rank ASK = 1"
| "gate_rank DENY = 2"

declare gate_rank.simps [rank_simps]

interpretation gate: ranked gate_rank
proof unfold_locales
  fix a b :: gate_level
  show "gate_rank a = gate_rank b \<Longrightarrow> a = b" by (cases a; cases b) simp_all
qed

instantiation gate_level :: linorder
begin

definition less_eq_gate_level :: "gate_level \<Rightarrow> gate_level \<Rightarrow> bool" where
  "less_eq_gate_level a b \<longleftrightarrow> gate_rank a \<le> gate_rank b"

definition less_gate_level :: "gate_level \<Rightarrow> gate_level \<Rightarrow> bool" where
  "less_gate_level a b \<longleftrightarrow> gate_rank a < gate_rank b"

instance
  by standard (auto simp: less_eq_gate_level_def less_gate_level_def intro: gate.rank_inj)

end

fun gate_by_rank :: "nat \<Rightarrow> gate_level option" where
  "gate_by_rank 0 = Some AUTO"
| "gate_by_rank (Suc 0) = Some ASK"
| "gate_by_rank (Suc (Suc 0)) = Some DENY"
| "gate_by_rank _ = None"

lemma gate_by_rank_rank [simp]: "gate_by_rank (gate_rank g) = Some g"
  by (cases g) (simp_all add: numeral_2_eq_2)

text \<open>The gate Python's \<open>max (.., key=RANK)\<close> picks is the join of the list.\<close>

lemma py_max_by_gate_rank: "xs \<noteq> [] \<Longrightarrow> py_max_by gate_rank xs = Some (Max (set xs))"
proof -
  assume ne: "xs \<noteq> []"
  then obtain m where m: "py_max_by gate_rank xs = Some m" by (cases xs) (auto simp: py_max_by_def)
  have "m = Max (set xs)"
    by (rule gate.max_by_unique [OF m Max_in]) (use ne in \<open>auto simp flip: less_eq_gate_level_def\<close>)
  with m show ?thesis by simp
qed

section \<open>The AS gate\<close>

record 'j gate_level_floor_interfaces =
  glf_per_tool_gate_level :: "'j tool_contract \<Rightarrow> gate_level"
  glf_blast_radius_gate_floor :: "'j tool_contract \<Rightarrow> gate_level"
  glf_per_mcp_server_trust_floor :: "mcp_server option \<Rightarrow> gate_level"
  glf_persona_tier_floor :: "persona_tier \<Rightarrow> gate_level"

fun tier_to_gate_level_floor :: "sandbox_tier \<Rightarrow> gate_level" where
  "tier_to_gate_level_floor TIER_1_PROCESS = AUTO"
| "tier_to_gate_level_floor TIER_2_CONTAINER = AUTO"
| "tier_to_gate_level_floor TIER_3_MICROVM = ASK"
| "tier_to_gate_level_floor TIER_4_FULL_VM = DENY"

definition as_gate_level ::
  "'j tool_contract \<Rightarrow> tool_metadata \<Rightarrow> call_site_context \<Rightarrow> 'j gate_level_floor_interfaces
   \<Rightarrow> gate_level option" where
  "as_gate_level tool meta ctx floors =
     (let stf = sandbox_tier_floor meta (csc_deployment_surface ctx) (csc_blast_radius_tier ctx)
                  (csc_mcp_transport ctx) (csc_mcp_server ctx);
          sandbox_axis = (if stf_outcome stf = STF_REFUSE then Some DENY
                          else map_option tier_to_gate_level_floor (stf_tier stf))
      in case sandbox_axis of
           None \<Rightarrow> None
         | Some sa \<Rightarrow>
             py_max_by gate_rank
               [glf_per_tool_gate_level floors tool, glf_blast_radius_gate_floor floors tool,
                glf_per_mcp_server_trust_floor floors (csc_mcp_server ctx),
                glf_persona_tier_floor floors (csc_persona_tier ctx), sa])"

lemma tier_to_gate_level_floor_mono: "t \<le> u \<Longrightarrow> tier_to_gate_level_floor t \<le> tier_to_gate_level_floor u"
  by (cases t; cases u) (simp_all add: less_eq_sandbox_tier_def less_eq_gate_level_def)

section \<open>The CP gate\<close>

datatype mcp_trust_tier =
    LEVEL_0_REFUSE_REMOTE | LEVEL_1_SIGNED_PINNED | LEVEL_2_SANDBOX_ALL | LEVEL_3_ALLOW_WITH_AUDIT

datatype axis = AX_PER_TOOL_GATE_LEVEL | AX_BLAST_RADIUS | AX_MCP_TRUST | AX_PERSONA_TIER | AX_SANDBOX_TIER

record gate_level_input =
  gli_per_tool_gate_level :: gate_level
  gli_persona_tier :: persona_tier
  gli_blast_radius_tier :: blast_radius_tier
  gli_mcp_trust_tier :: mcp_trust_tier
  gli_persona_floor_override :: "gate_level option"
  gli_blast_floor_override :: "gate_level option"

record gate_level_computation =
  glc_inputs :: gate_level_input
  glc_per_axis_floors :: "(axis \<times> gate_level) list"
  glc_composition_winner :: axis
  glc_computed_gate_level :: gate_level

fun BLAST_RADIUS_GATE_LEVEL_FLOOR :: "blast_radius_tier \<Rightarrow> gate_level" where
  "BLAST_RADIUS_GATE_LEVEL_FLOOR READ_ONLY = AUTO"
| "BLAST_RADIUS_GATE_LEVEL_FLOOR LOCAL_MUTATION = ASK"
| "BLAST_RADIUS_GATE_LEVEL_FLOOR EXTERNAL_REVERSIBLE = ASK"
| "BLAST_RADIUS_GATE_LEVEL_FLOOR EXTERNAL_IRREVERSIBLE = ASK"

fun PERSONA_TIER_GATE_LEVEL_FLOOR :: "persona_tier \<Rightarrow> gate_level" where
  "PERSONA_TIER_GATE_LEVEL_FLOOR SOLO_DEVELOPER = ASK"
| "PERSONA_TIER_GATE_LEVEL_FLOOR TEAM_BINDING = ASK"
| "PERSONA_TIER_GATE_LEVEL_FLOOR MULTI_TENANT_COMPLIANCE = ASK"

fun MCP_TRUST_GATE_LEVEL_FLOOR :: "mcp_trust_tier \<Rightarrow> gate_level" where
  "MCP_TRUST_GATE_LEVEL_FLOOR LEVEL_0_REFUSE_REMOTE = DENY"
| "MCP_TRUST_GATE_LEVEL_FLOOR LEVEL_1_SIGNED_PINNED = ASK"
| "MCP_TRUST_GATE_LEVEL_FLOOR LEVEL_2_SANDBOX_ALL = ASK"
| "MCP_TRUST_GATE_LEVEL_FLOOR LEVEL_3_ALLOW_WITH_AUDIT = AUTO"

text \<open>The dictionary \<open>per_axis_floors\<close> in its insertion order, which \<open>max (.items (), ..)\<close>
  iterates.\<close>

definition per_axis_floors :: "gate_level_input \<Rightarrow> (axis \<times> gate_level) list" where
  "per_axis_floors i =
     [(AX_PER_TOOL_GATE_LEVEL, gli_per_tool_gate_level i),
      (AX_BLAST_RADIUS, case gli_blast_floor_override i of
          Some g \<Rightarrow> g | None \<Rightarrow> BLAST_RADIUS_GATE_LEVEL_FLOOR (gli_blast_radius_tier i)),
      (AX_PERSONA_TIER, case gli_persona_floor_override i of
          Some g \<Rightarrow> g | None \<Rightarrow> PERSONA_TIER_GATE_LEVEL_FLOOR (gli_persona_tier i)),
      (AX_MCP_TRUST, MCP_TRUST_GATE_LEVEL_FLOOR (gli_mcp_trust_tier i))]"

definition compute_gate_level :: "gate_level_input \<Rightarrow> gate_level_computation option" where
  "compute_gate_level i =
     (let floors = per_axis_floors i in
      case py_max_by (\<lambda>kv. gate_rank (snd kv)) floors of
        None \<Rightarrow> None
      | Some winner \<Rightarrow>
          (case gate_by_rank (Max (set (map (\<lambda>kv. gate_rank (snd kv)) floors))) of
             None \<Rightarrow> None
           | Some computed \<Rightarrow> Some
               \<lparr>glc_inputs = i, glc_per_axis_floors = floors,
                glc_composition_winner = fst winner, glc_computed_gate_level = computed\<rparr>))"

definition hitl_required :: "gate_level_input \<Rightarrow> bool option" where
  "hitl_required i = map_option (\<lambda>c. glc_computed_gate_level c \<in> {ASK, DENY}) (compute_gate_level i)"

datatype value_error = ValueError

definition assert_cross_persona_monotonicity :: "persona_tier \<Rightarrow> persona_tier \<Rightarrow> value_error + unit" where
  "assert_cross_persona_monotonicity from_tier to_tier =
     (if persona_rank to_tier < persona_rank from_tier then Inl ValueError else Inr ())"

definition axis_floors :: "gate_level_input \<Rightarrow> gate_level list" where
  "axis_floors i = map snd (per_axis_floors i)"

lemma gate_level_computed:
  "\<exists>c. compute_gate_level i = Some c \<and> glc_inputs c = i \<and> glc_per_axis_floors c = per_axis_floors i \<and>
       glc_computed_gate_level c = Max (set (axis_floors i))"
proof -
  let ?fs = "per_axis_floors i"
  have ne: "?fs \<noteq> []" by (simp add: per_axis_floors_def)
  then obtain w where w: "py_max_by (\<lambda>kv. gate_rank (snd kv)) ?fs = Some w"
    by (cases ?fs) (auto simp: py_max_by_def)
  have "mono gate_rank" by (auto simp: mono_def less_eq_gate_level_def)
  then have "gate_rank (Max (set (axis_floors i))) = Max (gate_rank ` set (axis_floors i))"
    by (rule mono_Max_commute) (use ne in \<open>auto simp: axis_floors_def\<close>)
  then have "Max (set (map (\<lambda>kv. gate_rank (snd kv)) ?fs)) = gate_rank (Max (set (axis_floors i)))"
    by (simp add: axis_floors_def image_image)
  with w show ?thesis by (simp add: compute_gate_level_def Let_def)
qed

text \<open>Python's \<open>max\<close> answers the first of the items with the greatest key.\<close>

lemma py_max_from_first:
  "List.find (\<lambda>x. key x = key (py_max_from key b xs)) (b # xs) = Some (py_max_from key b xs)"
proof (induction xs arbitrary: b)
  case (Cons x xs)
  show ?case
  proof (cases "key b < key x")
    case True
    define m where "m = py_max_from key x xs"
    have "key b \<noteq> key m" using True py_max_from_ge [of key x xs] by (auto simp: m_def)
    then show ?thesis using Cons.IH [of x] True by (simp add: m_def [symmetric])
  next
    case False
    define m where "m = py_max_from key b xs"
    have "key b \<noteq> key m \<Longrightarrow> key x \<noteq> key m" using False py_max_from_ge [of key b xs] by (auto simp: m_def)
    then show ?thesis using Cons.IH [of b] False by (simp add: m_def [symmetric] split: if_splits)
  qed
qed simp

lemma gate_level_first:
  assumes "compute_gate_level i = Some c"
  shows "List.find (\<lambda>(ax, g). g = glc_computed_gate_level c) (per_axis_floors i) =
    Some (glc_composition_winner c, glc_computed_gate_level c)"
proof -
  let ?key = "\<lambda>kv. gate_rank (snd kv)"
  obtain k ks where ks: "per_axis_floors i = k # ks" by (simp add: per_axis_floors_def)
  define w where "w = py_max_from ?key k ks"
  have win: "glc_composition_winner c = fst w" and "gate_by_rank (Max (set (map ?key (k # ks)))) = Some (glc_computed_gate_level c)"
    using assms by (auto simp: compute_gate_level_def Let_def ks py_max_by_def w_def split: option.splits)
  moreover have "Max (set (map ?key (k # ks))) = gate_rank (snd w)"
    using py_max_from_key [of ?key k ks] by (simp add: w_def)
  ultimately have level: "snd w = glc_computed_gate_level c" by (simp del: set_map set_simps list.map)
  have pred: "(\<lambda>(ax, g). g = glc_computed_gate_level c) = (\<lambda>kv. ?key kv = ?key w)"
    using gate.rank_inj by (auto simp: fun_eq_iff level)
  have found: "List.find (\<lambda>kv. ?key kv = ?key w) (k # ks) = Some w"
    using py_max_from_first [of ?key k ks] by (simp only: w_def)
  have "(glc_composition_winner c, glc_computed_gate_level c) = w" using win level by (simp add: prod_eq_iff)
  with found show ?thesis unfolding ks pred by (rule trans [OF _ arg_cong [where f = Some, OF sym]])
qed

lemma gate_level_extremes:
  assumes "compute_gate_level i = Some c"
  shows "glc_computed_gate_level c = DENY \<longleftrightarrow> DENY \<in> set (axis_floors i)"
    "glc_computed_gate_level c = AUTO \<longleftrightarrow> (\<forall>g \<in> set (axis_floors i). g = AUTO)"
proof -
  have max: "glc_computed_gate_level c = Max (set (axis_floors i))" using assms gate_level_computed [of i] by auto
  have fin: "finite (set (axis_floors i))" "set (axis_floors i) \<noteq> {}"
    by (simp_all add: axis_floors_def per_axis_floors_def)
  have ends: "DENY \<le> g \<longleftrightarrow> g = DENY" "g \<le> AUTO \<longleftrightarrow> g = AUTO" for g
    by (cases g; simp add: less_eq_gate_level_def)+
  show "glc_computed_gate_level c = DENY \<longleftrightarrow> DENY \<in> set (axis_floors i)"
    unfolding max using Max_in [OF fin] Max_ge [OF fin(1), of DENY] ends(1) by metis
  show "glc_computed_gate_level c = AUTO \<longleftrightarrow> (\<forall>g \<in> set (axis_floors i). g = AUTO)"
    unfolding max using Max_in [OF fin] Max_ge [OF fin(1)] ends(2) by metis
qed

lemma hitl_required_iff: "hitl_required i = Some (\<exists>g \<in> set (axis_floors i). g \<noteq> AUTO)"
proof -
  obtain c where c: "compute_gate_level i = Some c" "glc_computed_gate_level c = Max (set (axis_floors i))"
    using gate_level_computed by blast
  have fin: "finite (set (axis_floors i))" "set (axis_floors i) \<noteq> {}"
    by (simp_all add: axis_floors_def per_axis_floors_def)
  have auto: "g \<le> AUTO \<longleftrightarrow> g = AUTO" for g
    by (cases g) (simp_all add: less_eq_gate_level_def)
  have "Max (set (axis_floors i)) = AUTO \<longleftrightarrow> (\<forall>g \<in> set (axis_floors i). g = AUTO)"
  proof
    assume "Max (set (axis_floors i)) = AUTO"
    then show "\<forall>g \<in> set (axis_floors i). g = AUTO" using Max_ge [OF fin(1)] auto by metis
  next
    assume "\<forall>g \<in> set (axis_floors i). g = AUTO"
    then show "Max (set (axis_floors i)) = AUTO" using Max_in [OF fin] by blast
  qed
  moreover have "g \<in> {ASK, DENY} \<longleftrightarrow> g \<noteq> AUTO" for g by (cases g) simp_all
  ultimately show ?thesis using c by (auto simp: hitl_required_def)
qed

section \<open>Sub-agent dispatch\<close>

definition compute_child_blast_radius_ceiling :: "blast_radius_tier \<Rightarrow> blast_radius_tier" where
  "compute_child_blast_radius_ceiling parent = READ_ONLY"

definition blast_radius_of :: "sandbox_tier \<Rightarrow> blast_radius_tier" where
  "blast_radius_of t = (if tier_rank TIER_3_MICROVM \<le> tier_rank t then EXTERNAL_REVERSIBLE else LOCAL_MUTATION)"

text \<open>\<open>GateOverride\<close> and \<open>SubAgentBrief\<close> are opaque here: only the presence of the override counts.
  A ledger reference is carried as the identifier it holds.\<close>

record sub_agent_gate_level_descent =
  sad_parent_gate_level :: gate_level
  sad_parent_sandbox_tier :: sandbox_tier
  sad_child_blast_radius_ceiling :: blast_radius_tier
  sad_child_sandbox_tier :: sandbox_tier
  sad_child_gate_level :: gate_level
  sad_override_applied :: bool
  sad_override_audit_ref :: "pystr option"

definition dispatch_sub_agent ::
  "pystr \<Rightarrow> gate_level \<Rightarrow> sandbox_tier \<Rightarrow> 'brief \<Rightarrow> 'override option \<Rightarrow> sub_agent_gate_level_descent" where
  "dispatch_sub_agent parent_action_id parent_gate parent_tier brief operator_override =
     \<lparr>sad_parent_gate_level = parent_gate, sad_parent_sandbox_tier = parent_tier,
      sad_child_blast_radius_ceiling = compute_child_blast_radius_ceiling (blast_radius_of parent_tier),
      sad_child_sandbox_tier = parent_tier, sad_child_gate_level = parent_gate,
      sad_override_applied = (operator_override \<noteq> None), sad_override_audit_ref = None\<rparr>"

definition assert_monotonic_descent :: "gate_level \<Rightarrow> gate_level \<Rightarrow> value_error + unit" where
  "assert_monotonic_descent parent child =
     (if gate_rank parent < gate_rank child then Inl ValueError else Inr ())"

definition assert_monotonic_ascent :: "sandbox_tier \<Rightarrow> sandbox_tier \<Rightarrow> value_error + unit" where
  "assert_monotonic_ascent parent child =
     (if tier_rank child < tier_rank parent then Inl ValueError else Inr ())"

record cp_audit_ledger_entry =
  cae_action_id :: pystr
  cae_gate_level :: gate_level
  cae_response :: string
  cae_edited_proposal_hash :: "pystr option"
  cae_rejection_reason_hash :: "pystr option"
  cae_response_text_hash :: "pystr option"
  cae_timestamp :: pystr
  cae_prior_event_hash :: pystr

text \<open>The clock reading \<open>datetime.now (UTC).isoformat ()\<close> is an argument.\<close>

definition emit_sub_agent_dispatch_audit ::
  "pystr \<Rightarrow> pystr \<Rightarrow> sub_agent_gate_level_descent \<Rightarrow> pystr \<Rightarrow> cp_audit_ledger_entry" where
  "emit_sub_agent_dispatch_audit now parent_action_id descent brief_hash =
     \<lparr>cae_action_id = parent_action_id @ lit ''||sub-agent'', cae_gate_level = sad_child_gate_level descent,
      cae_response = ''approve'', cae_edited_proposal_hash = None, cae_rejection_reason_hash = None,
      cae_response_text_hash = None, cae_timestamp = now,
      cae_prior_event_hash = replicate 64 (of_char CHR ''0'')\<rparr>"

section \<open>Five-axis composition and operator-policy overrides\<close>

record five_axis_composition_input =
  fai_per_tool_gate_level :: gate_level
  fai_persona_tier :: persona_tier
  fai_blast_radius_tier :: blast_radius_tier
  fai_deployment_surface :: deployment_surface
  fai_mcp_trust_tier :: mcp_trust_tier
  fai_sandbox_tier :: sandbox_tier

record five_axis_composition_result =
  far_gate_level :: gate_level
  far_sandbox_tier_floor :: sandbox_tier
  far_composition_admissible :: bool
  far_cross_axis_composition_audit_attrs :: "string set"

definition compose_five_axis :: "five_axis_composition_input \<Rightarrow> five_axis_composition_result option" where
  "compose_five_axis i =
     map_option (\<lambda>c.
       \<lparr>far_gate_level = glc_computed_gate_level c, far_sandbox_tier_floor = fai_sandbox_tier i,
        far_composition_admissible = True,
        far_cross_axis_composition_audit_attrs =
          {''audit.composition.gate_level'', ''audit.composition.sandbox_tier_floor''}\<rparr>)
     (compute_gate_level
       \<lparr>gli_per_tool_gate_level = fai_per_tool_gate_level i, gli_persona_tier = fai_persona_tier i,
        gli_blast_radius_tier = fai_blast_radius_tier i, gli_mcp_trust_tier = fai_mcp_trust_tier i,
        gli_persona_floor_override = None, gli_blast_floor_override = None\<rparr>)"

datatype override_kind = LOWER_GATE_LEVEL | RAISE_GATE_LEVEL | NARROW_PALETTE

datatype policy_override_scope = OS_PER_TOOL | OS_PER_WORKFLOW | OS_PER_PERSONA_TIER

record operator_policy_override =
  opo_override_kind :: override_kind
  opo_scope :: policy_override_scope
  opo_permitted_at :: "persona_tier list"
  opo_audit_required :: bool

definition OPERATOR_POLICY_OVERRIDE_SCOPE_TABLE :: "operator_policy_override list" where
  "OPERATOR_POLICY_OVERRIDE_SCOPE_TABLE =
     [\<lparr>opo_override_kind = LOWER_GATE_LEVEL, opo_scope = OS_PER_TOOL,
       opo_permitted_at = [SOLO_DEVELOPER, TEAM_BINDING], opo_audit_required = True\<rparr>,
      \<lparr>opo_override_kind = RAISE_GATE_LEVEL, opo_scope = OS_PER_TOOL,
       opo_permitted_at = [SOLO_DEVELOPER, TEAM_BINDING, MULTI_TENANT_COMPLIANCE], opo_audit_required = True\<rparr>,
      \<lparr>opo_override_kind = NARROW_PALETTE, opo_scope = OS_PER_TOOL,
       opo_permitted_at = [SOLO_DEVELOPER, TEAM_BINDING, MULTI_TENANT_COMPLIANCE], opo_audit_required = True\<rparr>]"

fun override_kind_value :: "override_kind \<Rightarrow> string" where
  "override_kind_value LOWER_GATE_LEVEL = ''lower-gate-level''"
| "override_kind_value RAISE_GATE_LEVEL = ''raise-gate-level''"
| "override_kind_value NARROW_PALETTE = ''narrow-palette''"

record override_rejection =
  orj_override_kind :: override_kind
  orj_persona_tier :: persona_tier
  orj_rejection_reason :: pystr

definition apply_operator_policy_override ::
  "five_axis_composition_result \<Rightarrow> operator_policy_override \<Rightarrow> persona_tier
   \<Rightarrow> override_rejection + five_axis_composition_result" where
  "apply_operator_policy_override base override persona =
     (if persona \<notin> set (opo_permitted_at override)
      then Inl \<lparr>orj_override_kind = opo_override_kind override, orj_persona_tier = persona,
                orj_rejection_reason = lit (override_kind_value (opo_override_kind override)) @
                  lit '' override structurally prohibited at '' @ lit (persona_tier_value persona) @
                  lit '' per C-CP-19 '' @ [167] @ lit ''19.5''\<rparr>
      else Inr base)"

section \<open>Signing-key rotation\<close>

datatype key_rotation_stage = ROW_1_DUAL_VERIFY_ACTIVE | ROW_2_RETIRE_OLD

datatype rotation_verification_step =
    STAGE_NEW_KEY | WRITE_DUAL_VERIFY_ENTRY | PROBE_VERIFY_AT_READ
  | VERIFY_HASH_CHAIN_LINK | ROTATE_SIGNING_TO_NEW | RETIRE_OLD_KEY

definition ROTATION_VERIFICATION_STEPS :: "rotation_verification_step list" where
  "ROTATION_VERIFICATION_STEPS = [STAGE_NEW_KEY, WRITE_DUAL_VERIFY_ENTRY, PROBE_VERIFY_AT_READ,
     VERIFY_HASH_CHAIN_LINK, ROTATE_SIGNING_TO_NEW, RETIRE_OLD_KEY]"

record 'scope key_rotation_outcome =
  kro_scope :: 'scope
  kro_final_stage :: key_rotation_stage
  kro_rotation_complete :: bool
  kro_rotation_state_partial :: bool

record step_result =
  sre_step :: rotation_verification_step
  sre_succeeded :: bool
  sre_detail :: string

fun rotation_step_detail :: "rotation_verification_step \<Rightarrow> string" where
  "rotation_step_detail STAGE_NEW_KEY =
     ''new key provisioned via U-CP-44; rotation_state = rotating''"
| "rotation_step_detail WRITE_DUAL_VERIFY_ENTRY =
     ''first new-key-signed entry written; old key remains in the verification set''"
| "rotation_step_detail PROBE_VERIFY_AT_READ = ''both keys verify the new entry successfully''"
| "rotation_step_detail VERIFY_HASH_CHAIN_LINK =
     ''prior_event_hash continuity preserved across the rotation boundary''"
| "rotation_step_detail ROTATE_SIGNING_TO_NEW =
     ''old key rotation_state = retired; new key rotation_state = active''"
| "rotation_step_detail RETIRE_OLD_KEY =
     ''old key removed from the verification set after dual-verify quiescence''"

definition verify_rotation_6_steps :: "'scope \<Rightarrow> step_result list" where
  "verify_rotation_6_steps scope =
     map (\<lambda>s. \<lparr>sre_step = s, sre_succeeded = True, sre_detail = rotation_step_detail s\<rparr>)
       ROTATION_VERIFICATION_STEPS"

definition execute_key_rotation :: "'scope \<Rightarrow> 'scope key_rotation_outcome" where
  "execute_key_rotation scope =
     (let steps = verify_rotation_6_steps scope;
          complete = list_all sre_succeeded steps
      in \<lparr>kro_scope = scope,
          kro_final_stage = (if complete then ROW_2_RETIRE_OLD else ROW_1_DUAL_VERIFY_ACTIVE),
          kro_rotation_complete = complete, kro_rotation_state_partial = (\<not> complete)\<rparr>)"

section \<open>Properties\<close>

text \<open>Property C19. The gate level of a call is always computed. It is \<open>DENY\<close> exactly when the tool itself, a server
  of trust level 0 or an override of the blast-radius or persona floor demands it, and \<open>AUTO\<close> exactly when the
  tool allows it, the server is of trust level 3, the persona floor is overridden to \<open>AUTO\<close> and the blast radius
  is read-only or overridden to \<open>AUTO\<close>; otherwise it is \<open>ASK\<close>. A human is asked exactly when it is not \<open>AUTO\<close>.
  The floors of the four axes are recorded in the order tool, blast radius, persona and trust, and the axis
  named as the winner is the first of them whose floor is that level.\<close>

theorem compute_gate_level_spec:
  "\<exists>c. compute_gate_level i = Some c \<and>
     (glc_computed_gate_level c = DENY \<longleftrightarrow>
        gli_per_tool_gate_level i = DENY \<or> gli_mcp_trust_tier i = LEVEL_0_REFUSE_REMOTE \<or>
        gli_blast_floor_override i = Some DENY \<or> gli_persona_floor_override i = Some DENY) \<and>
     (glc_computed_gate_level c = AUTO \<longleftrightarrow>
        gli_per_tool_gate_level i = AUTO \<and> gli_mcp_trust_tier i = LEVEL_3_ALLOW_WITH_AUDIT \<and>
        gli_persona_floor_override i = Some AUTO \<and>
        (gli_blast_floor_override i = Some AUTO \<or>
         gli_blast_floor_override i = None \<and> gli_blast_radius_tier i = READ_ONLY)) \<and>
     hitl_required i = Some (glc_computed_gate_level c \<noteq> AUTO) \<and>
     glc_per_axis_floors c =
       [(AX_PER_TOOL_GATE_LEVEL, gli_per_tool_gate_level i),
        (AX_BLAST_RADIUS, case gli_blast_floor_override i of
           Some g \<Rightarrow> g | None \<Rightarrow> if gli_blast_radius_tier i = READ_ONLY then AUTO else ASK),
        (AX_PERSONA_TIER, case gli_persona_floor_override i of Some g \<Rightarrow> g | None \<Rightarrow> ASK),
        (AX_MCP_TRUST, if gli_mcp_trust_tier i = LEVEL_0_REFUSE_REMOTE then DENY
                       else if gli_mcp_trust_tier i = LEVEL_3_ALLOW_WITH_AUDIT then AUTO else ASK)] \<and>
     List.find (\<lambda>(ax, g). g = glc_computed_gate_level c) (glc_per_axis_floors c)
     = Some (glc_composition_winner c, glc_computed_gate_level c)"
proof -
  obtain c where c: "compute_gate_level i = Some c" "glc_per_axis_floors c = per_axis_floors i"
    using gate_level_computed by blast
  have hitl: "hitl_required i = Some (glc_computed_gate_level c \<noteq> AUTO)"
    using c(1) by (cases "glc_computed_gate_level c") (simp_all add: hitl_required_def)
  have list: "per_axis_floors i =
      [(AX_PER_TOOL_GATE_LEVEL, gli_per_tool_gate_level i),
       (AX_BLAST_RADIUS, case gli_blast_floor_override i of
          Some g \<Rightarrow> g | None \<Rightarrow> if gli_blast_radius_tier i = READ_ONLY then AUTO else ASK),
       (AX_PERSONA_TIER, case gli_persona_floor_override i of Some g \<Rightarrow> g | None \<Rightarrow> ASK),
       (AX_MCP_TRUST, if gli_mcp_trust_tier i = LEVEL_0_REFUSE_REMOTE then DENY
                      else if gli_mcp_trust_tier i = LEVEL_3_ALLOW_WITH_AUDIT then AUTO else ASK)]"
    by (cases "gli_blast_radius_tier i"; cases "gli_persona_tier i"; cases "gli_mcp_trust_tier i")
      (simp_all add: per_axis_floors_def split: option.split)
  have deny: "glc_computed_gate_level c = DENY \<longleftrightarrow>
      gli_per_tool_gate_level i = DENY \<or> gli_mcp_trust_tier i = LEVEL_0_REFUSE_REMOTE \<or>
      gli_blast_floor_override i = Some DENY \<or> gli_persona_floor_override i = Some DENY"
    unfolding gate_level_extremes(1) [OF c(1)] axis_floors_def list
    by (auto split: option.splits if_splits)
  have auto: "glc_computed_gate_level c = AUTO \<longleftrightarrow>
      gli_per_tool_gate_level i = AUTO \<and> gli_mcp_trust_tier i = LEVEL_3_ALLOW_WITH_AUDIT \<and>
      gli_persona_floor_override i = Some AUTO \<and>
      (gli_blast_floor_override i = Some AUTO \<or>
       gli_blast_floor_override i = None \<and> gli_blast_radius_tier i = READ_ONLY)"
    unfolding gate_level_extremes(2) [OF c(1)] axis_floors_def list
    by (auto split: option.splits if_splits)
  show ?thesis
    using c(1) deny auto hitl c(2) [unfolded list] gate_level_first [OF c(1), folded c(2)] by (intro exI [of _ c] conjI)
qed

text \<open>Without an override of the persona floor a human is always asked, whatever the
  tool, the blast radius and the trust level are; the only calls that pass without one carry
  overrides or an \<open>AUTO\<close> floor on every axis.\<close>

theorem hitl_required_without_override:
  assumes "gli_persona_floor_override i = None"
  shows "hitl_required i = Some True"
  using assms by (cases "gli_persona_tier i") (auto simp: hitl_required_iff axis_floors_def per_axis_floors_def)

lemma hitl_required_without_override_witness:
  "hitl_required \<lparr>gli_per_tool_gate_level = AUTO, gli_persona_tier = SOLO_DEVELOPER,
     gli_blast_radius_tier = READ_ONLY, gli_mcp_trust_tier = LEVEL_3_ALLOW_WITH_AUDIT,
     gli_persona_floor_override = None, gli_blast_floor_override = None\<rparr> = Some True"
  by (rule hitl_required_without_override) simp

text \<open>Dispatching a sub-agent never widens authority: the descent passes both monotonicity
  assertions, the child's blast-radius ceiling is \<open>READ_ONLY\<close>, and the audit entry records the
  gate level the child runs under.\<close>

theorem dispatch_sub_agent_monotone:
  "(let d = dispatch_sub_agent aid g t brief ov in
    assert_monotonic_descent (sad_parent_gate_level d) (sad_child_gate_level d) = Inr () \<and>
    assert_monotonic_ascent (sad_parent_sandbox_tier d) (sad_child_sandbox_tier d) = Inr () \<and>
    blast_rank (sad_child_blast_radius_ceiling d) \<le> blast_rank (blast_radius_of (sad_parent_sandbox_tier d)) \<and>
    cae_gate_level (emit_sub_agent_dispatch_audit now aid d h) = g)"
  by (simp add: dispatch_sub_agent_def assert_monotonic_descent_def assert_monotonic_ascent_def
      compute_child_blast_radius_ceiling_def emit_sub_agent_dispatch_audit_def Let_def)

end
