(* ===== verification/Py_Strings.thy ===== *)
theory Py_Strings
  imports Core_Types
begin

text \<open>
  The \<open>str\<close> methods the harness uses, on lists of code points: \<open>startswith\<close>, \<open>removeprefix\<close>,
  \<open>partition\<close>, \<open>rsplit (sep, 1)\<close>, \<open>split ()\<close> on whitespace and \<open>join\<close>.
\<close>

definition py_startswith :: "pystr \<Rightarrow> pystr \<Rightarrow> bool" where
  "py_startswith s p \<longleftrightarrow> take (length p) s = p"

definition py_removeprefix :: "pystr \<Rightarrow> pystr \<Rightarrow> pystr" where
  "py_removeprefix s p = (if py_startswith s p then drop (length p) s else s)"

text \<open>\<open>s.partition (c)\<close> for a one-character separator: the text before the first \<open>c\<close>, whether there
  is one, and the text after it.\<close>

fun py_partition :: "nat \<Rightarrow> pystr \<Rightarrow> pystr \<times> bool \<times> pystr" where
  "py_partition c [] = ([], False, [])"
| "py_partition c (x # xs) =
     (if x = c then ([], True, xs)
      else case py_partition c xs of (a, found, b) \<Rightarrow> (x # a, found, b))"

text \<open>\<open>s.rsplit (c, 1)[0]\<close>: the text before the last \<open>c\<close>, all of \<open>s\<close> when there is none.\<close>

definition py_rsplit1_head :: "nat \<Rightarrow> pystr \<Rightarrow> pystr" where
  "py_rsplit1_head c s =
     (case py_partition c (rev s) of (a, found, b) \<Rightarrow> if found then rev b else s)"

definition py_isspace :: "nat \<Rightarrow> bool" where
  "py_isspace c \<longleftrightarrow> (9 \<le> c \<and> c \<le> 13) \<or> (28 \<le> c \<and> c \<le> 32) \<or> c = 133 \<or> c = 160 \<or> c = 5760 \<or>
     (8192 \<le> c \<and> c \<le> 8202) \<or> c = 8232 \<or> c = 8233 \<or> c = 8239 \<or> c = 8287 \<or> c = 12288"

text \<open>Whether nothing is left of \<open>s.strip ()\<close>.\<close>

definition py_blank :: "pystr \<Rightarrow> bool" where
  "py_blank s \<longleftrightarrow> (\<forall>c \<in> set s. py_isspace c)"

text \<open>\<open>s.split ()\<close>: the maximal runs without whitespace.\<close>

function py_split :: "pystr \<Rightarrow> pystr list" where
  "py_split s =
     (let s' = dropWhile py_isspace s in
      if s' = [] then []
      else takeWhile (\<lambda>c. \<not> py_isspace c) s' # py_split (dropWhile (\<lambda>c. \<not> py_isspace c) s'))"
  by pat_completeness auto

lemma dropWhile_hd_shorter:
  assumes "dropWhile P s \<noteq> []"
  shows "length (dropWhile (\<lambda>c. \<not> P c) (dropWhile P s)) < length s"
proof -
  obtain x xs where s': "dropWhile P s = x # xs" using assms by (cases "dropWhile P s") auto
  have "\<not> P x" using hd_dropWhile [OF assms] s' by simp
  then have "length (dropWhile (\<lambda>c. \<not> P c) (dropWhile P s)) \<le> length xs"
    by (simp add: s' length_dropWhile_le)
  moreover have "length (x # xs) \<le> length s" using length_dropWhile_le [of P s] s' by simp
  ultimately show ?thesis by simp
qed

termination py_split
  by (relation "measure length") (auto simp: dropWhile_hd_shorter)

declare py_split.simps [simp del]

fun py_join :: "pystr \<Rightarrow> pystr list \<Rightarrow> pystr" where
  "py_join sep [] = []"
| "py_join sep [s] = s"
| "py_join sep (s # t # ts) = s @ sep @ py_join sep (t # ts)"

lemma py_partition_found: "py_partition c s = (a, True, b) \<Longrightarrow> s = a @ c # b \<and> c \<notin> set a"
  by (induction s arbitrary: a) (auto split: if_splits prod.splits)

lemma py_partition_notin: "c \<notin> set s \<Longrightarrow> py_partition c s = (s, False, [])"
  by (induction s) auto

lemma py_partition_append: "c \<notin> set a \<Longrightarrow> py_partition c (a @ c # b) = (a, True, b)"
  by (induction a) auto

lemma py_startswith_append [simp]: "py_startswith (p @ s) p"
  by (simp add: py_startswith_def)

lemma py_removeprefix_append [simp]: "py_removeprefix (p @ s) p = s"
  by (simp add: py_removeprefix_def)

definition py_endswith :: "pystr \<Rightarrow> pystr \<Rightarrow> bool" where
  "py_endswith s p \<longleftrightarrow> length p \<le> length s \<and> drop (length s - length p) s = p"

definition py_strip :: "pystr \<Rightarrow> pystr" where
  "py_strip s = rev (dropWhile py_isspace (rev (dropWhile py_isspace s)))"

text \<open>\<open>int (s)\<close> in base 10, for ASCII digits: white space around it, a sign, single underscores between digits;
  \<open>None\<close> is \<open>ValueError\<close>.\<close>

fun int_digits :: "bool \<Rightarrow> nat \<Rightarrow> pystr \<Rightarrow> nat option" where
  "int_digits after_digit acc [] = (if after_digit then Some acc else None)"
| "int_digits after_digit acc (c # cs) =
     (if 48 \<le> c \<and> c \<le> 57 then int_digits True (acc * 10 + (c - 48)) cs
      else if c = 95 \<and> after_digit then int_digits False acc cs
      else None)"

definition py_int :: "pystr \<Rightarrow> int option" where
  "py_int s =
     (case py_strip s of
        [] \<Rightarrow> None
      | c # cs \<Rightarrow>
          if c = 45 then map_option (\<lambda>n. - int n) (int_digits False 0 cs)
          else if c = 43 then map_option int (int_digits False 0 cs)
          else map_option int (int_digits False 0 (c # cs)))"



end
