(* ===== verification/Fallback_Chain.thy ===== *)
theory Fallback_Chain
  imports Py_Strings
begin

text \<open>
  \<open>harness_cp/cross_family_fallback_chain.py\<close> and \<open>harness_runtime/lifecycle/fallback_chain.py\<close>: the
  fallback chain of provider candidates and the step to the next candidate after a failure, with
  the provider-to-family table of \<open>lifecycle/cross_family_cost_tag.py\<close>. The last section shows that the
  step function walks a duplicate-free chain in order, and what it does otherwise.
\<close>

section \<open>Provider families\<close>

datatype provider_family = ANTHROPIC | OPENAI | GOOGLE | LOCAL_OPEN_WEIGHT

fun provider_family_value :: "provider_family \<Rightarrow> string" where
  "provider_family_value ANTHROPIC = ''anthropic''"
| "provider_family_value OPENAI = ''openai''"
| "provider_family_value GOOGLE = ''google''"
| "provider_family_value LOCAL_OPEN_WEIGHT = ''local_open_weight''"

definition PROVIDER_FAMILY_BY_PROVIDER :: "(pystr \<times> provider_family) list" where
  "PROVIDER_FAMILY_BY_PROVIDER =
     [(lit ''anthropic'', ANTHROPIC), (lit ''claude_code'', ANTHROPIC), (lit ''openai'', OPENAI),
      (lit ''codex'', OPENAI), (lit ''google'', GOOGLE), (lit ''antigravity'', GOOGLE),
      (lit ''gemini'', GOOGLE), (lit ''ollama'', LOCAL_OPEN_WEIGHT)]"

text \<open>\<open>ProviderFamily (provider)\<close>: the member with that value, \<open>None\<close> for \<open>ValueError\<close>.\<close>

definition provider_family_of_value :: "pystr \<Rightarrow> provider_family option" where
  "provider_family_of_value s =
     find (\<lambda>f. lit (provider_family_value f) = s) [ANTHROPIC, OPENAI, GOOGLE, LOCAL_OPEN_WEIGHT]"

definition provider_family_for_provider :: "pystr \<Rightarrow> provider_family" where
  "provider_family_for_provider provider =
     (case map_of PROVIDER_FAMILY_BY_PROVIDER provider of
        Some f \<Rightarrow> f
      | None \<Rightarrow> (case provider_family_of_value provider of Some f \<Rightarrow> f | None \<Rightarrow> LOCAL_OPEN_WEIGHT))"

datatype cross_family_tag = FRONTIER_MANAGED | FRONTIER_MANAGED_ALT | LOCAL_OLLAMA

fun cross_family_tag_by_family :: "provider_family \<Rightarrow> cross_family_tag" where
  "cross_family_tag_by_family ANTHROPIC = FRONTIER_MANAGED"
| "cross_family_tag_by_family OPENAI = FRONTIER_MANAGED_ALT"
| "cross_family_tag_by_family GOOGLE = FRONTIER_MANAGED_ALT"
| "cross_family_tag_by_family LOCAL_OPEN_WEIGHT = LOCAL_OLLAMA"

definition cross_family_tag_for_provider :: "pystr \<Rightarrow> cross_family_tag" where
  "cross_family_tag_for_provider provider = cross_family_tag_by_family (provider_family_for_provider provider)"

section \<open>The chain\<close>

record provider_candidate =
  pc_provider :: pystr
  pc_model :: pystr
  pc_family :: provider_family

record fallback_chain =
  fc_primary :: provider_candidate
  fc_same_family :: "provider_candidate list"
  fc_cross_family :: "provider_candidate list"
  fc_terminal :: "provider_candidate option"

record on_failure_result =
  ofr_next_candidate :: "provider_candidate option"
  ofr_cross_family_triggered :: bool
  ofr_cache_state_lost :: bool

definition compose_fallback_chain ::
  "provider_candidate \<Rightarrow> provider_candidate list \<Rightarrow> provider_candidate list
   \<Rightarrow> provider_candidate option \<Rightarrow> fallback_chain" where
  "compose_fallback_chain primary same cross terminal =
     \<lparr>fc_primary = primary, fc_same_family = same, fc_cross_family = cross, fc_terminal = terminal\<rparr>"

definition ordered_candidates :: "fallback_chain \<Rightarrow> provider_candidate list" where
  "ordered_candidates chain =
     fc_primary chain # fc_same_family chain @ fc_cross_family chain @
     (case fc_terminal chain of None \<Rightarrow> [] | Some t \<Rightarrow> [t])"

definition on_provider_failure :: "provider_candidate \<Rightarrow> fallback_chain \<Rightarrow> on_failure_result" where
  "on_provider_failure failed chain =
     (let ordered = ordered_candidates chain;
          stop = \<lparr>ofr_next_candidate = None, ofr_cross_family_triggered = False,
                  ofr_cache_state_lost = False\<rparr>
      in case py_index ordered failed of
           None \<Rightarrow> stop
         | Some idx \<Rightarrow>
             if length ordered \<le> idx + 1 then stop
             else let nxt = ordered ! (idx + 1);
                      crossed = (pc_family nxt \<noteq> pc_family failed)
                  in \<lparr>ofr_next_candidate = Some nxt, ofr_cross_family_triggered = crossed,
                      ofr_cache_state_lost = crossed\<rparr>)"

text \<open>\<open>FallbackChainExhaustedError\<close> carries the failed candidate.\<close>

datatype fallback_chain_error =
    FallbackChainExhaustedError provider_candidate
  | FallbackChainBindError

definition advance_or_raise ::
  "fallback_chain \<Rightarrow> provider_candidate \<Rightarrow> fallback_chain_error + provider_candidate \<times> on_failure_result" where
  "advance_or_raise chain failed =
     (let result = on_provider_failure failed chain in
      case ofr_next_candidate result of
        None \<Rightarrow> Inl (FallbackChainExhaustedError failed)
      | Some c \<Rightarrow> Inr (c, result))"

text \<open>\<open>materialize_fallback_chain_stage\<close>: the manifest's first chain, or the bind error. The downgrade rule
  it carries along is a constant.\<close>

definition materialize_fallback_chain_stage :: "fallback_chain list \<Rightarrow> fallback_chain_error + fallback_chain" where
  "materialize_fallback_chain_stage manifest_chains = (case manifest_chains of [] \<Rightarrow> Inl FallbackChainBindError | c # _ \<Rightarrow> Inr c)"

definition chain_length :: "fallback_chain \<Rightarrow> nat" where
  "chain_length chain =
     1 + length (fc_same_family chain) + length (fc_cross_family chain) +
     (if fc_terminal chain = None then 0 else 1)"

text \<open>\<open>RetryBreakerFallbackDispatcher._augment_primary\<close>: the bound candidate in front of the base chain
  without its own provider-model pair.\<close>

definition same_model :: "provider_candidate \<Rightarrow> provider_candidate \<Rightarrow> bool" where
  "same_model c d \<longleftrightarrow> pc_provider c = pc_provider d \<and> pc_model c = pc_model d"

definition augment_primary :: "fallback_chain \<Rightarrow> provider_candidate \<Rightarrow> fallback_chain" where
  "augment_primary base new_primary =
     (let tail = filter (\<lambda>c. \<not> same_model c new_primary) (ordered_candidates base) in
      if tail = [] then base
      else \<lparr>fc_primary = new_primary, fc_same_family = [], fc_cross_family = tail, fc_terminal = None\<rparr>)"

section \<open>Walking the chain\<close>

lemma chain_length_ordered: "chain_length chain = length (ordered_candidates chain)"
  by (simp add: chain_length_def ordered_candidates_def split: option.split)

lemma ordered_candidates_ne [simp]: "ordered_candidates chain \<noteq> []"
  by (simp add: ordered_candidates_def)

lemma ordered_candidates_hd: "ordered_candidates chain ! 0 = fc_primary chain"
  by (simp add: ordered_candidates_def)

lemma primary_in_chain [simp]: "fc_primary chain \<in> set (ordered_candidates chain)"
  by (simp add: ordered_candidates_def)

text \<open>The step goes to the successor of the first occurrence of the failed candidate.\<close>

lemma on_provider_failure_index:
  assumes "py_index (ordered_candidates chain) c = Some i"
  shows "ofr_next_candidate (on_provider_failure c chain) =
    (if i + 1 < length (ordered_candidates chain) then Some (ordered_candidates chain ! (i + 1)) else None)"
  using assms by (auto simp: on_provider_failure_def Let_def)

lemma on_provider_failure_next:
  assumes "distinct (ordered_candidates chain)" and "i < length (ordered_candidates chain)"
  shows "ofr_next_candidate (on_provider_failure (ordered_candidates chain ! i) chain) =
    (if i + 1 < length (ordered_candidates chain) then Some (ordered_candidates chain ! (i + 1)) else None)"
  using on_provider_failure_index [OF py_index_distinct [OF assms]] .

lemma on_provider_failure_unknown:
  "c \<notin> set (ordered_candidates chain) \<Longrightarrow> ofr_next_candidate (on_provider_failure c chain) = None"
  by (simp add: on_provider_failure_def Let_def py_index_None_iff [symmetric])

lemma on_provider_failure_mem:
  "ofr_next_candidate (on_provider_failure c chain) = Some d \<Longrightarrow> d \<in> set (ordered_candidates chain)"
  by (auto simp: on_provider_failure_def Let_def split: option.splits if_splits)

lemma advance_or_raise_iff:
  "advance_or_raise chain c = Inr (d, r) \<longleftrightarrow>
     r = on_provider_failure c chain \<and> ofr_next_candidate r = Some d"
  by (auto simp: advance_or_raise_def Let_def split: option.splits)

lemma ordered_augment_primary:
  "ordered_candidates (augment_primary base p) =
     (let tail = filter (\<lambda>c. \<not> same_model c p) (ordered_candidates base)
      in if tail = [] then ordered_candidates base else p # tail)"
  by (simp add: augment_primary_def Let_def ordered_candidates_def)

lemma augment_primary_distinct:
  assumes "distinct (ordered_candidates base)"
  shows "distinct (ordered_candidates (augment_primary base p))"
  using assms by (auto simp: ordered_augment_primary Let_def same_model_def)

text \<open>The candidates visited from a candidate on, when every visit fails: the functional
  specification of the walk, for chains that name no candidate twice.\<close>

fun walk_from :: "provider_candidate list \<Rightarrow> provider_candidate \<Rightarrow> provider_candidate list" where
  "walk_from [] c = []"
| "walk_from (d # ds) c = (if d = c then d # ds else walk_from ds c)"

lemma walk_from_primary: "walk_from (ordered_candidates chain) (fc_primary chain) = ordered_candidates chain"
  by (simp add: ordered_candidates_def)

lemma walk_from_nth: "distinct xs \<Longrightarrow> i < length xs \<Longrightarrow> walk_from xs (xs ! i) = drop i xs"
proof (induction xs arbitrary: i)
  case Nil
  then show ?case by simp
next
  case (Cons x xs)
  then show ?case by (cases i) auto
qed

lemma walk_from_mem_iff: "walk_from xs c \<noteq> [] \<longleftrightarrow> c \<in> set xs"
  by (induction xs) auto

lemma walk_from_hd: "c \<in> set xs \<Longrightarrow> \<exists>ys. walk_from xs c = c # ys"
  by (induction xs) auto

text \<open>One step of the code is one step of the walk.\<close>

lemma walk_step:
  assumes "distinct (ordered_candidates chain)" and "c \<in> set (ordered_candidates chain)"
  shows "walk_from (ordered_candidates chain) c =
    c # (case ofr_next_candidate (on_provider_failure c chain) of
           None \<Rightarrow> [] | Some d \<Rightarrow> walk_from (ordered_candidates chain) d)"
proof -
  let ?xs = "ordered_candidates chain"
  obtain i where i: "i < length ?xs" "c = ?xs ! i" using assms(2) by (metis in_set_conv_nth)
  have "walk_from ?xs c = drop i ?xs" using walk_from_nth [OF assms(1) i(1)] i(2) by simp
  also have "\<dots> = c # drop (Suc i) ?xs" using i by (simp add: Cons_nth_drop_Suc)
  finally show ?thesis
    using on_provider_failure_next [OF assms(1) i(1)] walk_from_nth [OF assms(1), of "Suc i"] i
    by (cases "Suc i < length ?xs") simp_all
qed

end
