(* ===== verification/Engine_Classes.thy ===== *)
theory Engine_Classes
  imports Prelude
begin

text \<open>
  \<open>harness_cp/engine_class.py\<close>, \<open>engine_namespace.py\<close> and \<open>resumption_kind.py\<close>: the five workflow
  engine classes with the replay disposition and the resumption kind each one maps to.
\<close>

datatype engine_class =
    EVENT_SOURCED_REPLAY | SAVE_POINT_CHECKPOINT | PURE_PATTERN_NO_ENGINE | RECONCILER_LOOP | WAL_SEGMENT

datatype replay_disposition =
    DETERMINISTIC_REPLAY | CHECKPOINT_RESUME | NO_REPLAY | RECONCILER_ITERATION | WAL_CONSUME

fun REPLAY_DISPOSITION_MAPPING :: "engine_class \<Rightarrow> replay_disposition" where
  "REPLAY_DISPOSITION_MAPPING EVENT_SOURCED_REPLAY = DETERMINISTIC_REPLAY"
| "REPLAY_DISPOSITION_MAPPING SAVE_POINT_CHECKPOINT = CHECKPOINT_RESUME"
| "REPLAY_DISPOSITION_MAPPING PURE_PATTERN_NO_ENGINE = NO_REPLAY"
| "REPLAY_DISPOSITION_MAPPING RECONCILER_LOOP = RECONCILER_ITERATION"
| "REPLAY_DISPOSITION_MAPPING WAL_SEGMENT = WAL_CONSUME"

datatype resumption_kind =
    ENGINE_REPLAY | SAVE_POINT_RESUME | JOURNAL_RESUME | RECONCILER_CONVERGE | SEGMENT_REPLAY

fun resumption_kind_for :: "engine_class \<Rightarrow> resumption_kind" where
  "resumption_kind_for EVENT_SOURCED_REPLAY = ENGINE_REPLAY"
| "resumption_kind_for SAVE_POINT_CHECKPOINT = SAVE_POINT_RESUME"
| "resumption_kind_for PURE_PATTERN_NO_ENGINE = JOURNAL_RESUME"
| "resumption_kind_for RECONCILER_LOOP = RECONCILER_CONVERGE"
| "resumption_kind_for WAL_SEGMENT = SEGMENT_REPLAY"

declare REPLAY_DISPOSITION_MAPPING.simps [data_simps] resumption_kind_for.simps [data_simps]

text \<open>Both tables are one-to-one, so the disposition or the kind on a span names the engine class.\<close>

lemma replay_disposition_inj: "inj REPLAY_DISPOSITION_MAPPING"
proof (rule injI)
  fix a b
  show "REPLAY_DISPOSITION_MAPPING a = REPLAY_DISPOSITION_MAPPING b \<Longrightarrow> a = b" by (cases a; cases b) simp_all
qed

lemma resumption_kind_inj: "inj resumption_kind_for"
proof (rule injI)
  fix a b
  show "resumption_kind_for a = resumption_kind_for b \<Longrightarrow> a = b" by (cases a; cases b) simp_all
qed

end
