(* ===== verification/Routing.thy ===== *)
theory Routing
  imports Fallback_Chain Sandbox_Tiers Engine_Classes "HOL-Library.List_Lexorder"
begin

text \<open>
  The routing core of \<open>harness_cp\<close>: \<open>routing_layer.py\<close>, \<open>layer_budget.py\<close>,
  \<open>layered_routing_strategy.py\<close>, \<open>fall_through_procedure.py\<close>, \<open>routing_manifest_residence.py\<close> and
  \<open>routing_core_surface.py\<close>. The layer decision functions, the injected Layer-3 router and the
  provider dispatch are callables the caller supplies: arguments of the definitions. The file
  system and pydantic parsing of the manifest are not modelled.
\<close>

section \<open>Layers and budgets\<close>

datatype routing_layer = DECLARATIVE | EMBEDDING | LLM_AS_ROUTER

fun routing_layer_value :: "routing_layer \<Rightarrow> string" where
  "routing_layer_value DECLARATIVE = ''manifest''"
| "routing_layer_value EMBEDDING = ''embedding''"
| "routing_layer_value LLM_AS_ROUTER = ''llm_as_router''"

definition LAYER_ORDER :: "routing_layer list" where
  "LAYER_ORDER = [DECLARATIVE, EMBEDDING, LLM_AS_ROUTER]"

record layer_budget =
  lb_layer :: routing_layer
  lb_time_budget_ms :: int
  lb_per_workload_override :: "(workload_class \<rightharpoonup> int) option"
  lb_per_persona_override :: "(persona_tier \<rightharpoonup> int) option"

definition default_budget :: "routing_layer \<Rightarrow> int \<Rightarrow> layer_budget" where
  "default_budget layer ms =
     \<lparr>lb_layer = layer, lb_time_budget_ms = ms, lb_per_workload_override = None,
      lb_per_persona_override = None\<rparr>"

definition DEFAULT_LAYER_BUDGETS :: "layer_budget list" where
  "DEFAULT_LAYER_BUDGETS =
     [default_budget DECLARATIVE 5, default_budget EMBEDDING 50, default_budget LLM_AS_ROUTER 200]"

text \<open>The override precedence that \<open>effective_budget\<close> and \<open>effective_layer_budget_ms\<close> share.\<close>

definition budget_ms :: "layer_budget \<Rightarrow> workload_class \<Rightarrow> persona_tier \<Rightarrow> int" where
  "budget_ms budget workload persona =
     (case Option.bind (lb_per_workload_override budget) (\<lambda>m. m workload) of
        Some ms \<Rightarrow> ms
      | None \<Rightarrow>
          (case Option.bind (lb_per_persona_override budget) (\<lambda>m. m persona) of
             Some ms \<Rightarrow> ms
           | None \<Rightarrow> lb_time_budget_ms budget))"

text \<open>\<open>_budget_for_layer\<close>: \<open>None\<close> stands for \<open>KeyError\<close>.\<close>

definition budget_for_layer :: "routing_layer \<Rightarrow> layer_budget option" where
  "budget_for_layer layer = find (\<lambda>b. lb_layer b = layer) DEFAULT_LAYER_BUDGETS"

definition effective_budget :: "routing_layer \<Rightarrow> workload_class \<Rightarrow> persona_tier \<Rightarrow> int option" where
  "effective_budget layer workload persona =
     map_option (\<lambda>b. budget_ms b workload persona) (budget_for_layer layer)"

definition resolve_layer_budget :: "layer_budget list \<Rightarrow> routing_layer \<Rightarrow> layer_budget option" where
  "resolve_layer_budget budgets layer =
     (case find (\<lambda>b. lb_layer b = layer) budgets of
        Some b \<Rightarrow> Some b
      | None \<Rightarrow> find (\<lambda>b. lb_layer b = layer) DEFAULT_LAYER_BUDGETS)"

definition effective_layer_budget_ms ::
  "layer_budget list \<Rightarrow> routing_layer \<Rightarrow> workload_class \<Rightarrow> persona_tier \<Rightarrow> int" where
  "effective_layer_budget_ms budgets layer workload persona =
     (case resolve_layer_budget budgets layer of
        None \<Rightarrow> 200
      | Some b \<Rightarrow> budget_ms b workload persona)"

section \<open>The layered strategy\<close>

record routing_decision_trace =
  rdt_layer :: string
  rdt_candidate :: pystr
  rdt_decision_ms :: int
  rdt_budget_exhausted :: bool

text \<open>The loop of \<open>route\<close> over the remaining layers, with the flag \<open>any_budget_exhausted\<close>. A decision
  function maps the request and the manifest to a candidate or to \<open>None\<close>.\<close>

fun route_layers ::
  "(routing_layer \<rightharpoonup> ('req \<Rightarrow> 'man \<Rightarrow> pystr option)) \<Rightarrow> (routing_layer \<Rightarrow> bool) \<Rightarrow> 'req \<Rightarrow> 'man
   \<Rightarrow> bool \<Rightarrow> routing_layer list \<Rightarrow> routing_decision_trace" where
  "route_layers decisions exhausted req man any_exhausted [] =
     \<lparr>rdt_layer = routing_layer_value LLM_AS_ROUTER, rdt_candidate = [], rdt_decision_ms = 0,
      rdt_budget_exhausted = any_exhausted\<rparr>"
| "route_layers decisions exhausted req man any_exhausted (layer # layers) =
     (if exhausted layer then route_layers decisions exhausted req man True layers
      else case decisions layer of
             None \<Rightarrow> route_layers decisions exhausted req man any_exhausted layers
           | Some decide \<Rightarrow>
               (case decide req man of
                  Some candidate \<Rightarrow>
                    \<lparr>rdt_layer = routing_layer_value layer, rdt_candidate = candidate,
                     rdt_decision_ms = 0, rdt_budget_exhausted = any_exhausted\<rparr>
                | None \<Rightarrow> route_layers decisions exhausted req man any_exhausted layers))"

definition route ::
  "'req \<Rightarrow> 'man \<Rightarrow> (routing_layer \<rightharpoonup> ('req \<Rightarrow> 'man \<Rightarrow> pystr option)) \<Rightarrow> (routing_layer \<Rightarrow> bool)
   \<Rightarrow> routing_decision_trace" where
  "route req man decisions exhausted = route_layers decisions exhausted req man False LAYER_ORDER"

datatype fall_through_cause = TIME_BUDGET_EXCEEDED | CAPABILITY_SHORTFALL | FT_BREAKER_OPEN | RATE_LIMIT_STORM

record fall_through_result =
  ftr_triggered_at_layer :: routing_layer
  ftr_fall_cause :: "fall_through_cause option"
  ftr_next_layer :: "routing_layer option"
  ftr_emit_fallback_event :: bool

text \<open>\<open>fall_through\<close>; \<open>None\<close> would be the \<open>ValueError\<close> of \<open>index\<close>, which the total layer order excludes.\<close>

definition fall_through :: "routing_layer \<Rightarrow> fall_through_cause option \<Rightarrow> fall_through_result option" where
  "fall_through current cause =
     map_option (\<lambda>idx.
       \<lparr>ftr_triggered_at_layer = current, ftr_fall_cause = cause,
        ftr_next_layer = (if idx + 1 < length LAYER_ORDER then Some (LAYER_ORDER ! (idx + 1)) else None),
        ftr_emit_fallback_event = (cause \<noteq> None)\<rparr>)
     (py_index LAYER_ORDER current)"

section \<open>The routing manifest\<close>

record model_binding =
  mb_provider :: pystr
  mb_model :: pystr

record role_routing_binding =
  rrb_preferred_model_binding :: model_binding
  rrb_layer_budget_overrides :: "routing_layer \<rightharpoonup> int"
  rrb_fallback_chain_ref :: "pystr option"

record workload_routing_override =
  wro_engine_class_override :: "engine_class option"
  wro_sandbox_tier_override :: "sandbox_tier option"
  wro_model_binding_override :: "model_binding option"

record retry_policy =
  rp_max_attempts :: int
  rp_backoff :: pystr
  rp_jitter :: pystr

text \<open>Dictionaries whose order shows (\<open>.values ()\<close>, the first reserved key found) are association lists
  in insertion order.\<close>

record routing_manifest =
  rm_manifest_version :: int
  rm_per_role_bindings :: "(pystr \<times> role_routing_binding) list"
  rm_per_workload_overrides :: "(workload_class \<times> workload_routing_override) list"
  rm_fallback_chains :: "fallback_chain list"
  rm_retry_policies :: "(pystr \<times> retry_policy) list"

definition RESERVED_LLM_DISPATCH_KEY :: pystr where
  "RESERVED_LLM_DISPATCH_KEY = lit ''llm_dispatch''"

datatype manifest_error = RoutingManifestValidationError | ReservedToolNameError pystr

text \<open>\<open>validate_routing_manifest\<close>: the invalid version is returned as a value and the reserved name is
  raised; both are errors here.\<close>

definition validate_routing_manifest :: "routing_manifest \<Rightarrow> manifest_error + unit" where
  "validate_routing_manifest m =
     (if rm_manifest_version m < 1 then Inl RoutingManifestValidationError
      else case py_next (\<lambda>k. k = RESERVED_LLM_DISPATCH_KEY) (map fst (rm_retry_policies m)) of
             Some k \<Rightarrow> Inl (ReservedToolNameError k)
           | None \<Rightarrow> Inr ())"

definition candidate_set_summary :: "routing_manifest \<Rightarrow> pystr" where
  "candidate_set_summary m =
     py_join (lit '', '') (sort (remdups
       (map (\<lambda>(r, b). mb_provider (rrb_preferred_model_binding b) @ lit '':'' @
                      mb_model (rrb_preferred_model_binding b)) (rm_per_role_bindings m))))"

section \<open>Selecting a candidate\<close>

record 'payload inference_request =
  irq_agent_role :: pystr
  irq_workload_class :: workload_class
  irq_persona_tier :: persona_tier
  irq_context_tokens :: int
  irq_request_payload :: 'payload

record router_resolution =
  rre_candidate :: pystr
  rre_rationale :: pystr

text \<open>What awaiting the injected router within a budget can do: answer (with the milliseconds the clock
  shows), run into the timeout, or raise.\<close>

datatype 'e router_outcome =
    Router_Resolved router_resolution int
  | Router_Timeout
  | Router_Raised 'e

datatype 'e routing_error = RoutingCandidateUnresolvedError | RouterFailure 'e

definition well_formed_candidate :: "pystr \<Rightarrow> bool" where
  "well_formed_candidate s =
     (case py_partition (of_char CHR '':'') s of (provider, sep, model) \<Rightarrow> sep \<and> provider \<noteq> [] \<and> model \<noteq> [])"

definition resolve_routing_trace ::
  "'p inference_request \<Rightarrow> routing_manifest \<Rightarrow> (routing_layer \<rightharpoonup> ('p \<Rightarrow> routing_manifest \<Rightarrow> pystr option))
   \<Rightarrow> layer_budget list \<Rightarrow> (routing_layer \<Rightarrow> bool)
   \<Rightarrow> ('p inference_request \<Rightarrow> pystr \<Rightarrow> int \<Rightarrow> 'e router_outcome) option
   \<Rightarrow> 'e routing_error + routing_decision_trace \<times> pystr option" where
  "resolve_routing_trace req man decisions budgets exhausted router =
     (let trace = route (irq_request_payload req) man decisions exhausted;
          checked = (\<lambda>t rationale. if well_formed_candidate (rdt_candidate t) then Inr (t, rationale)
                                   else Inl RoutingCandidateUnresolvedError)
      in if rdt_candidate trace = [] \<and> rdt_layer trace = routing_layer_value LLM_AS_ROUTER
         then case router of
                None \<Rightarrow> Inl RoutingCandidateUnresolvedError
              | Some call \<Rightarrow>
                  if exhausted LLM_AS_ROUTER then Inl RoutingCandidateUnresolvedError
                  else (case call req (candidate_set_summary man)
                               (effective_layer_budget_ms budgets LLM_AS_ROUTER (irq_workload_class req)
                                  (irq_persona_tier req)) of
                          Router_Timeout \<Rightarrow> Inl RoutingCandidateUnresolvedError
                        | Router_Raised e \<Rightarrow> Inl (RouterFailure e)
                        | Router_Resolved r ms \<Rightarrow>
                            checked \<lparr>rdt_layer = routing_layer_value LLM_AS_ROUTER,
                                     rdt_candidate = rre_candidate r, rdt_decision_ms = ms,
                                     rdt_budget_exhausted = rdt_budget_exhausted trace\<rparr>
                                    (Some (rre_rationale r)))
         else checked trace None)"

text \<open>\<open>infer\<close>: select, then dispatch once. The dispatch callable sees provider, model, payload, trace and
  the optional rationale; the response repeats the pair it was given.\<close>

record 'payload provider_dispatch_result =
  pdr_response_payload :: 'payload
  pdr_tokens_in :: int
  pdr_tokens_out :: int
  pdr_cached_tokens_in :: int

record 'payload inference_response =
  irs_provider_used :: pystr
  irs_model_used :: pystr
  irs_routing_decision :: routing_decision_trace
  irs_response_payload :: 'payload
  irs_tokens_in :: int
  irs_tokens_out :: int
  irs_cached_tokens_in :: int

definition infer ::
  "'p inference_request
   \<Rightarrow> (pystr \<Rightarrow> pystr \<Rightarrow> 'p \<Rightarrow> routing_decision_trace \<Rightarrow> pystr option \<Rightarrow> 'e + 'r provider_dispatch_result)
   \<Rightarrow> routing_manifest \<Rightarrow> (routing_layer \<rightharpoonup> ('p \<Rightarrow> routing_manifest \<Rightarrow> pystr option)) \<Rightarrow> layer_budget list
   \<Rightarrow> (routing_layer \<Rightarrow> bool) \<Rightarrow> ('p inference_request \<Rightarrow> pystr \<Rightarrow> int \<Rightarrow> 'e router_outcome) option
   \<Rightarrow> 'e routing_error + 'r inference_response" where
  "infer req dispatch man decisions budgets exhausted router =
     raise_bind (resolve_routing_trace req man decisions budgets exhausted router)
       (\<lambda>(trace, rationale).
         case py_partition (of_char CHR '':'') (rdt_candidate trace) of
           (provider, sep, model) \<Rightarrow>
             (case dispatch provider model (irq_request_payload req) trace rationale of
                Inl e \<Rightarrow> Inl (RouterFailure e)
              | Inr r \<Rightarrow> Inr
                  \<lparr>irs_provider_used = provider, irs_model_used = model, irs_routing_decision = trace,
                   irs_response_payload = pdr_response_payload r, irs_tokens_in = pdr_tokens_in r,
                   irs_tokens_out = pdr_tokens_out r, irs_cached_tokens_in = pdr_cached_tokens_in r\<rparr>))"

section \<open>What the selection guarantees\<close>

text \<open>A layer decides when it has budget left and its decision function names a candidate.\<close>

definition layer_candidate ::
  "(routing_layer \<rightharpoonup> ('req \<Rightarrow> 'man \<Rightarrow> pystr option)) \<Rightarrow> (routing_layer \<Rightarrow> bool) \<Rightarrow> 'req \<Rightarrow> 'man
   \<Rightarrow> routing_layer \<Rightarrow> pystr option" where
  "layer_candidate decisions exhausted req man layer =
     (if exhausted layer then None else Option.bind (decisions layer) (\<lambda>d. d req man))"

lemma route_layers_step:
  "route_layers decisions exhausted req man b (l # ls) =
   (case layer_candidate decisions exhausted req man l of
      Some c \<Rightarrow> \<lparr>rdt_layer = routing_layer_value l, rdt_candidate = c, rdt_decision_ms = 0,
                 rdt_budget_exhausted = b\<rparr>
    | None \<Rightarrow> route_layers decisions exhausted req man (b \<or> exhausted l) ls)"
  by (simp add: layer_candidate_def split: option.split)

lemma route_layers_first:
  "route_layers decisions exhausted req man b layers =
   (let decides = (\<lambda>l. layer_candidate decisions exhausted req man l \<noteq> None);
        skipped = takeWhile (\<lambda>l. \<not> decides l) layers
    in case dropWhile (\<lambda>l. \<not> decides l) layers of
         [] \<Rightarrow> \<lparr>rdt_layer = routing_layer_value LLM_AS_ROUTER, rdt_candidate = [], rdt_decision_ms = 0,
               rdt_budget_exhausted = b \<or> list_ex exhausted skipped\<rparr>
       | l # _ \<Rightarrow> \<lparr>rdt_layer = routing_layer_value l,
                  rdt_candidate = the (layer_candidate decisions exhausted req man l), rdt_decision_ms = 0,
                  rdt_budget_exhausted = b \<or> list_ex exhausted skipped\<rparr>)"
proof (induction layers arbitrary: b)
  case Nil
  then show ?case by simp
next
  case (Cons l ls)
  show ?case
    by (cases "layer_candidate decisions exhausted req man l")
      (simp_all add: route_layers_step Cons.IH Let_def disj_assoc del: route_layers.simps(2) dropWhile_eq_Nil_conv
        split: list.split)
qed

lemma well_formed_candidate_split:
  assumes "well_formed_candidate s"
  shows "\<exists>provider model. provider \<noteq> [] \<and> model \<noteq> [] \<and> of_char CHR '':'' \<notin> set provider \<and>
           s = provider @ of_char CHR '':'' # model \<and>
           py_partition (of_char CHR '':'') s = (provider, True, model)"
  using assms py_partition_found unfolding well_formed_candidate_def by (auto split: prod.splits)

lemma resolve_routing_trace_wf:
  assumes "resolve_routing_trace req man decisions budgets exhausted router = Inr (trace, rationale)"
  shows "well_formed_candidate (rdt_candidate trace)"
  using assms
  by (auto simp: resolve_routing_trace_def Let_def split: if_splits option.splits router_outcome.splits)

lemma resolve_routing_trace_source:
  assumes "resolve_routing_trace req man decisions budgets exhausted router = Inr (trace, rationale)"
  shows "trace = route (irq_request_payload req) man decisions exhausted \<and> rationale = None \<or>
    (\<exists>call r ms. router = Some call \<and> \<not> exhausted LLM_AS_ROUTER \<and>
       call req (candidate_set_summary man)
         (effective_layer_budget_ms budgets LLM_AS_ROUTER (irq_workload_class req) (irq_persona_tier req))
         = Router_Resolved r ms \<and>
       rdt_candidate (route (irq_request_payload req) man decisions exhausted) = [] \<and>
       rdt_candidate trace = rre_candidate r \<and> rationale = Some (rre_rationale r))"
  using assms
  by (auto simp: resolve_routing_trace_def Let_def split: if_splits option.splits router_outcome.splits)

section \<open>Properties\<close>

text \<open>Property C20. The layered strategy answers with the first layer, in the order manifest, embedding,
  LLM router, that has budget left and names a candidate; it reports an exhausted budget exactly
  when a layer it passed over was out of budget, and hands out the empty sentinel when no layer
  decides.\<close>

theorem route_picks_first_layer:
  "route req man decisions exhausted =
   (let decides = (\<lambda>l. layer_candidate decisions exhausted req man l \<noteq> None);
        skipped = takeWhile (\<lambda>l. \<not> decides l) [DECLARATIVE, EMBEDDING, LLM_AS_ROUTER]
    in case find decides [DECLARATIVE, EMBEDDING, LLM_AS_ROUTER] of
         None \<Rightarrow> \<lparr>rdt_layer = ''llm_as_router'', rdt_candidate = [], rdt_decision_ms = 0,
               rdt_budget_exhausted = list_ex exhausted skipped\<rparr>
       | Some l \<Rightarrow> \<lparr>rdt_layer = routing_layer_value l,
                  rdt_candidate = the (layer_candidate decisions exhausted req man l), rdt_decision_ms = 0,
                  rdt_budget_exhausted = list_ex exhausted skipped\<rparr>)"
  unfolding route_def route_layers_first LAYER_ORDER_def Let_def
  by (auto split: list.splits)

text \<open>A provider is only ever called with a provider and a model that are both non-empty
  and that together spell the selected candidate, and the response repeats that pair; the router's
  rationale travels along exactly when the deterministic layers found nothing and the router
  answered within budget.\<close>

theorem infer_response_consistent:
  assumes "infer req dispatch man decisions budgets exhausted router = Inr resp"
  shows "irs_provider_used resp \<noteq> [] \<and> irs_model_used resp \<noteq> [] \<and>
    rdt_candidate (irs_routing_decision resp)
      = irs_provider_used resp @ of_char CHR '':'' # irs_model_used resp \<and>
    (\<exists>rationale r. resolve_routing_trace req man decisions budgets exhausted router
        = Inr (irs_routing_decision resp, rationale) \<and>
      dispatch (irs_provider_used resp) (irs_model_used resp) (irq_request_payload req)
        (irs_routing_decision resp) rationale = Inr r \<and>
      (rationale = None \<or>
        rdt_candidate (route (irq_request_payload req) man decisions exhausted) = [] \<and>
        router \<noteq> None \<and> \<not> exhausted LLM_AS_ROUTER))"
proof -
  from assms obtain trace rationale where t:
    "resolve_routing_trace req man decisions budgets exhausted router = Inr (trace, rationale)"
    by (auto simp: infer_def raise_bind_Inr_iff)
  obtain provider model where pm: "provider \<noteq> []" "model \<noteq> []"
    "rdt_candidate trace = provider @ of_char CHR '':'' # model"
    "py_partition (of_char CHR '':'') (rdt_candidate trace) = (provider, True, model)"
    using well_formed_candidate_split [OF resolve_routing_trace_wf [OF t]] by blast
  from assms t pm(4) obtain r where r:
    "dispatch provider model (irq_request_payload req) trace rationale = Inr r"
    "irs_provider_used resp = provider" "irs_model_used resp = model" "irs_routing_decision resp = trace"
    by (auto simp: infer_def split: sum.splits)
  show ?thesis using t pm r resolve_routing_trace_source [OF t] by auto
qed

lemma infer_response_consistent_witness:
  "\<exists>resp. infer \<lparr>irq_agent_role = lit ''default'', irq_workload_class = RESEARCH,
        irq_persona_tier = SOLO_DEVELOPER, irq_context_tokens = 10, irq_request_payload = ()\<rparr>
     (\<lambda>p m payload t r. (Inr \<lparr>pdr_response_payload = (), pdr_tokens_in = 1, pdr_tokens_out = 2,
        pdr_cached_tokens_in = 0\<rparr> :: unit + unit provider_dispatch_result))
     \<lparr>rm_manifest_version = 1, rm_per_role_bindings = [], rm_per_workload_overrides = [],
      rm_fallback_chains = [], rm_retry_policies = []\<rparr>
     [EMBEDDING \<mapsto> (\<lambda>p m. Some (lit ''ollama:llama3''))] DEFAULT_LAYER_BUDGETS (\<lambda>l. l = DECLARATIVE) None
   = Inr resp \<and> irs_provider_used resp \<noteq> [] \<and> irs_model_used resp \<noteq> []"
  (is "\<exists>resp. infer ?req ?dispatch ?man ?decisions ?budgets ?exhausted None = Inr resp \<and> _ resp")
proof -
  obtain resp where resp: "infer ?req ?dispatch ?man ?decisions ?budgets ?exhausted None = Inr resp"
    by (simp add: infer_def resolve_routing_trace_def Let_def well_formed_candidate_def route_def LAYER_ORDER_def)
  then show ?thesis using infer_response_consistent [OF resp] by blast
qed

end
