(* ===== verification/Staircase.thy ===== *)
theory Staircase
  imports Prelude
begin

text \<open>
  \<open>harness_cp/validator_fail_taxonomy.py\<close> and \<open>harness_cp/validator_fail_transient_staircase.py\<close>: the
  five validator-fail classes, their permanence, the five-stage recovery staircase with its
  transition table, and the response palette that a cross-trust-boundary state leaves. Routing and
  rationale prose of the tables is not carried.
\<close>

datatype validator_retry_exit_class =
    TRANSIENT_RETRY | REFLEXION_RECOVERABLE | HITL_RECOVERABLE | PERMANENT_FAIL_EXIT | TERMINAL_FAIL_EXIT

definition PERMANENT_CLASSES :: "validator_retry_exit_class list" where
  "PERMANENT_CLASSES = [PERMANENT_FAIL_EXIT, TERMINAL_FAIL_EXIT]"

definition validator_fail_permanence :: "validator_retry_exit_class \<Rightarrow> string" where
  "validator_fail_permanence c = (if c \<in> set PERMANENT_CLASSES then ''permanent'' else ''transient'')"

section \<open>The staircase\<close>

datatype staircase_stage =
    STAGE_1_REFLEXION | STAGE_2_RETRY_WITH_BACKOFF | STAGE_3_CROSS_FAMILY_FALLBACK
  | STAGE_4_LOCAL_TERMINAL | STAGE_5_HITL_ESCALATION

record staircase_transition =
  sct_from_stage :: staircase_stage
  sct_on_cause :: validator_retry_exit_class
  sct_to_stage :: staircase_stage
  sct_preserves_cache_state :: bool
  sct_emits_fallback_event :: bool

definition transition_row ::
  "staircase_stage \<Rightarrow> validator_retry_exit_class \<Rightarrow> staircase_stage \<Rightarrow> bool \<Rightarrow> bool \<Rightarrow> staircase_transition" where
  "transition_row from cause to cache event =
     \<lparr>sct_from_stage = from, sct_on_cause = cause, sct_to_stage = to,
      sct_preserves_cache_state = cache, sct_emits_fallback_event = event\<rparr>"

definition STAIRCASE_CLASSES :: "validator_retry_exit_class list" where
  "STAIRCASE_CLASSES = [TRANSIENT_RETRY, REFLEXION_RECOVERABLE]"

definition SKIP_STAIRCASE_CLASSES :: "validator_retry_exit_class list" where
  "SKIP_STAIRCASE_CLASSES = [PERMANENT_FAIL_EXIT, TERMINAL_FAIL_EXIT, HITL_RECOVERABLE]"

definition TRANSIENT_STAIRCASE_TRANSITIONS :: "staircase_transition list" where
  "TRANSIENT_STAIRCASE_TRANSITIONS =
     [transition_row STAGE_1_REFLEXION REFLEXION_RECOVERABLE STAGE_2_RETRY_WITH_BACKOFF True False,
      transition_row STAGE_1_REFLEXION TRANSIENT_RETRY STAGE_2_RETRY_WITH_BACKOFF True False,
      transition_row STAGE_2_RETRY_WITH_BACKOFF TRANSIENT_RETRY STAGE_3_CROSS_FAMILY_FALLBACK False True,
      transition_row STAGE_2_RETRY_WITH_BACKOFF REFLEXION_RECOVERABLE STAGE_3_CROSS_FAMILY_FALLBACK False True,
      transition_row STAGE_3_CROSS_FAMILY_FALLBACK TRANSIENT_RETRY STAGE_4_LOCAL_TERMINAL False True,
      transition_row STAGE_3_CROSS_FAMILY_FALLBACK REFLEXION_RECOVERABLE STAGE_4_LOCAL_TERMINAL False True,
      transition_row STAGE_4_LOCAL_TERMINAL TRANSIENT_RETRY STAGE_5_HITL_ESCALATION False False,
      transition_row STAGE_4_LOCAL_TERMINAL REFLEXION_RECOVERABLE STAGE_5_HITL_ESCALATION False False]"

text \<open>The dictionary \<open>_TRANSITION_INDEX\<close>; no key occurs twice, so the first match is the entry.\<close>

definition transition_index ::
  "staircase_stage \<Rightarrow> validator_retry_exit_class \<Rightarrow> staircase_transition option" where
  "transition_index stage cause =
     find (\<lambda>t. sct_from_stage t = stage \<and> sct_on_cause t = cause) TRANSIENT_STAIRCASE_TRANSITIONS"

datatype staircase_error = StaircaseError

definition advance_staircase ::
  "staircase_stage \<Rightarrow> validator_retry_exit_class \<Rightarrow> int \<Rightarrow> staircase_error + staircase_transition" where
  "advance_staircase current cause attempt =
     (if cause \<in> set SKIP_STAIRCASE_CLASSES
      then Inr (transition_row current cause STAGE_5_HITL_ESCALATION False False)
      else case transition_index current cause of
             None \<Rightarrow> Inl StaircaseError
           | Some t \<Rightarrow> Inr t)"

section \<open>The response palette\<close>

datatype hitl_response = APPROVE | EDIT | REJECT | RESPOND

datatype cross_trust_boundary_state =
    CT_NONE | CROSS_FAMILY_ACTIVE | LOCAL_TERMINAL_ACTIVE | UNTRUSTED_MCP_ACTIVE

definition FULL_PALETTE :: "hitl_response list" where
  "FULL_PALETTE = [APPROVE, EDIT, REJECT, RESPOND]"

definition RESTRICTED_PALETTE :: "hitl_response list" where
  "RESTRICTED_PALETTE = [REJECT, RESPOND]"

fun compute_restricted_palette :: "cross_trust_boundary_state \<Rightarrow> hitl_response list" where
  "compute_restricted_palette CT_NONE = FULL_PALETTE"
| "compute_restricted_palette CROSS_FAMILY_ACTIVE = RESTRICTED_PALETTE"
| "compute_restricted_palette LOCAL_TERMINAL_ACTIVE = RESTRICTED_PALETTE"
| "compute_restricted_palette UNTRUSTED_MCP_ACTIVE = RESTRICTED_PALETTE"

section \<open>Runs of the staircase\<close>

lemmas staircase_defs = advance_staircase_def transition_index_def TRANSIENT_STAIRCASE_TRANSITIONS_def
  SKIP_STAIRCASE_CLASSES_def transition_row_def

declare staircase_defs [data_simps]

fun stage_rank :: "staircase_stage \<Rightarrow> nat" where
  "stage_rank STAGE_1_REFLEXION = 1"
| "stage_rank STAGE_2_RETRY_WITH_BACKOFF = 2"
| "stage_rank STAGE_3_CROSS_FAMILY_FALLBACK = 3"
| "stage_rank STAGE_4_LOCAL_TERMINAL = 4"
| "stage_rank STAGE_5_HITL_ESCALATION = 5"

declare stage_rank.simps [rank_simps]

interpretation stage: ranked stage_rank
proof unfold_locales
  fix a b :: staircase_stage
  show "stage_rank a = stage_rank b \<Longrightarrow> a = b" by (cases a; cases b) simp_all
qed

lemma stage_rank_bounds: "1 \<le> stage_rank s" "stage_rank s \<le> 5"
  by (cases s; simp)+

text \<open>A staircase class climbs exactly one stage; every other class goes to the operator at once.\<close>

lemma advance_staircase_climbs:
  "c \<in> set STAIRCASE_CLASSES \<Longrightarrow> advance_staircase s c n = Inr t \<Longrightarrow>
   stage_rank (sct_to_stage t) = Suc (stage_rank s)"
  by (cases s; cases c) (auto simp: STAIRCASE_CLASSES_def staircase_defs)

lemma advance_staircase_error_iff:
  "advance_staircase s c n = Inl StaircaseError \<longleftrightarrow> s = STAGE_5_HITL_ESCALATION \<and> c \<in> set STAIRCASE_CLASSES"
  by (cases s; cases c) (auto simp: STAIRCASE_CLASSES_def staircase_defs)

lemma advance_staircase_total:
  "s \<noteq> STAGE_5_HITL_ESCALATION \<Longrightarrow> \<exists>t. advance_staircase s c n = Inr t \<and> stage_rank s < stage_rank (sct_to_stage t)"
  by (cases s; cases c) (auto simp: staircase_defs)

lemma staircase_classes_partition:
  "c \<in> set STAIRCASE_CLASSES \<longleftrightarrow> c \<notin> set SKIP_STAIRCASE_CLASSES"
  by (cases c) (auto simp: STAIRCASE_CLASSES_def SKIP_STAIRCASE_CLASSES_def)

text \<open>The stages a sequence of failures visits, until the operator has the step.\<close>

fun climb :: "staircase_stage \<Rightarrow> validator_retry_exit_class list \<Rightarrow> staircase_transition list" where
  "climb s [] = []"
| "climb s (c # cs) =
     (if s = STAGE_5_HITL_ESCALATION then []
      else case advance_staircase s c 0 of Inl e \<Rightarrow> [] | Inr t \<Rightarrow> t # climb (sct_to_stage t) cs)"

lemma climb_length: "length (climb s cs) + stage_rank s \<le> 5"
proof (induction cs arbitrary: s)
  case Nil
  then show ?case by (simp add: stage_rank_bounds)
next
  case (Cons c cs)
  show ?case
  proof (cases "s = STAGE_5_HITL_ESCALATION")
    case True
    then show ?thesis by simp
  next
    case False
    then obtain t where t: "advance_staircase s c 0 = Inr t" "stage_rank s < stage_rank (sct_to_stage t)"
      using advance_staircase_total by blast
    with Cons.IH [of "sct_to_stage t"] False show ?thesis by simp
  qed
qed

lemma climb_reaches_operator:
  "5 \<le> length cs + stage_rank s \<Longrightarrow> s \<noteq> STAGE_5_HITL_ESCALATION \<Longrightarrow>
   climb s cs \<noteq> [] \<and> sct_to_stage (last (climb s cs)) = STAGE_5_HITL_ESCALATION"
proof (induction cs arbitrary: s)
  case Nil
  then show ?case by (cases s) simp_all
next
  case (Cons c cs)
  from Cons.prems(2) obtain t where t: "advance_staircase s c 0 = Inr t"
    "stage_rank s < stage_rank (sct_to_stage t)"
    using advance_staircase_total by blast
  show ?case
  proof (cases "sct_to_stage t = STAGE_5_HITL_ESCALATION")
    case True
    then have "climb (sct_to_stage t) cs = []" by (cases cs) simp_all
    with True Cons.prems(2) t(1) show ?thesis by simp
  next
    case False
    moreover have "5 \<le> length cs + stage_rank (sct_to_stage t)" using Cons.prems(1) t(2) by simp
    ultimately show ?thesis using Cons.IH Cons.prems(2) t(1) by simp
  qed
qed

text \<open>Whatever is preserved on the way is given up when the provider family changes.\<close>

lemma advance_staircase_cache:
  "advance_staircase s c n = Inr t \<Longrightarrow> sct_emits_fallback_event t \<Longrightarrow> \<not> sct_preserves_cache_state t"
  by (cases s; cases c) (auto simp: staircase_defs)

section \<open>Properties\<close>

text \<open>Property C21. From any stage before the last, every failure moves the step strictly up the
  staircase, so at most four failures, of whatever classes, hand it to the operator: a run that
  starts at stage \<open>k\<close> with enough failures ends at the operator after at least one and at most
  \<open>5 - k\<close> transitions, and meets no missing row of the table on the way.\<close>

theorem staircase_ends_at_operator:
  assumes "s \<noteq> STAGE_5_HITL_ESCALATION" and "5 \<le> length cs + stage_rank s"
  shows "sct_to_stage (last (climb s cs)) = STAGE_5_HITL_ESCALATION \<and>
    1 \<le> length (climb s cs) \<and> length (climb s cs) \<le> 5 - stage_rank s"
  using climb_reaches_operator [of cs s] climb_length [of s cs] assms stage_rank_bounds [of s]
  by (auto simp: Suc_le_eq)

lemma staircase_ends_at_operator_witness:
  "sct_to_stage (last (climb STAGE_1_REFLEXION
     [TRANSIENT_RETRY, REFLEXION_RECOVERABLE, PERMANENT_FAIL_EXIT, TRANSIENT_RETRY])) = STAGE_5_HITL_ESCALATION"
  using staircase_ends_at_operator [of STAGE_1_REFLEXION
      "[TRANSIENT_RETRY, REFLEXION_RECOVERABLE, PERMANENT_FAIL_EXIT, TRANSIENT_RETRY]"] by simp

end
