(* ===== verification/Retry_Breaker.thy ===== *)
theory Retry_Breaker
  imports Complex_Main Routing Staircase
begin

text \<open>
  \<open>harness_runtime/lifecycle/retry_breaker.py\<close>: the three-state circuit breaker, the full-jitter delay,
  the registry that owns one breaker per scope and identifier, and its materialisation from the
  manifest. Floats are reals (rounding is not modelled; the overflow of \<open>2 ** attempt\<close> to a float
  is an error value) and the random draw of \<open>uniform\<close> is an argument in \<open>[0, 1]\<close>. The interface a
  dispatcher needs of a breaker is the locale \<open>trip_counter\<close>, interpreted on the model's operations.
\<close>

section \<open>One breaker\<close>

datatype breaker_state = BS_CLOSED | BS_HALF_OPEN | BS_OPEN

datatype breaker_scope = PER_MODEL | PER_PROVIDER

record breaker_transition =
  btr_from_state :: breaker_state
  btr_to_state :: breaker_state
  btr_scope :: breaker_scope
  btr_identifier :: pystr
  btr_trigger_count :: int

record breaker_state_machine =
  bsm_scope :: breaker_scope
  bsm_identifier :: pystr
  bsm_state :: breaker_state
  bsm_fail_count :: int
  bsm_fail_threshold :: int
  bsm_cooldown_seconds :: real

definition transition_of ::
  "breaker_state_machine \<Rightarrow> breaker_state \<Rightarrow> breaker_state \<Rightarrow> int \<Rightarrow> breaker_transition" where
  "transition_of b from to count =
     \<lparr>btr_from_state = from, btr_to_state = to, btr_scope = bsm_scope b,
      btr_identifier = bsm_identifier b, btr_trigger_count = count\<rparr>"

definition record_failure ::
  "breaker_state_machine \<Rightarrow> breaker_transition option \<times> breaker_state_machine" where
  "record_failure b =
     (case bsm_state b of
        BS_OPEN \<Rightarrow> (None, b)
      | BS_HALF_OPEN \<Rightarrow>
          (let b' = b\<lparr>bsm_fail_count := bsm_fail_count b + 1, bsm_state := BS_OPEN\<rparr>
           in (Some (transition_of b' BS_HALF_OPEN BS_OPEN (bsm_fail_count b')), b'))
      | BS_CLOSED \<Rightarrow>
          (let b' = b\<lparr>bsm_fail_count := bsm_fail_count b + 1\<rparr>
           in if bsm_fail_threshold b' \<le> bsm_fail_count b'
              then (Some (transition_of b' BS_CLOSED BS_OPEN (bsm_fail_count b')),
                    b'\<lparr>bsm_state := BS_OPEN\<rparr>)
              else (None, b')))"

definition record_success ::
  "breaker_state_machine \<Rightarrow> breaker_transition option \<times> breaker_state_machine" where
  "record_success b =
     (case bsm_state b of
        BS_HALF_OPEN \<Rightarrow>
          (Some (transition_of b BS_HALF_OPEN BS_CLOSED 0), b\<lparr>bsm_state := BS_CLOSED, bsm_fail_count := 0\<rparr>)
      | BS_CLOSED \<Rightarrow> (None, b\<lparr>bsm_fail_count := 0\<rparr>)
      | BS_OPEN \<Rightarrow> (None, b))"

definition attempt_half_open ::
  "breaker_state_machine \<Rightarrow> breaker_transition option \<times> breaker_state_machine" where
  "attempt_half_open b =
     (if bsm_state b \<noteq> BS_OPEN then (None, b)
      else (Some (transition_of b BS_OPEN BS_HALF_OPEN 0), b\<lparr>bsm_state := BS_HALF_OPEN\<rparr>))"

definition should_attempt :: "breaker_state_machine \<Rightarrow> bool" where
  "should_attempt b \<longleftrightarrow> bsm_state b \<noteq> BS_OPEN"

lemmas breaker_ops = record_failure_def record_success_def attempt_half_open_def

section \<open>What a breaker promises\<close>

text \<open>A run of failures (\<open>True\<close>) and successes (\<open>False\<close>) contains \<open>n\<close> failures in a row, \<open>c\<close> of which may
  have happened before it.\<close>

fun trips :: "nat \<Rightarrow> nat \<Rightarrow> bool list \<Rightarrow> bool" where
  "trips n c [] = False"
| "trips n c (True # es) = (n \<le> Suc c \<or> trips n (Suc c) es)"
| "trips n c (False # es) = trips n 0 es"

lemma run_after_success:
  assumes "c < n" and "replicate c True @ False # es = pre @ replicate n True @ post"
  shows "\<exists>pre' post'. es = pre' @ replicate n True @ post'"
proof -
  have "c < length pre"
  proof (rule ccontr)
    assume "\<not> c < length pre"
    moreover from this have "c - length pre < n" using assms(1) by simp
    ultimately have "(pre @ replicate n True @ post) ! c" by (simp add: nth_append)
    moreover have "\<not> (replicate c True @ False # es) ! c" by (simp add: nth_append)
    ultimately show False using assms(2) by simp
  qed
  then have "drop (Suc c) (pre @ replicate n True @ post) = drop (Suc c) pre @ replicate n True @ post"
    by simp
  moreover have "drop (Suc c) (replicate c True @ False # es) = es" by simp
  ultimately show ?thesis using assms(2) by metis
qed

lemma trips_iff:
  "c < n \<Longrightarrow> trips n c es \<longleftrightarrow> (\<exists>pre post. replicate c True @ es = pre @ replicate n True @ post)"
proof (induction es arbitrary: c)
  case Nil
  have False if "replicate c True = pre @ replicate n True @ post" for pre post
  proof -
    from that have "length (replicate c True) = length (pre @ replicate n True @ post)" by simp
    with Nil show False by simp
  qed
  then show ?case by auto
next
  case (Cons e es)
  show ?case
  proof (cases e)
    case True
    then have e: "e = True" by simp
    have shift: "replicate c True @ True # es = replicate (Suc c) True @ es"
      by (simp add: replicate_app_Cons_same)
    show ?thesis
    proof (cases "n \<le> Suc c")
      case full: True
      with Cons.prems have "n = Suc c" by simp
      then have "replicate c True @ e # es = [] @ replicate n True @ es" using True shift by simp
      with True full show ?thesis by (metis trips.simps(2))
    next
      case False
      then have "trips n (Suc c) es \<longleftrightarrow> (\<exists>pre post. replicate (Suc c) True @ es = pre @ replicate n True @ post)"
        using Cons.IH [of "Suc c"] by simp
      with False show ?thesis unfolding e shift by simp
    qed
  next
    case False
    have "(\<exists>pre post. es = pre @ replicate n True @ post) \<longleftrightarrow>
        (\<exists>pre post. replicate c True @ False # es = pre @ replicate n True @ post)"
    proof
      assume "\<exists>pre post. es = pre @ replicate n True @ post"
      then obtain pre post where "es = pre @ replicate n True @ post" by blast
      then have "replicate c True @ False # es = (replicate c True @ False # pre) @ replicate n True @ post"
        by simp
      then show "\<exists>pre post. replicate c True @ False # es = pre @ replicate n True @ post" by blast
    qed (use run_after_success [OF Cons.prems] in blast)
    with False Cons.IH [of 0] Cons.prems show ?thesis by simp
  qed
qed

text \<open>The interface: a counter that trips, for good, at the threshold of consecutive failures.\<close>

locale trip_counter =
  fixes failed succeeded :: "'s \<Rightarrow> 's"
    and tripped :: "'s \<Rightarrow> bool"
    and fails threshold :: "'s \<Rightarrow> nat"
    and inv :: "'s \<Rightarrow> bool"
  assumes inv_failed: "inv s \<Longrightarrow> inv (failed s)"
    and inv_succeeded: "inv s \<Longrightarrow> inv (succeeded s)"
    and threshold_failed: "threshold (failed s) = threshold s"
    and threshold_succeeded: "threshold (succeeded s) = threshold s"
    and below: "inv s \<Longrightarrow> \<not> tripped s \<Longrightarrow> fails s < threshold s"
    and trips_at: "inv s \<Longrightarrow> \<not> tripped s \<Longrightarrow> tripped (failed s) \<longleftrightarrow> threshold s \<le> Suc (fails s)"
    and counts: "inv s \<Longrightarrow> \<not> tripped s \<Longrightarrow> \<not> tripped (failed s) \<Longrightarrow> fails (failed s) = Suc (fails s)"
    and resets: "inv s \<Longrightarrow> \<not> tripped s \<Longrightarrow> \<not> tripped (succeeded s) \<and> fails (succeeded s) = 0"
    and absorbs: "tripped s \<Longrightarrow> failed s = s" "tripped s \<Longrightarrow> succeeded s = s"
begin

definition run :: "'s \<Rightarrow> bool list \<Rightarrow> 's" where
  "run s es = fold (\<lambda>e s. if e then failed s else succeeded s) es s"

lemma run_Nil: "run s [] = s"
  by (simp add: run_def)

lemma run_Cons: "run s (e # es) = run (if e then failed s else succeeded s) es"
  by (simp add: run_def)

lemma run_inv: "inv s \<Longrightarrow> inv (run s es)"
  by (induction es arbitrary: s) (auto simp: run_Nil run_Cons inv_failed inv_succeeded)

lemma run_tripped: "tripped s \<Longrightarrow> run s es = s"
  by (induction es) (simp_all add: run_Nil run_Cons absorbs)

lemma run_trips: "inv s \<Longrightarrow> \<not> tripped s \<Longrightarrow> tripped (run s es) \<longleftrightarrow> trips (threshold s) (fails s) es"
proof (induction es arbitrary: s)
  case Nil
  then show ?case by (simp add: run_Nil)
next
  case (Cons e es)
  show ?case
  proof (cases e)
    case True
    show ?thesis
    proof (cases "tripped (failed s)")
      case tr: True
      then show ?thesis using True Cons.prems trips_at by (simp add: run_Cons run_tripped)
    next
      case False
      then show ?thesis
        using True Cons.prems Cons.IH [of "failed s"] trips_at [of s]
        by (simp add: run_Cons inv_failed threshold_failed counts)
    qed
  next
    case False
    then show ?thesis
      using Cons.prems Cons.IH [of "succeeded s"]
      by (simp add: run_Cons inv_succeeded threshold_succeeded resets)
  qed
qed

text \<open>The counter is tripped exactly when some stretch of the history is \<open>threshold\<close> failures long.\<close>

lemma tripped_iff_consecutive:
  assumes "inv s" and "\<not> tripped s" and "fails s = 0"
  shows "tripped (run s es) \<longleftrightarrow> (\<exists>pre post. es = pre @ replicate (threshold s) True @ post)"
  using run_trips [OF assms(1,2)] trips_iff [of "fails s" "threshold s" es] below [OF assms(1,2)] assms(3)
  by simp

end

text \<open>The representation invariant of a breaker: the count stays below the threshold exactly while the
  breaker is closed.\<close>

definition breaker_ok :: "breaker_state_machine \<Rightarrow> bool" where
  "breaker_ok b \<longleftrightarrow> 1 \<le> bsm_fail_threshold b \<and> 0 \<le> bsm_fail_count b \<and>
     (bsm_state b = BS_CLOSED \<longleftrightarrow> bsm_fail_count b < bsm_fail_threshold b)"

lemma breaker_ok_ops:
  assumes "breaker_ok b"
  shows "breaker_ok (snd (record_failure b))" "breaker_ok (snd (record_success b))"
    "breaker_ok (snd (attempt_half_open b))"
  using assms by (auto simp: breaker_ok_def breaker_ops Let_def split: breaker_state.splits)

lemma breaker_ops_frame:
  "bsm_fail_threshold (snd (record_failure b)) = bsm_fail_threshold b"
  "bsm_fail_threshold (snd (record_success b)) = bsm_fail_threshold b"
  "bsm_fail_threshold (snd (attempt_half_open b)) = bsm_fail_threshold b"
  by (auto simp: breaker_ops Let_def split: breaker_state.splits)

lemma breaker_state_cases: "s \<noteq> BS_OPEN \<Longrightarrow> s \<noteq> BS_HALF_OPEN \<Longrightarrow> s = BS_CLOSED"
  by (cases s) simp_all

definition serving_breaker :: "breaker_state_machine \<Rightarrow> bool" where
  "serving_breaker b \<longleftrightarrow> breaker_ok b \<and> bsm_state b \<noteq> BS_HALF_OPEN"

interpretation breaker: trip_counter "\<lambda>b. snd (record_failure b)" "\<lambda>b. snd (record_success b)"
  "\<lambda>b. \<not> should_attempt b" "\<lambda>b. nat (bsm_fail_count b)" "\<lambda>b. nat (bsm_fail_threshold b)" serving_breaker
  by unfold_locales
    (auto simp: serving_breaker_def breaker_ok_def should_attempt_def breaker_ops Let_def
      split: breaker_state.splits if_splits dest: breaker_state_cases)

section \<open>Jittered delay\<close>

datatype jitter_error = NegativeArgument | FloatOverflow

text \<open>\<open>uniform (0, bounded)\<close> is \<open>0 + bounded * draw\<close>; \<open>base * (2 ** attempt)\<close> converts the integer to a
  float, which overflows from \<open>2 ** 1024\<close> on.\<close>

definition compute_full_jitter_delay_seconds ::
  "int \<Rightarrow> real \<Rightarrow> real \<Rightarrow> real \<Rightarrow> jitter_error + real" where
  "compute_full_jitter_delay_seconds attempt base cap draw =
     (if attempt < 0 then Inl NegativeArgument
      else if base < 0 then Inl NegativeArgument
      else if cap < 0 then Inl NegativeArgument
      else if 1024 \<le> attempt then Inl FloatOverflow
      else Inr (min cap (base * 2 ^ nat attempt) * draw))"

section \<open>The registry\<close>

record retry_breaker_registry =
  rbr_retry_policies :: "pystr \<rightharpoonup> retry_policy"
  rbr_default_policy :: retry_policy
  rbr_fail_threshold :: int
  rbr_cooldown_seconds :: real
  rbr_base_delay_seconds :: real
  rbr_delay_cap_seconds :: real
  rbr_breakers :: "breaker_scope \<times> pystr \<rightharpoonup> breaker_state_machine"

definition get_policy :: "retry_breaker_registry \<Rightarrow> pystr \<Rightarrow> retry_policy" where
  "get_policy reg tool_name =
     (case rbr_retry_policies reg tool_name of Some p \<Rightarrow> p | None \<Rightarrow> rbr_default_policy reg)"

definition fresh_breaker :: "retry_breaker_registry \<Rightarrow> breaker_scope \<Rightarrow> pystr \<Rightarrow> breaker_state_machine" where
  "fresh_breaker reg scope identifier =
     \<lparr>bsm_scope = scope, bsm_identifier = identifier, bsm_state = BS_CLOSED, bsm_fail_count = 0,
      bsm_fail_threshold = rbr_fail_threshold reg, bsm_cooldown_seconds = rbr_cooldown_seconds reg\<rparr>"

text \<open>\<open>get_breaker\<close> returns a shared mutable object: the breaker is named by its key, and the operations of
  the object go through \<open>with_breaker\<close>, which writes the new state back under that key.\<close>

definition get_breaker ::
  "breaker_scope \<Rightarrow> pystr \<Rightarrow> retry_breaker_registry \<Rightarrow> breaker_state_machine \<times> retry_breaker_registry" where
  "get_breaker scope identifier reg =
     (case rbr_breakers reg (scope, identifier) of
        Some b \<Rightarrow> (b, reg)
      | None \<Rightarrow>
          (let b = fresh_breaker reg scope identifier
           in (b, reg\<lparr>rbr_breakers := (rbr_breakers reg)((scope, identifier) \<mapsto> b)\<rparr>)))"

definition with_breaker ::
  "(breaker_state_machine \<Rightarrow> 'a \<times> breaker_state_machine) \<Rightarrow> breaker_scope \<Rightarrow> pystr
   \<Rightarrow> retry_breaker_registry \<Rightarrow> 'a \<times> retry_breaker_registry" where
  "with_breaker f scope identifier reg =
     (case get_breaker scope identifier reg of
        (b, reg') \<Rightarrow> (case f b of
          (a, b') \<Rightarrow> (a, reg'\<lparr>rbr_breakers := (rbr_breakers reg')((scope, identifier) \<mapsto> b')\<rparr>)))"

definition compute_delay_seconds :: "retry_breaker_registry \<Rightarrow> int \<Rightarrow> real \<Rightarrow> jitter_error + real" where
  "compute_delay_seconds reg attempt draw =
     compute_full_jitter_delay_seconds attempt (rbr_base_delay_seconds reg) (rbr_delay_cap_seconds reg) draw"

text \<open>\<open>emit_breaker_transition_event\<close> builds the seven-attribute event record of \<open>harness_od\<close>
  (\<open>HarnessBreakerEvent\<close>) and counts the attributes that are present.\<close>

record harness_breaker_event =
  hbe_scope :: breaker_scope
  hbe_from_state :: breaker_state
  hbe_to_state :: breaker_state
  hbe_trigger_count :: int
  hbe_permanent_fail_repeats :: "int option"
  hbe_tool_id :: "pystr option"
  hbe_model_version :: "pystr option"

definition breaker_transition_event ::
  "breaker_transition \<Rightarrow> int option \<Rightarrow> pystr option \<Rightarrow> pystr option \<Rightarrow> harness_breaker_event" where
  "breaker_transition_event t repeats tool_id model_version =
     \<lparr>hbe_scope = btr_scope t, hbe_from_state = btr_from_state t, hbe_to_state = btr_to_state t,
      hbe_trigger_count = btr_trigger_count t, hbe_permanent_fail_repeats = repeats,
      hbe_tool_id = (if tool_id = None \<and> btr_scope t = PER_MODEL then Some (btr_identifier t) else tool_id),
      hbe_model_version = model_version\<rparr>"

definition populated_attribute_count :: "harness_breaker_event \<Rightarrow> nat" where
  "populated_attribute_count e =
     4 + (if hbe_permanent_fail_repeats e = None then 0 else 1) +
     (if hbe_tool_id e = None then 0 else 1) + (if hbe_model_version e = None then 0 else 1)"

datatype retry_breaker_bind_error = RetryBreakerBindError "pystr option" int

definition DEFAULT_LLM_DISPATCH_RETRY_POLICY :: retry_policy where
  "DEFAULT_LLM_DISPATCH_RETRY_POLICY =
     \<lparr>rp_max_attempts = 3, rp_backoff = lit ''full_jitter'', rp_jitter = lit ''full_jitter''\<rparr>"

text \<open>The loop over \<open>manifest.retry_policies.items ()\<close>; a later entry for a name overwrites an earlier one.\<close>

fun bind_policies ::
  "(pystr \<rightharpoonup> retry_policy) \<Rightarrow> (pystr \<times> retry_policy) list
   \<Rightarrow> retry_breaker_bind_error + (pystr \<rightharpoonup> retry_policy)" where
  "bind_policies acc [] = Inr acc"
| "bind_policies acc ((name, p) # ps) =
     (if rp_max_attempts p < 1 then Inl (RetryBreakerBindError (Some name) (rp_max_attempts p))
      else bind_policies (acc(name \<mapsto> p)) ps)"

definition materialize_retry_breaker_stage ::
  "routing_manifest \<Rightarrow> retry_policy \<Rightarrow> int \<Rightarrow> real \<Rightarrow> real \<Rightarrow> real
   \<Rightarrow> retry_breaker_bind_error + retry_breaker_registry" where
  "materialize_retry_breaker_stage man default_policy threshold cooldown base cap =
     (if rp_max_attempts default_policy < 1
      then Inl (RetryBreakerBindError None (rp_max_attempts default_policy))
      else raise_bind (bind_policies Map.empty (rm_retry_policies man))
        (\<lambda>policies. Inr
          \<lparr>rbr_retry_policies = policies(RESERVED_LLM_DISPATCH_KEY \<mapsto> DEFAULT_LLM_DISPATCH_RETRY_POLICY),
           rbr_default_policy = default_policy, rbr_fail_threshold = threshold,
           rbr_cooldown_seconds = cooldown, rbr_base_delay_seconds = base,
           rbr_delay_cap_seconds = cap, rbr_breakers = Map.empty\<rparr>))"

section \<open>The registry as a store of breakers\<close>

definition breaker_at :: "retry_breaker_registry \<Rightarrow> breaker_scope \<times> pystr \<Rightarrow> breaker_state_machine" where
  "breaker_at reg k =
     (case rbr_breakers reg k of Some b \<Rightarrow> b | None \<Rightarrow> fresh_breaker reg (fst k) (snd k))"

lemma get_breaker_at: "fst (get_breaker scope i reg) = breaker_at reg (scope, i)"
  by (simp add: get_breaker_def breaker_at_def Let_def split: option.split)

lemma breaker_at_get [simp]: "breaker_at (snd (get_breaker scope i reg)) k = breaker_at reg k"
  by (auto simp: get_breaker_def breaker_at_def fresh_breaker_def Let_def split: option.split)

lemma breaker_at_update:
  "breaker_at (reg\<lparr>rbr_breakers := (rbr_breakers reg)(k' \<mapsto> b)\<rparr>) k = (if k = k' then b else breaker_at reg k)"
  by (auto simp: breaker_at_def fresh_breaker_def split: option.split)

lemma breaker_at_with:
  "breaker_at (snd (with_breaker f scope i reg)) k =
     (if k = (scope, i) then snd (f (breaker_at reg (scope, i))) else breaker_at reg k)"
proof -
  obtain b reg' where g: "get_breaker scope i reg = (b, reg')" by fastforce
  then have b: "b = breaker_at reg (scope, i)" using get_breaker_at [of scope i reg] by simp
  obtain a b' where f: "f b = (a, b')" by fastforce
  have at: "breaker_at reg' k = breaker_at reg k" using breaker_at_get [of scope i reg k] g by simp
  have "with_breaker f scope i reg =
      (a, reg'\<lparr>rbr_breakers := (rbr_breakers reg')((scope, i) \<mapsto> b')\<rparr>)"
    by (simp add: with_breaker_def g f)
  then show ?thesis
    using at b f by (simp add: breaker_at_update)
qed

lemma with_breaker_result: "fst (with_breaker f scope i reg) = fst (f (breaker_at reg (scope, i)))"
proof -
  obtain b reg' where g: "get_breaker scope i reg = (b, reg')" by fastforce
  then have "b = breaker_at reg (scope, i)" using get_breaker_at [of scope i reg] by simp
  then show ?thesis by (simp add: with_breaker_def g split: prod.split)
qed

lemma registry_frame:
  "get_policy (snd (get_breaker scope i reg)) t = get_policy reg t"
  "get_policy (snd (with_breaker f scope i reg)) t = get_policy reg t"
  "rbr_fail_threshold (snd (get_breaker scope i reg)) = rbr_fail_threshold reg"
  "rbr_fail_threshold (snd (with_breaker f scope i reg)) = rbr_fail_threshold reg"
  by (auto simp: get_policy_def get_breaker_def with_breaker_def Let_def split: option.splits prod.splits)

definition registry_ok :: "retry_breaker_registry \<Rightarrow> bool" where
  "registry_ok reg \<longleftrightarrow> 1 \<le> rbr_fail_threshold reg \<and> (\<forall>k. breaker_ok (breaker_at reg k))"

lemma registry_ok_get: "registry_ok reg \<Longrightarrow> registry_ok (snd (get_breaker scope i reg))"
  by (simp add: registry_ok_def registry_frame)

lemma registry_ok_with:
  assumes "registry_ok reg" and "\<And>b. breaker_ok b \<Longrightarrow> breaker_ok (snd (f b))"
  shows "registry_ok (snd (with_breaker f scope i reg))"
  using assms by (auto simp: registry_ok_def registry_frame breaker_at_with)

lemma fresh_breaker_serving: "1 \<le> rbr_fail_threshold reg \<Longrightarrow> serving_breaker (fresh_breaker reg scope i)"
  by (simp add: serving_breaker_def breaker_ok_def fresh_breaker_def)

lemma bind_policies_all:
  "bind_policies acc ps = Inr m \<Longrightarrow> \<forall>p \<in> ran acc. 1 \<le> rp_max_attempts p \<Longrightarrow> \<forall>p \<in> ran m. 1 \<le> rp_max_attempts p"
proof (induction acc ps arbitrary: m rule: bind_policies.induct)
  case (1 acc)
  then show ?case by simp
next
  case (2 acc name q ps)
  have "ran (acc(name \<mapsto> q)) \<subseteq> insert q (ran acc)" by (auto simp: ran_def)
  with 2 show ?case by (fastforce split: if_splits)
qed

lemma bind_policies_min:
  "bind_policies Map.empty ps = Inr m \<Longrightarrow> m k = Some p \<Longrightarrow> 1 \<le> rp_max_attempts p"
  using bind_policies_all [of Map.empty ps m] by (auto simp: ran_def)

lemma bind_policies_error:
  "bind_policies acc ps = Inl e \<Longrightarrow> \<exists>(name, p) \<in> set ps. e = RetryBreakerBindError (Some name) (rp_max_attempts p) \<and> rp_max_attempts p < 1"
  by (induction acc ps rule: bind_policies.induct) (auto split: if_splits)

lemma materialize_registry_ok:
  assumes "materialize_retry_breaker_stage man dp threshold cooldown base cap = Inr reg" and "1 \<le> threshold"
  shows "registry_ok reg"
  using assms by (auto simp: materialize_retry_breaker_stage_def raise_bind_Inr_iff registry_ok_def
      breaker_at_def fresh_breaker_def breaker_ok_def split: if_splits)

text \<open>A breaker after a history of failures (\<open>True\<close>) and successes (\<open>False\<close>).\<close>

definition breaker_after :: "breaker_state_machine \<Rightarrow> bool list \<Rightarrow> breaker_state_machine" where
  "breaker_after b history = fold (\<lambda>e b. snd (if e then record_failure b else record_success b)) history b"

section \<open>Properties\<close>

text \<open>Property C14. A breaker that starts closed is open after a history of failures and successes exactly
  when the history contains as many failures in a row as the threshold says; short of that a single
  success forgives all earlier failures, and once open no failure or success changes it.\<close>

theorem breaker_opens_on_consecutive_failures:
  assumes "1 \<le> rbr_fail_threshold reg" and "b = breaker_after (fresh_breaker reg scope i) history"
  shows "(bsm_state b = BS_OPEN \<longleftrightarrow>
      (\<exists>pre post. history = pre @ replicate (nat (rbr_fail_threshold reg)) True @ post)) \<and>
    bsm_state b \<noteq> BS_HALF_OPEN \<and>
    (bsm_state b = BS_OPEN \<longrightarrow> record_failure b = (None, b) \<and> record_success b = (None, b))"
proof -
  let ?f = "fresh_breaker reg scope i"
  have run: "b = breaker.run ?f history"
    unfolding assms(2) breaker_after_def breaker.run_def by (rule arg_cong [of _ _ "\<lambda>g. fold g history ?f"]) (auto simp: fun_eq_iff)
  have f: "serving_breaker ?f" "should_attempt ?f" "nat (bsm_fail_count ?f) = 0"
    "nat (bsm_fail_threshold ?f) = nat (rbr_fail_threshold reg)"
    using fresh_breaker_serving [OF assms(1)]
    by (simp_all add: should_attempt_def fresh_breaker_def)
  have "serving_breaker b" unfolding run by (rule breaker.run_inv [OF f(1)])
  then have "bsm_state b \<noteq> BS_HALF_OPEN" by (simp add: serving_breaker_def)
  moreover have "bsm_state b = BS_OPEN \<longleftrightarrow>
      (\<exists>pre post. history = pre @ replicate (nat (rbr_fail_threshold reg)) True @ post)"
    using breaker.tripped_iff_consecutive [of ?f history] f unfolding run by (simp add: should_attempt_def)
  moreover have "bsm_state b = BS_OPEN \<longrightarrow> record_failure b = (None, b) \<and> record_success b = (None, b)"
    by (simp add: breaker_ops)
  ultimately show ?thesis by blast
qed

lemma breaker_opens_on_consecutive_failures_witness:
  "bsm_state (breaker_after (fresh_breaker \<lparr>rbr_retry_policies = Map.empty,
        rbr_default_policy = DEFAULT_LLM_DISPATCH_RETRY_POLICY,
        rbr_fail_threshold = 2, rbr_cooldown_seconds = 30, rbr_base_delay_seconds = 1 / 2,
        rbr_delay_cap_seconds = 30, rbr_breakers = Map.empty\<rparr> PER_MODEL (lit ''m''))
     [True, False, True, True]) = BS_OPEN"
proof -
  have "[True, False, True, True] = [True, False] @ replicate (nat 2) True @ []" by (simp add: numeral_2_eq_2)
  then have "\<exists>pre post. [True, False, True, True] = pre @ replicate (nat 2) True @ post" by blast
  then show ?thesis
    using breaker_opens_on_consecutive_failures [of "\<lparr>rbr_retry_policies = Map.empty,
        rbr_default_policy = DEFAULT_LLM_DISPATCH_RETRY_POLICY,
        rbr_fail_threshold = 2, rbr_cooldown_seconds = 30, rbr_base_delay_seconds = 1 / 2,
        rbr_delay_cap_seconds = 30, rbr_breakers = Map.empty\<rparr>" _ PER_MODEL "lit ''m''" "[True, False, True, True]"]
    by simp
qed

text \<open>Property C15. Every operation of a breaker keeps its invariant (the failure count is below the
  threshold exactly while it is closed); a half-open trial is decided by a single outcome, a failure
  reopening the breaker and a success closing it with a cleared count; and an event is emitted
  exactly when the state changes, carrying the old and the new state.\<close>

theorem breaker_invariant:
  assumes "breaker_ok b" and "f \<in> {record_failure, record_success, attempt_half_open}"
  shows "breaker_ok (snd (f b)) \<and>
    (bsm_state b = BS_HALF_OPEN \<longrightarrow>
       bsm_state (snd (record_failure b)) = BS_OPEN \<and> bsm_state (snd (record_success b)) = BS_CLOSED \<and>
       bsm_fail_count (snd (record_success b)) = 0) \<and>
    (case fst (f b) of
       None \<Rightarrow> bsm_state (snd (f b)) = bsm_state b
     | Some t \<Rightarrow> btr_from_state t = bsm_state b \<and> btr_to_state t = bsm_state (snd (f b)) \<and>
         btr_from_state t \<noteq> btr_to_state t \<and> btr_identifier t = bsm_identifier b)"
  using assms breaker_ok_ops [OF assms(1)]
  by (auto simp: breaker_ops Let_def transition_of_def split: breaker_state.splits)

lemma breaker_invariant_witness:
  "breaker_ok (snd (record_failure \<lparr>bsm_scope = PER_MODEL, bsm_identifier = lit ''m'', bsm_state = BS_HALF_OPEN,
     bsm_fail_count = 5, bsm_fail_threshold = 5, bsm_cooldown_seconds = 30\<rparr>))"
  (is "breaker_ok (snd (record_failure ?b))")
proof -
  have "breaker_ok ?b" by (simp add: breaker_ok_def)
  from breaker_invariant [OF this, of record_failure] show ?thesis by simp
qed

text \<open>A registry that materialises gives every tool name a policy of at least one attempt and
  the reserved dispatch key exactly three, whatever the manifest says; it starts with every breaker
  closed; and it is refused exactly when the default policy or some entry allows no attempt.\<close>

theorem materialize_retry_breaker_sound:
  assumes "1 \<le> threshold"
  shows "case materialize_retry_breaker_stage man dp threshold cooldown base cap of
      Inr reg \<Rightarrow> registry_ok reg \<and> 1 \<le> rp_max_attempts (get_policy reg tool) \<and>
        rp_max_attempts (get_policy reg RESERVED_LLM_DISPATCH_KEY) = 3 \<and>
        should_attempt (breaker_at reg k)
    | Inl (RetryBreakerBindError name n) \<Rightarrow> n < 1 \<and>
        (case name of None \<Rightarrow> dp = dp\<lparr>rp_max_attempts := n\<rparr>
         | Some t \<Rightarrow> \<exists>p. (t, p) \<in> set (rm_retry_policies man) \<and> rp_max_attempts p = n)"
proof (cases "rp_max_attempts dp < 1")
  case True
  then show ?thesis by (simp add: materialize_retry_breaker_stage_def)
next
  case False
  show ?thesis
  proof (cases "bind_policies Map.empty (rm_retry_policies man)")
    case (Inl e)
    with False bind_policies_error [OF Inl] show ?thesis
      by (auto simp: materialize_retry_breaker_stage_def)
  next
    case (Inr m)
    let ?reg = "\<lparr>rbr_retry_policies = m(RESERVED_LLM_DISPATCH_KEY \<mapsto> DEFAULT_LLM_DISPATCH_RETRY_POLICY),
        rbr_default_policy = dp, rbr_fail_threshold = threshold, rbr_cooldown_seconds = cooldown,
        rbr_base_delay_seconds = base, rbr_delay_cap_seconds = cap, rbr_breakers = Map.empty\<rparr>"
    have reg: "materialize_retry_breaker_stage man dp threshold cooldown base cap = Inr ?reg"
      using False Inr by (simp add: materialize_retry_breaker_stage_def)
    have "1 \<le> rp_max_attempts (get_policy ?reg tool)"
      using bind_policies_min [OF Inr] False
      by (auto simp: get_policy_def DEFAULT_LLM_DISPATCH_RETRY_POLICY_def split: option.split)
    then show ?thesis
      using materialize_registry_ok [OF reg assms] reg
      by (simp add: get_policy_def DEFAULT_LLM_DISPATCH_RETRY_POLICY_def breaker_at_def should_attempt_def
          fresh_breaker_def)
  qed
qed

lemma materialize_retry_breaker_sound_witness:
  "\<exists>reg. materialize_retry_breaker_stage \<lparr>rm_manifest_version = 1, rm_per_role_bindings = [],
      rm_per_workload_overrides = [], rm_fallback_chains = [],
      rm_retry_policies = [(lit ''grep'', DEFAULT_LLM_DISPATCH_RETRY_POLICY)]\<rparr>
      DEFAULT_LLM_DISPATCH_RETRY_POLICY 5 30 (1/2) 30 = Inr reg \<and> registry_ok reg"
  using materialize_retry_breaker_sound [where threshold = 5 and man = "\<lparr>rm_manifest_version = 1, rm_per_role_bindings = [],
      rm_per_workload_overrides = [], rm_fallback_chains = [],
      rm_retry_policies = [(lit ''grep'', DEFAULT_LLM_DISPATCH_RETRY_POLICY)]\<rparr>"
      and dp = DEFAULT_LLM_DISPATCH_RETRY_POLICY and cooldown = 30 and base = "1/2" and cap = 30]
  by (simp add: materialize_retry_breaker_stage_def DEFAULT_LLM_DISPATCH_RETRY_POLICY_def)

text \<open>Property C16. The jittered delay is never negative, never above the cap and never above the
  exponential bound of its attempt.\<close>

theorem full_jitter_delay_bounds:
  assumes "0 \<le> attempt" and "attempt < 1024" and "0 \<le> base" and "0 \<le> cap" and "0 \<le> draw" and "draw \<le> 1"
  shows "\<exists>d. compute_full_jitter_delay_seconds attempt base cap draw = Inr d \<and>
    0 \<le> d \<and> d \<le> cap \<and> d \<le> base * 2 ^ nat attempt"
proof -
  let ?m = "min cap (base * 2 ^ nat attempt)"
  have m: "0 \<le> ?m" using assms by simp
  have le: "?m * draw \<le> ?m" by (rule mult_left_le [OF assms(6) m])
  have "compute_full_jitter_delay_seconds attempt base cap draw = Inr (?m * draw)"
    using assms by (simp add: compute_full_jitter_delay_seconds_def)
  moreover have "0 \<le> ?m * draw" using m assms(5) by (rule mult_nonneg_nonneg)
  moreover have "?m * draw \<le> cap" by (rule order_trans [OF le]) simp
  moreover have "?m * draw \<le> base * 2 ^ nat attempt" by (rule order_trans [OF le]) simp
  ultimately show ?thesis by blast
qed

lemma full_jitter_delay_bounds_witness:
  "\<exists>d. compute_full_jitter_delay_seconds 3 (1/2) 30 (1/4) = Inr d \<and> d \<le> 30"
  using full_jitter_delay_bounds [of 3 "1/2" 30 "1/4"] by auto

end
