(* ===== verification/Provider_Capabilities.thy ===== *)
theory Provider_Capabilities
  imports Complex_Main Fallback_Chain
begin

text \<open>
  \<open>harness_cp/provider_capabilities.py\<close>: the capability record reflected for a provider and model, and
  the capability test. The two cost fields are the literal \<open>0.0\<close> and are kept as rationals.
\<close>

datatype provider_capability = TOOLS | CACHING | THINKING | BATCH

fun capability_value :: "provider_capability \<Rightarrow> string" where
  "capability_value TOOLS = ''tools''"
| "capability_value CACHING = ''caching''"
| "capability_value THINKING = ''thinking''"
| "capability_value BATCH = ''batch''"

record provider_capabilities =
  pcb_provider :: pystr
  pcb_model_family :: pystr
  pcb_model_version :: pystr
  pcb_max_context_tokens :: int
  pcb_supports_tools :: bool
  pcb_supports_caching :: bool
  pcb_supports_thinking :: bool
  pcb_supports_batch :: bool
  pcb_cost_per_input_token :: rat
  pcb_cost_per_output_token :: rat

definition ANTHROPIC_THINKING_MODELS :: "pystr list" where
  "ANTHROPIC_THINKING_MODELS = [lit ''sonnet-4-6'', lit ''opus-4-6'', lit ''opus-4-7'']"

definition is_anthropic_thinking_model :: "pystr \<Rightarrow> bool" where
  "is_anthropic_thinking_model model =
     (let normalized = py_removeprefix model (lit ''claude-'') in
      list_ex (\<lambda>tier. normalized = tier \<or> py_startswith normalized (tier @ lit ''-''))
        ANTHROPIC_THINKING_MODELS)"

definition reflect_provider_capabilities :: "pystr \<Rightarrow> pystr \<Rightarrow> provider_capabilities" where
  "reflect_provider_capabilities provider model =
     (let is_anthropic = (provider = lit ''anthropic'') in
      \<lparr>pcb_provider = provider,
       pcb_model_family = (if of_char CHR ''-'' \<in> set model then py_rsplit1_head (of_char CHR ''-'') model else model),
       pcb_model_version = model, pcb_max_context_tokens = 0, pcb_supports_tools = True,
       pcb_supports_caching = is_anthropic,
       pcb_supports_thinking = (is_anthropic \<and> is_anthropic_thinking_model model),
       pcb_supports_batch = is_anthropic,
       pcb_cost_per_input_token = 0, pcb_cost_per_output_token = 0\<rparr>)"

definition provider_supports :: "provider_capability \<Rightarrow> provider_capabilities \<Rightarrow> bool" where
  "provider_supports capability caps =
     (case capability of
        TOOLS \<Rightarrow> pcb_supports_tools caps
      | CACHING \<Rightarrow> pcb_supports_caching caps
      | THINKING \<Rightarrow> pcb_supports_thinking caps
      | BATCH \<Rightarrow> pcb_supports_batch caps)"

text \<open>What the dispatcher can rely on: tools everywhere, the other capabilities on Anthropic only.\<close>

lemma reflect_supports:
  "provider_supports c (reflect_provider_capabilities p m) \<longleftrightarrow>
   (c = TOOLS \<or> p = lit ''anthropic'' \<and> (c = THINKING \<longrightarrow> is_anthropic_thinking_model m))"
  by (cases c) (simp_all add: provider_supports_def reflect_provider_capabilities_def Let_def)

text \<open>The prefix and any version suffix are immaterial for the thinking test.\<close>

lemma thinking_model_versions:
  assumes "tier \<in> set ANTHROPIC_THINKING_MODELS"
  shows "is_anthropic_thinking_model (lit ''claude-'' @ tier)"
    and "is_anthropic_thinking_model (lit ''claude-'' @ tier @ lit ''-'' @ suffix)"
proof -
  have nf: "py_removeprefix (lit ''claude-'' @ s) (lit ''claude-'') = s" for s
    by (rule py_removeprefix_append)
  show "is_anthropic_thinking_model (lit ''claude-'' @ tier)"
    using assms unfolding is_anthropic_thinking_model_def Let_def nf by (auto simp: list_ex_iff)
  have "py_startswith (tier @ lit ''-'' @ suffix) (tier @ lit ''-'')"
    using py_startswith_append [of "tier @ lit ''-''" suffix] by (simp del: lit_Cons py_startswith_append)
  then show "is_anthropic_thinking_model (lit ''claude-'' @ tier @ lit ''-'' @ suffix)"
    using assms unfolding is_anthropic_thinking_model_def Let_def nf by (auto simp: list_ex_iff simp del: lit_Cons)
qed

end
