(* ===== verification/Json.thy ===== *)
theory Json
  imports Complex_Main Py_Strings
begin

text \<open>
  JSON-shaped Python values: \<open>None\<close>, booleans, unbounded integers, finite floats (as rationals),
  strings, lists and dictionaries with string keys in insertion order. \<open>py_get\<close> is \<open>dict.get\<close> and
  \<open>truthy\<close> the truth value an \<open>if\<close> takes of a value.
\<close>

datatype json =
    JNull
  | JBool bool
  | JInt int
  | JFloat rat
  | JStr pystr
  | JList "json list"
  | JObj "(pystr \<times> json) list"

definition py_get :: "(pystr \<times> json) list \<Rightarrow> pystr \<Rightarrow> json" where
  "py_get d k = (case map_of d k of Some v \<Rightarrow> v | None \<Rightarrow> JNull)"

fun truthy :: "json \<Rightarrow> bool" where
  "truthy JNull = False"
| "truthy (JBool b) = b"
| "truthy (JInt i) = (i \<noteq> 0)"
| "truthy (JFloat q) = (q \<noteq> 0)"
| "truthy (JStr s) = (s \<noteq> [])"
| "truthy (JList xs) = (xs \<noteq> [])"
| "truthy (JObj d) = (d \<noteq> [])"

end
