(* ===== verification/LLM_Dispatch.thy ===== *)
theory LLM_Dispatch
  imports Retry_Breaker Provider_Capabilities Json
begin

text \<open>
  \<open>harness_runtime/lifecycle/retry_breaker_fallback.py\<close>: the dispatcher that composes retry, breaker
  and fallback chain around one provider call. The inner dispatcher, the sleep, the random source
  and the routing resolver are external: functions of an environment record over a world state
  \<open>'w\<close> (what they answer may depend on everything that happened before). What the code writes to
  spans and events, and each provider call it makes, is recorded in a trace. One dispatch runs
  alone on the registry; interleaved dispatches of other tasks are not modelled.
\<close>

section \<open>Exceptions\<close>

text \<open>The classes the dispatcher tells apart with \<open>isinstance\<close>; every exception has the name of its
  type and its text.\<close>

datatype exception_class =
    LLMDispatchProviderUnreachableError | LLMDispatchPayloadShapeError
  | HITLGateRejectedError | HITLGateEditDecodeError | HITLCellExcludedError
  | HITLGateTimeoutError | HITLGateAuditComposeError
  | Other_Exception

record py_exception =
  exc_class :: exception_class
  exc_type_name :: pystr
  exc_str :: pystr

definition MAX_FAILURE_DETAIL_CHARS :: nat where
  "MAX_FAILURE_DETAIL_CHARS = 500"

definition failure_detail :: "py_exception \<Rightarrow> pystr" where
  "failure_detail exc =
     (let detail = py_join (lit '' '') (py_split (exc_str exc));
          val = (if detail \<noteq> [] then exc_type_name exc @ lit '': '' @ detail else exc_type_name exc)
      in if MAX_FAILURE_DETAIL_CHARS < length val
         then take (MAX_FAILURE_DETAIL_CHARS - 3) val @ lit ''...'' else val)"

definition classify_provider_exception :: "py_exception \<Rightarrow> validator_retry_exit_class option" where
  "classify_provider_exception exc =
     (if exc_class exc \<in> {LLMDispatchProviderUnreachableError, LLMDispatchPayloadShapeError} then None
      else Some TRANSIENT_RETRY)"

definition is_hitl_terminal_control_flow :: "py_exception \<Rightarrow> bool" where
  "is_hitl_terminal_control_flow exc \<longleftrightarrow>
     exc_class exc \<in> {HITLGateRejectedError, HITLGateEditDecodeError, HITLCellExcludedError,
                      HITLGateTimeoutError, HITLGateAuditComposeError}"

section \<open>Bindings and steps\<close>

record step_binding =
  sb_step_id :: pystr
  sb_model_binding :: model_binding
  sb_model_binding_override :: "model_binding option"
  sb_engine_class :: engine_class

type_synonym step_payload = "(pystr \<times> json) list"

definition rebind_to_candidate :: "step_binding \<Rightarrow> provider_candidate \<Rightarrow> step_binding" where
  "rebind_to_candidate b c =
     b\<lparr>sb_model_binding := \<lparr>mb_provider = pc_provider c, mb_model = pc_model c\<rparr>\<rparr>"

definition candidate_from_binding :: "model_binding \<Rightarrow> provider_candidate" where
  "candidate_from_binding mb =
     \<lparr>pc_provider = mb_provider mb, pc_model = mb_model mb,
      pc_family = provider_family_for_provider (mb_provider mb)\<rparr>"

text \<open>A frozen set of capabilities, as the list of its members.\<close>

definition required_capabilities :: "step_payload \<Rightarrow> provider_capability list" where
  "required_capabilities payload =
     (if truthy (py_get payload (lit ''tools'')) then [TOOLS] else []) @
     (case py_get payload (lit ''params'') of
        JObj params \<Rightarrow> if truthy (py_get params (lit ''thinking'')) then [THINKING] else []
      | _ \<Rightarrow> [])"

definition missing_capabilities :: "provider_capability list \<Rightarrow> provider_candidate \<Rightarrow> provider_capability list" where
  "missing_capabilities required c =
     filter (\<lambda>cap. \<not> provider_supports cap (reflect_provider_capabilities (pc_provider c) (pc_model c))) required"

section \<open>Environment, state and trace\<close>

text \<open>How the inner dispatcher ends. \<open>BaseException\<close>s that are no \<open>Exception\<close>s pass the handlers of the
  wrapper: the cancellation of the task, and the others, of which the inner gate raises the pause signal.\<close>

datatype base_exception = HITLPauseRequestedSignal | Other_Base_Exception pystr

datatype 'r call_outcome =
    Returned 'r
  | Raised py_exception
  | Raised_Base base_exception
  | Call_Cancelled

record ('w, 'r) dispatch_env =
  env_call :: "step_binding \<Rightarrow> step_payload \<Rightarrow> 'w \<Rightarrow> 'r call_outcome \<times> 'w"
  env_sleep :: "real \<Rightarrow> 'w \<Rightarrow> bool \<times> 'w"
  env_draw :: "'w \<Rightarrow> real \<times> 'w"

datatype dispatch_event =
    Provider_Call pystr pystr
  | Attempt_Span int int "pystr option" "string option" replay_disposition
  | Slept real
  | Breaker_Tripped harness_breaker_event
  | Retry_Skipped pystr
  | Fallback_Triggered pystr pystr "provider_capability list"
  | Fallback_Exhausted nat pystr string "pystr option"

record 'w dispatch_state =
  dst_registry :: retry_breaker_registry
  dst_trace :: "dispatch_event list"
  dst_world :: 'w

definition emit :: "dispatch_event \<Rightarrow> 'w dispatch_state \<Rightarrow> 'w dispatch_state" where
  "emit e s = s\<lparr>dst_trace := dst_trace s @ [e]\<rparr>"

definition draw :: "('w, 'r) dispatch_env \<Rightarrow> 'w dispatch_state \<Rightarrow> real \<times> 'w dispatch_state" where
  "draw env s = (case env_draw env (dst_world s) of (d, w) \<Rightarrow> (d, s\<lparr>dst_world := w\<rparr>))"

datatype dispatch_error =
    FallbackExhaustedError provider_candidate "pystr option" "pystr option"
  | Propagated py_exception
  | Propagated_Base base_exception
  | CancelledError
  | Delay_Failed jitter_error
  | Staircase_Failed staircase_error

fun exit_class_value :: "validator_retry_exit_class \<Rightarrow> string" where
  "exit_class_value TRANSIENT_RETRY = ''transient-retry''"
| "exit_class_value REFLEXION_RECOVERABLE = ''Reflexion-recoverable''"
| "exit_class_value HITL_RECOVERABLE = ''HITL-recoverable''"
| "exit_class_value PERMANENT_FAIL_EXIT = ''permanent-fail-exit''"
| "exit_class_value TERMINAL_FAIL_EXIT = ''terminal-fail-exit''"

section \<open>The attempts on one candidate\<close>

definition breaker_identifier :: "provider_candidate \<Rightarrow> pystr" where
  "breaker_identifier c = pc_provider c @ lit '':'' @ pc_model c"

text \<open>An operation of the candidate's breaker, followed by \<open>_emit_breaker_transition\<close>.\<close>

definition on_breaker ::
  "(breaker_state_machine \<Rightarrow> breaker_transition option \<times> breaker_state_machine) \<Rightarrow> provider_candidate
   \<Rightarrow> 'w dispatch_state \<Rightarrow> 'w dispatch_state" where
  "on_breaker f c s =
     (case with_breaker f PER_MODEL (breaker_identifier c) (dst_registry s) of
        (t, reg) \<Rightarrow>
          (let s' = s\<lparr>dst_registry := reg\<rparr>
           in case t of None \<Rightarrow> s'
              | Some tr \<Rightarrow> emit (Breaker_Tripped (breaker_transition_event tr None None None)) s'))"

text \<open>\<open>_PerCandidateTerminal\<close>: a result, or the class and detail of the last failure; an exception that
  leaves the method is an abort.\<close>

datatype 'r per_candidate_terminal =
    Terminal_Result 'r
  | Terminal_Failure "pystr option" "pystr option"
  | Terminal_Abort dispatch_error

text \<open>One iteration of the loop of \<open>_run_per_candidate_attempts\<close>: it leaves the method, or sleeps and goes on
  with the class and detail of the failure. \<open>is_last_attempt\<close> is the comparison of the attempt number
  with \<open>max_attempts - 1\<close>. The backoff is drawn twice, once for the span attribute and once for the
  sleep.\<close>

datatype 'r attempt_outcome =
    Attempt_Stop "'r per_candidate_terminal"
  | Attempt_Retry "pystr option" "pystr option"

definition backoff_and_sleep ::
  "('w, 'r) dispatch_env \<Rightarrow> step_binding \<Rightarrow> validator_retry_exit_class \<Rightarrow> nat \<Rightarrow> pystr option
   \<Rightarrow> 'w dispatch_state \<Rightarrow> 'r attempt_outcome \<times> 'w dispatch_state" where
  "backoff_and_sleep env binding cause attempt detail s =
     (case draw env s of (d1, s) \<Rightarrow>
        (case compute_delay_seconds (dst_registry s) (int attempt) d1 of
           Inl e \<Rightarrow> (Attempt_Stop (Terminal_Abort (Delay_Failed e)), s)
         | Inr backoff \<Rightarrow>
             (let s = emit (Attempt_Span (int attempt + 1) (floor (backoff * 1000))
                              (Some (lit (exit_class_value cause))) (Some (exit_class_value cause))
                              (REPLAY_DISPOSITION_MAPPING (sb_engine_class binding))) s
              in case draw env s of (d2, s) \<Rightarrow>
                (case compute_delay_seconds (dst_registry s) (int attempt) d2 of
                   Inl e \<Rightarrow> (Attempt_Stop (Terminal_Abort (Delay_Failed e)), s)
                 | Inr delay \<Rightarrow>
                     (case env_sleep env delay (dst_world s) of (cancelled, w) \<Rightarrow>
                        (let s = emit (Slept delay) (s\<lparr>dst_world := w\<rparr>) in
                         if cancelled then (Attempt_Stop (Terminal_Abort CancelledError), s)
                         else (Attempt_Retry (Some (lit (exit_class_value cause))) detail, s)))))))"

definition attempt_once ::
  "('w, 'r) dispatch_env \<Rightarrow> step_binding \<Rightarrow> step_payload \<Rightarrow> provider_candidate \<Rightarrow> retry_policy \<Rightarrow> nat
   \<Rightarrow> 'w dispatch_state \<Rightarrow> 'r attempt_outcome \<times> 'w dispatch_state" where
  "attempt_once env binding payload c policy attempt s =
     (let span = (\<lambda>cause fail. Attempt_Span (int attempt + 1) 0 cause fail
                    (REPLAY_DISPOSITION_MAPPING (sb_engine_class binding)));
          s = emit (Provider_Call (pc_provider c) (pc_model c)) s
      in case env_call env (rebind_to_candidate binding c) payload (dst_world s) of (outcome, w) \<Rightarrow>
         (let s = s\<lparr>dst_world := w\<rparr> in
          case outcome of
            Call_Cancelled \<Rightarrow> (Attempt_Stop (Terminal_Abort CancelledError), s)
          | Raised_Base exc \<Rightarrow> (Attempt_Stop (Terminal_Abort (Propagated_Base exc)), s)
          | Returned r \<Rightarrow>
              (Attempt_Stop (Terminal_Result r), on_breaker record_success c (emit (span None None) s))
          | Raised exc \<Rightarrow>
              (let detail = Some (failure_detail exc) in
               if is_hitl_terminal_control_flow exc then (Attempt_Stop (Terminal_Abort (Propagated exc)), s)
               else case classify_provider_exception exc of
                 None \<Rightarrow>
                   (Attempt_Stop (Terminal_Failure (Some (exc_type_name exc)) detail),
                    on_breaker record_failure c
                      (emit (span (Some (exc_type_name exc)) (Some (exit_class_value PERMANENT_FAIL_EXIT))) s))
               | Some cause \<Rightarrow>
                   (case advance_staircase STAGE_1_REFLEXION cause (int attempt) of
                      Inl e \<Rightarrow> (Attempt_Stop (Terminal_Abort (Staircase_Failed e)), s)
                    | Inr tr \<Rightarrow>
                        (let is_last = (int attempt = rp_max_attempts policy - 1) in
                         if sct_to_stage tr = STAGE_2_RETRY_WITH_BACKOFF \<and> \<not> is_last then
                           backoff_and_sleep env binding cause attempt detail s
                         else if sct_to_stage tr = STAGE_2_RETRY_WITH_BACKOFF \<and> is_last then
                           (Attempt_Stop (Terminal_Failure (Some (lit ''max-attempts'')) detail),
                            on_breaker record_failure c
                              (emit (span (Some (lit (exit_class_value cause)))
                                       (Some (exit_class_value TERMINAL_FAIL_EXIT))) s))
                         else
                           (Attempt_Stop (Terminal_Failure (Some (lit (exit_class_value cause))) detail),
                            on_breaker record_failure c
                              (emit (span (Some (lit (exit_class_value cause)))
                                       (Some (exit_class_value cause))) s)))))))"

text \<open>The loop over \<open>range (max_attempts)\<close>, on the attempt numbers still to come.\<close>

fun run_attempts ::
  "('w, 'r) dispatch_env \<Rightarrow> step_binding \<Rightarrow> step_payload \<Rightarrow> provider_candidate \<Rightarrow> retry_policy
   \<Rightarrow> pystr option \<Rightarrow> pystr option \<Rightarrow> nat list \<Rightarrow> 'w dispatch_state
   \<Rightarrow> 'r per_candidate_terminal \<times> 'w dispatch_state" where
  "run_attempts env binding payload c policy last_class last_detail [] s =
     (Terminal_Failure (Some (case last_class of Some k \<Rightarrow> k | None \<Rightarrow> lit ''max-attempts'')) last_detail, s)"
| "run_attempts env binding payload c policy last_class last_detail (attempt # rest) s =
     (case attempt_once env binding payload c policy attempt s of
        (Attempt_Stop t, s') \<Rightarrow> (t, s')
      | (Attempt_Retry k d, s') \<Rightarrow> run_attempts env binding payload c policy k d rest s')"

section \<open>The chain in force\<close>

definition MVP_DEFAULT_AGENT_ROLE :: pystr where
  "MVP_DEFAULT_AGENT_ROLE = lit ''default''"

definition MVP_DEFAULT_WORKLOAD_CLASS :: workload_class where
  "MVP_DEFAULT_WORKLOAD_CLASS = SOFTWARE_ENGINEERING"

record llm_dispatcher =
  ld_fallback_chain :: fallback_chain
  ld_routing_manifest :: "routing_manifest option"
  ld_workload_class :: "workload_class option"

text \<open>\<open>_effective_chain\<close>: step override, then workload override, then a non-default role, then the routed
  binding, then the base chain. An agent role that is absent or empty is the default role.\<close>

definition role_or_default :: "pystr option \<Rightarrow> pystr" where
  "role_or_default r = (case r of None \<Rightarrow> MVP_DEFAULT_AGENT_ROLE
                          | Some x \<Rightarrow> if x = [] then MVP_DEFAULT_AGENT_ROLE else x)"

definition workload_binding :: "llm_dispatcher \<Rightarrow> model_binding option" where
  "workload_binding d =
     Option.bind (ld_routing_manifest d) (\<lambda>m.
       Option.bind (map_of (rm_per_workload_overrides m)
           (case ld_workload_class d of Some w \<Rightarrow> w | None \<Rightarrow> MVP_DEFAULT_WORKLOAD_CLASS))
         wro_model_binding_override)"

definition role_binding :: "llm_dispatcher \<Rightarrow> pystr option \<Rightarrow> model_binding option" where
  "role_binding d agent_role =
     (let role = role_or_default agent_role in
      if role = MVP_DEFAULT_AGENT_ROLE then None
      else Option.bind (ld_routing_manifest d) (\<lambda>m.
             map_option rrb_preferred_model_binding (map_of (rm_per_role_bindings m) role)))"

definition effective_chain ::
  "llm_dispatcher \<Rightarrow> step_binding \<Rightarrow> pystr option \<Rightarrow> model_binding option \<Rightarrow> fallback_chain" where
  "effective_chain d binding agent_role routed =
     (let augment = (\<lambda>mb. augment_primary (ld_fallback_chain d) (candidate_from_binding mb)) in
      case sb_model_binding_override binding of
        Some mb \<Rightarrow> augment mb
      | None \<Rightarrow>
          (case workload_binding d of
             Some mb \<Rightarrow> augment mb
           | None \<Rightarrow>
               (case role_binding d agent_role of
                  Some mb \<Rightarrow> augment mb
                | None \<Rightarrow> (case routed of Some mb \<Rightarrow> augment mb | None \<Rightarrow> ld_fallback_chain d))))"

section \<open>The dispatch loop\<close>

text \<open>\<open>_advance_or_exhaust\<close>: the next candidate, or the exhaustion event and the error that names the failed
  candidate. \<open>last_failure_class or "unknown"\<close> only affects the event.\<close>

definition advance_or_exhaust ::
  "fallback_chain \<Rightarrow> provider_candidate \<Rightarrow> pystr option \<Rightarrow> pystr option \<Rightarrow> string \<Rightarrow> 'w dispatch_state
   \<Rightarrow> (dispatch_error + provider_candidate) \<times> 'w dispatch_state" where
  "advance_or_exhaust chain failed last_class last_detail cause s =
     (case advance_or_raise chain failed of
        Inr (next, _) \<Rightarrow> (Inr next, s)
      | Inl _ \<Rightarrow>
          (Inl (FallbackExhaustedError failed last_class last_detail),
           emit (Fallback_Exhausted (chain_length chain)
                   (case last_class of Some k \<Rightarrow> k | None \<Rightarrow> lit ''unknown'') cause last_detail) s))"

text \<open>One turn of \<open>while True\<close> up to the advance: the visit of a candidate ends the dispatch, or leaves the
  failure class, its detail and the exhaustion cause for the advance.\<close>

datatype 'r visit_outcome =
    Visit_Done "dispatch_error + 'r"
  | Visit_Failed "pystr option" "pystr option" string

definition visit ::
  "('w, 'r) dispatch_env \<Rightarrow> step_binding \<Rightarrow> step_payload \<Rightarrow> retry_policy \<Rightarrow> provider_candidate
   \<Rightarrow> 'w dispatch_state \<Rightarrow> 'r visit_outcome \<times> 'w dispatch_state" where
  "visit env binding payload policy c s =
     (let missing = missing_capabilities (required_capabilities payload) c in
      if missing \<noteq> [] then
        (Visit_Failed (Some (lit ''capability-shortfall'')) None ''capability-shortfall'',
         emit (Fallback_Triggered (pc_provider c) (pc_model c) missing) s)
      else
        case get_breaker PER_MODEL (breaker_identifier c) (dst_registry s) of (breaker, reg) \<Rightarrow>
          (let s = s\<lparr>dst_registry := reg\<rparr> in
           if \<not> should_attempt breaker then
             (Visit_Failed (Some (lit ''breaker-open'')) None ''per-candidate-retry-exhaustion'',
              emit (Retry_Skipped (breaker_identifier c)) s)
           else
             case run_attempts env binding payload c policy None None [0..<nat (rp_max_attempts policy)] s of
               (Terminal_Result r, s) \<Rightarrow> (Visit_Done (Inr r), s)
             | (Terminal_Abort e, s) \<Rightarrow> (Visit_Done (Inl e), s)
             | (Terminal_Failure k d, s) \<Rightarrow> (Visit_Failed k d ''per-candidate-retry-exhaustion'', s)))"

partial_function (option) dispatch_loop ::
  "('w, 'r) dispatch_env \<Rightarrow> step_binding \<Rightarrow> step_payload \<Rightarrow> retry_policy \<Rightarrow> fallback_chain
   \<Rightarrow> provider_candidate \<Rightarrow> 'w dispatch_state \<Rightarrow> ((dispatch_error + 'r) \<times> 'w dispatch_state) option" where
  "dispatch_loop env binding payload policy chain c s =
     (case visit env binding payload policy c s of
        (Visit_Done res, s') \<Rightarrow> Some (res, s')
      | (Visit_Failed k d cause, s') \<Rightarrow>
          (case advance_or_exhaust chain c k d cause s' of
             (Inl e, s'') \<Rightarrow> Some (Inl e, s'')
           | (Inr c', s'') \<Rightarrow> dispatch_loop env binding payload policy chain c' s''))"

text \<open>\<open>dispatch\<close>: the policy under the reserved key, the routed binding of the optional resolver, the
  effective chain, and the loop from its primary. \<open>None\<close> is a dispatch that never returns.\<close>

definition dispatch ::
  "('w, 'r) dispatch_env \<Rightarrow> llm_dispatcher
   \<Rightarrow> (step_binding \<Rightarrow> step_payload \<Rightarrow> 'w \<Rightarrow> (py_exception + model_binding option) \<times> 'w) option
   \<Rightarrow> step_binding \<Rightarrow> step_payload \<Rightarrow> pystr option \<Rightarrow> 'w dispatch_state
   \<Rightarrow> ((dispatch_error + 'r) \<times> 'w dispatch_state) option" where
  "dispatch env d resolver binding payload agent_role s =
     (let policy = get_policy (dst_registry s) RESERVED_LLM_DISPATCH_KEY;
          go = (\<lambda>routed s. let chain = effective_chain d binding agent_role routed
                           in dispatch_loop env binding payload policy chain (fc_primary chain) s)
      in case resolver of
           None \<Rightarrow> go None s
         | Some resolve \<Rightarrow>
             (case resolve binding payload (dst_world s) of
                (Inl exc, w) \<Rightarrow> Some (Inl (Propagated exc), s\<lparr>dst_world := w\<rparr>)
              | (Inr routed, w) \<Rightarrow> go routed (s\<lparr>dst_world := w\<rparr>)))"

end
