(* ===== verification/Dispatch_Correctness.thy ===== *)
theory Dispatch_Correctness
  imports LLM_Dispatch
begin

text \<open>
  What the dispatcher of \<open>LLM_Dispatch\<close> guarantees. The specification is \<open>dispatch_walk\<close>: visit the
  candidates of a list in order, stop at the first visit that ends the dispatch, report the last
  candidate when none does. On a chain without duplicates the loop of the code refines it, so it
  returns and calls every candidate at most \<open>max_attempts\<close> times; a chain that repeats a candidate
  can make it run for ever.
\<close>

section \<open>One attempt\<close>

fun is_call :: "dispatch_event \<Rightarrow> bool" where
  "is_call (Provider_Call p m) = True"
| "is_call _ = False"

definition provider_calls :: "dispatch_event list \<Rightarrow> dispatch_event list" where
  "provider_calls tr = filter is_call tr"

lemma provider_calls_simps [simp]:
  "provider_calls [] = []"
  "provider_calls (xs @ ys) = provider_calls xs @ provider_calls ys"
  "provider_calls (e # es) = (if is_call e then e # provider_calls es else provider_calls es)"
  by (simp_all add: provider_calls_def)

lemma emit_simps [simp]:
  "dst_trace (emit e s) = dst_trace s @ [e]" "dst_registry (emit e s) = dst_registry s"
  "dst_world (emit e s) = dst_world s"
  by (simp_all add: emit_def)

text \<open>What an operation on the state may do besides: \<open>quiet\<close> appends events other than calls.\<close>

definition quiet :: "'w dispatch_state \<Rightarrow> 'w dispatch_state \<Rightarrow> bool" where
  "quiet s s' \<longleftrightarrow> (\<exists>new. dst_trace s' = dst_trace s @ new \<and> provider_calls new = [])"

lemma quiet_refl [simp]: "quiet s s"
  by (simp add: quiet_def)

lemma quiet_trans: "quiet s s' \<Longrightarrow> quiet s' s'' \<Longrightarrow> quiet s s''"
  unfolding quiet_def by (metis append.assoc append_Nil provider_calls_simps(2))

lemma quiet_trace: "dst_trace s' = dst_trace s \<Longrightarrow> quiet s s'"
  by (simp add: quiet_def)

lemma quiet_emit: "\<not> is_call e \<Longrightarrow> quiet s (emit e s)"
  by (simp add: quiet_def)

lemma on_breaker_registry:
  "dst_registry (on_breaker f c s) = snd (with_breaker f PER_MODEL (breaker_identifier c) (dst_registry s))"
  by (simp add: on_breaker_def Let_def split: prod.split option.split)

lemma on_breaker_quiet: "quiet s (on_breaker f c s)"
  by (auto simp: on_breaker_def quiet_def Let_def split: prod.split option.split)

lemma backoff_and_sleep_frame:
  assumes "backoff_and_sleep env binding cause n detail s = (out, s')"
  shows "dst_registry s' = dst_registry s \<and> quiet s s' \<and>
    (\<exists>e. out = Attempt_Stop (Terminal_Abort e)) \<or>
    dst_registry s' = dst_registry s \<and> quiet s s' \<and>
    out = Attempt_Retry (Some (lit (exit_class_value cause))) detail"
  using assms
  by (auto simp: backoff_and_sleep_def quiet_def emit_def draw_def Let_def
      split: prod.splits sum.splits if_splits)

text \<open>The breaker changes only on a definite outcome of the candidate.\<close>

fun outcome_registry ::
  "provider_candidate \<Rightarrow> 'r per_candidate_terminal \<Rightarrow> retry_breaker_registry \<Rightarrow> retry_breaker_registry" where
  "outcome_registry c (Terminal_Result r) reg =
     snd (with_breaker record_success PER_MODEL (breaker_identifier c) reg)"
| "outcome_registry c (Terminal_Failure k d) reg =
     snd (with_breaker record_failure PER_MODEL (breaker_identifier c) reg)"
| "outcome_registry c (Terminal_Abort e) reg = reg"

lemma staircase_first_stage:
  "advance_staircase STAGE_1_REFLEXION TRANSIENT_RETRY n =
   Inr (transition_row STAGE_1_REFLEXION TRANSIENT_RETRY STAGE_2_RETRY_WITH_BACKOFF True False)"
  by (simp add: staircase_defs)

lemma classify_cases: "classify_provider_exception exc = None \<or> classify_provider_exception exc = Some TRANSIENT_RETRY"
  by (simp add: classify_provider_exception_def)

lemma attempt_once_spec:
  assumes "attempt_once env binding payload c policy n s = (out, s')"
  shows "(\<exists>new. dst_trace s' = dst_trace s @ Provider_Call (pc_provider c) (pc_model c) # new \<and>
            provider_calls new = []) \<and>
    (case out of
       Attempt_Stop t \<Rightarrow> dst_registry s' = outcome_registry c t (dst_registry s)
     | Attempt_Retry k d \<Rightarrow> dst_registry s' = dst_registry s \<and> int n \<noteq> rp_max_attempts policy - 1)"
proof -
  define s1 where "s1 = emit (Provider_Call (pc_provider c) (pc_model c)) s"
  obtain outcome w where call:
    "env_call env (rebind_to_candidate binding c) payload (dst_world s1) = (outcome, w)" by fastforce
  define s2 where "s2 = s1\<lparr>dst_world := w\<rparr>"
  have s2: "dst_trace s2 = dst_trace s @ [Provider_Call (pc_provider c) (pc_model c)]"
    "dst_registry s2 = dst_registry s" by (simp_all add: s2_def s1_def)
  have quietly: "\<exists>new. dst_trace s' = dst_trace s @ Provider_Call (pc_provider c) (pc_model c) # new \<and>
      provider_calls new = []" if "quiet s2 s'"
    using that s2 by (auto simp: quiet_def)
  have breaker_quiet: "quiet s2 (on_breaker f c (emit (Attempt_Span a b d e g) s2))" for f a b d e g
    by (rule quiet_trans [OF quiet_emit on_breaker_quiet]) simp
  note unfold = assms [unfolded attempt_once_def Let_def s1_def [symmetric] call prod.case s2_def [symmetric]]
  show ?thesis
  proof (cases outcome)
    case (Returned r)
    with unfold have "out = Attempt_Stop (Terminal_Result r)"
      and s': "s' = on_breaker record_success c (emit (Attempt_Span (int n + 1) 0 None None
          (REPLAY_DISPOSITION_MAPPING (sb_engine_class binding))) s2)" by auto
    then show ?thesis using quietly breaker_quiet by (simp add: on_breaker_registry s2)
  next
    case Call_Cancelled
    with unfold show ?thesis using quietly s2 by auto
  next
    case (Raised_Base exc)
    with unfold show ?thesis using quietly s2 by auto
  next
    case (Raised exc)
    show ?thesis
    proof (cases "is_hitl_terminal_control_flow exc")
      case True
      with unfold Raised show ?thesis using quietly s2 by auto
    next
      case False
      show ?thesis
      proof (cases "classify_provider_exception exc")
        case None
        with unfold Raised False show ?thesis
          using quietly breaker_quiet by (auto simp: on_breaker_registry s2)
      next
        case (Some cause)
        then have cause: "cause = TRANSIENT_RETRY" using classify_cases [of exc] by simp
        show ?thesis
        proof (cases "int n = rp_max_attempts policy - 1")
          case True
          with unfold Raised False Some cause show ?thesis
            using quietly breaker_quiet
            by (auto simp: on_breaker_registry s2 staircase_first_stage transition_row_def)
        next
          case more: False
          with unfold Raised False Some cause
          have "backoff_and_sleep env binding TRANSIENT_RETRY n (Some (failure_detail exc)) s2 = (out, s')"
            by (simp add: staircase_first_stage transition_row_def)
          from backoff_and_sleep_frame [OF this] quietly more show ?thesis by (auto simp: s2)
        qed
      qed
    qed
  qed
qed

section \<open>The attempts on a candidate\<close>

lemma run_attempts_spec:
  assumes "run_attempts env binding payload c policy k d ns s = (t, s')"
    and "ns \<noteq> []" and "int (last ns) = rp_max_attempts policy - 1"
  shows "(\<exists>new. dst_trace s' = dst_trace s @ new \<and> length (provider_calls new) \<le> length ns \<and>
            1 \<le> length (provider_calls new) \<and>
            set (provider_calls new) \<subseteq> {Provider_Call (pc_provider c) (pc_model c)}) \<and>
    dst_registry s' = outcome_registry c t (dst_registry s)"
  using assms
proof (induction ns arbitrary: k d s)
  case Nil
  then show ?case by simp
next
  case (Cons n ns)
  obtain out s1 where once: "attempt_once env binding payload c policy n s = (out, s1)" by fastforce
  obtain new1 where new1: "dst_trace s1 = dst_trace s @ Provider_Call (pc_provider c) (pc_model c) # new1"
    "provider_calls new1 = []" using attempt_once_spec [OF once] by blast
  show ?case
  proof (cases out)
    case (Attempt_Stop t')
    with Cons.prems(1) once have "t = t'" "s' = s1" by simp_all
    with new1 Attempt_Stop attempt_once_spec [OF once] show ?thesis by auto
  next
    case (Attempt_Retry k' d')
    then have reg: "dst_registry s1 = dst_registry s" and "int n \<noteq> rp_max_attempts policy - 1"
      using attempt_once_spec [OF once] by auto
    with Cons.prems(3) have ns: "ns \<noteq> []" "int (last ns) = rp_max_attempts policy - 1"
      by (auto split: if_splits)
    from Cons.prems(1) once Attempt_Retry
    have "run_attempts env binding payload c policy k' d' ns s1 = (t, s')" by simp
    from Cons.IH [OF this ns] obtain new2 where "dst_trace s' = dst_trace s1 @ new2"
      "length (provider_calls new2) \<le> length ns"
      "set (provider_calls new2) \<subseteq> {Provider_Call (pc_provider c) (pc_model c)}"
      "dst_registry s' = outcome_registry c t (dst_registry s)" by (auto simp: reg)
    with new1 show ?thesis by auto
  qed
qed

section \<open>The visit of a candidate\<close>

definition breaker_key :: "provider_candidate \<Rightarrow> breaker_scope \<times> pystr" where
  "breaker_key c = (PER_MODEL, breaker_identifier c)"

text \<open>A candidate is called when it has the capabilities and its breaker lets it through.\<close>

definition admissible :: "step_payload \<Rightarrow> retry_breaker_registry \<Rightarrow> provider_candidate \<Rightarrow> bool" where
  "admissible payload reg c \<longleftrightarrow>
     missing_capabilities (required_capabilities payload) c = [] \<and> should_attempt (breaker_at reg (breaker_key c))"

text \<open>The breaker of a candidate after a visit.\<close>

fun visited_breaker :: "'r visit_outcome \<Rightarrow> breaker_state_machine \<Rightarrow> breaker_state_machine" where
  "visited_breaker (Visit_Done (Inr r)) b = snd (record_success b)"
| "visited_breaker (Visit_Done (Inl e)) b = b"
| "visited_breaker (Visit_Failed k d cause) b = snd (record_failure b)"

lemma outcome_registry_at:
  "breaker_at (outcome_registry c t reg) k =
     (if k = breaker_key c
      then (case t of Terminal_Result r \<Rightarrow> snd (record_success (breaker_at reg k))
              | Terminal_Failure x y \<Rightarrow> snd (record_failure (breaker_at reg k))
              | Terminal_Abort e \<Rightarrow> breaker_at reg k)
      else breaker_at reg k)"
  by (cases t) (auto simp: breaker_at_with breaker_key_def)

lemma outcome_registry_threshold:
  "rbr_fail_threshold (outcome_registry c t reg) = rbr_fail_threshold reg"
  by (cases t) (simp_all add: registry_frame)

lemma attempt_numbers:
  assumes "1 \<le> rp_max_attempts policy"
  shows "[0..<nat (rp_max_attempts policy)] \<noteq> []"
    and "int (last [0..<nat (rp_max_attempts policy)]) = rp_max_attempts policy - 1"
  using assms by simp_all

lemma visit_spec:
  assumes "visit env binding payload policy c s = (out, s')" and "1 \<le> rp_max_attempts policy"
  shows "(\<exists>new n. dst_trace s' = dst_trace s @ new \<and> n \<le> nat (rp_max_attempts policy) \<and>
            provider_calls new = replicate n (Provider_Call (pc_provider c) (pc_model c)) \<and>
            (n = 0 \<longleftrightarrow> \<not> admissible payload (dst_registry s) c)) \<and>
    (\<forall>k. breaker_at (dst_registry s') k =
       (if k = breaker_key c \<and> admissible payload (dst_registry s) c
        then visited_breaker out (breaker_at (dst_registry s) k) else breaker_at (dst_registry s) k)) \<and>
    rbr_fail_threshold (dst_registry s') = rbr_fail_threshold (dst_registry s)"
proof (cases "missing_capabilities (required_capabilities payload) c = []")
  case False
  with assms(1) show ?thesis by (auto simp: visit_def Let_def admissible_def)
next
  case caps: True
  obtain b reg where g: "get_breaker PER_MODEL (breaker_identifier c) (dst_registry s) = (b, reg)" by fastforce
  have b: "b = breaker_at (dst_registry s) (breaker_key c)"
    using get_breaker_at [of PER_MODEL "breaker_identifier c" "dst_registry s"] g by (simp add: breaker_key_def)
  have reg: "breaker_at reg k = breaker_at (dst_registry s) k" for k
    using breaker_at_get [of PER_MODEL "breaker_identifier c" "dst_registry s" k] g by simp
  have thr: "rbr_fail_threshold reg = rbr_fail_threshold (dst_registry s)"
    using registry_frame(3) [of PER_MODEL "breaker_identifier c" "dst_registry s"] g by simp
  define s1 where "s1 = s\<lparr>dst_registry := reg\<rparr>"
  have s1: "dst_trace s1 = dst_trace s" "dst_registry s1 = reg" by (simp_all add: s1_def)
  note unfold = assms(1) [unfolded visit_def Let_def g prod.case s1_def [symmetric]]
  show ?thesis
  proof (cases "should_attempt b")
    case False
    with unfold caps b show ?thesis by (auto simp: admissible_def s1 reg thr)
  next
    case True
    with caps b have adm: "admissible payload (dst_registry s) c" by (simp add: admissible_def)
    obtain t s2 where run: "run_attempts env binding payload c policy None None
        [0..<nat (rp_max_attempts policy)] s1 = (t, s2)" by fastforce
    note spec = run_attempts_spec [OF run attempt_numbers [OF assms(2)], unfolded s1]
    then obtain new where new: "dst_trace s2 = dst_trace s @ new"
      "length (provider_calls new) \<le> nat (rp_max_attempts policy)" "1 \<le> length (provider_calls new)"
      "set (provider_calls new) \<subseteq> {Provider_Call (pc_provider c) (pc_model c)}" by auto
    then have calls: "provider_calls new =
        replicate (length (provider_calls new)) (Provider_Call (pc_provider c) (pc_model c))"
      by (metis replicate_length_same singletonD subsetD)
    have out: "s' = s2" "visited_breaker out = (\<lambda>x. case t of Terminal_Result r \<Rightarrow> snd (record_success x)
        | Terminal_Failure k d \<Rightarrow> snd (record_failure x) | Terminal_Abort e \<Rightarrow> x)"
      using unfold caps True run by (cases t; auto)+
    have "\<exists>new n. dst_trace s' = dst_trace s @ new \<and> n \<le> nat (rp_max_attempts policy) \<and>
            provider_calls new = replicate n (Provider_Call (pc_provider c) (pc_model c)) \<and>
            (n = 0 \<longleftrightarrow> \<not> admissible payload (dst_registry s) c)"
      using new calls adm out(1) by (intro exI [of _ new] exI [of _ "length (provider_calls new)"]) auto
    moreover have "dst_registry s2 = outcome_registry c t reg" using spec by blast
    ultimately show ?thesis
      using adm by (simp add: out outcome_registry_at outcome_registry_threshold reg thr split: per_candidate_terminal.split)
  qed
qed

lemmas visit_trace = visit_spec [THEN conjunct1]
lemmas visit_breaker = visit_spec [THEN conjunct2, THEN conjunct1, THEN spec]
lemmas visit_threshold = visit_spec [THEN conjunct2, THEN conjunct2]

lemma visited_breaker_ok: "breaker_ok b \<Longrightarrow> breaker_ok (visited_breaker out b)"
  by (induction out b rule: visited_breaker.induct) (simp_all add: breaker_ok_ops)

lemma visit_registry_ok:
  assumes "visit env binding payload policy c s = (out, s')" and "1 \<le> rp_max_attempts policy"
    and "registry_ok (dst_registry s)"
  shows "registry_ok (dst_registry s')"
proof -
  have "breaker_ok (breaker_at (dst_registry s') k)" for k
  proof -
    have "breaker_ok (breaker_at (dst_registry s) k)"
      using assms(3) unfolding registry_ok_def by blast
    then show ?thesis unfolding visit_breaker [OF assms(1,2)] by (auto intro: visited_breaker_ok)
  qed
  then show ?thesis using assms(3) unfolding registry_ok_def visit_threshold [OF assms(1,2)] by blast
qed

section \<open>The specification: a walk along a list\<close>

fun dispatch_walk ::
  "('w, 'r) dispatch_env \<Rightarrow> step_binding \<Rightarrow> step_payload \<Rightarrow> retry_policy \<Rightarrow> nat
   \<Rightarrow> provider_candidate \<Rightarrow> provider_candidate list \<Rightarrow> 'w dispatch_state
   \<Rightarrow> (dispatch_error + 'r) \<times> 'w dispatch_state" where
  "dispatch_walk env binding payload policy len c cs s =
     (case visit env binding payload policy c s of
        (Visit_Done res, s') \<Rightarrow> (res, s')
      | (Visit_Failed k d cause, s') \<Rightarrow>
          (case cs of
             [] \<Rightarrow> (Inl (FallbackExhaustedError c k d),
                   emit (Fallback_Exhausted len (case k of Some x \<Rightarrow> x | None \<Rightarrow> lit ''unknown'') cause d) s')
           | c' # cs' \<Rightarrow> dispatch_walk env binding payload policy len c' cs' s'))"

declare dispatch_walk.simps [simp del]

text \<open>On a chain without duplicates the loop of the code is the walk.\<close>

lemma dispatch_loop_walk:
  assumes "distinct (ordered_candidates chain)"
  shows "i < length (ordered_candidates chain) \<Longrightarrow>
    dispatch_loop env binding payload policy chain (ordered_candidates chain ! i) s =
    Some (dispatch_walk env binding payload policy (chain_length chain) (ordered_candidates chain ! i)
            (drop (Suc i) (ordered_candidates chain)) s)"
proof (induction "length (ordered_candidates chain) - i" arbitrary: i s)
  case 0
  then show ?case by simp
next
  case (Suc n)
  let ?xs = "ordered_candidates chain"
  obtain out s' where visit: "visit env binding payload policy (?xs ! i) s = (out, s')" by fastforce
  show ?case
  proof (cases out)
    case (Visit_Done res)
    with visit show ?thesis
      by (simp add: dispatch_loop.simps [of env binding payload policy chain "?xs ! i" s] dispatch_walk.simps)
  next
    case (Visit_Failed k d cause)
    show ?thesis
    proof (cases "Suc i < length ?xs")
      case True
      then have adv: "advance_or_exhaust chain (?xs ! i) k d cause s' = (Inr (?xs ! Suc i), s')"
        using on_provider_failure_next [OF assms Suc.prems]
        by (simp add: advance_or_exhaust_def advance_or_raise_def)
      have "dispatch_loop env binding payload policy chain (?xs ! Suc i) s' =
          Some (dispatch_walk env binding payload policy (chain_length chain) (?xs ! Suc i) (drop (Suc (Suc i)) ?xs) s')"
        using Suc.hyps True by simp
      with visit Visit_Failed adv True show ?thesis
        by (simp add: dispatch_loop.simps [of env binding payload policy chain "?xs ! i" s]
            dispatch_walk.simps [of env binding payload policy "chain_length chain" "?xs ! i"]
            Cons_nth_drop_Suc [symmetric])
    next
      case False
      then have "advance_or_exhaust chain (?xs ! i) k d cause s' =
          (Inl (FallbackExhaustedError (?xs ! i) k d),
           emit (Fallback_Exhausted (chain_length chain) (case k of Some x \<Rightarrow> x | None \<Rightarrow> lit ''unknown'') cause d) s')"
        using on_provider_failure_next [OF assms Suc.prems]
        by (simp add: advance_or_exhaust_def advance_or_raise_def)
      with visit Visit_Failed False show ?thesis
        by (simp add: dispatch_loop.simps [of env binding payload policy chain "?xs ! i" s] dispatch_walk.simps)
    qed
  qed
qed

lemma dispatch_loop_primary:
  assumes "distinct (ordered_candidates chain)"
  shows "dispatch_loop env binding payload policy chain (fc_primary chain) s =
    Some (dispatch_walk env binding payload policy (chain_length chain) (fc_primary chain)
            (tl (ordered_candidates chain)) s)"
  using dispatch_loop_walk [OF assms, of 0] by (simp add: ordered_candidates_def)

section \<open>What a walk does\<close>

text \<open>The calls of a walk: each candidate in turn, a number of times.\<close>

definition calls_along :: "nat list \<Rightarrow> provider_candidate list \<Rightarrow> dispatch_event list" where
  "calls_along ns cs =
     concat (map2 (\<lambda>n c. replicate n (Provider_Call (pc_provider c) (pc_model c))) ns cs)"

lemma calls_along_simps [simp]:
  "calls_along [] cs = []"
  "calls_along (n # ns) (c # cs) = replicate n (Provider_Call (pc_provider c) (pc_model c)) @ calls_along ns cs"
  by (simp_all add: calls_along_def)

lemma calls_along_zeros: "length ns = length cs \<Longrightarrow> set ns \<subseteq> {0} \<Longrightarrow> calls_along ns cs = []"
  by (induction ns cs rule: list_induct2) simp_all

lemma calls_along_length: "length ns = length cs \<Longrightarrow> set ns \<subseteq> {..m} \<Longrightarrow> length (calls_along ns cs) \<le> m * length cs"
  by (induction ns cs rule: list_induct2) auto

lemma walk_calls:
  assumes "dispatch_walk env binding payload policy len c cs s = (res, s')" and "1 \<le> rp_max_attempts policy"
  shows "\<exists>new ns. dst_trace s' = dst_trace s @ new \<and> length ns = Suc (length cs) \<and>
    set ns \<subseteq> {..nat (rp_max_attempts policy)} \<and> provider_calls new = calls_along ns (c # cs)"
  using assms(1)
proof (induction cs arbitrary: c s)
  case Nil
  obtain out s1 where v: "visit env binding payload policy c s = (out, s1)" by fastforce
  obtain new n where "dst_trace s1 = dst_trace s @ new" "n \<le> nat (rp_max_attempts policy)"
    "provider_calls new = replicate n (Provider_Call (pc_provider c) (pc_model c))"
    using visit_trace [OF v assms(2)] by blast
  moreover have "\<exists>more. dst_trace s' = dst_trace s1 @ more \<and> provider_calls more = []"
    using Nil v by (cases out) (auto simp: dispatch_walk.simps)
  ultimately have "\<exists>new. dst_trace s' = dst_trace s @ new \<and> length [n] = Suc (length []) \<and>
      set [n] \<subseteq> {..nat (rp_max_attempts policy)} \<and> provider_calls new = calls_along [n] [c]" by auto
  then show ?case by blast
next
  case (Cons d ds)
  obtain out s1 where v: "visit env binding payload policy c s = (out, s1)" by fastforce
  obtain new n where new: "dst_trace s1 = dst_trace s @ new" "n \<le> nat (rp_max_attempts policy)"
    "provider_calls new = replicate n (Provider_Call (pc_provider c) (pc_model c))"
    using visit_trace [OF v assms(2)] by blast
  show ?case
  proof (cases out)
    case (Visit_Done r)
    with Cons.prems v have "s' = s1" by (simp add: dispatch_walk.simps)
    moreover have "calls_along (replicate (length ds) 0) ds = []" by (rule calls_along_zeros) auto
    ultimately have "dst_trace s' = dst_trace s @ new \<and> length (n # 0 # replicate (length ds) 0) = Suc (length (d # ds)) \<and>
        set (n # 0 # replicate (length ds) 0) \<subseteq> {..nat (rp_max_attempts policy)} \<and>
        provider_calls new = calls_along (n # 0 # replicate (length ds) 0) (c # d # ds)"
      using new by auto
    then show ?thesis by blast
  next
    case (Visit_Failed k e cause)
    with Cons.prems v have "dispatch_walk env binding payload policy len d ds s1 = (res, s')"
      by (simp add: dispatch_walk.simps [of env binding payload policy len c])
    from Cons.IH [OF this] obtain new' ns where "dst_trace s' = dst_trace s1 @ new'" "length ns = Suc (length ds)"
      "set ns \<subseteq> {..nat (rp_max_attempts policy)}" "provider_calls new' = calls_along ns (d # ds)" by blast
    with new have "dst_trace s' = dst_trace s @ (new @ new') \<and> length (n # ns) = Suc (length (d # ds)) \<and>
        set (n # ns) \<subseteq> {..nat (rp_max_attempts policy)} \<and>
        provider_calls (new @ new') = calls_along (n # ns) (c # d # ds)" by auto
    then show ?thesis by blast
  qed
qed

text \<open>What leaves the attempts as an exception, with its cause: an exception of a provider call that is HITL
  control flow or no \<open>Exception\<close>, a cancelled call or sleep, an overflowing delay.\<close>

definition call_ends :: "('w, 'r) dispatch_env \<Rightarrow> step_payload \<Rightarrow> 'r call_outcome \<Rightarrow> bool" where
  "call_ends env payload outcome \<longleftrightarrow> (\<exists>b w. fst (env_call env b payload w) = outcome)"

lemma call_endsI: "env_call env b payload w = (outcome, w') \<Longrightarrow> call_ends env payload outcome"
  unfolding call_ends_def by (metis fst_conv)

definition escaping :: "('w, 'r) dispatch_env \<Rightarrow> step_payload \<Rightarrow> dispatch_error \<Rightarrow> bool" where
  "escaping env payload e \<longleftrightarrow> (case e of
      Propagated exc \<Rightarrow> is_hitl_terminal_control_flow exc \<and> call_ends env payload (Raised exc)
    | Propagated_Base exc \<Rightarrow> call_ends env payload (Raised_Base exc)
    | CancelledError \<Rightarrow> call_ends env payload Call_Cancelled \<or> (\<exists>d w. fst (env_sleep env d w))
    | Delay_Failed j \<Rightarrow> (\<exists>reg n d. compute_delay_seconds reg n d = Inl j)
    | _ \<Rightarrow> False)"

lemma backoff_abort:
  assumes "backoff_and_sleep env binding cause n detail s = (Attempt_Stop (Terminal_Abort e), s')"
  shows "escaping env payload e"
  using assms
  by (auto simp: backoff_and_sleep_def Let_def escaping_def split: prod.splits sum.splits if_splits)
    (metis fst_conv)+

lemma attempt_abort:
  assumes "attempt_once env binding payload c policy n s = (Attempt_Stop (Terminal_Abort e), s')"
  shows "escaping env payload e"
proof -
  have stair: "advance_staircase STAGE_1_REFLEXION cause m \<noteq> Inl x" if "classify_provider_exception exc = Some cause"
    for exc cause m x
    using that classify_cases [of exc] by (auto simp: staircase_first_stage)
  show ?thesis
    using assms
    by (auto simp: attempt_once_def Let_def stair escaping_def [of _ _ "Propagated _"] escaping_def [of _ _ "Propagated_Base _"]
        escaping_def [of _ _ CancelledError]
        split: prod.splits call_outcome.splits option.splits sum.splits if_splits dest: call_endsI backoff_abort [where payload = payload])
qed

lemma run_attempts_abort:
  "run_attempts env binding payload c policy k d ns s = (Terminal_Abort e, s') \<Longrightarrow> escaping env payload e"
proof (induction ns arbitrary: k d s)
  case Nil
  then show ?case by simp
next
  case (Cons n ns)
  then show ?case by (auto split: prod.splits attempt_outcome.splits dest: attempt_abort)
qed

lemma visit_abort:
  "visit env binding payload policy c s = (Visit_Done (Inl e), s') \<Longrightarrow> escaping env payload e"
  by (auto simp: visit_def Let_def split: prod.splits if_splits per_candidate_terminal.splits dest: run_attempts_abort)

lemma walk_cases:
  assumes "dispatch_walk env binding payload policy len c (a # cs) s = (res, s')"
  obtains (finished) "visit env binding payload policy c s = (Visit_Done res, s')"
    | (failed) k d cause s1 where "visit env binding payload policy c s = (Visit_Failed k d cause, s1)"
        "dispatch_walk env binding payload policy len a cs s1 = (res, s')"
  using assms
  by (auto simp: dispatch_walk.simps [of env binding payload policy len c] split: prod.splits visit_outcome.splits)

lemma walk_error:
  "dispatch_walk env binding payload policy len c cs s = (Inl e, s') \<Longrightarrow>
   escaping env payload e \<or> (\<exists>k d. e = FallbackExhaustedError (last (c # cs)) k d \<and>
     (\<exists>x cause. last (dst_trace s') = Fallback_Exhausted len x cause d))"
proof (induction cs arbitrary: c s)
  case Nil
  then show ?case
    by (auto simp: dispatch_walk.simps split: prod.splits visit_outcome.splits dest: visit_abort)
next
  case (Cons a cs)
  from Cons.prems show ?case
  proof (cases rule: walk_cases)
    case finished
    then show ?thesis by (auto dest: visit_abort)
  next
    case failed
    with Cons.IH show ?thesis by simp
  qed
qed

lemma walk_registry_ok:
  assumes "1 \<le> rp_max_attempts policy"
  shows "dispatch_walk env binding payload policy len c cs s = (res, s') \<Longrightarrow>
    registry_ok (dst_registry s) \<Longrightarrow> registry_ok (dst_registry s')"
proof (induction cs arbitrary: c s)
  case Nil
  then show ?case
    using visit_registry_ok [OF _ assms]
    by (auto simp: dispatch_walk.simps split: prod.splits visit_outcome.splits)
next
  case (Cons a cs)
  from Cons.prems(1) show ?case
  proof (cases rule: walk_cases)
    case finished
    then show ?thesis using visit_registry_ok [OF _ assms] Cons.prems(2) by blast
  next
    case failed
    then show ?thesis using visit_registry_ok [OF _ assms] Cons.prems(2) Cons.IH by blast
  qed
qed

text \<open>An open breaker stays open during a dispatch, and its model is not called.\<close>

lemma visit_open:
  assumes "visit env binding payload policy c s = (out, s')" and "1 \<le> rp_max_attempts policy"
    and "bsm_state (breaker_at (dst_registry s) k) = BS_OPEN"
  shows "breaker_at (dst_registry s') k = breaker_at (dst_registry s) k"
  using assms(3) visit_breaker [OF assms(1,2), of k] by (auto simp: admissible_def should_attempt_def)

lemma visit_open_calls:
  assumes "visit env binding payload policy c s = (out, s')" and "1 \<le> rp_max_attempts policy"
    and "bsm_state (breaker_at (dst_registry s) (PER_MODEL, p @ lit '':'' @ m)) = BS_OPEN"
  shows "\<exists>new. dst_trace s' = dst_trace s @ new \<and> Provider_Call p m \<notin> set new"
proof -
  obtain new n where new: "dst_trace s' = dst_trace s @ new"
    "provider_calls new = replicate n (Provider_Call (pc_provider c) (pc_model c))"
    "n = 0 \<longleftrightarrow> \<not> admissible payload (dst_registry s) c"
    using visit_trace [OF assms(1,2)] by blast
  have "Provider_Call p m \<notin> set (provider_calls new)"
  proof
    assume "Provider_Call p m \<in> set (provider_calls new)"
    then have "p = pc_provider c" "m = pc_model c" "n \<noteq> 0" using new(2) by auto
    with new(3) assms(3) show False
      by (simp add: admissible_def should_attempt_def breaker_key_def breaker_identifier_def)
  qed
  with new(1) show ?thesis by (auto simp: provider_calls_def)
qed

lemma walk_open:
  assumes "1 \<le> rp_max_attempts policy"
  shows "dispatch_walk env binding payload policy len c cs s = (res, s') \<Longrightarrow>
    bsm_state (breaker_at (dst_registry s) (PER_MODEL, p @ lit '':'' @ m)) = BS_OPEN \<Longrightarrow>
    breaker_at (dst_registry s') (PER_MODEL, p @ lit '':'' @ m) = breaker_at (dst_registry s) (PER_MODEL, p @ lit '':'' @ m) \<and>
    (\<exists>new. dst_trace s' = dst_trace s @ new \<and> Provider_Call p m \<notin> set new)"
proof (induction cs arbitrary: c s)
  case Nil
  obtain out s1 where v: "visit env binding payload policy c s = (out, s1)" by fastforce
  have "dst_registry s' = dst_registry s1 \<and> (dst_trace s' = dst_trace s1 \<or>
      (\<exists>a b d e. dst_trace s' = dst_trace s1 @ [Fallback_Exhausted a b d e]))"
    using Nil(1) v by (cases out) (auto simp: dispatch_walk.simps)
  with visit_open [OF v assms Nil(2)] visit_open_calls [OF v assms Nil(2)] show ?case by auto
next
  case (Cons a cs)
  obtain out s1 where v: "visit env binding payload policy c s = (out, s1)" by fastforce
  note step = visit_open [OF v assms Cons.prems(2)] visit_open_calls [OF v assms Cons.prems(2)]
  show ?case
  proof (cases out)
    case (Visit_Done r)
    with Cons.prems(1) v have "s' = s1" by (simp add: dispatch_walk.simps)
    with step show ?thesis by simp
  next
    case (Visit_Failed k e cause)
    with Cons.prems v have "dispatch_walk env binding payload policy len a cs s1 = (res, s')"
      by (simp add: dispatch_walk.simps [of env binding payload policy len c])
    from Cons.IH [OF this] step Cons.prems(2) show ?thesis by auto
  qed
qed

text \<open>A dispatch records at most one outcome per model, however many attempts it made.\<close>

lemma walk_untouched:
  assumes "1 \<le> rp_max_attempts policy"
  shows "dispatch_walk env binding payload policy len c cs s = (res, s') \<Longrightarrow> k \<notin> breaker_key ` set (c # cs) \<Longrightarrow>
    breaker_at (dst_registry s') k = breaker_at (dst_registry s) k"
proof (induction cs arbitrary: c s)
  case Nil
  obtain out s1 where v: "visit env binding payload policy c s = (out, s1)" by fastforce
  have "dst_registry s' = dst_registry s1"
    using Nil(1) v by (cases out) (auto simp: dispatch_walk.simps)
  with visit_breaker [OF v assms, of k] Nil(2) show ?case by auto
next
  case (Cons a cs)
  obtain out s1 where v: "visit env binding payload policy c s = (out, s1)" by fastforce
  have same: "breaker_at (dst_registry s1) k = breaker_at (dst_registry s) k"
    using visit_breaker [OF v assms, of k] Cons.prems(2) by auto
  show ?case
  proof (cases out)
    case (Visit_Done r)
    with Cons.prems(1) v same show ?thesis by (simp add: dispatch_walk.simps)
  next
    case (Visit_Failed x e cause)
    with Cons.prems v have "dispatch_walk env binding payload policy len a cs s1 = (res, s')"
      by (simp add: dispatch_walk.simps [of env binding payload policy len c])
    from Cons.IH [OF this] Cons.prems(2) same show ?thesis by simp
  qed
qed

lemma visited_breaker_cases:
  "visited_breaker out b \<in> {b, snd (record_failure b), snd (record_success b)}"
  by (induction out b rule: visited_breaker.induct) simp_all

lemma walk_one_outcome:
  assumes "1 \<le> rp_max_attempts policy"
  shows "dispatch_walk env binding payload policy len c cs s = (res, s') \<Longrightarrow> distinct (map breaker_key (c # cs)) \<Longrightarrow>
    breaker_at (dst_registry s') k \<in> {breaker_at (dst_registry s) k,
      snd (record_failure (breaker_at (dst_registry s) k)), snd (record_success (breaker_at (dst_registry s) k))}"
proof (induction cs arbitrary: c s)
  case Nil
  obtain out s1 where v: "visit env binding payload policy c s = (out, s1)" by fastforce
  have "dst_registry s' = dst_registry s1"
    using Nil(1) v by (cases out) (auto simp: dispatch_walk.simps)
  with visit_breaker [OF v assms, of k] visited_breaker_cases [of out "breaker_at (dst_registry s) k"]
  show ?case by auto
next
  case (Cons a cs)
  obtain out s1 where v: "visit env binding payload policy c s = (out, s1)" by fastforce
  have first: "breaker_at (dst_registry s1) k \<in> {breaker_at (dst_registry s) k,
      snd (record_failure (breaker_at (dst_registry s) k)), snd (record_success (breaker_at (dst_registry s) k))}"
    using visit_breaker [OF v assms, of k] visited_breaker_cases [of out "breaker_at (dst_registry s) k"] by auto
  show ?case
  proof (cases out)
    case (Visit_Done r)
    with Cons.prems(1) v first show ?thesis by (simp add: dispatch_walk.simps)
  next
    case (Visit_Failed x e cause)
    with Cons.prems v have w: "dispatch_walk env binding payload policy len a cs s1 = (res, s')"
      by (simp add: dispatch_walk.simps [of env binding payload policy len c])
    show ?thesis
    proof (cases "k = breaker_key c")
      case True
      with Cons.prems(2) have "k \<notin> breaker_key ` set (a # cs)" by auto
      with walk_untouched [OF assms w] first show ?thesis by simp
    next
      case False
      then have "breaker_at (dst_registry s1) k = breaker_at (dst_registry s) k"
        using visit_breaker [OF v assms, of k] by simp
      with Cons.IH [OF w] Cons.prems(2) show ?thesis by simp
    qed
  qed
qed

section \<open>The whole dispatch\<close>

definition routed_start ::
  "(step_binding \<Rightarrow> step_payload \<Rightarrow> 'w \<Rightarrow> (py_exception + model_binding option) \<times> 'w) option
   \<Rightarrow> step_binding \<Rightarrow> step_payload \<Rightarrow> 'w dispatch_state
   \<Rightarrow> (py_exception + model_binding option) \<times> 'w dispatch_state" where
  "routed_start resolver binding payload s =
     (case resolver of
        None \<Rightarrow> (Inr None, s)
      | Some resolve \<Rightarrow> (case resolve binding payload (dst_world s) of (x, w) \<Rightarrow> (x, s\<lparr>dst_world := w\<rparr>)))"

text \<open>The specification of a dispatch: a total function.\<close>

definition dispatch_spec ::
  "('w, 'r) dispatch_env \<Rightarrow> llm_dispatcher
   \<Rightarrow> (step_binding \<Rightarrow> step_payload \<Rightarrow> 'w \<Rightarrow> (py_exception + model_binding option) \<times> 'w) option
   \<Rightarrow> step_binding \<Rightarrow> step_payload \<Rightarrow> pystr option \<Rightarrow> 'w dispatch_state
   \<Rightarrow> (dispatch_error + 'r) \<times> 'w dispatch_state" where
  "dispatch_spec env d resolver binding payload role s =
     (case routed_start resolver binding payload s of
        (Inl exc, s') \<Rightarrow> (Inl (Propagated exc), s')
      | (Inr routed, s') \<Rightarrow>
          (let chain = effective_chain d binding role routed
           in dispatch_walk env binding payload (get_policy (dst_registry s) RESERVED_LLM_DISPATCH_KEY)
                (chain_length chain) (fc_primary chain) (tl (ordered_candidates chain)) s'))"

lemma effective_chain_cases:
  "effective_chain d binding role routed = ld_fallback_chain d \<or>
   (\<exists>mb. effective_chain d binding role routed = augment_primary (ld_fallback_chain d) (candidate_from_binding mb))"
  by (auto simp: effective_chain_def Let_def split: option.split)

lemma effective_chain_distinct:
  assumes "distinct (ordered_candidates (ld_fallback_chain d))"
  shows "distinct (ordered_candidates (effective_chain d binding role routed))"
  using effective_chain_cases [of d binding role routed] augment_primary_distinct [OF assms] assms by metis

lemma dispatch_is_spec:
  assumes "distinct (ordered_candidates (ld_fallback_chain d))"
  shows "dispatch env d resolver binding payload role s = Some (dispatch_spec env d resolver binding payload role s)"
  using dispatch_loop_primary [OF effective_chain_distinct [OF assms]]
  by (auto simp: dispatch_def dispatch_spec_def routed_start_def Let_def split: option.splits prod.splits sum.splits)

lemma routed_start_frame:
  "routed_start resolver binding payload s = (x, s') \<Longrightarrow>
   dst_trace s' = dst_trace s \<and> dst_registry s' = dst_registry s"
  by (auto simp: routed_start_def split: option.splits prod.splits)

text \<open>A dispatch is a walk along the effective chain of the routed binding, unless the resolver raised.\<close>

lemma dispatch_Some_cases:
  assumes "dispatch env d resolver binding payload role s = Some (res, s')"
    and "distinct (ordered_candidates (ld_fallback_chain d))"
  obtains (raised) exc where "routed_start resolver binding payload s = (Inl exc, s')" "res = Inl (Propagated exc)"
      "dst_trace s' = dst_trace s" "dst_registry s' = dst_registry s" "resolver \<noteq> None"
    | (walked) routed s0 where "routed_start resolver binding payload s = (Inr routed, s0)"
      "dst_trace s0 = dst_trace s" "dst_registry s0 = dst_registry s"
      "dispatch_walk env binding payload (get_policy (dst_registry s) RESERVED_LLM_DISPATCH_KEY)
         (chain_length (effective_chain d binding role routed)) (fc_primary (effective_chain d binding role routed))
         (tl (ordered_candidates (effective_chain d binding role routed))) s0 = (res, s')"
proof -
  obtain x s0 where start: "routed_start resolver binding payload s = (x, s0)" by fastforce
  have spec: "dispatch_spec env d resolver binding payload role s = (res, s')"
    using assms(1) dispatch_is_spec [OF assms(2), of env resolver binding payload role s] by simp
  show thesis
  proof (cases x)
    case (Inl exc)
    with spec start have "res = Inl (Propagated exc)" "s' = s0" by (auto simp: dispatch_spec_def)
    moreover have "resolver \<noteq> None" using start Inl by (cases resolver) (auto simp: routed_start_def)
    ultimately show thesis using raised routed_start_frame [OF start] start Inl by simp
  next
    case (Inr routed)
    with spec start routed_start_frame [OF start] show thesis
      by (intro walked [of routed s0]) (auto simp: dispatch_spec_def Let_def)
  qed
qed

section \<open>Chains that repeat a candidate\<close>

lemma nth_in_take: "i < j \<Longrightarrow> j \<le> length xs \<Longrightarrow> xs ! i \<in> set (take j xs)"
  by (metis in_set_conv_nth length_take min.absorb2 nth_take)

lemma repeated_positions: "\<not> distinct xs \<Longrightarrow> \<exists>i k. i < k \<and> k < length xs \<and> xs ! i = xs ! k"
  by (metis distinct_conv_nth linorder_neqE_nat)

lemma first_repetition:
  assumes "\<not> distinct xs"
  shows "\<exists>j < length xs. distinct (take j xs) \<and> xs ! j \<in> set (take j xs)"
proof -
  let ?P = "\<lambda>j. j < length xs \<and> xs ! j \<in> set (take j xs)"
  have "\<exists>j. ?P j"
  proof -
    obtain i j where "i < j" "j < length xs" "xs ! i = xs ! j"
      using repeated_positions [OF assms] by blast
    then have "xs ! j \<in> set (take j xs)" using nth_in_take [of i j xs] by simp
    with \<open>j < length xs\<close> show ?thesis by blast
  qed
  then have j: "?P (LEAST j. ?P j)" by (rule LeastI_ex)
  define j where "j = (LEAST j. ?P j)"
  have least: "k < j \<Longrightarrow> \<not> ?P k" for k unfolding j_def by (rule not_less_Least)
  have j: "?P j" using j unfolding j_def .
  have "distinct (take j xs)"
  proof (rule ccontr)
    assume "\<not> distinct (take j xs)"
    then obtain i k where ik: "i < k" "k < j" "xs ! i = xs ! k"
      using repeated_positions [of "take j xs"] j by auto
    then have "xs ! k \<in> set (take k xs)" using j nth_in_take [of i k xs] by simp
    with least ik j show False by auto
  qed
  with j show ?thesis by blast
qed

lemma py_index_append: "x \<in> set xs \<Longrightarrow> py_index (xs @ ys) x = py_index xs x"
  by (induction xs) auto

text \<open>From a candidate of the distinct prefix the step stays inside the prefix.\<close>

lemma next_stays:
  assumes "j < length (ordered_candidates chain)" and "distinct (take j (ordered_candidates chain))"
    and "ordered_candidates chain ! j \<in> set (take j (ordered_candidates chain))"
    and "c \<in> set (take j (ordered_candidates chain))"
  shows "\<exists>c'. ofr_next_candidate (on_provider_failure c chain) = Some c' \<and>
    c' \<in> set (take j (ordered_candidates chain))"
proof -
  let ?xs = "ordered_candidates chain"
  obtain i where i: "i < j" "c = ?xs ! i" using assms(4) by (auto simp: in_set_conv_nth)
  have "py_index ?xs c = py_index (take j ?xs) c"
    using py_index_append [OF assms(4), of "drop j ?xs"] by simp
  also have "\<dots> = Some i" using py_index_distinct [OF assms(2), of i] i assms(1) by simp
  finally have next_c: "ofr_next_candidate (on_provider_failure c chain) = Some (?xs ! Suc i)"
    using on_provider_failure_index [of chain c i] i(1) assms(1) by simp
  show ?thesis
  proof (cases "Suc i = j")
    case True
    with next_c assms(3) show ?thesis by simp
  next
    case False
    with i(1) have "?xs ! Suc i \<in> set (take j ?xs)" using assms(1) by (intro nth_in_take) simp_all
    with next_c show ?thesis by simp
  qed
qed

definition trapped :: "step_payload \<Rightarrow> nat \<Rightarrow> fallback_chain \<Rightarrow> bool" where
  "trapped payload j chain \<longleftrightarrow> j < length (ordered_candidates chain) \<and>
     distinct (take j (ordered_candidates chain)) \<and>
     ordered_candidates chain ! j \<in> set (take j (ordered_candidates chain)) \<and>
     (\<forall>c \<in> set (ordered_candidates chain). missing_capabilities (required_capabilities payload) c \<noteq> [])"

lemma trapped_step:
  assumes "trapped payload j chain" and "c \<in> set (take j (ordered_candidates chain))"
  shows "\<exists>c' k d cause s'. visit env binding payload policy c s = (Visit_Failed k d cause, s') \<and>
    advance_or_exhaust chain c k d cause s' = (Inr c', s') \<and> c' \<in> set (take j (ordered_candidates chain))"
proof -
  have "missing_capabilities (required_capabilities payload) c \<noteq> []"
    using assms in_set_takeD [OF assms(2)] by (simp add: trapped_def)
  then obtain k d cause s' where v: "visit env binding payload policy c s = (Visit_Failed k d cause, s')"
    by (simp add: visit_def Let_def)
  obtain c' where "ofr_next_candidate (on_provider_failure c chain) = Some c'"
    "c' \<in> set (take j (ordered_candidates chain))"
    using next_stays assms unfolding trapped_def by blast
  with v show ?thesis by (auto simp: advance_or_exhaust_def advance_or_raise_def Let_def)
qed

lemma trapped_never_returns:
  assumes "dispatch_loop env binding payload policy chain c s = Some y"
  shows "trapped payload j chain \<longrightarrow> c \<notin> set (take j (ordered_candidates chain))"
proof (rule dispatch_loop.raw_induct [where P = "\<lambda>env binding payload policy chain c s y.
        trapped payload j chain \<longrightarrow> c \<notin> set (take j (ordered_candidates chain))", OF _ assms])
  fix loop :: "('w, 'r) dispatch_env \<Rightarrow> step_binding \<Rightarrow> step_payload \<Rightarrow> retry_policy \<Rightarrow> fallback_chain
     \<Rightarrow> provider_candidate \<Rightarrow> 'w dispatch_state \<Rightarrow> ((dispatch_error + 'r) \<times> 'w dispatch_state) option"
    and env :: "('w, 'r) dispatch_env" and binding payload policy chain c s y
  assume IH: "\<And>env binding payload policy chain c s y. loop env binding payload policy chain c s = Some y \<Longrightarrow>
      trapped payload j chain \<longrightarrow> c \<notin> set (take j (ordered_candidates chain))"
    and body: "(case visit env binding payload policy c s of
        (Visit_Done res, s') \<Rightarrow> Some (res, s')
      | (Visit_Failed k d cause, s') \<Rightarrow>
          (case advance_or_exhaust chain c k d cause s' of
             (Inl e, s'') \<Rightarrow> Some (Inl e, s'')
           | (Inr c', s'') \<Rightarrow> loop env binding payload policy chain c' s'')) = Some y"
  show "trapped payload j chain \<longrightarrow> c \<notin> set (take j (ordered_candidates chain))"
  proof
    assume trap: "trapped payload j chain"
    show "c \<notin> set (take j (ordered_candidates chain))"
    proof
      assume c: "c \<in> set (take j (ordered_candidates chain))"
      obtain c' k d cause s' where "visit env binding payload policy c s = (Visit_Failed k d cause, s')"
        "advance_or_exhaust chain c k d cause s' = (Inr c', s')" and c': "c' \<in> set (take j (ordered_candidates chain))"
        using trapped_step [OF trap c] by blast
      with body have "loop env binding payload policy chain c' s' = Some y" by simp
      from IH [OF this] trap c' show False by simp
    qed
  qed
qed

lemma repeated_candidate_loops:
  assumes "\<not> distinct (ordered_candidates chain)"
    and "\<And>c. c \<in> set (ordered_candidates chain) \<Longrightarrow> missing_capabilities (required_capabilities payload) c \<noteq> []"
  shows "dispatch_loop env binding payload policy chain (fc_primary chain) s = None"
proof -
  let ?xs = "ordered_candidates chain"
  obtain j where j: "j < length ?xs" "distinct (take j ?xs)" "?xs ! j \<in> set (take j ?xs)"
    using first_repetition [OF assms(1)] by blast
  then have trap: "trapped payload j chain" using assms(2) by (simp add: trapped_def)
  have "0 < j" using j(3) by (cases j) simp_all
  then have "fc_primary chain \<in> set (take j ?xs)" by (cases j) (simp_all add: ordered_candidates_def)
  with trap trapped_never_returns show ?thesis by (cases "dispatch_loop env binding payload policy chain (fc_primary chain) s") blast+
qed

section \<open>Properties\<close>

text \<open>A two-candidate chain, an environment that fails the first call and answers the second, and a
  registry in its initial state: the instance the witnesses below are evaluated on.\<close>

definition sample_candidate :: "string \<Rightarrow> string \<Rightarrow> provider_candidate" where
  "sample_candidate p m = candidate_from_binding \<lparr>mb_provider = lit p, mb_model = lit m\<rparr>"

definition sample_dispatcher :: llm_dispatcher where
  "sample_dispatcher =
     \<lparr>ld_fallback_chain = compose_fallback_chain (sample_candidate ''anthropic'' ''opus-4-7'') []
        [sample_candidate ''ollama'' ''llama3''] None,
      ld_routing_manifest = None, ld_workload_class = None\<rparr>"

definition sample_binding :: step_binding where
  "sample_binding = \<lparr>sb_step_id = lit ''s1'', sb_model_binding = \<lparr>mb_provider = [], mb_model = []\<rparr>,
     sb_model_binding_override = None, sb_engine_class = PURE_PATTERN_NO_ENGINE\<rparr>"

definition sample_env :: "(nat, unit) dispatch_env" where
  "sample_env = \<lparr>env_call = (\<lambda>b p n. if n = 0
       then (Raised \<lparr>exc_class = LLMDispatchProviderUnreachableError,
          exc_type_name = lit ''LLMDispatchProviderUnreachableError'', exc_str = []\<rparr>, 1)
       else (Returned (), n)),
     env_sleep = (\<lambda>d n. (False, n)), env_draw = (\<lambda>n. (1/2, n))\<rparr>"

definition sample_registry :: retry_breaker_registry where
  "sample_registry = \<lparr>rbr_retry_policies = [RESERVED_LLM_DISPATCH_KEY \<mapsto> DEFAULT_LLM_DISPATCH_RETRY_POLICY],
     rbr_default_policy = DEFAULT_LLM_DISPATCH_RETRY_POLICY, rbr_fail_threshold = 5,
     rbr_cooldown_seconds = 30, rbr_base_delay_seconds = 1/2, rbr_delay_cap_seconds = 30,
     rbr_breakers = Map.empty\<rparr>"

definition sample_open_registry :: retry_breaker_registry where
  "sample_open_registry = sample_registry\<lparr>rbr_breakers :=
     [(PER_MODEL, lit ''anthropic:opus-4-7'') \<mapsto>
        (fresh_breaker sample_registry PER_MODEL (lit ''anthropic:opus-4-7''))
          \<lparr>bsm_state := BS_OPEN, bsm_fail_count := 5\<rparr>]\<rparr>"

definition sample_state :: "nat dispatch_state" where
  "sample_state = \<lparr>dst_registry = sample_registry, dst_trace = [], dst_world = 0\<rparr>"

definition sample_thinking_payload :: step_payload where
  "sample_thinking_payload = [(lit ''params'', JObj [(lit ''thinking'', JBool True)])]"

lemma sample_thinking_missing:
  "missing_capabilities (required_capabilities sample_thinking_payload) (sample_candidate ''ollama'' m) = [THINKING]"
  by (simp add: missing_capabilities_def required_capabilities_def sample_thinking_payload_def py_get_def
      reflect_supports sample_candidate_def candidate_from_binding_def)

lemma sample_facts:
  "distinct (ordered_candidates (ld_fallback_chain sample_dispatcher))"
  "1 \<le> rp_max_attempts (get_policy (dst_registry sample_state) RESERVED_LLM_DISPATCH_KEY)"
  "rp_max_attempts (get_policy (dst_registry sample_state) RESERVED_LLM_DISPATCH_KEY) = 3"
  "registry_ok (dst_registry sample_state)"
  by (simp_all add: sample_dispatcher_def compose_fallback_chain_def ordered_candidates_def sample_candidate_def
      candidate_from_binding_def sample_state_def sample_registry_def get_policy_def
      DEFAULT_LLM_DISPATCH_RETRY_POLICY_def registry_ok_def breaker_at_def fresh_breaker_def breaker_ok_def)

text \<open>Property C8. On a fallback chain that names no candidate twice the dispatch loop implements the walk
  specification, whatever the providers, the clock and the routing resolver do: it always returns,
  with the result and the final state of visiting the effective chain's candidates in order and
  stopping at the first visit that ends the dispatch.\<close>

theorem dispatch_refines_walk:
  assumes "distinct (ordered_candidates (ld_fallback_chain d))"
  shows "dispatch env d resolver binding payload role s = Some (dispatch_spec env d resolver binding payload role s)"
  using assms by (rule dispatch_is_spec)

lemma dispatch_refines_walk_witness:
  "dispatch sample_env sample_dispatcher None sample_binding [] None sample_state
   = Some (dispatch_spec sample_env sample_dispatcher None sample_binding [] None sample_state)"
  by (rule dispatch_refines_walk [OF sample_facts(1)])

text \<open>Property C9. On a fallback chain that names no candidate twice, under a policy of at least one attempt, a
  dispatch returns. If the routing resolver raised, no provider was called; otherwise providers are called in
  the order of the effective chain of the binding it answered, each candidate at most as often as the
  retry policy says, so the number of calls is at most the number of attempts times the length of that chain.\<close>

theorem dispatch_call_bound:
  assumes "distinct (ordered_candidates (ld_fallback_chain d))"
    and "1 \<le> rp_max_attempts (get_policy (dst_registry s) RESERVED_LLM_DISPATCH_KEY)"
  shows "\<exists>res s' new. dispatch env d resolver binding payload role s = Some (res, s') \<and> dst_trace s' = dst_trace s @ new \<and>
    (case fst (routed_start resolver binding payload s) of
       Inl exc \<Rightarrow> res = Inl (Propagated exc) \<and> new = []
     | Inr routed \<Rightarrow>
         (\<exists>ns. length ns = chain_length (effective_chain d binding role routed) \<and>
            set ns \<subseteq> {..nat (rp_max_attempts (get_policy (dst_registry s) RESERVED_LLM_DISPATCH_KEY))} \<and>
            provider_calls new = calls_along ns (ordered_candidates (effective_chain d binding role routed)) \<and>
            length (provider_calls new) \<le>
              nat (rp_max_attempts (get_policy (dst_registry s) RESERVED_LLM_DISPATCH_KEY))
              * chain_length (effective_chain d binding role routed)))"
proof -
  obtain res s' where d: "dispatch env d resolver binding payload role s = Some (res, s')"
    using dispatch_is_spec [OF assms(1)] by (metis surj_pair)
  from d assms(1) show ?thesis
  proof (cases rule: dispatch_Some_cases)
    case (raised exc)
    with d show ?thesis by auto
  next
    case (walked routed s0)
    let ?chain = "effective_chain d binding role routed"
    have "fc_primary ?chain # tl (ordered_candidates ?chain) = ordered_candidates ?chain"
      by (simp add: ordered_candidates_def)
    with walk_calls [OF walked(4) assms(2)] walked(2)
    obtain new ns where new: "dst_trace s' = dst_trace s @ new" "length ns = length (ordered_candidates ?chain)"
      "set ns \<subseteq> {..nat (rp_max_attempts (get_policy (dst_registry s) RESERVED_LLM_DISPATCH_KEY))}"
      "provider_calls new = calls_along ns (ordered_candidates ?chain)"
      by (metis length_Cons)
    with calls_along_length [OF new(2,3)] d walked(1) show ?thesis
      by (simp add: chain_length_ordered) metis
  qed
qed

lemma dispatch_call_bound_witness:
  "\<exists>res s' new. dispatch sample_env sample_dispatcher None sample_binding [] None sample_state = Some (res, s') \<and>
    dst_trace s' = dst_trace sample_state @ new \<and>
    length (provider_calls new) \<le> 3 * chain_length (effective_chain sample_dispatcher sample_binding None None)"
  using dispatch_call_bound [OF sample_facts(1,2), of sample_env None sample_binding "[]" None]
  unfolding sample_facts(3) by (auto simp: routed_start_def)

text \<open>Property C10. On a fallback chain that names no candidate twice, a dispatch fails in three ways only. The
  routing resolver raised; or an exception left an attempt, and then a provider call raised HITL control
  flow or a \<open>BaseException\<close> such as the pause signal of the gate, a call or sleep was cancelled, or a delay
  overflowed, but no other provider error gets out; or every candidate failed, and then the error names
  the last candidate of the effective chain and the trace ends with the exhaustion event for it.\<close>

theorem dispatch_errors:
  assumes "dispatch env d resolver binding payload role s = Some (Inl e, s')"
    and "distinct (ordered_candidates (ld_fallback_chain d))"
  shows "(case e of
      Propagated exc \<Rightarrow>
        fst (routed_start resolver binding payload s) = Inl exc \<or>
        is_hitl_terminal_control_flow exc \<and> call_ends env payload (Raised exc)
    | Propagated_Base exc \<Rightarrow> call_ends env payload (Raised_Base exc)
    | CancelledError \<Rightarrow> call_ends env payload Call_Cancelled \<or> (\<exists>t w. fst (env_sleep env t w))
    | Delay_Failed j \<Rightarrow> (\<exists>reg n t. compute_delay_seconds reg n t = Inl j)
    | Staircase_Failed x \<Rightarrow> False
    | FallbackExhaustedError c k detail \<Rightarrow>
        (\<exists>routed x cause. fst (routed_start resolver binding payload s) = Inr routed \<and>
           c = last (ordered_candidates (effective_chain d binding role routed)) \<and>
           last (dst_trace s') = Fallback_Exhausted (chain_length (effective_chain d binding role routed)) x cause detail))"
  using assms
proof (cases rule: dispatch_Some_cases)
  case (raised exc)
  then show ?thesis by simp
next
  case (walked routed s0)
  let ?chain = "effective_chain d binding role routed"
  have "fc_primary ?chain # tl (ordered_candidates ?chain) = ordered_candidates ?chain"
    by (simp add: ordered_candidates_def)
  with walk_error [OF walked(4)] walked(1) show ?thesis
    by (fastforce simp: escaping_def split: dispatch_error.splits)
qed

lemma dispatch_errors_witness:
  "\<exists>k detail. dispatch sample_env
     \<lparr>ld_fallback_chain = \<lparr>fc_primary = sample_candidate ''ollama'' ''llama3'', fc_same_family = [],
        fc_cross_family = [], fc_terminal = None\<rparr>,
      ld_routing_manifest = None, ld_workload_class = None\<rparr>
     None sample_binding sample_thinking_payload None sample_state
   = Some (Inl (FallbackExhaustedError (sample_candidate ''ollama'' ''llama3'') k detail),
       emit (Fallback_Exhausted 1 (lit ''capability-shortfall'') ''capability-shortfall'' None)
         (emit (Fallback_Triggered (lit ''ollama'') (lit ''llama3'') [THINKING]) sample_state)) \<and>
   sample_candidate ''ollama'' ''llama3'' = last [sample_candidate ''ollama'' ''llama3'']"
  (is "\<exists>k detail. dispatch _ ?d None _ _ None _ = Some (Inl (?e k detail), ?s) \<and> _")
proof -
  have distinct: "distinct (ordered_candidates (ld_fallback_chain ?d))"
    by (simp add: ordered_candidates_def)
  have fields: "pc_provider (sample_candidate ''ollama'' ''llama3'') = lit ''ollama''"
    "pc_model (sample_candidate ''ollama'' ''llama3'') = lit ''llama3''"
    by (simp_all add: sample_candidate_def candidate_from_binding_def)
  have chain: "effective_chain ?d sample_binding None None = ld_fallback_chain ?d"
    by (simp add: effective_chain_def sample_binding_def workload_binding_def role_binding_def role_or_default_def Let_def)
  have run: "dispatch sample_env ?d None sample_binding sample_thinking_payload None sample_state =
      Some (Inl (?e (Some (lit ''capability-shortfall'')) None), ?s)"
    unfolding dispatch_is_spec [OF distinct] dispatch_spec_def routed_start_def
    by (simp add: chain ordered_candidates_def dispatch_walk.simps visit_def
        sample_thinking_missing chain_length_def fields Let_def)
  from dispatch_errors [OF run distinct] run show ?thesis
    by auto
qed

text \<open>Property C11. While the breaker of a model is open, a dispatch that returns, on a base chain that names no
  candidate twice and under a policy of at least one attempt, has never called that model, wherever the model
  stands in the chain, and has left the breaker open and unchanged.\<close>

theorem dispatch_respects_open_breaker:
  assumes "dispatch env d resolver binding payload role s = Some (res, s')"
    and "distinct (ordered_candidates (ld_fallback_chain d))"
    and "1 \<le> rp_max_attempts (get_policy (dst_registry s) RESERVED_LLM_DISPATCH_KEY)"
    and "bsm_state (breaker_at (dst_registry s) (PER_MODEL, p @ lit '':'' @ m)) = BS_OPEN"
  shows "breaker_at (dst_registry s') (PER_MODEL, p @ lit '':'' @ m)
      = breaker_at (dst_registry s) (PER_MODEL, p @ lit '':'' @ m) \<and>
    (\<exists>new. dst_trace s' = dst_trace s @ new \<and> Provider_Call p m \<notin> set new)"
  using assms(1,2)
proof (cases rule: dispatch_Some_cases)
  case raised
  then show ?thesis by simp
next
  case (walked routed s0)
  have "bsm_state (breaker_at (dst_registry s0) (PER_MODEL, p @ lit '':'' @ m)) = BS_OPEN"
    using assms(4) unfolding walked(3) .
  from walk_open [OF assms(3) walked(4) this] show ?thesis unfolding walked(2,3) .
qed

lemma dispatch_respects_open_breaker_witness:
  "\<exists>res s' new. dispatch sample_env sample_dispatcher None sample_binding [] None
       (sample_state\<lparr>dst_registry := sample_open_registry\<rparr>) = Some (res, s') \<and>
     dst_trace s' = new \<and> Provider_Call (lit ''anthropic'') (lit ''opus-4-7'') \<notin> set new"
proof -
  let ?s = "sample_state\<lparr>dst_registry := sample_open_registry\<rparr>"
  obtain res s' where run: "dispatch sample_env sample_dispatcher None sample_binding [] None ?s = Some (res, s')"
    using dispatch_is_spec [OF sample_facts(1)] by (metis surj_pair)
  have "1 \<le> rp_max_attempts (get_policy (dst_registry ?s) RESERVED_LLM_DISPATCH_KEY)"
    by (simp add: sample_open_registry_def sample_registry_def get_policy_def DEFAULT_LLM_DISPATCH_RETRY_POLICY_def)
  moreover have "bsm_state (breaker_at (dst_registry ?s) (PER_MODEL, lit ''anthropic'' @ lit '':'' @ lit ''opus-4-7'')) = BS_OPEN"
    by (simp add: sample_open_registry_def breaker_at_def)
  ultimately show ?thesis
    using dispatch_respects_open_breaker [OF run sample_facts(1)] run by (auto simp: sample_state_def)
qed

text \<open>Property C12. A dispatch counts at most one outcome per model: when the base chain names no candidate twice
  and the candidates of the effective chain, which may start with a routed binding, are different models, the
  breaker of each model afterwards is the breaker before, or the breaker after one failure, or the breaker
  after one success, however many attempts were made; and the invariant of every breaker is kept.\<close>

theorem dispatch_counts_once:
  assumes "dispatch env d resolver binding payload role s = Some (res, s')"
    and "distinct (ordered_candidates (ld_fallback_chain d))"
    and "\<And>routed. fst (routed_start resolver binding payload s) = Inr routed \<Longrightarrow>
      distinct (map breaker_identifier (ordered_candidates (effective_chain d binding role routed)))"
    and "1 \<le> rp_max_attempts (get_policy (dst_registry s) RESERVED_LLM_DISPATCH_KEY)"
    and "registry_ok (dst_registry s)"
  shows "breaker_at (dst_registry s') k \<in> {breaker_at (dst_registry s) k,
      snd (record_failure (breaker_at (dst_registry s) k)), snd (record_success (breaker_at (dst_registry s) k))} \<and>
    registry_ok (dst_registry s')"
  using assms(1,2)
proof (cases rule: dispatch_Some_cases)
  case raised
  then show ?thesis using assms(5) by simp
next
  case (walked routed s0)
  let ?chain = "effective_chain d binding role routed"
  have eq: "fc_primary ?chain # tl (ordered_candidates ?chain) = ordered_candidates ?chain"
    by (simp add: ordered_candidates_def)
  have "distinct (map breaker_key (fc_primary ?chain # tl (ordered_candidates ?chain)))"
    using assms(3) [of routed] walked(1) unfolding eq by (auto simp: distinct_map breaker_key_def inj_on_def)
  from walk_one_outcome [OF assms(4) walked(4) this] walk_registry_ok [OF assms(4) walked(4)] assms(5)
  show ?thesis unfolding walked(3) by blast
qed

lemma dispatch_counts_once_witness:
  "\<exists>res s'. dispatch sample_env sample_dispatcher None sample_binding [] None sample_state = Some (res, s') \<and>
     registry_ok (dst_registry s')"
proof -
  obtain res s' where run: "dispatch sample_env sample_dispatcher None sample_binding [] None sample_state = Some (res, s')"
    using dispatch_is_spec [OF sample_facts(1)] by (metis surj_pair)
  have "distinct (map breaker_identifier (ordered_candidates (effective_chain sample_dispatcher sample_binding None None)))"
    by (simp add: effective_chain_def sample_binding_def sample_dispatcher_def workload_binding_def role_binding_def
        role_or_default_def compose_fallback_chain_def ordered_candidates_def sample_candidate_def
        candidate_from_binding_def breaker_identifier_def Let_def)
  then have "distinct (map breaker_identifier (ordered_candidates (effective_chain sample_dispatcher sample_binding None routed)))"
    if "fst (routed_start None sample_binding [] sample_state) = Inr routed" for routed
    using that by (simp add: routed_start_def)
  from dispatch_counts_once [OF run sample_facts(1) this sample_facts(2,4)] run show ?thesis by blast
qed

text \<open>Property C13. A chain that names a candidate twice can make the dispatcher run for ever: when no
  candidate has the capabilities the payload asks for, the dispatch along such a chain never
  returns, because the step to the next candidate goes by the first position of the failed one.\<close>

theorem repeated_candidate_diverges:
  assumes "\<not> distinct (ordered_candidates (ld_fallback_chain d))"
    and "ld_routing_manifest d = None" and "sb_model_binding_override binding = None"
    and "\<forall>c \<in> set (ordered_candidates (ld_fallback_chain d)).
       missing_capabilities (required_capabilities payload) c \<noteq> []"
  shows "dispatch env d None binding payload role s = None"
proof -
  have "effective_chain d binding role None = ld_fallback_chain d"
    using assms(2,3) by (simp add: effective_chain_def workload_binding_def role_binding_def Let_def)
  moreover have "dispatch_loop env binding payload policy (ld_fallback_chain d)
      (fc_primary (ld_fallback_chain d)) s = None" for policy
    by (rule repeated_candidate_loops [OF assms(1)]) (use assms(4) in blast)
  ultimately show ?thesis by (simp add: dispatch_def Let_def)
qed

lemma repeated_candidate_diverges_witness:
  "dispatch sample_env
     \<lparr>ld_fallback_chain = compose_fallback_chain (sample_candidate ''ollama'' ''llama3'')
        [sample_candidate ''ollama'' ''llama3''] [] None,
      ld_routing_manifest = None, ld_workload_class = None\<rparr>
     None sample_binding sample_thinking_payload None sample_state = None"
  by (rule repeated_candidate_diverges)
    (simp_all add: compose_fallback_chain_def ordered_candidates_def sample_binding_def sample_thinking_missing)

text \<open>The primary of the effective chain is chosen by precedence (step override, workload
  override, a role other than the default, the routed binding), every other candidate of the base
  chain follows in its old order without the chosen model, and the base chain stays as it is when
  nothing is chosen or when it consists of the chosen model alone.\<close>

theorem effective_chain_spec:
  "ordered_candidates (effective_chain d binding role routed) =
   (case List.find (\<lambda>x. x \<noteq> None)
       [sb_model_binding_override binding, workload_binding d, role_binding d role, routed] of
      Some (Some mb) \<Rightarrow>
        (let c = candidate_from_binding mb;
             others = filter (\<lambda>x. \<not> same_model x c) (ordered_candidates (ld_fallback_chain d))
         in if others = [] then ordered_candidates (ld_fallback_chain d) else c # others)
    | _ \<Rightarrow> ordered_candidates (ld_fallback_chain d))"
  by (auto simp: effective_chain_def Let_def ordered_augment_primary split: option.split)

end
