(* ===== verification/Json_Codec.thy ===== *)
theory Json_Codec
  imports Json "HOL-Library.List_Lexorder" "HOL-Library.AList"
begin

text \<open>
  \<open>json.dumps\<close> and \<open>json.loads\<close> of the Python standard library, as far as the harness uses them: the
  two separator styles, \<open>sort_keys\<close>, \<open>ensure_ascii\<close>, and the parser with its string escapes,
  surrogate pairs, numbers, white space and duplicate keys. The text of a float is a parameter
  (\<open>float_codec\<close>); the non-finite floats and the recursion limit are not modelled. The main lemma is
  the round trip \<open>loads_dumps\<close>; the parser runs on fuel, and \<open>parse_fuel\<close> shows that the fuel
  \<open>loads\<close> gives it is enough: more fuel never changes the answer.
\<close>

record float_codec =
  fl_repr :: "rat \<Rightarrow> pystr"
  fl_parse :: "pystr \<Rightarrow> rat"

record dumps_options =
  do_spaced :: bool
  do_ensure_ascii :: bool

section \<open>Writing\<close>

definition hex_digit :: "nat \<Rightarrow> nat" where
  "hex_digit d = (if d < 10 then 48 + d else 87 + d)"

definition hex4 :: "nat \<Rightarrow> pystr" where
  "hex4 n = [hex_digit (n div 4096 mod 16), hex_digit (n div 256 mod 16), hex_digit (n div 16 mod 16),
             hex_digit (n mod 16)]"

definition u_escape :: "nat \<Rightarrow> pystr" where
  "u_escape n = 92 # 117 # hex4 n"

definition escape_char :: "bool \<Rightarrow> nat \<Rightarrow> pystr" where
  "escape_char ascii c =
     (if c = 34 then [92, 34] else if c = 92 then [92, 92]
      else if c = 8 then [92, 98] else if c = 9 then [92, 116] else if c = 10 then [92, 110]
      else if c = 12 then [92, 102] else if c = 13 then [92, 114]
      else if c < 32 then u_escape c
      else if \<not> ascii \<or> c < 127 then [c]
      else if c < 65536 then u_escape c
      else u_escape (55296 + (c - 65536) div 1024) @ u_escape (56320 + (c - 65536) mod 1024))"

definition dumps_str :: "bool \<Rightarrow> pystr \<Rightarrow> pystr" where
  "dumps_str ascii s = 34 # concat (map (escape_char ascii) s) @ [34]"

fun dec_nat :: "nat \<Rightarrow> pystr" where
  "dec_nat n = (if n < 10 then [48 + n] else dec_nat (n div 10) @ [48 + n mod 10])"

declare dec_nat.simps [simp del]

definition dec_int :: "int \<Rightarrow> pystr" where
  "dec_int i = (if i < 0 then 45 # dec_nat (nat (- i)) else dec_nat (nat i))"

definition item_sep :: "dumps_options \<Rightarrow> pystr" where
  "item_sep opts = (if do_spaced opts then [44, 32] else [44])"

definition key_sep :: "dumps_options \<Rightarrow> pystr" where
  "key_sep opts = (if do_spaced opts then [58, 32] else [58])"

fun dumps :: "float_codec \<Rightarrow> dumps_options \<Rightarrow> json \<Rightarrow> pystr" where
  "dumps fc opts JNull = lit ''null''"
| "dumps fc opts (JBool b) = (if b then lit ''true'' else lit ''false'')"
| "dumps fc opts (JInt i) = dec_int i"
| "dumps fc opts (JFloat q) = fl_repr fc q"
| "dumps fc opts (JStr s) = dumps_str (do_ensure_ascii opts) s"
| "dumps fc opts (JList xs) = 91 # py_join (item_sep opts) (map (dumps fc opts) xs) @ [93]"
| "dumps fc opts (JObj kvs) =
     123 # py_join (item_sep opts)
       (map (\<lambda>kv. dumps_str (do_ensure_ascii opts) (fst kv) @ key_sep opts @ dumps fc opts (snd kv)) kvs) @ [125]"

text \<open>\<open>sort_keys=True\<close>: every dictionary in key order.\<close>

fun sort_keys :: "json \<Rightarrow> json" where
  "sort_keys (JList xs) = JList (map sort_keys xs)"
| "sort_keys (JObj kvs) = JObj (sort_key fst (map (\<lambda>kv. (fst kv, sort_keys (snd kv))) kvs))"
| "sort_keys v = v"

section \<open>Reading\<close>

definition json_ws :: "nat \<Rightarrow> bool" where
  "json_ws c \<longleftrightarrow> c = 32 \<or> c = 9 \<or> c = 10 \<or> c = 13"

definition skip_ws :: "pystr \<Rightarrow> pystr" where
  "skip_ws s = dropWhile json_ws s"

definition hex_val :: "nat \<Rightarrow> nat option" where
  "hex_val c =
     (if 48 \<le> c \<and> c \<le> 57 then Some (c - 48)
      else if 97 \<le> c \<and> c \<le> 102 then Some (c - 87)
      else if 65 \<le> c \<and> c \<le> 70 then Some (c - 55)
      else None)"

fun parse_hex4 :: "pystr \<Rightarrow> (nat \<times> pystr) option" where
  "parse_hex4 (a # b # c # d # s) =
     (case (hex_val a, hex_val b, hex_val c, hex_val d) of
        (Some a', Some b', Some c', Some d') \<Rightarrow> Some (((a' * 16 + b') * 16 + c') * 16 + d', s)
      | _ \<Rightarrow> None)"
| "parse_hex4 _ = None"

definition simple_escape :: "nat \<Rightarrow> nat option" where
  "simple_escape c =
     (if c = 34 \<or> c = 92 \<or> c = 47 then Some c else if c = 98 then Some 8 else if c = 102 then Some 12
      else if c = 110 then Some 10 else if c = 114 then Some 13 else if c = 116 then Some 9 else None)"

text \<open>After \<open>\u\<close>: one code point, joined with a following low surrogate when it is a high one.\<close>

definition parse_u :: "pystr \<Rightarrow> (nat \<times> pystr) option" where
  "parse_u s =
     (case parse_hex4 s of
        None \<Rightarrow> None
      | Some (u, r) \<Rightarrow>
          if 55296 \<le> u \<and> u \<le> 56319 \<and> take 2 r = [92, 117]
          then (case parse_hex4 (drop 2 r) of
                  None \<Rightarrow> None
                | Some (u2, r2) \<Rightarrow>
                    if 56320 \<le> u2 \<and> u2 \<le> 57343
                    then Some (65536 + (u - 55296) * 1024 + (u2 - 56320), r2) else Some (u, r))
          else Some (u, r))"

lemma parse_hex4_shorter: "parse_hex4 s = Some (u, r) \<Longrightarrow> length r < length s"
  by (cases s rule: parse_hex4.cases) (auto split: option.splits)

lemma parse_u_shorter: "parse_u s = Some (u, r) \<Longrightarrow> length r < length s"
  by (auto simp: parse_u_def dest!: parse_hex4_shorter split: option.splits if_splits)

text \<open>The characters of a string up to the closing quote; control characters are refused.\<close>

function parse_chars :: "pystr \<Rightarrow> (pystr \<times> pystr) option" where
  "parse_chars s =
     (case s of
        [] \<Rightarrow> None
      | c # cs \<Rightarrow>
          if c = 34 then Some ([], cs)
          else if c < 32 then None
          else if c \<noteq> 92 then map_option (\<lambda>(t, r). (c # t, r)) (parse_chars cs)
          else (case cs of
                  [] \<Rightarrow> None
                | e # es \<Rightarrow>
                    if e = 117
                    then (case parse_u es of
                            None \<Rightarrow> None
                          | Some (u, r) \<Rightarrow> map_option (\<lambda>(t, r'). (u # t, r')) (parse_chars r))
                    else (case simple_escape e of
                            None \<Rightarrow> None
                          | Some u \<Rightarrow> map_option (\<lambda>(t, r'). (u # t, r')) (parse_chars es))))"
  by pat_completeness auto
termination
  by (relation "measure length") (auto dest: parse_u_shorter)

declare parse_chars.simps [simp del]

definition is_digit :: "nat \<Rightarrow> bool" where
  "is_digit c \<longleftrightarrow> 48 \<le> c \<and> c \<le> 57"

definition digits_val :: "pystr \<Rightarrow> nat" where
  "digits_val ds = foldl (\<lambda>n d. n * 10 + (d - 48)) 0 ds"

text \<open>The digits of the integer part: a lone zero or a run that starts with another digit.\<close>

definition int_part :: "pystr \<Rightarrow> pystr" where
  "int_part s = (case s of c # cs \<Rightarrow> if c = 48 then [48] else takeWhile is_digit s | [] \<Rightarrow> [])"

definition frac_part :: "pystr \<Rightarrow> pystr" where
  "frac_part s =
     (case s of c # cs \<Rightarrow> if c = 46 \<and> takeWhile is_digit cs \<noteq> [] then 46 # takeWhile is_digit cs else []
      | [] \<Rightarrow> [])"

definition exp_part :: "pystr \<Rightarrow> pystr" where
  "exp_part s =
     (case s of
        c # cs \<Rightarrow>
          if c = 101 \<or> c = 69 then
            (let sign = (case cs of d # _ \<Rightarrow> if d = 43 \<or> d = 45 then [d] else [] | [] \<Rightarrow> []);
                 ds = takeWhile is_digit (drop (length sign) cs)
             in if ds \<noteq> [] then c # sign @ ds else [])
          else []
      | [] \<Rightarrow> [])"

definition parse_number :: "float_codec \<Rightarrow> pystr \<Rightarrow> (json \<times> pystr) option" where
  "parse_number fc s =
     (let neg = (case s of c # _ \<Rightarrow> c = 45 | [] \<Rightarrow> False);
          s1 = (if neg then tl s else s);
          ip = int_part s1;
          s2 = drop (length ip) s1;
          fp = frac_part s2;
          s3 = drop (length fp) s2;
          ep = exp_part s3;
          s4 = drop (length ep) s3
      in if ip = [] then None
         else if fp = [] \<and> ep = [] then
           Some (JInt (if neg then - int (digits_val ip) else int (digits_val ip)), s4)
         else Some (JFloat (fl_parse fc ((if neg then [45] else []) @ ip @ fp @ ep)), s4))"

text \<open>A dictionary built from its pairs in order: a later value replaces an earlier one in place.\<close>

definition dict_of_pairs :: "(pystr \<times> json) list \<Rightarrow> (pystr \<times> json) list" where
  "dict_of_pairs kvs = fold (\<lambda>(k, v) d. AList.update k v d) kvs []"

fun parse_value :: "float_codec \<Rightarrow> nat \<Rightarrow> pystr \<Rightarrow> (json \<times> pystr) option"
  and parse_elems :: "float_codec \<Rightarrow> nat \<Rightarrow> pystr \<Rightarrow> (json list \<times> pystr) option"
  and parse_members :: "float_codec \<Rightarrow> nat \<Rightarrow> pystr \<Rightarrow> ((pystr \<times> json) list \<times> pystr) option" where
  "parse_value fc 0 s = None"
| "parse_value fc (Suc n) s =
     (case s of
        [] \<Rightarrow> None
      | c # cs \<Rightarrow>
          if c = 34 then map_option (\<lambda>(t, r). (JStr t, r)) (parse_chars cs)
          else if c = 123 then
            (case skip_ws cs of
               [] \<Rightarrow> None
             | d # ds \<Rightarrow>
                 if d = 125 then Some (JObj [], ds)
                 else map_option (\<lambda>(kvs, r). (JObj (dict_of_pairs kvs), r)) (parse_members fc n (d # ds)))
          else if c = 91 then
            (case skip_ws cs of
               [] \<Rightarrow> None
             | d # ds \<Rightarrow>
                 if d = 93 then Some (JList [], ds)
                 else map_option (\<lambda>(xs, r). (JList xs, r)) (parse_elems fc n (d # ds)))
          else if take 4 s = lit ''null'' then Some (JNull, drop 4 s)
          else if take 4 s = lit ''true'' then Some (JBool True, drop 4 s)
          else if take 5 s = lit ''false'' then Some (JBool False, drop 5 s)
          else parse_number fc s)"
| "parse_elems fc 0 s = None"
| "parse_elems fc (Suc n) s =
     (case parse_value fc n s of
        None \<Rightarrow> None
      | Some (v, r) \<Rightarrow>
          (case skip_ws r of
             [] \<Rightarrow> None
           | c # cs \<Rightarrow>
               if c = 93 then Some ([v], cs)
               else if c = 44 then map_option (\<lambda>(vs, r'). (v # vs, r')) (parse_elems fc n (skip_ws cs))
               else None))"
| "parse_members fc 0 s = None"
| "parse_members fc (Suc n) s =
     (case s of
        [] \<Rightarrow> None
      | c # cs \<Rightarrow>
          if c \<noteq> 34 then None
          else case parse_chars cs of
            None \<Rightarrow> None
          | Some (k, r) \<Rightarrow>
              (case skip_ws r of
                 [] \<Rightarrow> None
               | d # ds \<Rightarrow>
                   if d \<noteq> 58 then None
                   else case parse_value fc n (skip_ws ds) of
                     None \<Rightarrow> None
                   | Some (v, r') \<Rightarrow>
                       (case skip_ws r' of
                          [] \<Rightarrow> None
                        | e # es \<Rightarrow>
                            if e = 125 then Some ([(k, v)], es)
                            else if e = 44
                            then map_option (\<lambda>(kvs, r''). ((k, v) # kvs, r'')) (parse_members fc n (skip_ws es))
                            else None)))"

text \<open>\<open>loads\<close>: one value with white space around it; \<open>None\<close> is \<open>JSONDecodeError\<close>.\<close>

definition loads :: "float_codec \<Rightarrow> pystr \<Rightarrow> json option" where
  "loads fc s =
     (case parse_value fc (2 * length s + 2) (skip_ws s) of
        None \<Rightarrow> None
      | Some (v, r) \<Rightarrow> if skip_ws r = [] then Some v else None)"

section \<open>Strings round-trip\<close>

definition valid_cp :: "nat \<Rightarrow> bool" where
  "valid_cp c \<longleftrightarrow> c < 1114112 \<and> \<not> (55296 \<le> c \<and> c \<le> 57343)"

lemma hex_val_digit: "d < 16 \<Longrightarrow> hex_val (hex_digit d) = Some d"
  by (simp add: hex_val_def hex_digit_def)

lemma parse_hex4_hex4:
  assumes "n < 65536"
  shows "parse_hex4 (hex4 n @ r) = Some (n, r)"
proof -
  have "((n div 4096 mod 16 * 16 + n div 256 mod 16) * 16 + n div 16 mod 16) * 16 + n mod 16 = n"
  proof -
    have "n div 4096 mod 16 = n div 4096" using assms by simp
    moreover have "n div 4096 * 16 + n div 256 mod 16 = n div 256"
      using div_mult_mod_eq [of "n div 256" 16] by (simp add: div_mult2_eq [symmetric])
    moreover have "n div 256 * 16 + n div 16 mod 16 = n div 16"
      using div_mult_mod_eq [of "n div 16" 16] by (simp add: div_mult2_eq [symmetric])
    moreover have "n div 16 * 16 + n mod 16 = n" by simp
    ultimately show ?thesis by (simp only:)
  qed
  moreover have "hex_val (hex_digit (m mod 16)) = Some (m mod 16)" for m by (rule hex_val_digit) simp
  ultimately show ?thesis
    by (simp only: hex4_def append_Cons append_Nil parse_hex4.simps option.case prod.case)
qed

lemma parse_u_plain:
  assumes "n < 65536" and "\<not> (55296 \<le> n \<and> n \<le> 56319)"
  shows "parse_u (hex4 n @ r) = Some (n, r)"
  using assms(2) by (auto simp: parse_u_def parse_hex4_hex4 [OF assms(1)])

lemma parse_u_pair:
  assumes "65536 \<le> c" and "c < 1114112"
  shows "parse_u (hex4 (55296 + (c - 65536) div 1024) @ u_escape (56320 + (c - 65536) mod 1024) @ r) = Some (c, r)"
proof -
  let ?h = "55296 + (c - 65536) div 1024" and ?l = "56320 + (c - 65536) mod 1024"
  have h: "?h < 65536" "55296 \<le> ?h" "?h \<le> 56319" using assms by simp_all
  have l: "?l < 65536" "56320 \<le> ?l" "?l \<le> 57343" by (simp_all add: less_Suc_eq_le [symmetric])
  have "65536 + (?h - 55296) * 1024 + (?l - 56320) = c"
    using assms(1) div_mult_mod_eq [of "c - 65536" 1024] by simp
  then show ?thesis
    using h l by (simp add: parse_u_def parse_hex4_hex4 u_escape_def)
qed

lemma parse_chars_plain:
  "32 \<le> c \<Longrightarrow> c \<noteq> 34 \<Longrightarrow> c \<noteq> 92 \<Longrightarrow>
   parse_chars (c # r) = map_option (\<lambda>(t, r'). (c # t, r')) (parse_chars r)"
  by (subst parse_chars.simps) simp

lemma parse_chars_u:
  "parse_u s = Some (u, r) \<Longrightarrow>
   parse_chars (92 # 117 # s) = map_option (\<lambda>(t, r'). (u # t, r')) (parse_chars r)"
  by (subst parse_chars.simps) simp

lemma parse_chars_simple:
  "e \<noteq> 117 \<Longrightarrow> simple_escape e = Some u \<Longrightarrow>
   parse_chars (92 # e # r) = map_option (\<lambda>(t, r'). (u # t, r')) (parse_chars r)"
  by (subst parse_chars.simps) simp

lemma parse_chars_escape:
  assumes "valid_cp c"
  shows "parse_chars (escape_char ascii c @ r) = map_option (\<lambda>(t, r'). (c # t, r')) (parse_chars r)"
proof -
  consider "c \<in> {34, 92, 8, 9, 10, 12, 13}" | "c < 32" "c \<notin> {34, 92, 8, 9, 10, 12, 13}"
    | "32 \<le> c" "c \<noteq> 34" "c \<noteq> 92" "\<not> ascii \<or> c < 127"
    | "32 \<le> c" "c \<noteq> 34" "c \<noteq> 92" "ascii" "127 \<le> c" "c < 65536"
    | "32 \<le> c" "c \<noteq> 34" "c \<noteq> 92" "ascii" "65536 \<le> c"
    by force
  then show ?thesis
  proof cases
    case 1
    then show ?thesis
      by (auto simp: escape_char_def parse_chars_simple simple_escape_def)
  next
    case 2
    then have "parse_u (hex4 c @ r) = Some (c, r)" by (intro parse_u_plain) simp_all
    with 2 show ?thesis by (simp add: escape_char_def u_escape_def parse_chars_u)
  next
    case 3
    then show ?thesis by (simp add: escape_char_def parse_chars_plain)
  next
    case 4
    then have "parse_u (hex4 c @ r) = Some (c, r)"
      using assms by (intro parse_u_plain) (auto simp: valid_cp_def)
    with 4 show ?thesis by (simp add: escape_char_def u_escape_def parse_chars_u)
  next
    case 5
    with assms parse_u_pair [of c r] show ?thesis
      by (simp add: escape_char_def u_escape_def [of "55296 + (c - 65536) div 1024"] parse_chars_u valid_cp_def)
  qed
qed

lemma parse_chars_dumps:
  "list_all valid_cp s \<Longrightarrow> parse_chars (concat (map (escape_char ascii) s) @ 34 # r) = Some (s, r)"
  by (induction s) (simp_all add: parse_chars_escape parse_chars.simps [of "34 # r"])

section \<open>Numbers round-trip\<close>

text \<open>What may follow a number: nothing, or a character that cannot continue it.\<close>

definition num_delim :: "pystr \<Rightarrow> bool" where
  "num_delim r \<longleftrightarrow> (case r of [] \<Rightarrow> True | c # _ \<Rightarrow> \<not> is_digit c \<and> c \<notin> {46, 69, 101})"

lemma dec_nat_digits: "list_all is_digit (dec_nat n) \<and> dec_nat n \<noteq> []"
proof (induction n rule: less_induct)
  case (less n)
  then show ?case by (cases "n < 10") (simp_all add: dec_nat.simps [of n] is_digit_def)
qed

lemma dec_nat_hd: "0 < n \<Longrightarrow> hd (dec_nat n) \<noteq> 48"
proof (induction n rule: less_induct)
  case (less n)
  show ?case
  proof (cases "n < 10")
    case True
    with less.prems show ?thesis by (simp add: dec_nat.simps [of n])
  next
    case False
    then have "hd (dec_nat (n div 10)) \<noteq> 48" using less.IH by simp
    with False show ?thesis using dec_nat_digits [of "n div 10"] by (simp add: dec_nat.simps [of n] hd_append)
  qed
qed

lemma digits_val_append: "digits_val (ds @ [d]) = digits_val ds * 10 + (d - 48)"
  by (simp add: digits_val_def)

lemma digits_val_dec_nat: "digits_val (dec_nat n) = n"
proof (induction n rule: less_induct)
  case (less n)
  show ?case
  proof (cases "n < 10")
    case True
    then show ?thesis by (simp add: dec_nat.simps [of n] digits_val_def)
  next
    case False
    then show ?thesis using less.IH [of "n div 10"] by (simp add: dec_nat.simps [of n] digits_val_append)
  qed
qed

lemma takeWhile_digits: "list_all is_digit ds \<Longrightarrow> num_delim r \<Longrightarrow> takeWhile is_digit (ds @ r) = ds"
  by (induction ds) (auto simp: num_delim_def split: list.splits)

lemma int_part_dec_nat:
  assumes "num_delim r"
  shows "int_part (dec_nat n @ r) = dec_nat n"
proof (cases "n = 0")
  case True
  then show ?thesis by (simp add: dec_nat.simps int_part_def)
next
  case False
  obtain c cs where c: "dec_nat n = c # cs" using dec_nat_digits [of n] by (cases "dec_nat n") auto
  then have "c \<noteq> 48" using dec_nat_hd [of n] False by simp
  then show ?thesis
    using takeWhile_digits [OF _ assms, of "dec_nat n"] dec_nat_digits [of n] by (simp add: int_part_def c)
qed

lemma frac_exp_delim: "num_delim r \<Longrightarrow> frac_part r = [] \<and> exp_part r = []"
  by (auto simp: num_delim_def frac_part_def exp_part_def split: list.splits)

lemma parse_number_dec_int:
  assumes "num_delim r"
  shows "parse_number fc (dec_int i @ r) = Some (JInt i, r)"
proof -
  have "parse_number fc (dec_nat m @ r) = Some (JInt (int m), r)" for m
  proof -
    obtain c cs where c: "dec_nat m = c # cs" using dec_nat_digits [of m] by (cases "dec_nat m") auto
    then have "c \<noteq> 45" using dec_nat_digits [of m] by (auto simp: is_digit_def)
    then have neg: "(case dec_nat m @ r of c # _ \<Rightarrow> c = 45 | [] \<Rightarrow> False) = False" by (simp add: c)
    show ?thesis
      unfolding parse_number_def Let_def neg if_False
      using dec_nat_digits [of m] frac_exp_delim [OF assms]
      by (simp add: int_part_dec_nat [OF assms] digits_val_dec_nat)
  qed
  moreover have "parse_number fc (45 # dec_nat m @ r) = Some (JInt (- int m), r)" for m
    unfolding parse_number_def Let_def
    using dec_nat_digits [of m] frac_exp_delim [OF assms]
    by (simp add: int_part_dec_nat [OF assms] digits_val_dec_nat)
  ultimately show ?thesis by (simp add: dec_int_def)
qed

section \<open>Values round-trip\<close>

text \<open>What the code relies on for a float: its text starts like a number and reads back as the float.\<close>

definition float_ok :: "float_codec \<Rightarrow> rat \<Rightarrow> bool" where
  "float_ok fc q \<longleftrightarrow> fl_repr fc q \<noteq> [] \<and> (is_digit (hd (fl_repr fc q)) \<or> hd (fl_repr fc q) = 45) \<and>
     (\<forall>r. num_delim r \<longrightarrow> parse_number fc (fl_repr fc q @ r) = Some (JFloat q, r))"

fun wf_json :: "float_codec \<Rightarrow> json \<Rightarrow> bool" where
  "wf_json fc (JFloat q) = float_ok fc q"
| "wf_json fc (JStr s) = list_all valid_cp s"
| "wf_json fc (JList xs) = (\<forall>x \<in> set xs. wf_json fc x)"
| "wf_json fc (JObj kvs) =
     (distinct (map fst kvs) \<and> (\<forall>kv \<in> set kvs. list_all valid_cp (fst kv) \<and> wf_json fc (snd kv)))"
| "wf_json fc _ = True"

lemma dict_of_pairs_distinct_aux:
  "distinct (map fst (acc @ kvs)) \<Longrightarrow> fold (\<lambda>(k, v) d. AList.update k v d) kvs acc = acc @ kvs"
proof (induction kvs arbitrary: acc)
  case Nil
  then show ?case by simp
next
  case (Cons kv kvs)
  obtain k v where kv: "kv = (k, v)" by fastforce
  have "AList.update k v acc = acc @ [(k, v)]" if "k \<notin> fst ` set acc"
    using that by (induction acc) auto
  with Cons kv show ?case by simp
qed

lemma dict_of_pairs_distinct: "distinct (map fst kvs) \<Longrightarrow> dict_of_pairs kvs = kvs"
  using dict_of_pairs_distinct_aux [of "[]" kvs] by (simp add: dict_of_pairs_def)

lemma dumps_head:
  assumes "wf_json fc v"
  shows "\<exists>c cs. dumps fc opts v = c # cs \<and> \<not> json_ws c \<and> c \<notin> {93, 125}"
proof (cases v)
  case (JInt i)
  have digit: "\<exists>c cs. dec_nat m = c # cs \<and> is_digit c" for m
    using dec_nat_digits [of m] by (cases "dec_nat m") auto
  obtain c cs where "dec_int i = c # cs" "is_digit c \<or> c = 45"
    using digit [of "nat i"] by (cases "i < 0") (auto simp: dec_int_def)
  with JInt show ?thesis by (auto simp: json_ws_def is_digit_def)
next
  case (JFloat q)
  with assms show ?thesis by (cases "fl_repr fc q") (auto simp: float_ok_def json_ws_def is_digit_def)
qed (auto simp: json_ws_def dumps_str_def)

lemma skip_ws_head: "\<not> json_ws c \<Longrightarrow> skip_ws (c # cs) = c # cs"
  by (simp add: skip_ws_def)

lemma skip_ws_item_sep:
  "\<not> json_ws c \<Longrightarrow> skip_ws (item_sep opts @ c # cs) = 44 # (if do_spaced opts then 32 # c # cs else c # cs)"
  by (simp add: item_sep_def skip_ws_def json_ws_def)

lemma skip_ws_maybe_space:
  "\<not> json_ws c \<Longrightarrow> skip_ws (if do_spaced opts then 32 # c # cs else c # cs) = c # cs"
  by (simp add: skip_ws_def json_ws_def)

lemma num_delim_item_sep: "num_delim (item_sep opts @ r)"
  by (simp add: num_delim_def item_sep_def is_digit_def)

lemma num_delim_close: "num_delim (93 # r)" "num_delim (125 # r)"
  by (simp_all add: num_delim_def is_digit_def)

lemma skip_ws_key_sep:
  "\<not> json_ws c \<Longrightarrow> \<exists>ds. skip_ws (key_sep opts @ c # cs) = 58 # ds \<and> skip_ws ds = c # cs"
  by (auto simp: key_sep_def skip_ws_def json_ws_def)

text \<open>The elements of a list, given that every element round-trips.\<close>

lemma parse_elems_dumps:
  assumes "xs \<noteq> []" and "\<forall>x \<in> set xs. wf_json fc x"
    and "\<And>x n r. x \<in> set xs \<Longrightarrow> num_delim r \<Longrightarrow> 2 * length (dumps fc opts x) + 1 \<le> n \<Longrightarrow>
           parse_value fc n (dumps fc opts x @ r) = Some (x, r)"
    and "2 * length (py_join (item_sep opts) (map (dumps fc opts) xs)) + 2 \<le> n"
  shows "parse_elems fc n (py_join (item_sep opts) (map (dumps fc opts) xs) @ 93 # r) = Some (xs, r)"
  using assms
proof (induction xs arbitrary: n)
  case Nil
  then show ?case by simp
next
  case (Cons x xs)
  obtain m where n: "n = Suc m" using Cons.prems(4) by (cases n) auto
  show ?case
  proof (cases xs)
    case Nil
    have "parse_value fc m (dumps fc opts x @ 93 # r) = Some (x, 93 # r)"
      using Cons.prems Nil n by (intro Cons.prems(3)) (auto simp: num_delim_close)
    with Nil n show ?thesis by (simp add: skip_ws_head json_ws_def)
  next
    case (Cons y ys)
    let ?tail = "py_join (item_sep opts) (map (dumps fc opts) xs)"
    obtain c cs where y: "dumps fc opts y = c # cs" "\<not> json_ws c"
      using dumps_head [of fc y opts] Cons.prems(2) Cons by auto
    obtain cs' where tail: "?tail @ 93 # r = c # cs'"
      using y(1) Cons by (cases ys) auto
    have len: "2 * length (dumps fc opts x) + 2 * length ?tail + 4 \<le> n"
      using Cons.prems(4) Cons by (simp add: item_sep_def split: if_splits)
    have "parse_value fc m (dumps fc opts x @ item_sep opts @ ?tail @ 93 # r)
        = Some (x, item_sep opts @ ?tail @ 93 # r)"
      using Cons.prems(3) [of x "item_sep opts @ ?tail @ 93 # r" m] len n by (simp add: num_delim_item_sep)
    moreover have "parse_elems fc m (?tail @ 93 # r) = Some (xs, r)"
      using Cons len n Cons.prems(2,3) by (intro Cons.IH) auto
    moreover have "py_join (item_sep opts) (map (dumps fc opts) (x # xs)) @ 93 # r
        = dumps fc opts x @ item_sep opts @ ?tail @ 93 # r" using Cons by simp
    ultimately show ?thesis
      using n y(2) by (simp add: tail skip_ws_item_sep skip_ws_maybe_space)
  qed
qed

definition dumps_member :: "float_codec \<Rightarrow> dumps_options \<Rightarrow> pystr \<times> json \<Rightarrow> pystr" where
  "dumps_member fc opts kv = dumps_str (do_ensure_ascii opts) (fst kv) @ key_sep opts @ dumps fc opts (snd kv)"

lemma parse_members_step:
  assumes "wf_json fc v" and "list_all valid_cp k"
    and "parse_value fc n (dumps fc opts v @ r) = Some (v, r)"
  shows "parse_members fc (Suc n) (dumps_member fc opts (k, v) @ r) =
    (case skip_ws r of
       [] \<Rightarrow> None
     | e # es \<Rightarrow>
         if e = 125 then Some ([(k, v)], es)
         else if e = 44 then map_option (\<lambda>(kvs, r''). ((k, v) # kvs, r'')) (parse_members fc n (skip_ws es))
         else None)"
proof -
  obtain c cs where v: "dumps fc opts v = c # cs" "\<not> json_ws c"
    using dumps_head [OF assms(1)] by blast
  obtain ds where ds: "skip_ws (key_sep opts @ c # cs @ r) = 58 # ds" "skip_ws ds = c # cs @ r"
    using skip_ws_key_sep [OF v(2)] by blast
  have "parse_chars (concat (map (escape_char (do_ensure_ascii opts)) k) @ 34 # key_sep opts @ c # cs @ r)
      = Some (k, key_sep opts @ c # cs @ r)" by (rule parse_chars_dumps [OF assms(2)])
  with ds assms(3) show ?thesis by (simp add: dumps_member_def dumps_str_def v(1))
qed

lemma parse_members_dumps:
  assumes "kvs \<noteq> []" and "\<forall>kv \<in> set kvs. list_all valid_cp (fst kv) \<and> wf_json fc (snd kv)"
    and "\<And>kv n r. kv \<in> set kvs \<Longrightarrow> num_delim r \<Longrightarrow> 2 * length (dumps fc opts (snd kv)) + 1 \<le> n \<Longrightarrow>
           parse_value fc n (dumps fc opts (snd kv) @ r) = Some (snd kv, r)"
    and "2 * length (py_join (item_sep opts) (map (dumps_member fc opts) kvs)) + 2 \<le> n"
  shows "parse_members fc n (py_join (item_sep opts) (map (dumps_member fc opts) kvs) @ 125 # r) = Some (kvs, r)"
  using assms
proof (induction kvs arbitrary: n)
  case Nil
  then show ?case by simp
next
  case (Cons kv kvs)
  obtain m where n: "n = Suc m" using Cons.prems(4) by (cases n) auto
  obtain k v where kv: "kv = (k, v)" by fastforce
  have wf: "wf_json fc v" "list_all valid_cp k" using Cons.prems(2) kv by auto
  have member: "length (dumps fc opts v) \<le> length (dumps_member fc opts (k, v))"
    by (simp add: dumps_member_def)
  show ?case
  proof (cases kvs)
    case Nil
    have "parse_value fc m (dumps fc opts v @ 125 # r) = Some (v, 125 # r)"
      using Cons.prems(3) [of kv "125 # r" m] Cons.prems(4) Nil n kv member by (simp add: num_delim_close)
    from parse_members_step [OF wf this] show ?thesis
      using Nil n kv by (simp add: skip_ws_head json_ws_def)
  next
    case (Cons y ys)
    let ?tail = "py_join (item_sep opts) (map (dumps_member fc opts) kvs)"
    obtain cs' where tail: "?tail @ 125 # r = 34 # cs'"
      using Cons by (cases ys) (auto simp: dumps_member_def dumps_str_def)
    have q: "\<not> json_ws 34" by (simp add: json_ws_def)
    have len: "2 * length (dumps_member fc opts (k, v)) + 2 * length ?tail + 4 \<le> n"
      using Cons.prems(4) Cons kv by (simp add: item_sep_def split: if_splits)
    have "parse_value fc m (dumps fc opts v @ item_sep opts @ ?tail @ 125 # r)
        = Some (v, item_sep opts @ ?tail @ 125 # r)"
      using Cons.prems(3) [of kv "item_sep opts @ ?tail @ 125 # r" m] len n kv member
      by (simp add: num_delim_item_sep)
    note step = parse_members_step [OF wf this]
    have "parse_members fc m (?tail @ 125 # r) = Some (kvs, r)"
      using Cons len n Cons.prems(2,3) by (intro Cons.IH) auto
    moreover have "py_join (item_sep opts) (map (dumps_member fc opts) (kv # kvs)) @ 125 # r
        = dumps_member fc opts (k, v) @ item_sep opts @ ?tail @ 125 # r" using Cons kv by simp
    ultimately show ?thesis
      using n kv step q by (simp add: tail skip_ws_item_sep skip_ws_maybe_space del: parse_members.simps)
  qed
qed

lemma dumps_obj: "dumps fc opts (JObj kvs) = 123 # py_join (item_sep opts) (map (dumps_member fc opts) kvs) @ [125]"
  by (simp add: dumps_member_def [abs_def])

lemma parse_value_dumps:
  "wf_json fc v \<Longrightarrow> num_delim r \<Longrightarrow> 2 * length (dumps fc opts v) + 1 \<le> n \<Longrightarrow>
   parse_value fc n (dumps fc opts v @ r) = Some (v, r)"
proof (induction v arbitrary: n r)
  case JNull
  then show ?case by (cases n) simp_all
next
  case (JBool b)
  then show ?case by (cases n) simp_all
next
  case (JInt i)
  obtain m where n: "n = Suc m" using JInt.prems(3) by (cases n) auto
  obtain c cs where c: "dec_int i = c # cs" using dumps_head [of fc "JInt i" opts] by auto
  have "c \<notin> {34, 123, 91, 110, 116, 102}"
    using c dec_nat_digits [of "nat i"] by (cases "i < 0") (auto simp: dec_int_def is_digit_def)
  then show ?case using parse_number_dec_int [OF JInt.prems(2), of fc i] n c by simp
next
  case (JFloat q)
  obtain m where n: "n = Suc m" using JFloat.prems(3) by (cases n) auto
  obtain c cs where c: "fl_repr fc q = c # cs" using JFloat.prems(1) by (cases "fl_repr fc q") (auto simp: float_ok_def)
  have "c \<notin> {34, 123, 91, 110, 116, 102}" using JFloat.prems(1) c by (auto simp: float_ok_def is_digit_def)
  then show ?case using JFloat.prems n c by (simp add: float_ok_def)
next
  case (JStr s)
  obtain m where n: "n = Suc m" using JStr.prems(3) by (cases n) auto
  with JStr.prems(1) show ?case by (simp add: dumps_str_def parse_chars_dumps)
next
  case (JList xs)
  obtain m where n: "n = Suc m" using JList.prems(3) by (cases n) auto
  show ?case
  proof (cases xs)
    case Nil
    with n show ?thesis by (simp add: skip_ws_head json_ws_def)
  next
    case (Cons x ys)
    let ?t = "py_join (item_sep opts) (map (dumps fc opts) xs)"
    obtain c cs where x: "dumps fc opts x = c # cs" "\<not> json_ws c" "c \<noteq> 93"
      using dumps_head [of fc x opts] JList.prems(1) Cons by auto
    obtain cs' where t: "?t @ 93 # r = c # cs'" using x(1) Cons by (cases ys) auto
    have "parse_elems fc m (?t @ 93 # r) = Some (xs, r)"
      using JList n Cons by (intro parse_elems_dumps) auto
    with n t x show ?thesis by (simp add: skip_ws_head)
  qed
next
  case (JObj kvs)
  obtain m where n: "n = Suc m" using JObj.prems(3) by (cases n) auto
  show ?case
  proof (cases kvs)
    case Nil
    with n show ?thesis by (simp add: skip_ws_head json_ws_def)
  next
    case (Cons y ys)
    let ?t = "py_join (item_sep opts) (map (dumps_member fc opts) kvs)"
    obtain cs' where t: "?t @ 125 # r = 34 # cs'"
      using Cons by (cases ys) (auto simp: dumps_member_def dumps_str_def)
    have "parse_members fc m (?t @ 125 # r) = Some (kvs, r)"
    proof (rule parse_members_dumps)
      show "kvs \<noteq> []" using Cons by simp
      show "\<forall>kv \<in> set kvs. list_all valid_cp (fst kv) \<and> wf_json fc (snd kv)" using JObj.prems(1) by auto
      show "2 * length ?t + 2 \<le> m" using JObj.prems(3) n unfolding dumps_obj by simp
    next
      fix kv n r
      assume kv: "kv \<in> set kvs" "num_delim r" "2 * length (dumps fc opts (snd kv)) + 1 \<le> n"
      then have "snd kv \<in> Basic_BNFs.snds kv" "wf_json fc (snd kv)" using JObj.prems(1) by (auto simp: snds.simps)
      with kv show "parse_value fc n (dumps fc opts (snd kv) @ r) = Some (snd kv, r)" by (intro JObj.IH)
    qed
    moreover have "dict_of_pairs kvs = kvs" using JObj.prems(1) by (intro dict_of_pairs_distinct) simp
    ultimately show ?thesis
      unfolding dumps_obj using n t by (simp add: skip_ws_head json_ws_def)
  qed
qed

text \<open>What is dumped loads back as it is.\<close>

lemma loads_dumps:
  assumes "wf_json fc v"
  shows "loads fc (dumps fc opts v) = Some v"
proof -
  obtain c cs where c: "dumps fc opts v = c # cs" "\<not> json_ws c" using dumps_head [OF assms] by blast
  then have "skip_ws (dumps fc opts v) = dumps fc opts v" by (simp add: skip_ws_head)
  moreover have "parse_value fc (2 * length (dumps fc opts v) + 2) (dumps fc opts v @ []) = Some (v, [])"
    by (rule parse_value_dumps [OF assms]) (simp_all add: num_delim_def)
  ultimately show ?thesis by (simp add: loads_def skip_ws_def)
qed

section \<open>The fuel is enough\<close>

lemma skip_ws_le: "length (skip_ws s) \<le> length s"
  by (simp add: skip_ws_def length_dropWhile_le)

lemma skip_ws_Cons_less: "skip_ws s = c # cs \<Longrightarrow> length cs < length s"
  using skip_ws_le [of s] by simp

lemma parse_chars_shorter: "parse_chars s = Some (t, r) \<Longrightarrow> length r < length s"
proof (induction s arbitrary: t r rule: parse_chars.induct)
  case (1 s)
  show ?case
  proof (cases s)
    case Nil
    with "1.prems" show ?thesis by (simp add: parse_chars.simps)
  next
    case (Cons c cs)
    consider "c = 34" | "c \<noteq> 34" "c < 32" | "c \<noteq> 34" "\<not> c < 32" "c \<noteq> 92" | "c = 92" by linarith
    then show ?thesis
    proof cases
      case 3
      with "1.prems" Cons obtain t' where "parse_chars cs = Some (t', r)"
        by (auto simp: parse_chars.simps [of "c # cs"])
      with "1.IH"(1) [OF Cons] 3 Cons show ?thesis by fastforce
    next
      case 4
      with "1.prems" Cons obtain e es where es: "cs = e # es"
        by (cases cs) (simp_all add: parse_chars.simps [of "[92]"])
      show ?thesis
      proof (cases "e = 117")
        case True
        with "1.prems" Cons 4 es obtain u r1 t' where u: "parse_u es = Some (u, r1)" "parse_chars r1 = Some (t', r)"
          by (auto simp: parse_chars.simps [of "92 # 117 # es"] split: option.splits)
        with "1.IH"(2) [OF Cons _ _ _ es True u(1)] 4 parse_u_shorter [OF u(1)] Cons es show ?thesis by fastforce
      next
        case False
        with "1.prems" Cons 4 es obtain u t' where u: "simple_escape e = Some u" "parse_chars es = Some (t', r)"
          by (auto simp: parse_chars.simps [of "92 # e # es"] split: option.splits)
        with "1.IH"(3) [OF Cons _ _ _ es False u(1)] 4 Cons es show ?thesis by fastforce
      qed
    qed (use "1.prems" Cons in \<open>auto simp: parse_chars.simps [of "c # cs"] parse_chars.simps [of "34 # cs"]\<close>)
  qed
qed

lemma parse_number_shorter: "parse_number fc s = Some (v, r) \<Longrightarrow> length r < length s"
proof -
  assume p: "parse_number fc s = Some (v, r)"
  define s1 where "s1 = (if (case s of c # _ \<Rightarrow> c = 45 | [] \<Rightarrow> False) then tl s else s)"
  have le: "length s1 \<le> length s" by (simp add: s1_def)
  define k where "k = length (int_part s1)"
  have k: "0 < k" and "\<exists>i j. r = drop i (drop j (drop k s1))"
    using p by (auto simp: parse_number_def Let_def s1_def [symmetric] k_def simp del: drop_drop split: if_splits)
      (metis drop0)+
  then obtain i j where r: "r = drop i (drop j (drop k s1))" by blast
  have "s1 \<noteq> []" using k by (auto simp: k_def int_part_def)
  then have "length (drop k s1) < length s1" using k by (cases s1) auto
  then show ?thesis using le unfolding r by simp
qed

lemma parse_shorter_all:
  "(\<forall>s v r. parse_value fc n s = Some (v, r) \<longrightarrow> length r < length s) \<and>
   (\<forall>s vs r. parse_elems fc n s = Some (vs, r) \<longrightarrow> length r < length s) \<and>
   (\<forall>s kvs r. parse_members fc n s = Some (kvs, r) \<longrightarrow> length r < length s)"
proof (induction n)
  case 0
  then show ?case by simp
next
  case (Suc n)
  then have v: "parse_value fc n s = Some (x, r) \<Longrightarrow> length r < length s"
    and e: "parse_elems fc n s = Some (xs, r) \<Longrightarrow> length r < length s"
    and m: "parse_members fc n s = Some (kvs, r) \<Longrightarrow> length r < length s" for s x xs kvs r by blast+
  have "length r < length s" if p: "parse_value fc (Suc n) s = Some (x, r)" for s x r
  proof (cases s)
    case Nil
    with p show ?thesis by simp
  next
    case (Cons c cs)
    consider "c = 34" | "c = 123" | "c = 91" | "c \<notin> {34, 123, 91}" by blast
    then show ?thesis
    proof cases
      case 1
      with p Cons show ?thesis by (auto dest: parse_chars_shorter)
    next
      case 2
      with p Cons skip_ws_le [of cs] show ?thesis by (fastforce split: list.splits if_splits dest: m)
    next
      case 3
      with p Cons skip_ws_le [of cs] show ?thesis by (fastforce split: list.splits if_splits dest: e)
    next
      case 4
      then have "length s \<noteq> 0" "parse_number fc s = Some (x, r) \<or> r = drop 4 s \<or> r = drop 5 s"
        using p Cons by (auto simp del: lit_Cons split: if_splits)
      then show ?thesis using parse_number_shorter by auto
    qed
  qed
  moreover have "length r < length s" if p: "parse_elems fc (Suc n) s = Some (xs, r)" for s xs r
  proof -
    from p obtain x r1 where v1: "parse_value fc n s = Some (x, r1)" by (auto split: option.splits)
    with p obtain c cs where c: "skip_ws r1 = c # cs" by (auto split: list.splits)
    have "length cs < length s" using v [OF v1] skip_ws_Cons_less [OF c] by simp
    with p v1 c skip_ws_le [of cs] show ?thesis by (auto split: if_splits dest: e)
  qed
  moreover have "length r < length s" if p: "parse_members fc (Suc n) s = Some (kvs, r)" for s kvs r
  proof -
    from p obtain cs where s: "s = 34 # cs" by (auto split: list.splits if_splits)
    with p obtain k r1 where k: "parse_chars cs = Some (k, r1)" by (auto split: option.splits)
    with p s obtain ds where ds: "skip_ws r1 = 58 # ds" by (auto split: list.splits if_splits)
    with p s k obtain x r2 where x: "parse_value fc n (skip_ws ds) = Some (x, r2)" by (auto split: option.splits)
    with p s k ds obtain b es where es: "skip_ws r2 = b # es" by (auto split: list.splits)
    have "length es < length s"
      using s parse_chars_shorter [OF k] skip_ws_Cons_less [OF ds] skip_ws_le [of ds] v [OF x]
        skip_ws_Cons_less [OF es] by simp
    with p s k ds x es skip_ws_le [of es] show ?thesis by (auto split: if_splits dest: m)
  qed
  ultimately show ?case by blast
qed

lemma parse_value_shorter: "parse_value fc n s = Some (v, r) \<Longrightarrow> length r < length s"
  using parse_shorter_all by blast

text \<open>Fuel beyond twice the length of the text changes nothing.\<close>

lemma parse_fuel_all:
  "(\<forall>n m. 2 * length s + 1 \<le> n \<longrightarrow> 2 * length s + 1 \<le> m \<longrightarrow> parse_value fc n s = parse_value fc m s) \<and>
   (\<forall>n m. 2 * length s + 2 \<le> n \<longrightarrow> 2 * length s + 2 \<le> m \<longrightarrow> parse_elems fc n s = parse_elems fc m s) \<and>
   (\<forall>n m. 2 * length s + 2 \<le> n \<longrightarrow> 2 * length s + 2 \<le> m \<longrightarrow> parse_members fc n s = parse_members fc m s)"
proof (induction "length s" arbitrary: s rule: less_induct)
  case less
  have IHv: "parse_value fc n t = parse_value fc m t"
    if "length t < length s" "2 * length t + 1 \<le> n" "2 * length t + 1 \<le> m" for t n m
    using less [OF that(1)] that by blast
  have IHe: "parse_elems fc n t = parse_elems fc m t"
    if "length t < length s" "2 * length t + 2 \<le> n" "2 * length t + 2 \<le> m" for t n m
    using less [OF that(1)] that by blast
  have IHm: "parse_members fc n t = parse_members fc m t"
    if "length t < length s" "2 * length t + 2 \<le> n" "2 * length t + 2 \<le> m" for t n m
    using less [OF that(1)] that by blast
  have value_eq: "parse_value fc n s = parse_value fc m s"
    if n: "2 * length s + 1 \<le> n" and m: "2 * length s + 1 \<le> m" for n m
  proof -
    obtain n' m' where nm: "n = Suc n'" "m = Suc m'" using n m by (cases n; cases m) auto
    show ?thesis
    proof (cases s)
      case Nil
      then show ?thesis by (simp add: nm)
    next
      case (Cons c cs)
      have "parse_members fc n' (d # ds) = parse_members fc m' (d # ds)"
        "parse_elems fc n' (d # ds) = parse_elems fc m' (d # ds)" if "skip_ws cs = d # ds" for d ds
        using that skip_ws_le [of cs] n m nm Cons by (intro IHm IHe; simp)+
      then show ?thesis by (auto simp: nm Cons split: list.split)
    qed
  qed
  moreover have "parse_elems fc n s = parse_elems fc m s"
    if n: "2 * length s + 2 \<le> n" and m: "2 * length s + 2 \<le> m" for n m
  proof -
    obtain n' m' where nm: "n = Suc n'" "m = Suc m'" using n m by (cases n; cases m) auto
    have v: "parse_value fc n' s = parse_value fc m' s" using n m nm by (intro value_eq) simp_all
    show ?thesis
    proof (cases "parse_value fc m' s")
      case None
      then show ?thesis by (simp add: nm v)
    next
      case (Some xr)
      obtain x r where xr: "xr = (x, r)" by fastforce
      have "parse_elems fc n' (skip_ws cs) = parse_elems fc m' (skip_ws cs)" if "skip_ws r = c # cs" for c cs
        using that skip_ws_Cons_less [OF that] skip_ws_le [of cs] parse_value_shorter [of fc m' s x r] Some xr n m nm
        by (intro IHe) simp_all
      then show ?thesis by (auto simp: nm v Some xr split: list.split)
    qed
  qed
  moreover have "parse_members fc n s = parse_members fc m s"
    if n: "2 * length s + 2 \<le> n" and m: "2 * length s + 2 \<le> m" for n m
  proof -
    obtain n' m' where nm: "n = Suc n'" "m = Suc m'" using n m by (cases n; cases m) auto
    show ?thesis
    proof (cases "\<exists>cs k r ds. s = 34 # cs \<and> parse_chars cs = Some (k, r) \<and> skip_ws r = 58 # ds")
      case False
      have "parse_members fc (Suc i) s = None" for i
      proof (cases s)
        case Nil
        then show ?thesis by simp
      next
        case (Cons c cs)
        show ?thesis
        proof (cases "c = 34 \<and> parse_chars cs \<noteq> None")
          case True
          then obtain k r where k: "parse_chars cs = Some (k, r)" by auto
          with False Cons True have "skip_ws r \<noteq> 58 # ds" for ds by blast
          with k True Cons show ?thesis by (cases "skip_ws r") auto
        qed (use Cons in \<open>auto split: option.split\<close>)
      qed
      then show ?thesis by (simp add: nm)
    next
      case True
      then obtain cs k r ds where s: "s = 34 # cs" and k: "parse_chars cs = Some (k, r)"
        and ds: "skip_ws r = 58 # ds" by blast
      have short: "length (skip_ws ds) < length s"
        using s parse_chars_shorter [OF k] skip_ws_Cons_less [OF ds] skip_ws_le [of ds] by simp
      have v: "parse_value fc n' (skip_ws ds) = parse_value fc m' (skip_ws ds)"
        using short n m nm by (intro IHv) simp_all
      show ?thesis
      proof (cases "\<exists>x r2 b es. parse_value fc m' (skip_ws ds) = Some (x, r2) \<and> skip_ws r2 = b # es")
        case True
        then obtain x r2 b es where x: "parse_value fc m' (skip_ws ds) = Some (x, r2)" and es: "skip_ws r2 = b # es"
          by blast
        have "parse_members fc n' (skip_ws es) = parse_members fc m' (skip_ws es)"
          using short parse_value_shorter [OF x] skip_ws_Cons_less [OF es] skip_ws_le [of es] n m nm
          by (intro IHm) simp_all
        moreover have "parse_value fc n' (skip_ws ds) = Some (x, r2)" using v x by simp
        ultimately show ?thesis by (simp add: nm s k ds x es)
      next
        case False
        show ?thesis
        proof (cases "parse_value fc m' (skip_ws ds)")
          case None
          then show ?thesis by (simp add: nm s k ds v)
        next
          case (Some xr)
          obtain x r2 where xr: "xr = (x, r2)" by fastforce
          have r2: "skip_ws r2 = []" using False Some xr by (cases "skip_ws r2") auto
          have x: "parse_value fc m' (skip_ws ds) = Some (x, r2)" using Some xr by simp
          have y: "parse_value fc n' (skip_ws ds) = Some (x, r2)" using v x by simp
          show ?thesis by (simp add: nm s k ds x y r2)
        qed
      qed
    qed
  qed
  ultimately show ?case by blast
qed

lemma parse_fuel:
  "2 * length (skip_ws s) + 1 \<le> n \<Longrightarrow>
   parse_value fc n (skip_ws s) = parse_value fc (2 * length s + 2) (skip_ws s)"
  using skip_ws_le [of s] by (intro parse_fuel_all [THEN conjunct1, rule_format]) simp_all

section \<open>Key order\<close>

lemma wf_sort_keys: "wf_json fc v \<Longrightarrow> wf_json fc (sort_keys v)"
proof (induction v)
  case (JObj kvs)
  define xs where "xs = map (\<lambda>kv. (fst kv, sort_keys (snd kv))) kvs"
  have "map fst xs = map fst kvs" by (simp add: xs_def)
  then have "distinct (map fst xs)" using JObj.prems by simp
  then have "distinct (map fst (sort_key fst xs))" by (simp add: distinct_map)
  moreover have "wf_json fc (sort_keys (snd kv))" if "kv \<in> set kvs" for kv
    using JObj.IH [OF that] JObj.prems that by (simp add: snds.simps)
  ultimately show ?case using JObj.prems by (auto simp: xs_def)
qed auto


text \<open>Sorted dictionaries that are equal have equal entries under every key.\<close>

lemma map_of_sort_key:
  assumes "distinct (map fst xs)"
  shows "map_of (sort_key fst xs) = map_of xs"
proof -
  have "distinct (map fst (sort_key fst xs))" using assms by (simp add: distinct_map)
  then show ?thesis using assms by (subst map_of_inject_set) simp_all
qed

lemma sort_keys_obj_eq:
  assumes "sort_keys (JObj a) = sort_keys (JObj b)" "distinct (map fst a)" "distinct (map fst b)"
  shows "map_option sort_keys (map_of a k) = map_option sort_keys (map_of b k)"
proof -
  let ?g = "\<lambda>kv. (fst kv, sort_keys (snd kv))"
  have m: "map_of (map ?g xs) k = map_option sort_keys (map_of xs k)" for xs :: "(pystr \<times> json) list"
    by (induction xs) auto
  have d: "distinct (map fst (map ?g xs))" if "distinct (map fst xs)" for xs :: "(pystr \<times> json) list"
    using that by (simp add: comp_def)
  have "map_of (sort_key fst (map ?g a)) = map_of (sort_key fst (map ?g b))" using assms(1) by simp
  then show ?thesis
    unfolding map_of_sort_key [OF d [OF assms(2)]] map_of_sort_key [OF d [OF assms(3)]] by (metis m)
qed

end
