(* ===== verification/Utf8.thy ===== *)
theory Utf8
  imports Json_Codec "HOL-Library.Word"
begin

text \<open>
  Bytes and text: \<open>str.encode ("utf-8")\<close>, the UTF-8, UTF-16 and UTF-32 decoders with the
  \<open>surrogatepass\<close> handler, and \<open>json.loads\<close> on bytes, which guesses the encoding from the first four
  bytes as \<open>json.detect_encoding\<close> does. The main lemmas are the round trips \<open>utf8_decode_encode\<close> and
  \<open>loads_bytes_dumps\<close>.
\<close>

type_synonym bytes = "8 word list"

section \<open>UTF-8\<close>

text \<open>One code point; a lone surrogate or a number beyond U+10FFFF has no encoding.\<close>

definition utf8_char :: "nat \<Rightarrow> nat list option" where
  "utf8_char c =
     (if c < 128 then Some [c]
      else if c < 2048 then Some [192 + c div 64, 128 + c mod 64]
      else if 55296 \<le> c \<and> c < 57344 then None
      else if c < 65536 then Some [224 + c div 4096, 128 + c div 64 mod 64, 128 + c mod 64]
      else if c < 1114112
      then Some [240 + c div 262144, 128 + c div 4096 mod 64, 128 + c div 64 mod 64, 128 + c mod 64]
      else None)"

fun utf8_codes :: "pystr \<Rightarrow> nat list option" where
  "utf8_codes [] = Some []"
| "utf8_codes (c # s) =
     (case utf8_char c of
        None \<Rightarrow> None
      | Some bs \<Rightarrow> map_option (\<lambda>cs. bs @ cs) (utf8_codes s))"

text \<open>\<open>s.encode ("utf-8")\<close>; \<open>None\<close> stands for \<open>UnicodeEncodeError\<close>.\<close>

definition utf8_encode :: "pystr \<Rightarrow> bytes option" where
  "utf8_encode s = map_option (map of_nat) (utf8_codes s)"

definition utf8_cont :: "nat \<Rightarrow> bool" where
  "utf8_cont b \<longleftrightarrow> 128 \<le> b \<and> b < 192"

text \<open>Overlong forms are refused, and surrogates unless the handler lets them pass.\<close>

fun utf8_decode :: "bool \<Rightarrow> nat list \<Rightarrow> pystr option" where
  "utf8_decode sp [] = Some []"
| "utf8_decode sp (b # bs) =
     (if b < 128 then map_option (\<lambda>s. b # s) (utf8_decode sp bs)
      else if 194 \<le> b \<and> b < 224 then
        (case bs of
           c1 # r \<Rightarrow>
             if utf8_cont c1
             then map_option (\<lambda>s. ((b - 192) * 64 + (c1 - 128)) # s) (utf8_decode sp r) else None
         | _ \<Rightarrow> None)
      else if 224 \<le> b \<and> b < 240 then
        (case bs of
           c1 # c2 # r \<Rightarrow>
             (let u = (b - 224) * 4096 + (c1 - 128) * 64 + (c2 - 128) in
              if utf8_cont c1 \<and> utf8_cont c2 \<and> 2048 \<le> u \<and> (sp \<or> \<not> (55296 \<le> u \<and> u < 57344))
              then map_option (\<lambda>s. u # s) (utf8_decode sp r) else None)
         | _ \<Rightarrow> None)
      else if 240 \<le> b \<and> b < 245 then
        (case bs of
           c1 # c2 # c3 # r \<Rightarrow>
             (let u = (b - 240) * 262144 + (c1 - 128) * 4096 + (c2 - 128) * 64 + (c3 - 128) in
              if utf8_cont c1 \<and> utf8_cont c2 \<and> utf8_cont c3 \<and> 65536 \<le> u \<and> u < 1114112
              then map_option (\<lambda>s. u # s) (utf8_decode sp r) else None)
         | _ \<Rightarrow> None)
      else None)"

declare utf8_decode.simps(2) [simp del]

section \<open>UTF-16 and UTF-32\<close>

definition pair16 :: "bool \<Rightarrow> nat \<Rightarrow> nat \<Rightarrow> nat" where
  "pair16 big a b = (if big then a * 256 + b else b * 256 + a)"

fun units16 :: "bool \<Rightarrow> nat list \<Rightarrow> nat list option" where
  "units16 big [] = Some []"
| "units16 big [a] = None"
| "units16 big (a # b # bs) = map_option (\<lambda>us. pair16 big a b # us) (units16 big bs)"

text \<open>A high surrogate joins a following low one; \<open>surrogatepass\<close> lets a lone one through.\<close>

fun join16 :: "nat list \<Rightarrow> pystr" where
  "join16 [] = []"
| "join16 [u] = [u]"
| "join16 (u # v # us) =
     (if 55296 \<le> u \<and> u < 56320 \<and> 56320 \<le> v \<and> v < 57344
      then (65536 + (u - 55296) * 1024 + (v - 56320)) # join16 us
      else u # join16 (v # us))"

definition utf16_decode :: "bool \<Rightarrow> nat list \<Rightarrow> pystr option" where
  "utf16_decode big bs = map_option join16 (units16 big bs)"

fun utf32_decode :: "bool \<Rightarrow> nat list \<Rightarrow> pystr option" where
  "utf32_decode big [] = Some []"
| "utf32_decode big (a # b # c # d # bs) =
     (let u = (if big then ((a * 256 + b) * 256 + c) * 256 + d else ((d * 256 + c) * 256 + b) * 256 + a) in
      if u < 1114112 then map_option (\<lambda>s. u # s) (utf32_decode big bs) else None)"
| "utf32_decode big _ = None"

section \<open>\<open>json.loads\<close> on bytes\<close>

datatype json_encoding = ENC_UTF8 | ENC_UTF8_SIG | ENC_UTF16 bool | ENC_UTF16_BOM | ENC_UTF32 bool | ENC_UTF32_BOM

definition detect_encoding :: "nat list \<Rightarrow> json_encoding" where
  "detect_encoding b =
     (if py_startswith b [0, 0, 254, 255] \<or> py_startswith b [255, 254, 0, 0] then ENC_UTF32_BOM
      else if py_startswith b [254, 255] \<or> py_startswith b [255, 254] then ENC_UTF16_BOM
      else if py_startswith b [239, 187, 191] then ENC_UTF8_SIG
      else if 4 \<le> length b then
        (if b ! 0 = 0 then (if b ! 1 \<noteq> 0 then ENC_UTF16 True else ENC_UTF32 True)
         else if b ! 1 = 0 then (if b ! 2 \<noteq> 0 \<or> b ! 3 \<noteq> 0 then ENC_UTF16 False else ENC_UTF32 False)
         else ENC_UTF8)
      else if length b = 2 then
        (if b ! 0 = 0 then ENC_UTF16 True else if b ! 1 = 0 then ENC_UTF16 False else ENC_UTF8)
      else ENC_UTF8)"

definition decode_detected :: "nat list \<Rightarrow> pystr option" where
  "decode_detected b =
     (case detect_encoding b of
        ENC_UTF8 \<Rightarrow> utf8_decode True b
      | ENC_UTF8_SIG \<Rightarrow> utf8_decode True (drop 3 b)
      | ENC_UTF16 big \<Rightarrow> utf16_decode big b
      | ENC_UTF16_BOM \<Rightarrow> utf16_decode (take 2 b = [254, 255]) (drop 2 b)
      | ENC_UTF32 big \<Rightarrow> utf32_decode big b
      | ENC_UTF32_BOM \<Rightarrow> utf32_decode (take 4 b = [0, 0, 254, 255]) (drop 4 b))"

text \<open>\<open>None\<close> stands for \<open>UnicodeDecodeError\<close> and for \<open>JSONDecodeError\<close>; both are \<open>ValueError\<close>s.\<close>

definition loads_bytes :: "float_codec \<Rightarrow> bytes \<Rightarrow> json option" where
  "loads_bytes fc bs = Option.bind (decode_detected (map unat bs)) (loads fc)"

section \<open>Round trips\<close>

lemma base64_digits:
  fixes c :: nat
  shows "c div 4096 * 4096 + c div 64 mod 64 * 64 + c mod 64 = c"
    "c div 262144 * 262144 + c div 4096 mod 64 * 4096 + c div 64 mod 64 * 64 + c mod 64 = c"
proof -
  define a where "a = c div 64"
  define b where "b = a div 64"
  have c: "a * 64 + c mod 64 = c" and a: "b * 64 + a mod 64 = a" and b: "b div 64 * 64 + b mod 64 = b"
    by (simp_all add: a_def b_def)
  have d: "c div 4096 = b" "c div 262144 = b div 64"
    by (simp_all add: a_def b_def div_mult2_eq [symmetric])
  show "c div 4096 * 4096 + c div 64 mod 64 * 64 + c mod 64 = c"
    using a c unfolding d a_def [symmetric] by linarith
  show "c div 262144 * 262144 + c div 4096 mod 64 * 4096 + c div 64 mod 64 * 64 + c mod 64 = c"
    using a b c unfolding d a_def [symmetric] by linarith
qed

lemma utf8_decode_char:
  assumes "utf8_char c = Some bs"
  shows "utf8_decode sp (bs @ r) = map_option (\<lambda>s. c # s) (utf8_decode sp r)"
proof -
  consider "c < 128" | "128 \<le> c" "c < 2048" | "2048 \<le> c" "c < 65536" "\<not> (55296 \<le> c \<and> c < 57344)"
    | "65536 \<le> c" "c < 1114112"
    using assms by (auto simp: utf8_char_def split: if_splits)
  then show ?thesis
  proof cases
    case 1
    then show ?thesis using assms by (auto simp: utf8_char_def utf8_decode.simps(2))
  next
    case 2
    have "2 \<le> c div 64" "c div 64 < 32" using 2 by linarith+
    moreover have "c div 64 * 64 + c mod 64 = c" by simp
    ultimately show ?thesis using assms 2
      by (auto simp: utf8_char_def utf8_decode.simps(2) utf8_cont_def)
  next
    case 3
    have e: "c div 4096 * 4096 + c div 64 mod 64 * 64 + c mod 64 = c" by (rule base64_digits)
    have "c div 4096 < 16" using 3 by linarith
    then show ?thesis using assms 3 e
      by (auto simp: utf8_char_def utf8_decode.simps(2) utf8_cont_def Let_def)
  next
    case 4
    have e: "c div 262144 * 262144 + c div 4096 mod 64 * 4096 + c div 64 mod 64 * 64 + c mod 64 = c"
      by (rule base64_digits)
    have "c div 262144 < 5" using 4 by linarith
    then show ?thesis using assms 4 e
      by (auto simp: utf8_char_def utf8_decode.simps(2) utf8_cont_def Let_def)
  qed
qed

lemma utf8_char_bytes: "utf8_char c = Some bs \<Longrightarrow> \<forall>b \<in> set bs. b < 256"
  by (auto simp: utf8_char_def split: if_splits; presburger)

lemma utf8_codes_bytes: "utf8_codes s = Some bs \<Longrightarrow> \<forall>b \<in> set bs. b < 256"
  by (induction s arbitrary: bs) (auto dest!: utf8_char_bytes split: option.splits)

lemma utf8_decode_codes: "utf8_codes s = Some bs \<Longrightarrow> utf8_decode sp bs = Some s"
  by (induction s arbitrary: bs) (auto simp: utf8_decode_char split: option.splits)

lemma map_unat_of_nat: "\<forall>b \<in> set bs. b < 256 \<Longrightarrow> map unat (map of_nat bs :: bytes) = bs"
  by (induction bs) (simp_all add: unat_of_nat take_bit_eq_mod)

lemma utf8_encode_codes: "utf8_encode s = Some bs \<Longrightarrow> utf8_codes s = Some (map unat bs)"
  by (auto simp: utf8_encode_def map_unat_of_nat [OF utf8_codes_bytes] simp del: map_map)

text \<open>Decoding gives the encoded text back, and so texts with the same bytes are the same.\<close>

lemma utf8_decode_encode: "utf8_encode s = Some bs \<Longrightarrow> utf8_decode sp (map unat bs) = Some s"
  by (rule utf8_decode_codes) (rule utf8_encode_codes)

lemma utf8_encode_inj: "utf8_encode s = Some bs \<Longrightarrow> utf8_encode t = Some bs \<Longrightarrow> s = t"
  using utf8_decode_encode [of s bs True] utf8_decode_encode [of t bs True] by simp

lemma utf8_codes_append:
  "utf8_codes (s @ t) = (case (utf8_codes s, utf8_codes t) of (Some a, Some b) \<Rightarrow> Some (a @ b) | _ \<Rightarrow> None)"
  by (induction s) (auto split: option.splits)

lemma utf8_encode_append:
  "utf8_encode (s @ t) = (case (utf8_encode s, utf8_encode t) of (Some a, Some b) \<Rightarrow> Some (a @ b) | _ \<Rightarrow> None)"
  by (simp add: utf8_encode_def utf8_codes_append split: option.split)

lemma utf8_codes_ascii: "\<forall>c \<in> set s. c < 128 \<Longrightarrow> utf8_codes s = Some s"
  by (induction s) (simp_all add: utf8_char_def)

lemma utf8_encode_ascii: "\<forall>c \<in> set s. c < 128 \<Longrightarrow> utf8_encode s = Some (map of_nat s)"
  by (simp add: utf8_encode_def utf8_codes_ascii)

section \<open>What is dumped in ASCII reads back from its bytes\<close>

lemma hex_digit_ascii: "d < 16 \<Longrightarrow> hex_digit d < 128 \<and> hex_digit d \<noteq> 0"
  by (simp add: hex_digit_def)

lemma u_escape_ascii: "c \<in> set (u_escape n) \<Longrightarrow> c < 128 \<and> c \<noteq> 0"
  using hex_digit_ascii by (auto simp: u_escape_def hex4_def)

lemma escape_char_ascii: "c \<in> set (escape_char True d) \<Longrightarrow> c < 128 \<and> c \<noteq> 0"
  by (auto simp: escape_char_def dest!: u_escape_ascii split: if_splits)

lemma dumps_str_ascii: "c \<in> set (dumps_str True s) \<Longrightarrow> c < 128 \<and> c \<noteq> 0"
  by (auto simp: dumps_str_def dest!: escape_char_ascii)

lemma dec_nat_ascii: "c \<in> set (dec_nat n) \<Longrightarrow> c < 128 \<and> c \<noteq> 0"
proof (induction n rule: dec_nat.induct)
  case (1 n)
  have "n mod 10 < 10" by simp
  then show ?case using 1 by (subst (asm) (2) dec_nat.simps) (auto split: if_splits)
qed

lemma py_join_set: "c \<in> set (py_join sep ss) \<Longrightarrow> c \<in> set sep \<or> (\<exists>s \<in> set ss. c \<in> set s)"
  by (induction sep ss rule: py_join.induct) auto

text \<open>The floats of a value are written in ASCII.\<close>

definition ascii_floats :: "float_codec \<Rightarrow> bool" where
  "ascii_floats fc \<longleftrightarrow> (\<forall>q. \<forall>c \<in> set (fl_repr fc q). c < 128 \<and> c \<noteq> 0)"

lemma dumps_ascii:
  assumes "ascii_floats fc" "do_ensure_ascii opts"
  shows "c \<in> set (dumps fc opts v) \<Longrightarrow> c < 128 \<and> c \<noteq> 0"
proof (induction v arbitrary: c)
  case (JList xs)
  then show ?case by (auto simp: item_sep_def dest!: py_join_set split: if_splits)
next
  case (JObj kvs)
  have "c < 128 \<and> c \<noteq> 0" if "kv \<in> set kvs" "c \<in> set (dumps fc opts (snd kv))" for kv
    using JObj.IH [OF that(1) _ that(2)] by (simp add: snds.simps)
  with JObj.prems assms(2) show ?case
    by (auto simp: item_sep_def key_sep_def dest!: py_join_set dumps_str_ascii split: if_splits)
qed (use assms in \<open>auto simp: ascii_floats_def dec_int_def dest: dec_nat_ascii dumps_str_ascii split: if_splits\<close>)

lemma decode_detected_ascii:
  assumes "\<forall>c \<in> set s. c < 128 \<and> c \<noteq> 0"
  shows "decode_detected s = Some s"
proof -
  have n: "s ! i \<noteq> 0" if "i < length s" for i using assms that nth_mem by blast
  have m: "a \<notin> set s" if "128 \<le> a \<or> a = 0" for a using assms that by fastforce
  have pre: "\<not> py_startswith s (a # p)" if "128 \<le> a \<or> a = 0" for a p
    using m [OF that] by (cases s) (auto simp: py_startswith_def)
  then have "detect_encoding s = ENC_UTF8"
  proof (cases "2 \<le> length s")
    case True
    then have "s ! 0 \<noteq> 0" "s ! 1 \<noteq> 0" using n [of 0] n [of 1] by fastforce+
    with pre show ?thesis by (simp add: detect_encoding_def)
  qed (simp add: detect_encoding_def)
  moreover have "utf8_decode True s = Some s"
    using utf8_decode_codes [OF utf8_codes_ascii] assms by blast
  ultimately show ?thesis by (simp add: decode_detected_def)
qed

lemma loads_bytes_dumps:
  assumes "wf_json fc v" "ascii_floats fc" "do_ensure_ascii opts"
  obtains bs where "utf8_encode (dumps fc opts v) = Some bs" "loads_bytes fc bs = Some v"
proof
  let ?s = "dumps fc opts v"
  have a: "\<forall>c \<in> set ?s. c < 128 \<and> c \<noteq> 0" using dumps_ascii [OF assms(2,3)] by blast
  then show e: "utf8_encode ?s = Some (map of_nat ?s)" by (simp add: utf8_encode_ascii)
  have "map unat (map of_nat ?s :: bytes) = ?s" using a by (intro map_unat_of_nat) fastforce
  then show "loads_bytes fc (map of_nat ?s) = Some v"
    using decode_detected_ascii [OF a] loads_dumps [OF assms(1)] by (simp add: loads_bytes_def del: map_map)
qed

section \<open>The characters of a JSON text\<close>

fun json_chars :: "json \<Rightarrow> nat set" where
  "json_chars (JStr s) = set s"
| "json_chars (JList xs) = (\<Union>x \<in> set xs. json_chars x)"
| "json_chars (JObj kvs) = (\<Union>kv \<in> set kvs. set (fst kv) \<union> json_chars (snd kv))"
| "json_chars _ = {}"

definition printable_floats :: "float_codec \<Rightarrow> bool" where
  "printable_floats fc \<longleftrightarrow> (\<forall>q. \<forall>c \<in> set (fl_repr fc q). 32 \<le> c \<and> c < 127)"

lemma hex_digit_printable: "d < 16 \<Longrightarrow> 32 \<le> hex_digit d \<and> hex_digit d < 127"
  by (simp add: hex_digit_def)

lemma escape_char_printable: "c \<in> set (escape_char False d) \<Longrightarrow> 32 \<le> c \<and> (c < 127 \<or> c = d)"
  using hex_digit_printable by (auto simp: escape_char_def u_escape_def hex4_def split: if_splits)

lemma dumps_str_printable: "c \<in> set (dumps_str False s) \<Longrightarrow> 32 \<le> c \<and> (c < 127 \<or> c \<in> set s)"
  by (auto simp: dumps_str_def dest!: escape_char_printable)

lemma dec_nat_printable: "c \<in> set (dec_nat n) \<Longrightarrow> 32 \<le> c \<and> c < 127"
  using dec_nat_digits [of n] by (auto simp: list_all_iff is_digit_def)

lemma dumps_printable:
  assumes "printable_floats fc" "\<not> do_ensure_ascii opts"
  shows "c \<in> set (dumps fc opts v) \<Longrightarrow> 32 \<le> c \<and> (c < 127 \<or> c \<in> json_chars v)"
proof (induction v arbitrary: c)
  case (JList xs)
  then have "c \<in> {44, 32, 91, 93} \<or> (\<exists>x \<in> set xs. c \<in> set (dumps fc opts x))"
    by (auto simp: item_sep_def dest!: py_join_set split: if_splits)
  then show ?case using JList.IH by fastforce
next
  case (JObj kvs)
  have "32 \<le> c \<and> (c < 127 \<or> c \<in> json_chars (snd kv))" if "kv \<in> set kvs" "c \<in> set (dumps fc opts (snd kv))" for kv
    using JObj.IH [OF that(1) _ that(2)] by (simp add: snds.simps)
  with JObj.prems assms(2) show ?case
    by (fastforce simp: item_sep_def key_sep_def dest!: py_join_set dumps_str_printable split: if_splits)
qed (use assms in \<open>auto simp: printable_floats_def dec_int_def dest: dec_nat_printable dumps_str_printable split: if_splits\<close>)

lemma escape_char_ascii_printable: "c \<in> set (escape_char True d) \<Longrightarrow> 32 \<le> c \<and> c < 127"
  using hex_digit_printable by (auto simp: escape_char_def u_escape_def hex4_def split: if_splits)

lemma dumps_ascii_printable:
  assumes "printable_floats fc" "do_ensure_ascii opts"
  shows "c \<in> set (dumps fc opts v) \<Longrightarrow> 32 \<le> c \<and> c < 127"
proof (induction v arbitrary: c)
  case (JList xs)
  then have "c \<in> {44, 32, 91, 93} \<or> (\<exists>x \<in> set xs. c \<in> set (dumps fc opts x))"
    by (auto simp: item_sep_def dest!: py_join_set split: if_splits)
  then show ?case using JList.IH by fastforce
next
  case (JObj kvs)
  have "32 \<le> c \<and> c < 127" if "kv \<in> set kvs" "c \<in> set (dumps fc opts (snd kv))" for kv
    using JObj.IH [OF that(1) _ that(2)] by (simp add: snds.simps)
  with JObj.prems assms(2) show ?case
    by (fastforce simp: item_sep_def key_sep_def dumps_str_def dest!: py_join_set escape_char_ascii_printable split: if_splits)
qed (use assms in \<open>auto simp: printable_floats_def dec_int_def dumps_str_def
       dest: dec_nat_printable escape_char_ascii_printable split: if_splits\<close>)

lemma wf_json_chars: "wf_json fc v \<Longrightarrow> c \<in> json_chars v \<Longrightarrow> valid_cp c"
proof (induction v)
  case (JObj kvs)
  then obtain kv where kv: "kv \<in> set kvs" "c \<in> set (fst kv) \<or> c \<in> json_chars (snd kv)" by auto
  have "valid_cp c" if "c \<in> json_chars (snd kv)"
    using JObj.IH [OF kv(1) _ _ that] JObj.prems(1) kv(1) by (simp add: snds.simps)
  then show ?case using kv JObj.prems(1) by (auto simp: list_all_iff)
qed (auto simp: list_all_iff)

lemma utf8_encode_valid: "\<forall>c \<in> set s. valid_cp c \<Longrightarrow> \<exists>bs. utf8_encode s = Some bs"
proof -
  assume "\<forall>c \<in> set s. valid_cp c"
  then have "\<exists>bs. utf8_codes s = Some bs"
    by (induction s) (auto simp: utf8_char_def valid_cp_def)
  then show ?thesis by (auto simp: utf8_encode_def)
qed

lemma utf8_encode_dumps:
  assumes "wf_json fc v" "printable_floats fc" "\<not> do_ensure_ascii opts"
  shows "\<exists>bs. utf8_encode (dumps fc opts v) = Some bs"
  using dumps_printable [OF assms(2,3)] wf_json_chars [OF assms(1)]
  by (intro utf8_encode_valid) (fastforce simp: valid_cp_def)

end
