(* ===== verification/Sha256.thy ===== *)
theory Sha256
  imports Utf8
begin

text \<open>
  \<open>hashlib.sha256 (..).hexdigest ()\<close> of the Python standard library: padding, message schedule,
  compression on 32-bit words and the hexadecimal digest. The properties of the harness use of it only
  that it is a function of the bytes; where the code relies on two texts having different digests, the
  statement says so.
\<close>

unbundle bit_operations_syntax

type_synonym word32 = "32 word"

text \<open>The constants are the first thirty-two fractional bits of the cube roots of the first sixty-four
  primes and of the square roots of the first eight. A root is found bit by bit from the top.\<close>

fun root_bits :: "nat \<Rightarrow> nat \<Rightarrow> nat \<Rightarrow> nat \<Rightarrow> nat" where
  "root_bits k n 0 r = r"
| "root_bits k n (Suc i) r = root_bits k n i (if (r + 2 ^ i) ^ k \<le> n then r + 2 ^ i else r)"

definition small_primes :: "nat list" where
  "small_primes = filter (\<lambda>n. \<forall>d \<in> set [2..<n]. n mod d \<noteq> 0) [2..<312]"

definition root_fraction :: "nat \<Rightarrow> nat \<Rightarrow> word32" where
  "root_fraction k p = of_nat (root_bits k (p * 2 ^ (32 * k)) 40 0)"

definition sha_k :: "word32 list" where
  "sha_k = map (root_fraction 3) small_primes"

definition sha_init :: "word32 list" where
  "sha_init = map (root_fraction 2) [2, 3, 5, 7, 11, 13, 17, 19]"

definition sha_rotr :: "nat \<Rightarrow> word32 \<Rightarrow> word32" where
  "sha_rotr n x = drop_bit n x OR push_bit (32 - n) x"

definition small_sigma0 :: "word32 \<Rightarrow> word32" where
  "small_sigma0 x = sha_rotr 7 x XOR sha_rotr 18 x XOR drop_bit 3 x"

definition small_sigma1 :: "word32 \<Rightarrow> word32" where
  "small_sigma1 x = sha_rotr 17 x XOR sha_rotr 19 x XOR drop_bit 10 x"

definition big_sigma0 :: "word32 \<Rightarrow> word32" where
  "big_sigma0 x = sha_rotr 2 x XOR sha_rotr 13 x XOR sha_rotr 22 x"

definition big_sigma1 :: "word32 \<Rightarrow> word32" where
  "big_sigma1 x = sha_rotr 6 x XOR sha_rotr 11 x XOR sha_rotr 25 x"

definition be_word :: "bytes \<Rightarrow> word32" where
  "be_word bs = foldl (\<lambda>w b. w * 256 + ucast b) 0 bs"

fun chunk :: "nat \<Rightarrow> nat \<Rightarrow> 'a list \<Rightarrow> 'a list list" where
  "chunk 0 k xs = []"
| "chunk (Suc n) k xs = take k xs # chunk n k (drop k xs)"

text \<open>The message schedule: the sixteen words of the block, newest first, extended to sixty-four.\<close>

fun extend_schedule :: "nat \<Rightarrow> word32 list \<Rightarrow> word32 list" where
  "extend_schedule 0 ws = ws"
| "extend_schedule (Suc n) ws =
     extend_schedule n ((small_sigma1 (ws ! 1) + ws ! 6 + small_sigma0 (ws ! 14) + ws ! 15) # ws)"

definition schedule :: "bytes \<Rightarrow> word32 list" where
  "schedule block = rev (extend_schedule 48 (rev (map be_word (chunk 16 4 block))))"

fun sha_round :: "word32 list \<Rightarrow> word32 \<times> word32 \<Rightarrow> word32 list" where
  "sha_round [a, b, c, d, e, f, g, h] (k, w) =
     (let t1 = h + big_sigma1 e + ((e AND f) XOR (NOT e AND g)) + k + w;
          t2 = big_sigma0 a + ((a AND b) XOR (a AND c) XOR (b AND c))
      in [t1 + t2, a, b, c, d + t1, e, f, g])"
| "sha_round st _ = st"

definition compress :: "word32 list \<Rightarrow> bytes \<Rightarrow> word32 list" where
  "compress st block = map2 (+) st (foldl sha_round st (zip sha_k (schedule block)))"

definition be_bytes :: "nat \<Rightarrow> nat \<Rightarrow> bytes" where
  "be_bytes k n = map (\<lambda>i. of_nat (n div 256 ^ (k - 1 - i))) [0..<k]"

definition sha_pad :: "bytes \<Rightarrow> bytes" where
  "sha_pad bs =
     bs @ 128 # replicate ((119 - length bs mod 64) mod 64) 0 @ be_bytes 8 (8 * length bs)"

definition sha256 :: "bytes \<Rightarrow> word32 list" where
  "sha256 bs = foldl compress sha_init (chunk (length (sha_pad bs) div 64) 64 (sha_pad bs))"

definition sha256_hexdigest :: "bytes \<Rightarrow> pystr" where
  "sha256_hexdigest bs = concat (map (\<lambda>w. hex4 (unat w div 65536) @ hex4 (unat w mod 65536)) (sha256 bs))"

text \<open>Padding fills whole blocks, and a digest is sixty-four hexadecimal digits.\<close>

lemma pad_to_block:
  fixes n :: nat
  shows "(n + 1 + (119 - n mod 64) mod 64 + 8) mod 64 = 0"
proof -
  define m q where "m = n mod 64" and "q = n div 64"
  have n: "n = 64 * q + m" and m: "m < 64" by (simp_all add: m_def q_def)
  have "\<exists>k. n + 1 + (119 - m) mod 64 + 8 = 64 * k"
  proof (cases "m \<le> 55")
    case True
    then obtain d where d: "55 = m + d" using le_Suc_ex by blast
    have "119 - m = d + 64" using d by linarith
    then have "(119 - m) mod 64 = d" using d by simp
    then have "n + 1 + (119 - m) mod 64 + 8 = 64 * (q + 1)" unfolding n using d by simp
    then show ?thesis ..
  next
    case False
    then have "(119 - m) mod 64 = 119 - m" by simp
    then have "n + 1 + (119 - m) mod 64 + 8 = 64 * (q + 2)" unfolding n using m by simp
    then show ?thesis ..
  qed
  then show ?thesis unfolding m_def [symmetric] by auto
qed

lemma sha_pad_blocks: "length (sha_pad bs) mod 64 = 0"
proof -
  have "length (sha_pad bs) = length bs + 1 + (119 - length bs mod 64) mod 64 + 8"
    by (simp add: sha_pad_def be_bytes_def)
  then show ?thesis by (simp only: pad_to_block)
qed

lemma sha_round_length: "length (sha_round st kw) = length st"
  by (cases "(st, kw)" rule: sha_round.cases) (simp_all add: Let_def)

lemma sha_rounds_length: "length (foldl sha_round st kws) = length st"
  by (induction kws arbitrary: st) (simp_all add: sha_round_length)

lemma compress_length: "length (compress st block) = length st"
  by (simp add: compress_def sha_rounds_length)

lemma sha256_length: "length (sha256 bs) = 8"
proof -
  have "length (foldl compress st bss) = length st" for st bss
    by (induction bss arbitrary: st) (simp_all add: compress_length)
  then show ?thesis by (simp add: sha256_def sha_init_def)
qed

lemma sha256_hexdigest_length: "length (sha256_hexdigest bs) = 64"
  by (simp add: sha256_hexdigest_def length_concat hex4_def comp_def sum_list_triv sha256_length)

lemma hex_digit_range: "d < 16 \<Longrightarrow> 48 \<le> hex_digit d \<and> hex_digit d \<noteq> 58 \<and> hex_digit d < 103"
  by (simp add: hex_digit_def)

lemma hex4_chars: "c \<in> set (hex4 n) \<Longrightarrow> 48 \<le> c \<and> c \<noteq> 58 \<and> c < 103"
proof -
  assume "c \<in> set (hex4 n)"
  then obtain k where "c = hex_digit (k mod 16)" unfolding hex4_def by auto
  then show ?thesis using hex_digit_range [of "k mod 16"] by simp
qed

lemma sha256_hexdigest_chars: "c \<in> set (sha256_hexdigest bs) \<Longrightarrow> 48 \<le> c \<and> c \<noteq> 58 \<and> c < 103"
  by (auto simp: sha256_hexdigest_def dest: hex4_chars)

lemma sha256_hexdigest_no_colon: "58 \<notin> set (sha256_hexdigest bs)"
  using sha256_hexdigest_chars [of 58 bs] by auto

end
