(* ===== verification/Effect_Fence.thy ===== *)
theory Effect_Fence
  imports Sha256
begin

text \<open>
  \<open>harness_runtime/lifecycle/effect_fence.py\<close>: the files with which a tool effect that must not happen
  twice is reserved, its output published and its one re-fire consumed. A fence directory is a map from
  file names to contents. Each file is published by writing a temporary file and hard-linking it to its
  name, which fails when the name exists; the random part of the temporary name and the host and
  process stamp are arguments. \<open>Inl\<close> stands for an exception that leaves the method. Read and write
  errors of the operating system and \<open>fsync\<close> are not modelled. The contract \<open>EffectFenceProtocol\<close> is the
  locale \<open>effect_fence\<close>, interpreted on the file operations.
\<close>

type_synonym files = "pystr \<rightharpoonup> bytes"

type_synonym json_object = "(pystr \<times> json) list"

datatype os_error = FileExistsError | UnicodeEncodeError

record fence_env =
  fen_stamp :: bytes
  fen_floats :: float_codec

section \<open>File names\<close>

definition fence_file :: "pystr \<Rightarrow> pystr \<Rightarrow> pystr option" where
  "fence_file suffix key = map_option (\<lambda>bs. sha256_hexdigest bs @ suffix) (utf8_encode key)"

definition CLAIM_SUFFIX :: pystr where
  "CLAIM_SUFFIX = lit ''.claim''"

definition OUTPUT_SUFFIX :: pystr where
  "OUTPUT_SUFFIX = lit ''.output''"

definition REFIRE_SUFFIX :: pystr where
  "REFIRE_SUFFIX = lit ''.refire''"

definition claim_file :: "pystr \<Rightarrow> pystr option" where
  "claim_file key = fence_file CLAIM_SUFFIX key"

definition output_file :: "pystr \<Rightarrow> pystr option" where
  "output_file key = fence_file OUTPUT_SUFFIX key"

definition refire_file :: "pystr \<Rightarrow> pystr option" where
  "refire_file key = fence_file REFIRE_SUFFIX key"

definition tmp_file :: "pystr \<Rightarrow> pystr \<Rightarrow> pystr" where
  "tmp_file path uuid = path @ lit ''.'' @ uuid @ lit ''.tmp''"

section \<open>Operations\<close>

text \<open>Create the temporary file exclusively, write it, link it, remove it; \<open>Inr False\<close> when the name was
  taken. The removal is in a \<open>finally\<close>, so it also happens when the creation fails.\<close>

definition publish_by_link :: "pystr \<Rightarrow> pystr \<Rightarrow> bytes \<Rightarrow> files \<Rightarrow> (os_error + bool) \<times> files" where
  "publish_by_link path uuid content fs =
     (let tmp = tmp_file path uuid in
      if fs tmp \<noteq> None then (Inl FileExistsError, fs(tmp := None))
      else
        (let fs1 = fs(tmp \<mapsto> content) in
         if fs1 path \<noteq> None then (Inr False, fs1(tmp := None))
         else (Inr True, fs1(path \<mapsto> content, tmp := None))))"

definition try_reserve :: "fence_env \<Rightarrow> pystr \<Rightarrow> pystr \<Rightarrow> files \<Rightarrow> (os_error + bool) \<times> files" where
  "try_reserve env uuid key fs =
     (case claim_file key of
        None \<Rightarrow> (Inl UnicodeEncodeError, fs)
      | Some path \<Rightarrow> publish_by_link path uuid (fen_stamp env) fs)"

definition try_consume_refire :: "fence_env \<Rightarrow> pystr \<Rightarrow> pystr \<Rightarrow> files \<Rightarrow> (os_error + bool) \<times> files" where
  "try_consume_refire env uuid key fs =
     (case refire_file key of
        None \<Rightarrow> (Inl UnicodeEncodeError, fs)
      | Some path \<Rightarrow> publish_by_link path uuid (fen_stamp env) fs)"

definition fence_dumps :: "float_codec \<Rightarrow> json_object \<Rightarrow> pystr" where
  "fence_dumps fc payload = dumps fc \<lparr>do_spaced = True, do_ensure_ascii = True\<rparr> (sort_keys (JObj payload))"

definition capture_output ::
  "fence_env \<Rightarrow> pystr \<Rightarrow> pystr \<Rightarrow> json_object \<Rightarrow> files \<Rightarrow> (os_error + unit) \<times> files" where
  "capture_output env uuid key payload fs =
     (case output_file key of
        None \<Rightarrow> (Inl UnicodeEncodeError, fs)
      | Some path \<Rightarrow>
          (case utf8_encode (fence_dumps (fen_floats env) payload) of
             None \<Rightarrow> (Inl UnicodeEncodeError, fs)
           | Some serialized \<Rightarrow>
               (case publish_by_link path uuid serialized fs of
                  (Inl e, fs') \<Rightarrow> (Inl e, fs')
                | (Inr _, fs') \<Rightarrow> (Inr (), fs'))))"

definition read_output :: "fence_env \<Rightarrow> pystr \<Rightarrow> files \<Rightarrow> os_error + json_object option" where
  "read_output env key fs =
     (case output_file key of
        None \<Rightarrow> Inl UnicodeEncodeError
      | Some path \<Rightarrow>
          (case fs path of
             None \<Rightarrow> Inr None
           | Some raw \<Rightarrow>
               (case loads_bytes (fen_floats env) raw of
                  Some (JObj d) \<Rightarrow> Inr (Some d)
                | _ \<Rightarrow> Inr None)))"

definition unlink_missing_ok :: "pystr \<Rightarrow> files \<Rightarrow> files" where
  "unlink_missing_ok path fs = fs(path := None)"

definition clear_claim :: "pystr \<Rightarrow> files \<Rightarrow> (os_error + unit) \<times> files" where
  "clear_claim key fs =
     (case claim_file key of
        None \<Rightarrow> (Inl UnicodeEncodeError, fs)
      | Some claim \<Rightarrow>
          (let fs1 = unlink_missing_ok claim fs in
           case output_file key of
             None \<Rightarrow> (Inl UnicodeEncodeError, fs1)
           | Some out \<Rightarrow> (Inr (), unlink_missing_ok out fs1)))"

section \<open>The files of a key\<close>

definition encodable :: "pystr \<Rightarrow> bool" where
  "encodable key \<longleftrightarrow> utf8_encode key \<noteq> None"

text \<open>Two keys name the same effect when their digests agree.\<close>

definition same_effect :: "pystr \<Rightarrow> pystr \<Rightarrow> bool" where
  "same_effect k k' \<longleftrightarrow>
     map_option sha256_hexdigest (utf8_encode k) = map_option sha256_hexdigest (utf8_encode k')"

definition present :: "pystr option \<Rightarrow> files \<Rightarrow> bool" where
  "present f fs \<longleftrightarrow> (case f of None \<Rightarrow> False | Some p \<Rightarrow> fs p \<noteq> None)"

definition claimed :: "files \<Rightarrow> pystr \<Rightarrow> bool" where
  "claimed fs key = present (claim_file key) fs"

definition published :: "files \<Rightarrow> pystr \<Rightarrow> bool" where
  "published fs key = present (output_file key) fs"

definition refired :: "files \<Rightarrow> pystr \<Rightarrow> bool" where
  "refired fs key = present (refire_file key) fs"

text \<open>No temporary file left over from another call has this random part.\<close>

definition fresh_uuid :: "pystr \<Rightarrow> files \<Rightarrow> bool" where
  "fresh_uuid uuid fs \<longleftrightarrow> (\<forall>path. fs (tmp_file path uuid) = None)"

lemma fence_file_eq_Some: "fence_file sfx k = Some p \<longleftrightarrow> (\<exists>bs. utf8_encode k = Some bs \<and> p = sha256_hexdigest bs @ sfx)"
  by (auto simp: fence_file_def)

lemma fence_file_inject:
  assumes "fence_file sfx k = Some p" "fence_file sfx' k' = Some p"
  shows "sfx = sfx' \<and> same_effect k k'"
  using assms by (auto simp: fence_file_eq_Some same_effect_def sha256_hexdigest_length append_eq_append_conv)

lemma fence_file_same: "same_effect k k' \<Longrightarrow> fence_file sfx k = fence_file sfx k'"
  by (auto simp: fence_file_def same_effect_def option.map_comp comp_def map_option_case split: option.splits)

text \<open>The three kinds of files.\<close>

definition fence_suffix :: "pystr \<Rightarrow> bool" where
  "fence_suffix sfx \<longleftrightarrow> sfx = CLAIM_SUFFIX \<or> sfx = OUTPUT_SUFFIX \<or> sfx = REFIRE_SUFFIX"

lemma fence_suffix_intros [simp]: "fence_suffix CLAIM_SUFFIX" "fence_suffix OUTPUT_SUFFIX" "fence_suffix REFIRE_SUFFIX"
  by (simp_all add: fence_suffix_def)

lemma suffix_distinct [simp]:
  "CLAIM_SUFFIX \<noteq> OUTPUT_SUFFIX" "OUTPUT_SUFFIX \<noteq> CLAIM_SUFFIX" "CLAIM_SUFFIX \<noteq> REFIRE_SUFFIX"
  "REFIRE_SUFFIX \<noteq> CLAIM_SUFFIX" "OUTPUT_SUFFIX \<noteq> REFIRE_SUFFIX" "REFIRE_SUFFIX \<noteq> OUTPUT_SUFFIX"
  by (simp_all add: CLAIM_SUFFIX_def OUTPUT_SUFFIX_def REFIRE_SUFFIX_def)

lemma fence_suffix_length: "fence_suffix sfx \<Longrightarrow> 6 \<le> length sfx \<and> length sfx \<le> 7"
  by (auto simp: fence_suffix_def CLAIM_SUFFIX_def OUTPUT_SUFFIX_def REFIRE_SUFFIX_def)

lemma fence_file_length: "fence_file sfx k = Some p \<Longrightarrow> length p = 64 + length sfx"
  by (auto simp: fence_file_eq_Some sha256_hexdigest_length)

lemma tmp_not_fence_file:
  assumes "fence_file sfx k = Some p" "fence_file sfx' k' = Some q" "fence_suffix sfx" "fence_suffix sfx'"
  shows "tmp_file p u \<noteq> q"
proof
  assume "tmp_file p u = q"
  then have "length (tmp_file p u) = length q" by simp
  then show False
    using fence_file_length [OF assms(1)] fence_file_length [OF assms(2)]
      fence_suffix_length [OF assms(3)] fence_suffix_length [OF assms(4)]
    by (simp add: tmp_file_def)
qed

text \<open>Seen through the names of the fence, a publication under a fresh temporary name only adds its
  file, and answers whether the name was free.\<close>

lemma publish_by_link_spec:
  assumes "fs (tmp_file path u) = None" "path \<noteq> tmp_file path u"
    and "publish_by_link path u c fs = (r, fs')"
  shows "r = Inr (fs path = None) \<and>
    (\<forall>q. q \<noteq> tmp_file path u \<longrightarrow> fs' q = (if q = path \<and> fs path = None then Some c else fs q))"
  using assms by (auto simp: publish_by_link_def Let_def split: if_splits)

definition file_of :: "pystr \<Rightarrow> pystr \<Rightarrow> files \<Rightarrow> bytes option" where
  "file_of sfx k fs = (case fence_file sfx k of None \<Rightarrow> None | Some p \<Rightarrow> fs p)"

lemma present_fence_file: "present (fence_file sfx k) fs \<longleftrightarrow> file_of sfx k fs \<noteq> None"
  by (cases "fence_file sfx k") (simp_all add: present_def file_of_def)

lemma publish_fence_file:
  assumes "fence_file sfx k = Some path" "fresh_uuid u fs" "fence_suffix sfx"
    and "publish_by_link path u c fs = (r, fs')" "fence_suffix sfx'"
  shows "r = Inr (file_of sfx k fs = None)"
    "file_of sfx' k' fs' =
       (if sfx' = sfx \<and> same_effect k k' \<and> file_of sfx k fs = None then Some c else file_of sfx' k' fs)"
proof -
  have "path \<noteq> tmp_file path u" by (simp add: tmp_file_def)
  with assms(2) have spec: "r = Inr (fs path = None)"
    "\<And>q. q \<noteq> tmp_file path u \<Longrightarrow> fs' q = (if q = path \<and> fs path = None then Some c else fs q)"
    using publish_by_link_spec [OF _ _ assms(4)] by (auto simp: fresh_uuid_def)
  show "r = Inr (file_of sfx k fs = None)" using spec(1) assms(1) by (simp add: file_of_def)
  show "file_of sfx' k' fs' =
       (if sfx' = sfx \<and> same_effect k k' \<and> file_of sfx k fs = None then Some c else file_of sfx' k' fs)"
  proof (cases "fence_file sfx' k'")
    case None
    then have "\<not> (sfx' = sfx \<and> same_effect k k')" using fence_file_same [of k k' sfx] assms(1) by auto
    with None show ?thesis by (auto simp: file_of_def)
  next
    case (Some q)
    then have "tmp_file path u \<noteq> q"
      using tmp_not_fence_file [OF assms(1) _ assms(3,5)] by simp
    moreover have "q = path \<longleftrightarrow> sfx' = sfx \<and> same_effect k k'"
      using Some assms(1) fence_file_inject [of sfx k path sfx' k'] fence_file_same [of k k' sfx] by auto
    ultimately show ?thesis using spec(2) [of q] Some assms(1) by (auto simp: file_of_def)
  qed
qed

lemma same_effect_refl [simp]: "same_effect k k"
  by (simp add: same_effect_def)

lemma same_effect_sym: "same_effect k k' \<Longrightarrow> same_effect k' k"
  by (simp add: same_effect_def)

lemma same_effect_trans: "same_effect a b \<Longrightarrow> same_effect b c \<Longrightarrow> same_effect a c"
  by (simp add: same_effect_def)

lemma file_of_same: "same_effect k k' \<Longrightarrow> file_of sfx k fs = file_of sfx k' fs"
  by (simp add: file_of_def fence_file_same)

lemma unlink_fence_file:
  assumes "fence_file sfx k = Some path"
  shows "file_of sfx' k' (unlink_missing_ok path fs) =
    (if sfx' = sfx \<and> same_effect k k' then None else file_of sfx' k' fs)"
proof (cases "fence_file sfx' k'")
  case (Some q)
  then have "q = path \<longleftrightarrow> sfx' = sfx \<and> same_effect k k'"
    using assms fence_file_inject [of sfx k path sfx' k'] fence_file_same [of k k' sfx] by auto
  with Some show ?thesis by (auto simp: file_of_def unlink_missing_ok_def)
qed (simp add: file_of_def)

lemma encodable_file: "encodable k \<Longrightarrow> \<exists>p. fence_file sfx k = Some p"
  by (auto simp: encodable_def fence_file_def)

section \<open>The contract of a fence\<close>

text \<open>What the tool dispatcher relies on: a reservation is won exactly when the effect is not claimed and
  stays until it is cleared; the re-fire latch is won once and never given back; the first output
  published is the one that is read, in canonical form, until it is cleared; no operation touches
  another effect.\<close>

locale effect_fence =
  fixes valid :: "'k \<Rightarrow> bool" and fresh :: "'u \<Rightarrow> 's \<Rightarrow> bool" and same :: "'k \<Rightarrow> 'k \<Rightarrow> bool"
    and ok :: "'p \<Rightarrow> bool" and canon :: "'p \<Rightarrow> 'p"
    and is_claimed is_published is_refired :: "'s \<Rightarrow> 'k \<Rightarrow> bool"
    and reserve refire :: "'u \<Rightarrow> 'k \<Rightarrow> 's \<Rightarrow> ('e + bool) \<times> 's"
    and capture :: "'u \<Rightarrow> 'k \<Rightarrow> 'p \<Rightarrow> 's \<Rightarrow> ('e + unit) \<times> 's"
    and read :: "'k \<Rightarrow> 's \<Rightarrow> 'e + 'p option"
    and clear :: "'k \<Rightarrow> 's \<Rightarrow> ('e + unit) \<times> 's"
  assumes same_refl: "same k k"
    and reserve_law: "valid k \<Longrightarrow> fresh u s \<Longrightarrow> reserve u k s = (r, s') \<Longrightarrow>
      r = Inr (\<not> is_claimed s k) \<and> is_claimed s' k' = (is_claimed s k' \<or> same k k') \<and>
      is_published s' k' = is_published s k' \<and> is_refired s' k' = is_refired s k' \<and> read k' s' = read k' s"
    and refire_law: "valid k \<Longrightarrow> fresh u s \<Longrightarrow> refire u k s = (r, s') \<Longrightarrow>
      r = Inr (\<not> is_refired s k) \<and> is_refired s' k' = (is_refired s k' \<or> same k k') \<and>
      is_published s' k' = is_published s k' \<and> is_claimed s' k' = is_claimed s k' \<and> read k' s' = read k' s"
    and capture_law: "valid k \<Longrightarrow> fresh u s \<Longrightarrow> ok p \<Longrightarrow> capture u k p s = (t, s') \<Longrightarrow>
      t = Inr () \<and> is_published s' k' = (is_published s k' \<or> same k k') \<and>
      is_claimed s' k' = is_claimed s k' \<and> is_refired s' k' = is_refired s k' \<and>
      read k' s' = (if same k k' \<and> \<not> is_published s k then Inr (Some (canon p)) else read k' s)"
    and clear_law: "valid k \<Longrightarrow> clear k s = (t, s') \<Longrightarrow>
      t = Inr () \<and> is_claimed s' k' = (is_claimed s k' \<and> \<not> same k k') \<and>
      is_published s' k' = (is_published s k' \<and> \<not> same k k') \<and> is_refired s' k' = is_refired s k' \<and>
      read k' s' = (if same k k' then Inr None else read k' s)"
begin

text \<open>A second reservation loses, a second re-fire loses even across a clear, and after a clear the next
  reservation wins.\<close>

lemma reserve_once:
  assumes "valid k" "fresh u s" "reserve u k s = (r, s')" "fresh u' s'"
  shows "fst (reserve u' k s') = Inr False"
  using reserve_law [OF assms(1-3), of k] reserve_law [OF assms(1,4), of _ _ k] same_refl
  by (cases "reserve u' k s'") auto

lemma refire_once:
  assumes "valid k" "fresh u s" "refire u k s = (r, s')" "clear k s' = (t, s'')" "fresh u' s''"
  shows "fst (refire u' k s'') = Inr False"
  using refire_law [OF assms(1-3), of k] clear_law [OF assms(1,4), of k] refire_law [OF assms(1,5), of _ _ k]
    same_refl
  by (cases "refire u' k s''") auto

lemma clear_reopens:
  assumes "valid k" "clear k s = (t, s')" "fresh u s'"
  shows "fst (reserve u k s') = Inr True" and "read k s' = Inr None"
  using clear_law [OF assms(1,2), of k] reserve_law [OF assms(1,3), of _ _ k] same_refl
  by (cases "reserve u k s'"; auto)+

lemma captured_is_read:
  assumes "valid k" "fresh u s" "ok p" "\<not> is_published s k" "capture u k p s = (t, s')"
  shows "read k s' = Inr (Some (canon p))"
  using capture_law [OF assms(1-3,5), of k] assms(4) same_refl by simp

end

section \<open>The files keep the contract\<close>

definition fence_canon :: "json_object \<Rightarrow> json_object" where
  "fence_canon p = sort_key fst (map (\<lambda>kv. (fst kv, sort_keys (snd kv))) p)"

definition fence_payload :: "fence_env \<Rightarrow> json_object \<Rightarrow> bool" where
  "fence_payload env p \<longleftrightarrow> wf_json (fen_floats env) (JObj p) \<and> ascii_floats (fen_floats env)"

lemma sort_keys_obj: "sort_keys (JObj p) = JObj (fence_canon p)"
  by (simp add: fence_canon_def)

lemma claimed_file: "claimed fs k \<longleftrightarrow> file_of CLAIM_SUFFIX k fs \<noteq> None"
  by (simp add: claimed_def claim_file_def present_fence_file)

lemma published_file: "published fs k \<longleftrightarrow> file_of OUTPUT_SUFFIX k fs \<noteq> None"
  by (simp add: published_def output_file_def present_fence_file)

lemma refired_file: "refired fs k \<longleftrightarrow> file_of REFIRE_SUFFIX k fs \<noteq> None"
  by (simp add: refired_def refire_file_def present_fence_file)

lemmas fence_files = claimed_file published_file refired_file

lemma read_output_file:
  "read_output env k fs =
     (if \<not> encodable k then Inl UnicodeEncodeError
      else case file_of OUTPUT_SUFFIX k fs of
             None \<Rightarrow> Inr None
           | Some raw \<Rightarrow> (case loads_bytes (fen_floats env) raw of Some (JObj d) \<Rightarrow> Inr (Some d) | _ \<Rightarrow> Inr None))"
  by (cases "fence_file OUTPUT_SUFFIX k")
    (auto simp: read_output_def output_file_def file_of_def encodable_def fence_file_def)

lemma read_output_cong:
  "file_of OUTPUT_SUFFIX k fs = file_of OUTPUT_SUFFIX k fs' \<Longrightarrow> read_output env k fs = read_output env k fs'"
  by (simp add: read_output_file)

lemma fence_dumps_reads:
  assumes "fence_payload env p"
  obtains bs where "utf8_encode (fence_dumps (fen_floats env) p) = Some bs"
    "loads_bytes (fen_floats env) bs = Some (JObj (fence_canon p))"
proof -
  have "wf_json (fen_floats env) (JObj (fence_canon p))"
    using assms wf_sort_keys [of _ "JObj p"] by (simp only: fence_payload_def sort_keys_obj)
  from loads_bytes_dumps [OF this, of "\<lparr>do_spaced = True, do_ensure_ascii = True\<rparr>"] assms that show ?thesis
    by (simp only: fence_dumps_def sort_keys_obj fence_payload_def) (metis dumps_options.select_convs(2))
qed

lemma encodable_same: "same_effect k k' \<Longrightarrow> encodable k = encodable k'"
  by (auto simp: same_effect_def encodable_def map_option_case split: option.splits)

lemma reserve_files:
  assumes "encodable k" "fresh_uuid u fs" "try_reserve env u k fs = (r, fs')"
  shows "r = Inr (\<not> claimed fs k)"
    "fence_suffix sfx \<Longrightarrow> file_of sfx k' fs' =
       (if sfx = CLAIM_SUFFIX \<and> same_effect k k' \<and> \<not> claimed fs k then Some (fen_stamp env) else file_of sfx k' fs)"
proof -
  obtain path where p: "fence_file CLAIM_SUFFIX k = Some path" using encodable_file [OF assms(1)] by blast
  with assms(3) have pub: "publish_by_link path u (fen_stamp env) fs = (r, fs')"
    by (simp add: try_reserve_def claim_file_def)
  note * = publish_fence_file [OF p assms(2) _ pub]
  show "r = Inr (\<not> claimed fs k)" using *(1) [of sfx] *(1) [of CLAIM_SUFFIX] by (simp add: claimed_file)
  show "fence_suffix sfx \<Longrightarrow> file_of sfx k' fs' =
       (if sfx = CLAIM_SUFFIX \<and> same_effect k k' \<and> \<not> claimed fs k then Some (fen_stamp env) else file_of sfx k' fs)"
    using *(2) [of sfx k'] by (simp add: claimed_file)
qed

lemma refire_files:
  assumes "encodable k" "fresh_uuid u fs" "try_consume_refire env u k fs = (r, fs')"
  shows "r = Inr (\<not> refired fs k)"
    "fence_suffix sfx \<Longrightarrow> file_of sfx k' fs' =
       (if sfx = REFIRE_SUFFIX \<and> same_effect k k' \<and> \<not> refired fs k then Some (fen_stamp env) else file_of sfx k' fs)"
proof -
  obtain path where p: "fence_file REFIRE_SUFFIX k = Some path" using encodable_file [OF assms(1)] by blast
  with assms(3) have pub: "publish_by_link path u (fen_stamp env) fs = (r, fs')"
    by (simp add: try_consume_refire_def refire_file_def)
  note * = publish_fence_file [OF p assms(2) _ pub]
  show "r = Inr (\<not> refired fs k)" using *(1) [of REFIRE_SUFFIX] by (simp add: refired_file)
  show "fence_suffix sfx \<Longrightarrow> file_of sfx k' fs' =
       (if sfx = REFIRE_SUFFIX \<and> same_effect k k' \<and> \<not> refired fs k then Some (fen_stamp env) else file_of sfx k' fs)"
    using *(2) [of sfx k'] by (simp add: refired_file)
qed

lemma capture_files:
  assumes "encodable k" "fresh_uuid u fs" "fence_payload env p" "capture_output env u k p fs = (t, fs')"
  obtains bs where "t = Inr ()" "loads_bytes (fen_floats env) bs = Some (JObj (fence_canon p))"
    "\<And>sfx k'. fence_suffix sfx \<Longrightarrow> file_of sfx k' fs' =
       (if sfx = OUTPUT_SUFFIX \<and> same_effect k k' \<and> \<not> published fs k then Some bs else file_of sfx k' fs)"
proof -
  obtain path where path: "fence_file OUTPUT_SUFFIX k = Some path" using encodable_file [OF assms(1)] by blast
  obtain bs where bs: "utf8_encode (fence_dumps (fen_floats env) p) = Some bs"
    "loads_bytes (fen_floats env) bs = Some (JObj (fence_canon p))"
    using fence_dumps_reads [OF assms(3)] .
  obtain r where pub: "publish_by_link path u bs fs = (r, fs')"
    using assms(4) path bs(1) by (auto simp: capture_output_def output_file_def split: prod.splits sum.splits)
  note * = publish_fence_file [OF path assms(2) _ pub]
  have "t = Inr ()" using assms(4) path bs(1) pub *(1) [of OUTPUT_SUFFIX]
    by (auto simp: capture_output_def output_file_def split: prod.splits sum.splits)
  then show ?thesis using that [OF _ bs(2)] *(2) by (simp add: published_file)
qed

lemma clear_files:
  assumes "encodable k" "clear_claim k fs = (t, fs')"
  shows "t = Inr ()"
    "file_of sfx k' fs' =
       (if (sfx = CLAIM_SUFFIX \<or> sfx = OUTPUT_SUFFIX) \<and> same_effect k k' then None else file_of sfx k' fs)"
proof -
  obtain p q where p: "fence_file CLAIM_SUFFIX k = Some p" and q: "fence_file OUTPUT_SUFFIX k = Some q"
    using encodable_file [OF assms(1)] by blast
  then have eq: "t = Inr ()" "fs' = unlink_missing_ok q (unlink_missing_ok p fs)"
    using assms(2) by (auto simp: clear_claim_def claim_file_def output_file_def Let_def)
  show "t = Inr ()" by (fact eq)
  show "file_of sfx k' fs' =
       (if (sfx = CLAIM_SUFFIX \<or> sfx = OUTPUT_SUFFIX) \<and> same_effect k k' then None else file_of sfx k' fs)"
    unfolding eq by (simp add: unlink_fence_file [OF p] unlink_fence_file [OF q])
qed

interpretation fence: effect_fence encodable fresh_uuid same_effect "fence_payload env" fence_canon
    claimed published refired "try_reserve env" "try_consume_refire env" "capture_output env"
    "read_output env" clear_claim
  for env
proof
  fix k k' :: pystr and u r t p and fs fs' :: files
  show "same_effect k k" by simp
  show "r = Inr (\<not> claimed fs k) \<and> claimed fs' k' = (claimed fs k' \<or> same_effect k k') \<and>
      published fs' k' = published fs k' \<and> refired fs' k' = refired fs k' \<and>
      read_output env k' fs' = read_output env k' fs"
    if "encodable k" "fresh_uuid u fs" "try_reserve env u k fs = (r, fs')"
    using reserve_files(1) [OF that] reserve_files(2) [OF that fence_suffix_intros(1), of k']
      reserve_files(2) [OF that fence_suffix_intros(2), of k'] reserve_files(2) [OF that fence_suffix_intros(3), of k']
      file_of_same [of k k' CLAIM_SUFFIX fs]
    by (auto simp: fence_files read_output_file)
  show "r = Inr (\<not> refired fs k) \<and> refired fs' k' = (refired fs k' \<or> same_effect k k') \<and>
      published fs' k' = published fs k' \<and> claimed fs' k' = claimed fs k' \<and>
      read_output env k' fs' = read_output env k' fs"
    if "encodable k" "fresh_uuid u fs" "try_consume_refire env u k fs = (r, fs')"
    using refire_files(1) [OF that] refire_files(2) [OF that fence_suffix_intros(1), of k']
      refire_files(2) [OF that fence_suffix_intros(2), of k'] refire_files(2) [OF that fence_suffix_intros(3), of k']
      file_of_same [of k k' REFIRE_SUFFIX fs]
    by (auto simp: fence_files read_output_file)
  show "t = Inr () \<and> published fs' k' = (published fs k' \<or> same_effect k k') \<and>
      claimed fs' k' = claimed fs k' \<and> refired fs' k' = refired fs k' \<and>
      read_output env k' fs' =
        (if same_effect k k' \<and> \<not> published fs k then Inr (Some (fence_canon p)) else read_output env k' fs)"
    if "encodable k" "fresh_uuid u fs" "fence_payload env p" "capture_output env u k p fs = (t, fs')"
  proof -
    note captured = capture_files [OF that]
    obtain bs where t: "t = Inr ()" and bs: "loads_bytes (fen_floats env) bs = Some (JObj (fence_canon p))"
      and files: "\<And>sfx k'. fence_suffix sfx \<Longrightarrow> file_of sfx k' fs' =
       (if sfx = OUTPUT_SUFFIX \<and> same_effect k k' \<and> \<not> published fs k then Some bs else file_of sfx k' fs)"
      using captured by blast
    show ?thesis
      using t bs files [OF fence_suffix_intros(1), of k'] files [OF fence_suffix_intros(2), of k']
        files [OF fence_suffix_intros(3), of k'] file_of_same [of k k' OUTPUT_SUFFIX fs]
        encodable_same [of k k'] that(1)
      by (auto simp: fence_files read_output_file)
  qed
  show "t = Inr () \<and> claimed fs' k' = (claimed fs k' \<and> \<not> same_effect k k') \<and>
      published fs' k' = (published fs k' \<and> \<not> same_effect k k') \<and> refired fs' k' = refired fs k' \<and>
      read_output env k' fs' = (if same_effect k k' then Inr None else read_output env k' fs)"
    if "encodable k" "clear_claim k fs = (t, fs')"
    using clear_files(1) [OF that] clear_files(2) [OF that, of CLAIM_SUFFIX k']
      clear_files(2) [OF that, of OUTPUT_SUFFIX k'] clear_files(2) [OF that, of REFIRE_SUFFIX k']
      encodable_same [of k k'] that(1)
    by (auto simp: fence_files read_output_file)
qed

section \<open>Temporary files do not pile up\<close>

lemma fence_file_not_any_tmp: "fence_file sfx k = Some p \<Longrightarrow> fence_suffix sfx \<Longrightarrow> p \<noteq> tmp_file q u"
  by (auto simp: fence_file_eq_Some fence_suffix_def tmp_file_def CLAIM_SUFFIX_def OUTPUT_SUFFIX_def
      REFIRE_SUFFIX_def dest!: arg_cong [where f = last])

lemma fresh_publish:
  assumes "fence_file sfx k = Some path" "fence_suffix sfx" "publish_by_link path u c fs = (r, fs')" "fresh_uuid u' fs"
  shows "fresh_uuid u' fs'"
  using assms fence_file_not_any_tmp [OF assms(1,2)]
  by (auto simp: fresh_uuid_def publish_by_link_def Let_def split: if_splits) blast

lemma fresh_reserve: "try_reserve env u k fs = (r, fs') \<Longrightarrow> fresh_uuid u' fs \<Longrightarrow> fresh_uuid u' fs'"
  by (auto simp: try_reserve_def claim_file_def intro: fresh_publish split: option.splits)

lemma fresh_refire: "try_consume_refire env u k fs = (r, fs') \<Longrightarrow> fresh_uuid u' fs \<Longrightarrow> fresh_uuid u' fs'"
  by (auto simp: try_consume_refire_def refire_file_def intro: fresh_publish split: option.splits)

lemma fresh_capture: "capture_output env u k p fs = (t, fs') \<Longrightarrow> fresh_uuid u' fs \<Longrightarrow> fresh_uuid u' fs'"
  by (auto simp: capture_output_def output_file_def intro: fresh_publish split: option.splits prod.splits sum.splits)

lemma fresh_unlink: "fresh_uuid u fs \<Longrightarrow> fresh_uuid u (unlink_missing_ok p fs)"
  by (simp add: fresh_uuid_def unlink_missing_ok_def)

lemma fresh_clear: "clear_claim k fs = (t, fs') \<Longrightarrow> fresh_uuid u fs \<Longrightarrow> fresh_uuid u fs'"
  by (auto simp: clear_claim_def Let_def intro!: fresh_unlink split: option.splits)

lemmas fence_fresh = fresh_reserve fresh_refire fresh_capture fresh_clear fresh_unlink

lemma fresh_uuid_empty: "fresh_uuid u Map.empty"
  by (simp add: fresh_uuid_def)

section \<open>Properties\<close>

text \<open>Property C28. The output a winner captures is the output later callers read: it comes back with its
  keys in order, through the bytes of the file, a second capture does not replace it, and clearing the
  claim removes it. A claim is won once until it is cleared, the re-fire latch once for ever.\<close>

theorem fence_output_roundtrip:
  assumes "encodable k" "fresh_uuid u fs" "fence_payload env p" "\<not> published fs k"
    and "capture_output env u k p fs = (t, fs1)" "fresh_uuid u' fs1" "fence_payload env p'"
    and "capture_output env u' k p' fs1 = (t', fs2)" "clear_claim k fs2 = (t'', fs3)" "fresh_uuid u'' fs3"
  shows "read_output env k fs1 = Inr (Some (fence_canon p)) \<and>
    read_output env k fs2 = Inr (Some (fence_canon p)) \<and>
    read_output env k fs3 = Inr None \<and>
    fst (try_reserve env u'' k fs3) = Inr True \<and>
    fst (try_consume_refire env u'' k fs3) = Inr (\<not> refired fs k)"
proof -
  have pub: "published fs1 k" and r1: "read_output env k fs1 = Inr (Some (fence_canon p))"
    using fence.capture_law [OF assms(1,2,3,5), of k] assms(4) by auto
  have r2: "read_output env k fs2 = Inr (Some (fence_canon p))"
    using fence.capture_law [OF assms(1,6,7,8), of k] r1 pub by auto
  have "refired fs3 k = refired fs k"
    using fence.capture_law [OF assms(1,2,3,5), of k] fence.capture_law [OF assms(1,6,7,8), of k]
      fence.clear_law [OF assms(1,9), of k] by simp
  then have "fst (try_consume_refire env u'' k fs3) = Inr (\<not> refired fs k)"
    using fence.refire_law [OF assms(1,10), of env _ _ k] by (cases "try_consume_refire env u'' k fs3") auto
  with r1 r2 fence.clear_reopens [OF assms(1,9,10)] show ?thesis by simp
qed

definition sample_floats :: float_codec where
  "sample_floats = \<lparr>fl_repr = (\<lambda>_. lit ''0.5''), fl_parse = (\<lambda>_. 1 / 2)\<rparr>"

definition sample_fence_env :: fence_env where
  "sample_fence_env = \<lparr>fen_stamp = [104, 58, 49], fen_floats = sample_floats\<rparr>"

theorem fence_output_roundtrip_witness:
  "\<exists>fs1. read_output sample_fence_env (lit ''run:step'') fs1 = Inr (Some [(lit ''ok'', JBool True)])"
proof -
  let ?k = "lit ''run:step''" and ?p = "[(lit ''ok'', JBool True)]" and ?u = "lit ''a''"
  let ?e = sample_fence_env
  have k: "encodable ?k" by (simp add: encodable_def utf8_encode_def utf8_char_def)
  have p: "fence_payload ?e ?p"
    by (simp add: fence_payload_def sample_fence_env_def sample_floats_def ascii_floats_def valid_cp_def)
  obtain t fs1 where c1: "capture_output ?e ?u ?k ?p Map.empty = (t, fs1)" by fastforce
  have f1: "fresh_uuid ?u fs1" using fresh_capture [OF c1 fresh_uuid_empty] .
  obtain t' fs2 where c2: "capture_output ?e ?u ?k ?p fs1 = (t', fs2)" by fastforce
  obtain t'' fs3 where c3: "clear_claim ?k fs2 = (t'', fs3)" by fastforce
  have f3: "fresh_uuid ?u fs3" using fresh_clear [OF c3 fresh_capture [OF c2 f1]] .
  have np: "\<not> published Map.empty ?k" by (simp add: published_def present_def split: option.split)
  have "fence_canon ?p = ?p" by (simp add: fence_canon_def)
  with fence_output_roundtrip [OF k fresh_uuid_empty p np c1 f1 p c2 c3 f3] show ?thesis by auto
qed

end
