(* ===== verification/Server_Trust.thy ===== *)
theory Server_Trust
  imports Complex_Main Gate_Levels
begin

text \<open>
  \<open>harness_cp/per_server_trust_types.py\<close> and \<open>per_server_trust_evaluator.py\<close>: whether a primitive of an
  MCP server may be used under the operator's trust policy, and the \<open>mcp.trust.evaluate\<close> span. The
  tier resolver an operator may inject is an argument; the default one is modelled. \<open>Inl\<close> stands for
  the \<open>ValueError\<close> of the default resolver.
\<close>

datatype mcp_primitive = MP_TOOL | MP_RESOURCE | MP_PROMPT | MP_SAMPLING

datatype trust_decision_reason =
    EXPLICIT_ALLOW | EXPLICIT_DENY | TIER_FLOOR_PASS | TIER_FLOOR_VIOLATION
  | UNKNOWN_SERVER_TIER_FLOOR_PASS | UNKNOWN_SERVER_TIER_FLOOR_VIOLATION

datatype tier_derivation_rule = CONSERVATIVE | PROTOCOL_VERSION_TABLE | OPERATOR_HOOK

record trust_policy =
  tp_default_tier :: mcp_trust_tier
  tp_per_server_overrides :: "pystr \<rightharpoonup> mcp_trust_tier"
  tp_allow_list :: "pystr set"
  tp_deny_list :: "pystr set"
  tp_require_audit_below_tier :: mcp_trust_tier
  tp_tier_derivation :: tier_derivation_rule

record trust_evaluation =
  te_permitted :: bool
  te_trust_tier_evaluated :: mcp_trust_tier
  te_decision_reason :: trust_decision_reason
  te_audit_required :: bool

fun trust_tier_rank :: "mcp_trust_tier \<Rightarrow> nat" where
  "trust_tier_rank LEVEL_0_REFUSE_REMOTE = 0"
| "trust_tier_rank LEVEL_1_SIGNED_PINNED = 1"
| "trust_tier_rank LEVEL_2_SANDBOX_ALL = 2"
| "trust_tier_rank LEVEL_3_ALLOW_WITH_AUDIT = 3"

declare trust_tier_rank.simps [rank_simps]

interpretation trust_ranked: ranked trust_tier_rank
proof
  fix a b
  show "trust_tier_rank a = trust_tier_rank b \<Longrightarrow> a = b" by (cases a; cases b) simp_all
qed

definition CONSERVATIVE_MIN_TIER :: mcp_trust_tier where
  "CONSERVATIVE_MIN_TIER = LEVEL_0_REFUSE_REMOTE"

type_synonym 'j tier_resolver =
  "pystr \<Rightarrow> 'j tool_contract option \<Rightarrow> tier_derivation_rule \<Rightarrow> value_error + mcp_trust_tier"

definition default_tier_resolver :: "'j tier_resolver" where
  "default_tier_resolver server_name contract rule =
     (if rule = CONSERVATIVE then Inr CONSERVATIVE_MIN_TIER else Inl ValueError)"

definition tier_at_or_above_floor :: "mcp_trust_tier \<Rightarrow> mcp_trust_tier \<Rightarrow> bool" where
  "tier_at_or_above_floor tier fl \<longleftrightarrow> trust_tier_rank fl \<le> trust_tier_rank tier"

definition require_audit_for_tier :: "mcp_trust_tier \<Rightarrow> mcp_trust_tier \<Rightarrow> bool" where
  "require_audit_for_tier tier audit_floor \<longleftrightarrow> trust_tier_rank tier < trust_tier_rank audit_floor"

definition evaluate_trust ::
  "'j tier_resolver \<Rightarrow> pystr \<Rightarrow> mcp_primitive \<Rightarrow> 'j tool_contract option \<Rightarrow> trust_policy
   \<Rightarrow> value_error + trust_evaluation" where
  "evaluate_trust tier_resolver server_name primitive contract pol =
     (if server_name \<in> tp_deny_list pol then
        Inr \<lparr>te_permitted = False, te_trust_tier_evaluated = CONSERVATIVE_MIN_TIER,
             te_decision_reason = EXPLICIT_DENY, te_audit_required = True\<rparr>
      else if server_name \<in> tp_allow_list pol then
        (let tier = (case tp_per_server_overrides pol server_name of
                       Some t \<Rightarrow> t | None \<Rightarrow> tp_default_tier pol) in
         Inr \<lparr>te_permitted = True, te_trust_tier_evaluated = tier, te_decision_reason = EXPLICIT_ALLOW,
              te_audit_required = require_audit_for_tier tier (tp_require_audit_below_tier pol)\<rparr>)
      else
        case tp_per_server_overrides pol server_name of
          Some tier \<Rightarrow>
            if tier_at_or_above_floor tier (tp_default_tier pol) then
              Inr \<lparr>te_permitted = True, te_trust_tier_evaluated = tier, te_decision_reason = TIER_FLOOR_PASS,
                   te_audit_required = require_audit_for_tier tier (tp_require_audit_below_tier pol)\<rparr>
            else
              Inr \<lparr>te_permitted = False, te_trust_tier_evaluated = tier,
                   te_decision_reason = TIER_FLOOR_VIOLATION, te_audit_required = True\<rparr>
        | None \<Rightarrow>
            raise_bind (tier_resolver server_name contract (tp_tier_derivation pol)) (\<lambda>resolved_tier.
              if tier_at_or_above_floor resolved_tier (tp_default_tier pol) then
                Inr \<lparr>te_permitted = True, te_trust_tier_evaluated = resolved_tier,
                     te_decision_reason = UNKNOWN_SERVER_TIER_FLOOR_PASS, te_audit_required = True\<rparr>
              else
                Inr \<lparr>te_permitted = False, te_trust_tier_evaluated = resolved_tier,
                     te_decision_reason = UNKNOWN_SERVER_TIER_FLOOR_VIOLATION, te_audit_required = True\<rparr>))"

text \<open>The span is emitted unless no audit is required and the draw of \<open>sampler.random ()\<close> is at least
  a tenth; its attributes are the server, the primitive and the evaluation.\<close>

definition NON_AUDIT_SAMPLE_RATE :: real where
  "NON_AUDIT_SAMPLE_RATE = 1 / 10"

record trust_span =
  tsp_server_name :: pystr
  tsp_primitive :: mcp_primitive
  tsp_evaluation :: trust_evaluation

definition emit_mcp_trust_evaluate_span ::
  "trust_evaluation \<Rightarrow> pystr \<Rightarrow> mcp_primitive \<Rightarrow> real \<Rightarrow> trust_span option" where
  "emit_mcp_trust_evaluate_span ev server_name primitive draw =
     (if \<not> te_audit_required ev \<and> NON_AUDIT_SAMPLE_RATE \<le> draw then None
      else Some \<lparr>tsp_server_name = server_name, tsp_primitive = primitive, tsp_evaluation = ev\<rparr>)"

text \<open>The tier an evaluation judges a server by, when it is on neither list.\<close>

definition judged_tier ::
  "'j tier_resolver \<Rightarrow> pystr \<Rightarrow> 'j tool_contract option \<Rightarrow> trust_policy \<Rightarrow> value_error + mcp_trust_tier" where
  "judged_tier tier_resolver server_name contract pol =
     (case tp_per_server_overrides pol server_name of
        Some t \<Rightarrow> Inr t
      | None \<Rightarrow> tier_resolver server_name contract (tp_tier_derivation pol))"

lemma evaluate_trust_permitted_iff:
  assumes "evaluate_trust r s p c pol = Inr ev"
  shows "te_permitted ev \<longleftrightarrow>
    s \<notin> tp_deny_list pol \<and>
    (s \<in> tp_allow_list pol \<or>
     (\<exists>t. judged_tier r s c pol = Inr t \<and> tier_at_or_above_floor t (tp_default_tier pol)))"
  using assms
  by (auto simp: evaluate_trust_def judged_tier_def Let_def raise_bind_Inr_iff split: if_splits option.splits)

lemma evaluate_trust_unaudited:
  assumes "evaluate_trust r s p c pol = Inr ev" and "\<not> te_audit_required ev"
  shows "te_permitted ev \<and> (s \<in> tp_allow_list pol \<or> tp_per_server_overrides pol s \<noteq> None) \<and>
    tier_at_or_above_floor (te_trust_tier_evaluated ev) (tp_require_audit_below_tier pol)"
  using assms
  by (auto simp: evaluate_trust_def Let_def raise_bind_Inr_iff require_audit_for_tier_def
      tier_at_or_above_floor_def split: if_splits option.splits)

lemma evaluate_trust_raises_iff:
  "(\<exists>e. evaluate_trust r s p c pol = Inl e) \<longleftrightarrow>
   s \<notin> tp_deny_list pol \<union> tp_allow_list pol \<and> (\<exists>e. judged_tier r s c pol = Inl e)"
proof (cases "r s c (tp_tier_derivation pol)")
  case (Inl e)
  then show ?thesis
    by (auto simp: evaluate_trust_def judged_tier_def Let_def split: option.splits if_splits)
next
  case (Inr t)
  then show ?thesis
    by (auto simp: evaluate_trust_def judged_tier_def Let_def split: option.splits if_splits)
qed

text \<open>Property C29. Under a trust policy the deny list wins over everything, the allow list over the tier
  floor, and any other server is permitted exactly when the tier it is judged by (its override, else
  the resolver's answer) is at or above the default tier. A decision that skips the audit permits the
  call, is about a server the operator named, and rests on a tier at or above the audit floor, and the
  span of every audited decision is emitted whatever the sampler draws.\<close>

theorem trust_evaluation_sound:
  assumes "evaluate_trust r s p c pol = Inr ev"
  shows "(s \<in> tp_deny_list pol \<longrightarrow> \<not> te_permitted ev) \<and>
    (te_permitted ev \<longleftrightarrow>
       s \<notin> tp_deny_list pol \<and>
       (s \<in> tp_allow_list pol \<or>
        (\<exists>t. judged_tier r s c pol = Inr t \<and> tier_at_or_above_floor t (tp_default_tier pol)))) \<and>
    (\<not> te_audit_required ev \<longrightarrow>
       te_permitted ev \<and> (s \<in> tp_allow_list pol \<or> tp_per_server_overrides pol s \<noteq> None) \<and>
       tier_at_or_above_floor (te_trust_tier_evaluated ev) (tp_require_audit_below_tier pol)) \<and>
    (te_audit_required ev \<longrightarrow> (\<forall>draw. emit_mcp_trust_evaluate_span ev s p draw \<noteq> None))"
  using evaluate_trust_permitted_iff [OF assms] evaluate_trust_unaudited [OF assms]
  by (simp add: emit_mcp_trust_evaluate_span_def)

definition sample_trust_policy :: trust_policy where
  "sample_trust_policy =
     \<lparr>tp_default_tier = LEVEL_1_SIGNED_PINNED, tp_per_server_overrides = [lit ''fs'' \<mapsto> LEVEL_2_SANDBOX_ALL],
      tp_allow_list = {lit ''docs''}, tp_deny_list = {lit ''bad''},
      tp_require_audit_below_tier = LEVEL_2_SANDBOX_ALL, tp_tier_derivation = CONSERVATIVE\<rparr>"

theorem trust_evaluation_sound_witness:
  "\<exists>ev. evaluate_trust default_tier_resolver (lit ''fs'') MP_TOOL (None :: unit tool_contract option)
      sample_trust_policy = Inr ev \<and> te_permitted ev \<and> \<not> te_audit_required ev \<and>
    tier_at_or_above_floor (te_trust_tier_evaluated ev) (tp_require_audit_below_tier sample_trust_policy)"
proof -
  let ?ev = "\<lparr>te_permitted = True, te_trust_tier_evaluated = LEVEL_2_SANDBOX_ALL,
    te_decision_reason = TIER_FLOOR_PASS, te_audit_required = False\<rparr>"
  have "evaluate_trust default_tier_resolver (lit ''fs'') MP_TOOL (None :: unit tool_contract option)
      sample_trust_policy = Inr ?ev"
    by (simp add: evaluate_trust_def sample_trust_policy_def tier_at_or_above_floor_def require_audit_for_tier_def)
  from trust_evaluation_sound [OF this] this show ?thesis by auto
qed

end
