(* ===== verification/Fail_Classes.thy ===== *)
theory Fail_Classes
  imports Sandbox_Composition
begin

text \<open>
  The failure taxonomies of the action surface: \<open>harness_as/sandbox_fail_class.py\<close> (sandbox failures,
  the failures of an MCP call and their projection onto them) and \<open>harness_as/secret_fail_class.py\<close>
  (failures of a secret fetch and the key of the backend's breaker).
\<close>

section \<open>Sandbox failures\<close>

datatype sandbox_fail_class =
    ESCAPE_ATTEMPT | EGRESS_DENIED | SFC_TIMEOUT | OOM | SIGNAL | EXIT_NONZERO | POLICY_OVERRIDE

datatype c5_fail_class = C5_PERMANENT_FAIL | C5_TRANSIENT_FAIL | C5_GATE_CONTRACT_DEPENDENT | C5_INFORMATIONAL

datatype c9_retry_posture = C9_NO_RETRY | C9_BACKOFF_RETRY | C9_PER_TOOL_RETRY_EXIT | C9_AUDIT_LEDGER_ONLY

record sandbox_fail_class_metadata =
  sfm_fail_class :: sandbox_fail_class
  sfm_c5_classification :: c5_fail_class
  sfm_c9_retry_posture :: c9_retry_posture
  sfm_skips_pre_hitl_staircase :: bool
  sfm_always_sampled :: bool
  sfm_tamper_evidence_relevant :: bool

definition sandbox_fail_meta ::
  "sandbox_fail_class \<Rightarrow> c5_fail_class \<Rightarrow> c9_retry_posture \<Rightarrow> bool \<Rightarrow> bool \<Rightarrow> sandbox_fail_class_metadata" where
  "sandbox_fail_meta c c5 c9 skips tamper =
     \<lparr>sfm_fail_class = c, sfm_c5_classification = c5, sfm_c9_retry_posture = c9,
      sfm_skips_pre_hitl_staircase = skips, sfm_always_sampled = True,
      sfm_tamper_evidence_relevant = tamper\<rparr>"

fun fail_class_metadata :: "sandbox_fail_class \<Rightarrow> sandbox_fail_class_metadata" where
  "fail_class_metadata ESCAPE_ATTEMPT = sandbox_fail_meta ESCAPE_ATTEMPT C5_PERMANENT_FAIL C9_NO_RETRY True True"
| "fail_class_metadata EGRESS_DENIED = sandbox_fail_meta EGRESS_DENIED C5_PERMANENT_FAIL C9_NO_RETRY True False"
| "fail_class_metadata SFC_TIMEOUT = sandbox_fail_meta SFC_TIMEOUT C5_TRANSIENT_FAIL C9_BACKOFF_RETRY False False"
| "fail_class_metadata OOM = sandbox_fail_meta OOM C5_TRANSIENT_FAIL C9_BACKOFF_RETRY False False"
| "fail_class_metadata SIGNAL = sandbox_fail_meta SIGNAL C5_PERMANENT_FAIL C9_NO_RETRY True False"
| "fail_class_metadata EXIT_NONZERO =
     sandbox_fail_meta EXIT_NONZERO C5_GATE_CONTRACT_DEPENDENT C9_PER_TOOL_RETRY_EXIT False False"
| "fail_class_metadata POLICY_OVERRIDE =
     sandbox_fail_meta POLICY_OVERRIDE C5_INFORMATIONAL C9_AUDIT_LEDGER_ONLY False False"

definition permanent_fail_skips_staircase :: "sandbox_fail_class \<Rightarrow> bool" where
  "permanent_fail_skips_staircase c = sfm_skips_pre_hitl_staircase (fail_class_metadata c)"

datatype mcp_invocation_fail_class = MCP_TRANSPORT | MCP_PROTOCOL_ERROR | MCP_SCHEMA_VIOLATION | MCP_TIMEOUT

fun project_mcp_to_sandbox_fail_class :: "mcp_invocation_fail_class \<Rightarrow> sandbox_fail_class" where
  "project_mcp_to_sandbox_fail_class MCP_TRANSPORT = EXIT_NONZERO"
| "project_mcp_to_sandbox_fail_class MCP_PROTOCOL_ERROR = EXIT_NONZERO"
| "project_mcp_to_sandbox_fail_class MCP_SCHEMA_VIOLATION = POLICY_OVERRIDE"
| "project_mcp_to_sandbox_fail_class MCP_TIMEOUT = SFC_TIMEOUT"

declare fail_class_metadata.simps [data_simps] project_mcp_to_sandbox_fail_class.simps [data_simps]

text \<open>Exactly the permanent failures skip the staircase, and none of them is retried; the failure of an
  MCP call never is one.\<close>

lemma permanent_fail_skips_iff:
  "permanent_fail_skips_staircase c \<longleftrightarrow> sfm_c5_classification (fail_class_metadata c) = C5_PERMANENT_FAIL"
  "permanent_fail_skips_staircase c \<longleftrightarrow> sfm_c9_retry_posture (fail_class_metadata c) = C9_NO_RETRY"
  by (cases c; simp add: permanent_fail_skips_staircase_def sandbox_fail_meta_def)+

lemma mcp_failure_on_staircase: "\<not> permanent_fail_skips_staircase (project_mcp_to_sandbox_fail_class m)"
  by (cases m) (simp_all add: permanent_fail_skips_staircase_def sandbox_fail_meta_def)

section \<open>Secret-fetch failures\<close>

datatype secret_fail_class =
    SECRET_UNKNOWN | SECRET_UNAVAILABLE | SECRET_EXPIRED | SECRET_LOCKED | SECRET_REVOKED

datatype secret_c5_fail_class =
    SC5_PERMANENT_FAIL | SC5_TRANSIENT_FAIL | SC5_REFLEXION_RECOVERABLE | SC5_HITL_RECOVERABLE

datatype secret_c9_retry_posture =
    NO_RETRY_ROUTE_TO_HITL | C9_BACKOFF_RETRY_WITH_BACKEND_BREAKER
  | REFRESH_AND_RETRY_PRESERVING_IDEMPOTENCY_KEY
  | WORKLOAD_MODE_AWARE_EPHEMERAL_FAIL_FAST_OR_DURABLE_PAUSE

record secret_fail_metadata =
  sem_fail_class :: secret_fail_class
  sem_c5_classification :: secret_c5_fail_class
  sem_c9_retry_posture :: secret_c9_retry_posture
  sem_orthogonal_to_sandbox :: bool

fun secret_metadata_spec :: "secret_fail_class \<Rightarrow> secret_c5_fail_class \<times> secret_c9_retry_posture" where
  "secret_metadata_spec SECRET_UNKNOWN = (SC5_PERMANENT_FAIL, NO_RETRY_ROUTE_TO_HITL)"
| "secret_metadata_spec SECRET_UNAVAILABLE = (SC5_TRANSIENT_FAIL, C9_BACKOFF_RETRY_WITH_BACKEND_BREAKER)"
| "secret_metadata_spec SECRET_EXPIRED =
     (SC5_REFLEXION_RECOVERABLE, REFRESH_AND_RETRY_PRESERVING_IDEMPOTENCY_KEY)"
| "secret_metadata_spec SECRET_LOCKED =
     (SC5_HITL_RECOVERABLE, WORKLOAD_MODE_AWARE_EPHEMERAL_FAIL_FAST_OR_DURABLE_PAUSE)"
| "secret_metadata_spec SECRET_REVOKED =
     (SC5_HITL_RECOVERABLE, WORKLOAD_MODE_AWARE_EPHEMERAL_FAIL_FAST_OR_DURABLE_PAUSE)"

definition secret_fail_class_metadata :: "secret_fail_class \<Rightarrow> secret_fail_metadata" where
  "secret_fail_class_metadata c =
     \<lparr>sem_fail_class = c, sem_c5_classification = fst (secret_metadata_spec c),
      sem_c9_retry_posture = snd (secret_metadata_spec c), sem_orthogonal_to_sandbox = True\<rparr>"

record secret_backend_breaker_key =
  sbk_secret_backend :: pystr
  sbk_scope :: secret_scope

definition construct_breaker_key :: "pystr \<Rightarrow> secret_scope \<Rightarrow> secret_backend_breaker_key" where
  "construct_breaker_key backend scope = \<lparr>sbk_secret_backend = backend, sbk_scope = scope\<rparr>"

lemma construct_breaker_key_inject:
  "construct_breaker_key b s = construct_breaker_key b' s' \<longleftrightarrow> b = b' \<and> s = s'"
  by (simp add: construct_breaker_key_def)

end
