(* ===== verification/Provider_Secrets.thy ===== *)
theory Provider_Secrets
  imports Py_Strings Fail_Classes
begin

text \<open>
  \<open>harness_runtime/config/provider_secrets.py\<close>: the keyring resolver with its environment fallback and
  the cloud secret-manager resolver. The keyring, the environment and the secret accessor are arguments.
  What a caller may rely on of either resolver is the locale \<open>secret_resolver\<close>, interpreted on both.
\<close>

datatype secret_error =
    SecretResolutionError secret_fail_class pystr
  | SecretAllowlistDeniedError allowlist_decision pystr secret_scope

record secret_audit_result =
  sar_ref :: secret_ref
  sar_secret_last_rotated_at :: pystr
  sar_backend :: pystr
  sar_cache_tier_overhead_ms :: int
  sar_policy_access_decision_reason :: pystr

definition enforce_allowlist ::
  "secret_allowlist_entry list \<Rightarrow> pystr \<Rightarrow> secret_scope \<Rightarrow> 'j tool_contract option \<Rightarrow> secret_error + unit" where
  "enforce_allowlist operator_allowlist name scope tool =
     (case tool of
        None \<Rightarrow> Inr ()
      | Some t \<Rightarrow>
          (let decision = check_secret_allowlist t name scope operator_allowlist in
           if decision \<noteq> PERMITTED then Inl (SecretAllowlistDeniedError decision name scope) else Inr ()))"

section \<open>The keyring\<close>

text \<open>\<open>krs_get_password\<close> answers \<open>None\<close> for a \<open>KeyringError\<close> and \<open>Some None\<close> for an absent password.\<close>

record keyring_resolver =
  krs_get_password :: "pystr \<Rightarrow> pystr option option"
  krs_environ :: "pystr \<rightharpoonup> pystr"
  krs_allow_env_fallback :: bool
  krs_operator_allowlist :: "secret_allowlist_entry list"

definition KEYRING_TO_ENV_VAR :: "pystr \<rightharpoonup> pystr" where
  "KEYRING_TO_ENV_VAR =
     [lit ''anthropic_key'' \<mapsto> lit ''ANTHROPIC_API_KEY'', lit ''openai_key'' \<mapsto> lit ''OPENAI_API_KEY'']"

definition keyring_lookup :: "keyring_resolver \<Rightarrow> pystr \<Rightarrow> secret_error + pystr option" where
  "keyring_lookup r name =
     (case krs_get_password r name of
        None \<Rightarrow>
          (case KEYRING_TO_ENV_VAR name of
             Some env_var \<Rightarrow>
               (if krs_allow_env_fallback r \<and> krs_environ r env_var \<noteq> None
                then Inr (krs_environ r env_var)
                else Inl (SecretResolutionError SECRET_UNAVAILABLE name))
           | None \<Rightarrow> Inl (SecretResolutionError SECRET_UNAVAILABLE name))
      | Some (Some value) \<Rightarrow> Inr (Some value)
      | Some None \<Rightarrow>
          (case KEYRING_TO_ENV_VAR name of
             Some env_var \<Rightarrow> (if krs_allow_env_fallback r then Inr (krs_environ r env_var) else Inr None)
           | None \<Rightarrow> Inr None))"

definition keyring_resolve ::
  "keyring_resolver \<Rightarrow> pystr \<Rightarrow> secret_scope \<Rightarrow> sandbox_tier \<Rightarrow> 'j tool_contract option
   \<Rightarrow> secret_error + secret_ref" where
  "keyring_resolve r name scope tier tool =
     raise_bind (enforce_allowlist (krs_operator_allowlist r) name scope tool) (\<lambda>_.
     raise_bind (keyring_lookup r name) (\<lambda>value.
       if value = None then Inl (SecretResolutionError SECRET_UNKNOWN name)
       else Inr \<lparr>sr_name = name, sr_scope = scope, sr_tier = tier\<rparr>))"

definition keyring_resolve_with_audit_metadata ::
  "keyring_resolver \<Rightarrow> pystr \<Rightarrow> secret_scope \<Rightarrow> sandbox_tier \<Rightarrow> 'j tool_contract option
   \<Rightarrow> secret_error + secret_audit_result" where
  "keyring_resolve_with_audit_metadata r name scope tier tool =
     raise_bind (enforce_allowlist (krs_operator_allowlist r) name scope tool) (\<lambda>_.
     raise_bind (keyring_lookup r name) (\<lambda>value.
       if value = None then Inl (SecretResolutionError SECRET_UNKNOWN name)
       else Inl (SecretResolutionError SECRET_UNAVAILABLE name)))"

definition keyring_resolve_bootstrap_value :: "keyring_resolver \<Rightarrow> pystr \<Rightarrow> secret_error + pystr" where
  "keyring_resolve_bootstrap_value r name =
     raise_bind (keyring_lookup r name) (\<lambda>value.
       case value of None \<Rightarrow> Inl (SecretResolutionError SECRET_UNKNOWN name) | Some v \<Rightarrow> Inr v)"

section \<open>The cloud secret manager\<close>

record gcp_access_result =
  gar_value :: pystr
  gar_last_rotated_at :: pystr

text \<open>The accessor may return a bare string or a result; it raises a \<open>SecretResolutionError\<close>
  (\<open>Inl (Some e)\<close>) or any other exception (\<open>Inl None\<close>).\<close>

record gcp_resolver =
  gcr_project_id :: pystr
  gcr_secret_version :: pystr
  gcr_operator_allowlist :: "secret_allowlist_entry list"
  gcr_secret_accessor :: "pystr \<Rightarrow> secret_error option + (pystr + gcp_access_result)"

definition coerce_gcp_access_result :: "pystr + gcp_access_result \<Rightarrow> gcp_access_result" where
  "coerce_gcp_access_result res =
     (case res of Inr g \<Rightarrow> g | Inl s \<Rightarrow> \<lparr>gar_value = s, gar_last_rotated_at = []\<rparr>)"

definition gcp_resource_name :: "gcp_resolver \<Rightarrow> pystr \<Rightarrow> secret_error + pystr" where
  "gcp_resource_name r name =
     (if name = [] \<or> 47 \<in> set name then Inl (SecretResolutionError SECRET_UNKNOWN name)
      else Inr (lit ''projects/'' @ gcr_project_id r @ lit ''/secrets/'' @ name @ lit ''/versions/''
                @ gcr_secret_version r))"

definition gcp_lookup_record :: "gcp_resolver \<Rightarrow> pystr \<Rightarrow> secret_error + gcp_access_result" where
  "gcp_lookup_record r name =
     raise_bind (gcp_resource_name r name) (\<lambda>resource_name.
       case gcr_secret_accessor r resource_name of
         Inr res \<Rightarrow> Inr (coerce_gcp_access_result res)
       | Inl (Some e) \<Rightarrow>
           (case e of
              SecretResolutionError f n \<Rightarrow> Inl e
            | _ \<Rightarrow> Inl (SecretResolutionError SECRET_UNAVAILABLE name))
       | Inl None \<Rightarrow> Inl (SecretResolutionError SECRET_UNAVAILABLE name))"

definition gcp_resolve ::
  "gcp_resolver \<Rightarrow> pystr \<Rightarrow> secret_scope \<Rightarrow> sandbox_tier \<Rightarrow> 'j tool_contract option
   \<Rightarrow> secret_error + secret_ref" where
  "gcp_resolve r name scope tier tool =
     raise_bind (enforce_allowlist (gcr_operator_allowlist r) name scope tool) (\<lambda>_.
     raise_bind (gcp_lookup_record r name) (\<lambda>_.
       Inr \<lparr>sr_name = name, sr_scope = scope, sr_tier = tier\<rparr>))"

definition gcp_resolve_with_audit_metadata ::
  "gcp_resolver \<Rightarrow> pystr \<Rightarrow> secret_scope \<Rightarrow> sandbox_tier \<Rightarrow> 'j tool_contract option
   \<Rightarrow> secret_error + secret_audit_result" where
  "gcp_resolve_with_audit_metadata r name scope tier tool =
     raise_bind (enforce_allowlist (gcr_operator_allowlist r) name scope tool) (\<lambda>_.
     raise_bind (gcp_lookup_record r name) (\<lambda>rec.
       if py_blank (gar_last_rotated_at rec) then Inl (SecretResolutionError SECRET_UNAVAILABLE name)
       else Inr \<lparr>sar_ref = \<lparr>sr_name = name, sr_scope = scope, sr_tier = tier\<rparr>,
                 sar_secret_last_rotated_at = gar_last_rotated_at rec,
                 sar_backend = lit ''gcp-secret-manager'', sar_cache_tier_overhead_ms = 0,
                 sar_policy_access_decision_reason = lit ''permitted''\<rparr>))"

definition gcp_resolve_bootstrap_value :: "gcp_resolver \<Rightarrow> pystr \<Rightarrow> secret_error + pystr" where
  "gcp_resolve_bootstrap_value r name =
     raise_bind (gcp_lookup_record r name) (\<lambda>rec. Inr (gar_value rec))"

section \<open>The interface of a resolver\<close>

text \<open>Resolution checks the allowlists first, hands out the reference that was asked for and never a
  value, and attests a rotation time that is not blank.\<close>

locale secret_resolver =
  fixes allowlist :: "'r \<Rightarrow> secret_allowlist_entry list"
    and resolve :: "'r \<Rightarrow> pystr \<Rightarrow> secret_scope \<Rightarrow> sandbox_tier \<Rightarrow> 'j tool_contract option
          \<Rightarrow> secret_error + secret_ref"
    and resolve_audited :: "'r \<Rightarrow> pystr \<Rightarrow> secret_scope \<Rightarrow> sandbox_tier \<Rightarrow> 'j tool_contract option
          \<Rightarrow> secret_error + secret_audit_result"
  assumes resolve_ref: "resolve r n s t tool = Inr ref \<Longrightarrow> ref = \<lparr>sr_name = n, sr_scope = s, sr_tier = t\<rparr>"
    and audited_ref: "resolve_audited r n s t tool = Inr a \<Longrightarrow>
          sar_ref a = \<lparr>sr_name = n, sr_scope = s, sr_tier = t\<rparr> \<and> \<not> py_blank (sar_secret_last_rotated_at a)"
    and resolve_denied: "enforce_allowlist (allowlist r) n s tool = Inl e \<Longrightarrow> resolve r n s t tool = Inl e"
    and audited_denied: "enforce_allowlist (allowlist r) n s tool = Inl e \<Longrightarrow> resolve_audited r n s t tool = Inl e"
    and audited_resolves: "resolve_audited r n s t tool = Inr a \<Longrightarrow> \<exists>ref. resolve r n s t tool = Inr ref"
begin

lemma resolved_for_tool:
  assumes "resolve r n s t (Some tool) = Inr ref"
  shows "\<lparr>sae_name = n, sae_scope = s\<rparr> \<in> set (tct_required_secrets tool) \<inter> set (allowlist r)"
proof (rule ccontr)
  assume "\<not> ?thesis"
  then have "check_secret_allowlist tool n s (allowlist r) \<noteq> PERMITTED"
    by (simp add: check_secret_allowlist_permitted_iff)
  then have "\<exists>e. enforce_allowlist (allowlist r) n s (Some tool) = Inl e"
    by (simp add: enforce_allowlist_def Let_def)
  then show False using resolve_denied assms by fastforce
qed

lemma audited_for_tool:
  assumes "resolve_audited r n s t (Some tool) = Inr a"
  shows "\<lparr>sae_name = n, sae_scope = s\<rparr> \<in> set (tct_required_secrets tool) \<inter> set (allowlist r)"
  using audited_resolves [OF assms] resolved_for_tool by blast

end

interpretation keyring: secret_resolver krs_operator_allowlist keyring_resolve keyring_resolve_with_audit_metadata
  by unfold_locales
    (auto simp: keyring_resolve_def keyring_resolve_with_audit_metadata_def raise_bind_Inr_iff split: if_splits)

interpretation gcp: secret_resolver gcr_operator_allowlist gcp_resolve gcp_resolve_with_audit_metadata
  by unfold_locales
    (auto simp: gcp_resolve_def gcp_resolve_with_audit_metadata_def raise_bind_Inr_iff split: if_splits)

lemma keyring_never_audits: "keyring_resolve_with_audit_metadata r n s t tool \<noteq> Inr a"
  by (auto simp: keyring_resolve_with_audit_metadata_def raise_bind_Inr_iff split: if_splits)

lemma gcp_no_path_escape:
  assumes "gcp_resource_name r n = Inr p" "gcp_resource_name r n' = Inr p"
  shows "n = n'"
  using assms by (auto simp add: gcp_resource_name_def split: if_splits)

text \<open>Whatever the backend, a secret resolved for a tool is on the tool's own list and on the
  operator's, and the answer is the reference that was asked for; an audited answer carries a rotation
  time that is not blank. The keyring attests no rotation time, so it answers no audited request, and a
  cloud secret has the resource path of no other secret.\<close>

theorem secret_resolution_sound:
  shows "(keyring_resolve k n s t (Some tool) = Inr ref \<longrightarrow>
      ref = fetch_secret n s t \<and>
      \<lparr>sae_name = n, sae_scope = s\<rparr> \<in> set (tct_required_secrets tool) \<inter> set (krs_operator_allowlist k)) \<and>
    (gcp_resolve_with_audit_metadata g n s t (Some tool) = Inr a \<longrightarrow>
      sar_ref a = fetch_secret n s t \<and> \<not> py_blank (sar_secret_last_rotated_at a) \<and>
      \<lparr>sae_name = n, sae_scope = s\<rparr> \<in> set (tct_required_secrets tool) \<inter> set (gcr_operator_allowlist g)) \<and>
    (\<exists>e. keyring_resolve_with_audit_metadata k n s t (Some tool) = Inl e) \<and>
    (gcp_resource_name g n = Inr p \<and> gcp_resource_name g n' = Inr p \<longrightarrow> n = n')"
  using keyring.resolve_ref [of k n s t "Some tool" ref] keyring.resolved_for_tool [of k n s t tool ref]
    gcp.audited_ref [of g n s t "Some tool" a] gcp.audited_for_tool [of g n s t tool a]
    keyring_never_audits [of k n s t "Some tool"] gcp_no_path_escape [of g n p n']
  by (cases "keyring_resolve_with_audit_metadata k n s t (Some tool)") (auto simp: fetch_secret_def)

definition sample_secret_tool :: "unit tool_contract" where
  "sample_secret_tool =
     \<lparr>tct_name = lit ''mail'', tct_description = [], tct_input_schema = (), tct_output_schema = (),
      tct_minimum_tier = TIER_1_PROCESS, tct_blast_radius_tier = EXTERNAL_IRREVERSIBLE,
      tct_required_secrets = [\<lparr>sae_name = lit ''smtp'', sae_scope = \<lparr>ss_name = lit ''mail''\<rparr>\<rparr>],
      tct_forces_computer_use = False, tct_forces_code_execution = False,
      tct_is_deterministic_inhouse = False, tct_idempotent = False\<rparr>"

definition sample_gcp :: gcp_resolver where
  "sample_gcp =
     \<lparr>gcr_project_id = lit ''p'', gcr_secret_version = lit ''latest'',
      gcr_operator_allowlist = tct_required_secrets sample_secret_tool,
      gcr_secret_accessor = (\<lambda>_. Inr (Inr \<lparr>gar_value = lit ''v'', gar_last_rotated_at = lit ''2026''\<rparr>))\<rparr>"

theorem secret_resolution_sound_witness:
  "\<exists>a. gcp_resolve_with_audit_metadata sample_gcp (lit ''smtp'') \<lparr>ss_name = lit ''mail''\<rparr> TIER_2_CONTAINER
      (Some sample_secret_tool) = Inr a \<and> sar_ref a = fetch_secret (lit ''smtp'') \<lparr>ss_name = lit ''mail''\<rparr> TIER_2_CONTAINER"
proof -
  have "\<exists>a. gcp_resolve_with_audit_metadata sample_gcp (lit ''smtp'') \<lparr>ss_name = lit ''mail''\<rparr> TIER_2_CONTAINER
      (Some sample_secret_tool) = Inr a"
    by (simp add: gcp_resolve_with_audit_metadata_def enforce_allowlist_def check_secret_allowlist_def
        sample_gcp_def sample_secret_tool_def gcp_lookup_record_def gcp_resource_name_def
        coerce_gcp_access_result_def py_blank_def py_isspace_def)
  then show ?thesis using secret_resolution_sound by blast
qed

end
