(* ===== verification/Tool_Dispatch.thy ===== *)
theory Tool_Dispatch
  imports Complex_Main Effect_Fence Server_Trust Provider_Secrets Engine_Classes
begin

text \<open>
  \<open>harness_runtime/lifecycle/runtime_tool_dispatcher.py\<close>: one tool step from its payload to its
  response. The dispatcher resolves the tool and its host, asks the trust policy, checks the sandbox
  tier, resolves the secrets, passes the effect fence, calls the execution driver, validates the
  response and publishes it at the fence. Arguments of the model: the JSON-schema validator, the
  drivers and sandbox resolvers an operator registers, the secret backends, the clock and the random
  parts of temporary names. A dispatch threads the outside world, the files of the fence and the log of
  spans, audit events and cost records it emits; the span attributes that repeat its arguments are left
  out, and so is the arithmetic of cost attribution, whose failures the dispatcher swallows.
\<close>

section \<open>Data\<close>

record tool_step =
  tst_step_id :: pystr
  tst_payload :: json_object

datatype fence_resolution = SKIP_AS_FIRED | RE_FIRE | ABORT | ABORT_BRANCH

record fence_directive =
  efd_resolution :: fence_resolution
  efd_idempotency_key :: pystr

record 'a step_context =
  stc_parent_idempotency_key :: pystr
  stc_workflow_id :: pystr
  stc_parent_actor :: 'a
  stc_run_engine_class :: "engine_class option"
  stc_effect_fence_resolution :: "fence_directive option"

record sandbox_decision =
  sdd_tier :: sandbox_tier
  sdd_tech :: pystr
  sdd_provider :: pystr
  sdd_assigned_tier_reason :: pystr
  sdd_cost_tier_overhead_ms :: int

text \<open>How a call of a driver can fail; \<open>TF_OTHER\<close> is any other exception.\<close>

datatype tool_failure = TF_TIMEOUT | TF_PROTOCOL_ERROR | TF_HOST_UNREACHABLE | TF_OTHER pystr

type_synonym 'w tool_driver =
  "sandbox_decision \<Rightarrow> pystr \<Rightarrow> json_object \<Rightarrow> pystr \<Rightarrow> 'w \<Rightarrow> (tool_failure + json_object) \<times> 'w"

type_synonym contract = "json_object tool_contract"

record 'w mcp_host =
  mho_server_name :: pystr
  mho_tool_registry :: "pystr \<rightharpoonup> contract"
  mho_call_tool :: "pystr \<Rightarrow> json_object \<Rightarrow> pystr \<Rightarrow> 'w \<Rightarrow> (tool_failure + json_object) \<times> 'w"

datatype tool_error =
    ToolContractUnknownError
  | ToolInvocationTrustViolationError trust_decision_reason
  | SandboxTierFloorViolationError
  | ToolLookupError
  | ToolKeyError
  | ToolValueError
  | ToolRuntimeError
  | SandboxResolverError
  | ToolSecretError secret_error
  | ToolOSError os_error
  | EffectFenceAbortedError pystr
  | EffectFenceAmbiguousUncommittedError pystr
  | ToolDriverError tool_failure
  | ToolInvocationSchemaViolationError

record 'a secret_fetch_event =
  sfe_secret_name :: pystr
  sfe_secret_scope :: secret_scope
  sfe_secret_last_rotated_at :: pystr
  sfe_actor :: 'a
  sfe_timestamp :: pystr
  sfe_thread_id :: pystr
  sfe_step_id :: pystr

record secret_span =
  ssp_secret :: secret_allowlist_entry
  ssp_backend :: pystr
  ssp_cache_tier_overhead_ms :: int
  ssp_decision_reason :: pystr
  ssp_fail_class :: "secret_fail_class option"

datatype 'a tool_event =
    TEV_SECRET_FETCH secret_span
  | TEV_SECRET_AUDIT "'a secret_fetch_event"
  | TEV_MCP_CALL pystr pystr
  | TEV_SANDBOX_VIOLATION mcp_invocation_fail_class sandbox_fail_class pystr
  | TEV_SANDBOX_EXIT
  | TEV_COST "json_object option"

text \<open>The injected secret resolver: absent, one without \<open>resolve_with_audit_metadata\<close>, or one with it.\<close>

datatype secret_source =
    SS_NONE
  | SS_WITHOUT_AUDIT
  | SS_AUDITED "pystr \<Rightarrow> secret_scope \<Rightarrow> sandbox_tier \<Rightarrow> contract option \<Rightarrow> secret_error + secret_audit_result"

text \<open>\<open>None\<close> from a registered sandbox resolver stands for an exception it raises.\<close>

record 'w tool_dispatcher =
  tdp_hosts :: "pystr \<rightharpoonup> 'w mcp_host"
  tdp_routing_index :: "pystr \<rightharpoonup> pystr"
  tdp_tier_resolver :: "json_object tier_resolver"
  tdp_trust_policy :: trust_policy
  tdp_sandbox_resolvers :: "pystr \<rightharpoonup> (contract \<Rightarrow> tool_step \<Rightarrow> sandbox_decision option)"
  tdp_drivers :: "pystr \<rightharpoonup> 'w tool_driver"
  tdp_secret_source :: secret_source
  tdp_audit_emitter :: bool
  tdp_secret_backend :: pystr
  tdp_tracing :: bool
  tdp_cost_attribution :: bool
  tdp_effect_fence :: "fence_env option"
  tdp_fencing_explicit :: bool
  tdp_floats :: float_codec
  tdp_schema_ok :: "json_object \<Rightarrow> json_object \<Rightarrow> bool"

text \<open>What a call reads from outside: the clock and the random parts of temporary names.\<close>

record tool_oracle =
  tor_now :: "nat \<Rightarrow> pystr"
  tor_uuid :: "nat \<Rightarrow> pystr"

record ('a, 'w) tool_state =
  tss_world :: 'w
  tss_files :: files
  tss_events :: "'a tool_event list"

record tool_response =
  trs_tool_id :: pystr
  trs_response :: json_object
  trs_idempotency_key :: pystr
  trs_trust_decision_reason :: trust_decision_reason
  trs_sandbox_tier :: sandbox_tier

definition emit :: "'w tool_dispatcher \<Rightarrow> 'a tool_event \<Rightarrow> ('a, 'w) tool_state \<Rightarrow> ('a, 'w) tool_state" where
  "emit d ev st = (if tdp_tracing d then st\<lparr>tss_events := tss_events st @ [ev]\<rparr> else st)"

definition attribute_tool_cost ::
  "'w tool_dispatcher \<Rightarrow> json_object option \<Rightarrow> ('a, 'w) tool_state \<Rightarrow> ('a, 'w) tool_state" where
  "attribute_tool_cost d response st =
     (if tdp_cost_attribution d \<and> tdp_tracing d
      then st\<lparr>tss_events := tss_events st @ [TEV_COST response]\<rparr> else st)"

definition emit_sandbox_violation ::
  "'w tool_dispatcher \<Rightarrow> mcp_invocation_fail_class \<Rightarrow> pystr \<Rightarrow> ('a, 'w) tool_state \<Rightarrow> ('a, 'w) tool_state" where
  "emit_sandbox_violation d m key st = emit d (TEV_SANDBOX_VIOLATION m (project_mcp_to_sandbox_fail_class m) key) st"

section \<open>Keys\<close>

definition compose_idempotency_key :: "pystr \<Rightarrow> pystr \<Rightarrow> pystr \<Rightarrow> pystr option" where
  "compose_idempotency_key parent step_id tool_id =
     (case (utf8_encode parent, utf8_encode step_id, utf8_encode tool_id) of
        (Some p, Some s, Some t) \<Rightarrow> Some (sha256_hexdigest (p @ [58] @ s @ [58] @ t))
      | _ \<Rightarrow> None)"

definition compute_primitive_signature_hash ::
  "float_codec \<Rightarrow> pystr \<Rightarrow> json_object \<Rightarrow> json_object \<Rightarrow> pystr option" where
  "compute_primitive_signature_hash fc name input_schema output_schema =
     (case (utf8_encode name, utf8_encode (fence_dumps fc input_schema), utf8_encode (fence_dumps fc output_schema)) of
        (Some n, Some i, Some out) \<Rightarrow> Some (sha256_hexdigest (n @ [124] @ i @ [124] @ out))
      | _ \<Rightarrow> None)"

section \<open>Before the fence\<close>

definition tool_request :: "tool_step \<Rightarrow> tool_error + pystr \<times> json_object" where
  "tool_request step =
     (case py_get (tst_payload step) (lit ''tool_id'') of
        JStr tool_id \<Rightarrow>
          if tool_id = [] then Inl ToolContractUnknownError
          else (case py_get (tst_payload step) (lit ''tool_args'') of
                  JNull \<Rightarrow> Inr (tool_id, [])
                | JObj args \<Rightarrow> Inr (tool_id, args)
                | _ \<Rightarrow> Inl ToolContractUnknownError)
      | _ \<Rightarrow> Inl ToolContractUnknownError)"

definition default_tool_driver :: "'w mcp_host \<Rightarrow> 'w tool_driver" where
  "default_tool_driver host decision tool_id args key w = mho_call_tool host tool_id args key w"

record 'w tool_plan =
  tpl_tool_id :: pystr
  tpl_args :: json_object
  tpl_host :: "'w mcp_host"
  tpl_driver :: "'w tool_driver"
  tpl_contract :: contract
  tpl_trust :: trust_evaluation
  tpl_decision :: sandbox_decision

text \<open>The prefix of \<open>dispatch\<close> that has no effect: payload, routing, contract, trust and sandbox tier.\<close>

definition plan_tool_call :: "'w tool_dispatcher \<Rightarrow> tool_step \<Rightarrow> tool_error + 'w tool_plan" where
  "plan_tool_call d step =
     raise_bind (tool_request step) (\<lambda>(tool_id, args).
       case tdp_routing_index d tool_id of
         None \<Rightarrow> Inl ToolContractUnknownError
       | Some server_name \<Rightarrow>
           (case tdp_hosts d server_name of
              None \<Rightarrow> Inl ToolKeyError
            | Some host \<Rightarrow>
                (case mho_tool_registry host tool_id of
                   None \<Rightarrow> Inl ToolContractUnknownError
                 | Some contract \<Rightarrow>
                     (case evaluate_trust (tdp_tier_resolver d) (mho_server_name host) MP_TOOL (Some contract)
                             (tdp_trust_policy d) of
                        Inl _ \<Rightarrow> Inl ToolValueError
                      | Inr trust \<Rightarrow>
                          if \<not> te_permitted trust
                          then Inl (ToolInvocationTrustViolationError (te_decision_reason trust))
                          else
                            (case tdp_sandbox_resolvers d server_name of
                               None \<Rightarrow> Inl ToolLookupError
                             | Some resolver \<Rightarrow>
                                 (case resolver contract step of
                                    None \<Rightarrow> Inl SandboxResolverError
                                  | Some decision \<Rightarrow>
                                      if tier_rank (sdd_tier decision) < tier_rank (tct_minimum_tier contract)
                                      then Inl SandboxTierFloorViolationError
                                      else Inr \<lparr>tpl_tool_id = tool_id, tpl_args = args, tpl_host = host,
                                        tpl_driver = (case tdp_drivers d server_name of
                                                        Some dr \<Rightarrow> dr | None \<Rightarrow> default_tool_driver host),
                                        tpl_contract = contract, tpl_trust = trust, tpl_decision = decision\<rparr>))))))"

definition emit_secret_fetch_span ::
  "'w tool_dispatcher \<Rightarrow> secret_allowlist_entry \<Rightarrow> pystr \<Rightarrow> int \<Rightarrow> pystr \<Rightarrow> secret_fail_class option
   \<Rightarrow> ('a, 'w) tool_state \<Rightarrow> ('a, 'w) tool_state" where
  "emit_secret_fetch_span d sec backend overhead reason fail st =
     emit d (TEV_SECRET_FETCH \<lparr>ssp_secret = sec, ssp_backend = backend, ssp_cache_tier_overhead_ms = overhead,
                ssp_decision_reason = reason, ssp_fail_class = fail\<rparr>) st"

fun allowlist_decision_value :: "allowlist_decision \<Rightarrow> pystr" where
  "allowlist_decision_value PERMITTED = lit ''PERMITTED''"
| "allowlist_decision_value DENIED_NOT_IN_TOOL_ALLOWLIST = lit ''DENIED_NOT_IN_TOOL_ALLOWLIST''"
| "allowlist_decision_value DENIED_NOT_IN_OPERATOR_POLICY_OVERRIDE =
     lit ''DENIED_NOT_IN_OPERATOR_POLICY_OVERRIDE''"

fun fetch_secrets ::
  "'w tool_dispatcher \<Rightarrow> tool_oracle
   \<Rightarrow> (pystr \<Rightarrow> secret_scope \<Rightarrow> sandbox_tier \<Rightarrow> contract option \<Rightarrow> secret_error + secret_audit_result)
   \<Rightarrow> 'w tool_plan \<Rightarrow> tool_step \<Rightarrow> 'a step_context \<Rightarrow> nat \<Rightarrow> secret_allowlist_entry list
   \<Rightarrow> ('a, 'w) tool_state \<Rightarrow> (tool_error + unit) \<times> ('a, 'w) tool_state" where
  "fetch_secrets d orc resolve plan step ctx i [] st = (Inr (), st)"
| "fetch_secrets d orc resolve plan step ctx i (sec # secs) st =
     (case raise_bind
             (resolve (sae_name sec) (sae_scope sec) (sdd_tier (tpl_decision plan)) (Some (tpl_contract plan)))
             (\<lambda>a. if py_blank (sar_secret_last_rotated_at a)
                  then Inl (SecretResolutionError SECRET_UNAVAILABLE (sae_name sec)) else Inr a) of
        Inl (SecretResolutionError fail name) \<Rightarrow>
          (Inl (ToolSecretError (SecretResolutionError fail name)),
           emit_secret_fetch_span d sec (tdp_secret_backend d) 0 (lit ''resolution_failed'') (Some fail) st)
      | Inl (SecretAllowlistDeniedError decision name scope) \<Rightarrow>
          (Inl (ToolSecretError (SecretAllowlistDeniedError decision name scope)),
           emit_secret_fetch_span d sec (tdp_secret_backend d) 0 (allowlist_decision_value decision)
             (Some SECRET_LOCKED) st)
      | Inr a \<Rightarrow>
          (let event = \<lparr>sfe_secret_name = sae_name sec, sfe_secret_scope = sae_scope sec,
                 sfe_secret_last_rotated_at = sar_secret_last_rotated_at a, sfe_actor = stc_parent_actor ctx,
                 sfe_timestamp = tor_now orc i, sfe_thread_id = stc_workflow_id ctx,
                 sfe_step_id = tst_step_id step\<rparr>;
               st1 = st\<lparr>tss_events := tss_events st @ [TEV_SECRET_AUDIT event]\<rparr>
           in fetch_secrets d orc resolve plan step ctx (Suc i) secs
                (emit_secret_fetch_span d sec (sar_backend a) (sar_cache_tier_overhead_ms a)
                   (sar_policy_access_decision_reason a) None st1)))"

definition resolve_required_secrets ::
  "'w tool_dispatcher \<Rightarrow> tool_oracle \<Rightarrow> 'w tool_plan \<Rightarrow> tool_step \<Rightarrow> 'a step_context
   \<Rightarrow> ('a, 'w) tool_state \<Rightarrow> (tool_error + unit) \<times> ('a, 'w) tool_state" where
  "resolve_required_secrets d orc plan step ctx st =
     (let unavailable =
            Inl (ToolSecretError (SecretResolutionError SECRET_UNAVAILABLE (lit ''provider-secret-resolver''))) in
      if tct_required_secrets (tpl_contract plan) = [] then (Inr (), st)
      else case tdp_secret_source d of
             SS_NONE \<Rightarrow> (unavailable, st)
           | SS_WITHOUT_AUDIT \<Rightarrow> if \<not> tdp_audit_emitter d then (Inl ToolRuntimeError, st) else (unavailable, st)
           | SS_AUDITED resolve \<Rightarrow>
               if \<not> tdp_audit_emitter d then (Inl ToolRuntimeError, st)
               else fetch_secrets d orc resolve plan step ctx 0 (tct_required_secrets (tpl_contract plan)) st)"

section \<open>The fence gate\<close>

definition DURABLE_AUTO_FENCE_ENGINE_CLASSES :: "engine_class set" where
  "DURABLE_AUTO_FENCE_ENGINE_CLASSES =
     {SAVE_POINT_CHECKPOINT, EVENT_SOURCED_REPLAY, WAL_SEGMENT, RECONCILER_LOOP}"

definition fence_gate_open :: "'w tool_dispatcher \<Rightarrow> 'a step_context \<Rightarrow> contract \<Rightarrow> bool" where
  "fence_gate_open d ctx contract \<longleftrightarrow>
     (tdp_fencing_explicit d \<or>
      (case stc_run_engine_class ctx of
         None \<Rightarrow> False | Some ec \<Rightarrow> ec \<in> DURABLE_AUTO_FENCE_ENGINE_CLASSES)) \<and>
     \<not> tct_idempotent contract"

definition bound_resolution :: "'a step_context \<Rightarrow> pystr \<Rightarrow> fence_resolution option" where
  "bound_resolution ctx key =
     (case stc_effect_fence_resolution ctx of
        None \<Rightarrow> None
      | Some dir \<Rightarrow> if efd_idempotency_key dir = key then Some (efd_resolution dir) else None)"

text \<open>What the losing side of a reservation does; a response means that the tool is not called.\<close>

definition lose_reservation ::
  "fence_env \<Rightarrow> fence_resolution option \<Rightarrow> pystr \<Rightarrow> files \<Rightarrow> tool_error + json_object" where
  "lose_reservation env res key fs =
     (if res = Some SKIP_AS_FIRED then Inr []
      else if res = Some ABORT then Inl (EffectFenceAbortedError key)
      else case read_output env key fs of
             Inl e \<Rightarrow> Inl (ToolOSError e)
           | Inr (Some out) \<Rightarrow> Inr out
           | Inr None \<Rightarrow> Inl (EffectFenceAmbiguousUncommittedError key))"

text \<open>\<open>Inr None\<close>: go on and call the tool; \<open>Inr (Some r)\<close>: answer \<open>r\<close> without calling it.\<close>

definition enter_fence ::
  "fence_env \<Rightarrow> (nat \<Rightarrow> pystr) \<Rightarrow> fence_resolution option \<Rightarrow> pystr \<Rightarrow> files
   \<Rightarrow> (tool_error + json_object option) \<times> files" where
  "enter_fence env uuid res key fs =
     (case (if res = Some RE_FIRE then try_consume_refire env (uuid 0) key fs else (Inr False, fs)) of
        (Inl e, fs1) \<Rightarrow> (Inl (ToolOSError e), fs1)
      | (Inr consumed, fs1) \<Rightarrow>
          (case (if consumed then clear_claim key fs1 else (Inr (), fs1)) of
             (Inl e, fs2) \<Rightarrow> (Inl (ToolOSError e), fs2)
           | (Inr _, fs2) \<Rightarrow>
               (case try_reserve env (uuid 1) key fs2 of
                  (Inl e, fs3) \<Rightarrow> (Inl (ToolOSError e), fs3)
                | (Inr won, fs3) \<Rightarrow>
                    if won then (Inr None, fs3)
                    else (map_sum id Some (lose_reservation env res key fs3), fs3))))"

section \<open>Calling the tool\<close>

fun failure_class :: "tool_failure \<Rightarrow> mcp_invocation_fail_class option" where
  "failure_class TF_TIMEOUT = Some MCP_TIMEOUT"
| "failure_class TF_PROTOCOL_ERROR = Some MCP_PROTOCOL_ERROR"
| "failure_class TF_HOST_UNREACHABLE = Some MCP_TRANSPORT"
| "failure_class (TF_OTHER n) = None"

definition validate_response_schema :: "'w tool_dispatcher \<Rightarrow> json_object \<Rightarrow> json_object \<Rightarrow> bool" where
  "validate_response_schema d response schema \<longleftrightarrow> schema = [] \<or> tdp_schema_ok d response schema"

definition call_tool ::
  "'w tool_dispatcher \<Rightarrow> 'w tool_plan \<Rightarrow> pystr \<Rightarrow> ('a, 'w) tool_state
   \<Rightarrow> (tool_error + json_object) \<times> ('a, 'w) tool_state" where
  "call_tool d plan key st =
     (case compute_primitive_signature_hash (tdp_floats d) (tct_name (tpl_contract plan))
             (tct_input_schema (tpl_contract plan)) (tct_output_schema (tpl_contract plan)) of
        None \<Rightarrow> (Inl (ToolOSError UnicodeEncodeError), st)
      | Some sig \<Rightarrow>
          (let st1 = emit d (TEV_MCP_CALL (mho_server_name (tpl_host plan)) sig) st in
           case tpl_driver plan (tpl_decision plan) (tpl_tool_id plan) (tpl_args plan) key (tss_world st1) of
             (Inl f, w) \<Rightarrow>
               (let st2 = st1\<lparr>tss_world := w\<rparr> in
                (Inl (ToolDriverError f),
                 case failure_class f of
                   None \<Rightarrow> st2
                 | Some m \<Rightarrow> attribute_tool_cost d None (emit_sandbox_violation d m key st2)))
           | (Inr response, w) \<Rightarrow>
               (let st2 = st1\<lparr>tss_world := w\<rparr> in
                if \<not> validate_response_schema d response (tct_output_schema (tpl_contract plan)) then
                  (Inl ToolInvocationSchemaViolationError,
                   attribute_tool_cost d (Some response) (emit_sandbox_violation d MCP_SCHEMA_VIOLATION key st2))
                else (Inr response, attribute_tool_cost d (Some response) (emit d TEV_SANDBOX_EXIT st2)))))"

definition respond :: "'w tool_plan \<Rightarrow> pystr \<Rightarrow> json_object \<Rightarrow> tool_response" where
  "respond plan key response =
     \<lparr>trs_tool_id = tpl_tool_id plan, trs_response = response, trs_idempotency_key = key,
      trs_trust_decision_reason = te_decision_reason (tpl_trust plan),
      trs_sandbox_tier = sdd_tier (tpl_decision plan)\<rparr>"

definition fire_and_capture ::
  "'w tool_dispatcher \<Rightarrow> tool_oracle \<Rightarrow> bool \<Rightarrow> 'w tool_plan \<Rightarrow> pystr \<Rightarrow> ('a, 'w) tool_state
   \<Rightarrow> (tool_error + tool_response) \<times> ('a, 'w) tool_state" where
  "fire_and_capture d orc gate plan key st =
     (case call_tool d plan key st of
        (Inl e, st1) \<Rightarrow> (Inl e, st1)
      | (Inr response, st1) \<Rightarrow>
          (case tdp_effect_fence d of
             Some env \<Rightarrow>
               (if gate then
                  (case capture_output env (tor_uuid orc 2) key response (tss_files st1) of
                     (Inl e, fs) \<Rightarrow> (Inl (ToolOSError e), st1\<lparr>tss_files := fs\<rparr>)
                   | (Inr _, fs) \<Rightarrow> (Inr (respond plan key response), st1\<lparr>tss_files := fs\<rparr>))
                else (Inr (respond plan key response), st1))
           | None \<Rightarrow> (Inr (respond plan key response), st1)))"

definition dispatch_tool ::
  "'w tool_dispatcher \<Rightarrow> tool_oracle \<Rightarrow> tool_step \<Rightarrow> 'a step_context \<Rightarrow> ('a, 'w) tool_state
   \<Rightarrow> (tool_error + tool_response) \<times> ('a, 'w) tool_state" where
  "dispatch_tool d orc step ctx st =
     (case plan_tool_call d step of
        Inl e \<Rightarrow> (Inl e, st)
      | Inr plan \<Rightarrow>
          (case resolve_required_secrets d orc plan step ctx st of
             (Inl e, st1) \<Rightarrow> (Inl e, st1)
           | (Inr _, st1) \<Rightarrow>
               (case compose_idempotency_key (stc_parent_idempotency_key ctx) (tst_step_id step) (tpl_tool_id plan) of
                  None \<Rightarrow> (Inl (ToolOSError UnicodeEncodeError), st1)
                | Some key \<Rightarrow>
                    (let gate = fence_gate_open d ctx (tpl_contract plan) in
                     case tdp_effect_fence d of
                       None \<Rightarrow> fire_and_capture d orc gate plan key st1
                     | Some env \<Rightarrow>
                         if \<not> gate then fire_and_capture d orc gate plan key st1
                         else
                           (case enter_fence env (tor_uuid orc) (bound_resolution ctx key) key (tss_files st1) of
                              (Inl e, fs) \<Rightarrow> (Inl e, st1\<lparr>tss_files := fs\<rparr>)
                            | (Inr (Some response), fs) \<Rightarrow>
                                (Inr (respond plan key response), emit d TEV_SANDBOX_EXIT (st1\<lparr>tss_files := fs\<rparr>))
                            | (Inr None, fs) \<Rightarrow>
                                fire_and_capture d orc gate plan key (st1\<lparr>tss_files := fs\<rparr>))))))"

section \<open>What each stage leaves alone\<close>

lemma emit_keeps [simp]:
  "tss_world (emit d ev st) = tss_world st" "tss_files (emit d ev st) = tss_files st"
  by (simp_all add: emit_def)

lemma attribute_tool_cost_keeps [simp]:
  "tss_world (attribute_tool_cost d r st) = tss_world st" "tss_files (attribute_tool_cost d r st) = tss_files st"
  by (simp_all add: attribute_tool_cost_def)

lemma emit_sandbox_violation_keeps [simp]:
  "tss_world (emit_sandbox_violation d m key st) = tss_world st"
  "tss_files (emit_sandbox_violation d m key st) = tss_files st"
  by (simp_all add: emit_sandbox_violation_def)

lemma emit_secret_fetch_span_keeps [simp]:
  "tss_world (emit_secret_fetch_span d sec b ov reason fl st) = tss_world st"
  "tss_files (emit_secret_fetch_span d sec b ov reason fl st) = tss_files st"
  by (simp_all add: emit_secret_fetch_span_def)

lemma fetch_secrets_keeps:
  "fetch_secrets d orc resolve plan step ctx i secs st = (r, st') \<Longrightarrow>
   tss_world st' = tss_world st \<and> tss_files st' = tss_files st"
proof (induction secs arbitrary: i st)
  case Nil
  then show ?case by simp
next
  case (Cons sec secs)
  show ?case
  proof (cases "raise_bind (resolve (sae_name sec) (sae_scope sec) (sdd_tier (tpl_decision plan))
      (Some (tpl_contract plan))) (\<lambda>a. if py_blank (sar_secret_last_rotated_at a)
        then Inl (SecretResolutionError SECRET_UNAVAILABLE (sae_name sec)) else Inr a)")
    case (Inl e)
    with Cons.prems show ?thesis by (cases e) auto
  next
    case (Inr a)
    with Cons.prems show ?thesis by (auto simp: Let_def dest!: Cons.IH)
  qed
qed

lemma resolve_required_secrets_keeps:
  "resolve_required_secrets d orc plan step ctx st = (r, st') \<Longrightarrow>
   tss_world st' = tss_world st \<and> tss_files st' = tss_files st"
  by (auto simp: resolve_required_secrets_def Let_def dest: fetch_secrets_keeps
      split: if_splits secret_source.splits)

lemma call_tool_files: "call_tool d plan key st = (r, st') \<Longrightarrow> tss_files st' = tss_files st"
  by (auto simp: call_tool_def Let_def split: option.splits prod.splits sum.splits if_splits)

text \<open>The world after a call is what the driver makes of it, if the driver is reached.\<close>

lemma call_tool_world:
  assumes "call_tool d plan key st = (r, st')"
  shows "tss_world st' = tss_world st \<or>
    tss_world st' = snd (tpl_driver plan (tpl_decision plan) (tpl_tool_id plan) (tpl_args plan) key (tss_world st))"
  using assms by (auto simp: call_tool_def Let_def split: option.splits prod.splits sum.splits if_splits)

lemma fire_and_capture_world:
  assumes "fire_and_capture d orc gate plan key st = (r, st')"
  shows "tss_world st' = tss_world st \<or>
    tss_world st' = snd (tpl_driver plan (tpl_decision plan) (tpl_tool_id plan) (tpl_args plan) key (tss_world st))"
proof -
  obtain t st1 where c: "call_tool d plan key st = (t, st1)" by fastforce
  have "tss_world st' = tss_world st1"
    using assms c by (auto simp: fire_and_capture_def split: sum.splits option.splits if_splits prod.splits)
  then show ?thesis using call_tool_world [OF c] by simp
qed

lemma hexdigest_encodable: "encodable (sha256_hexdigest bs)"
proof -
  have "\<forall>c \<in> set (sha256_hexdigest bs). c < 128" using sha256_hexdigest_chars by fastforce
  then show ?thesis by (simp add: encodable_def utf8_encode_ascii)
qed

lemma compose_key_encodable: "compose_idempotency_key p s t = Some key \<Longrightarrow> encodable key"
  by (auto simp: compose_idempotency_key_def hexdigest_encodable split: option.splits)

text \<open>The plan is made only of what the policy permits.\<close>

lemma plan_tool_call_steps:
  assumes "plan_tool_call d step = Inr plan"
  obtains tool_id args srv host con trust resolver dec where
    "tool_request step = Inr (tool_id, args)" "tdp_routing_index d tool_id = Some srv"
    "tdp_hosts d srv = Some host" "mho_tool_registry host tool_id = Some con"
    "evaluate_trust (tdp_tier_resolver d) (mho_server_name host) MP_TOOL (Some con) (tdp_trust_policy d) = Inr trust"
    "te_permitted trust" "tdp_sandbox_resolvers d srv = Some resolver" "resolver con step = Some dec"
    "tier_rank (tct_minimum_tier con) \<le> tier_rank (sdd_tier dec)"
    "plan = \<lparr>tpl_tool_id = tool_id, tpl_args = args, tpl_host = host,
       tpl_driver = (case tdp_drivers d srv of Some dr \<Rightarrow> dr | None \<Rightarrow> default_tool_driver host),
       tpl_contract = con, tpl_trust = trust, tpl_decision = dec\<rparr>"
proof -
  note p = assms [unfolded plan_tool_call_def]
  obtain tool_id args where 1: "tool_request step = Inr (tool_id, args)"
    using p by (auto simp: raise_bind_Inr_iff)
  note p = p [unfolded 1, simplified]
  obtain srv where 2: "tdp_routing_index d tool_id = Some srv" using p by (auto split: option.splits)
  note p = p [unfolded 2, simplified]
  obtain host where 3: "tdp_hosts d srv = Some host" using p by (auto split: option.splits)
  note p = p [unfolded 3, simplified]
  obtain con where 4: "mho_tool_registry host tool_id = Some con" using p by (auto split: option.splits)
  note p = p [unfolded 4, simplified]
  obtain trust where 5: "evaluate_trust (tdp_tier_resolver d) (mho_server_name host) MP_TOOL (Some con)
      (tdp_trust_policy d) = Inr trust"
    using p by (auto split: sum.splits)
  note p = p [unfolded 5, simplified]
  have 6: "te_permitted trust" using p by (auto split: if_splits)
  obtain resolver where 7: "tdp_sandbox_resolvers d srv = Some resolver" using p 6 by (auto split: option.splits)
  note p = p [unfolded 7, simplified]
  obtain dec where 8: "resolver con step = Some dec" using p 6 by (auto split: option.splits)
  show ?thesis using that [OF 1 2 3 4 5 6 7 8] p 6 8 by (auto split: if_splits)
qed

lemma plan_tool_call_sound:
  assumes "plan_tool_call d step = Inr plan"
  shows "evaluate_trust (tdp_tier_resolver d) (mho_server_name (tpl_host plan)) MP_TOOL (Some (tpl_contract plan))
           (tdp_trust_policy d) = Inr (tpl_trust plan)"
    "te_permitted (tpl_trust plan)"
    "tier_rank (tct_minimum_tier (tpl_contract plan)) \<le> tier_rank (sdd_tier (tpl_decision plan))"
    "mho_tool_registry (tpl_host plan) (tpl_tool_id plan) = Some (tpl_contract plan)"
    "\<exists>srv. tdp_routing_index d (tpl_tool_id plan) = Some srv \<and> tdp_hosts d srv = Some (tpl_host plan)"
  using plan_tool_call_steps [OF assms] by force+

text \<open>Secrets are resolved one by one for the tool.\<close>

lemma fetch_secrets_resolved:
  assumes "fetch_secrets d orc resolve plan step ctx i secs st = (Inr u, st')" "sec \<in> set secs"
  shows "\<exists>a. resolve (sae_name sec) (sae_scope sec) (sdd_tier (tpl_decision plan)) (Some (tpl_contract plan)) = Inr a
    \<and> \<not> py_blank (sar_secret_last_rotated_at a)"
  using assms
proof (induction secs arbitrary: i st)
  case Nil
  then show ?case by simp
next
  case (Cons s secs)
  let ?m = "raise_bind (resolve (sae_name s) (sae_scope s) (sdd_tier (tpl_decision plan))
      (Some (tpl_contract plan))) (\<lambda>a. if py_blank (sar_secret_last_rotated_at a)
        then Inl (SecretResolutionError SECRET_UNAVAILABLE (sae_name s)) else Inr a)"
  obtain a where a: "?m = Inr a"
  proof (cases ?m)
    case (Inl e)
    with Cons.prems(1) show ?thesis by (cases e) auto
  qed
  then have r: "\<exists>a. resolve (sae_name s) (sae_scope s) (sdd_tier (tpl_decision plan)) (Some (tpl_contract plan)) = Inr a
    \<and> \<not> py_blank (sar_secret_last_rotated_at a)"
    by (auto simp: raise_bind_Inr_iff split: if_splits)
  show ?case
  proof (cases "sec = s")
    case False
    with Cons.prems(2) have "sec \<in> set secs" by simp
    moreover obtain i' st'' where "fetch_secrets d orc resolve plan step ctx i' secs st'' = (Inr u, st')"
      using Cons.prems(1) a by (auto simp: Let_def)
    ultimately show ?thesis by (rule Cons.IH [rotated])
  qed (use r in simp)
qed

section \<open>The fence at the gate\<close>

text \<open>The four ways through \<open>enter_fence\<close>, from the contract of the fence.\<close>

lemma enter_fence_free:
  assumes "encodable key" "\<forall>u. fresh_uuid u fs" "res \<noteq> Some RE_FIRE" "\<not> claimed fs key"
  obtains fs' where "enter_fence env uuid res key fs = (Inr None, fs')" "claimed fs' key"
    "published fs' key = published fs key" "\<forall>u. fresh_uuid u fs'"
proof -
  obtain r fs' where t: "try_reserve env (uuid 1) key fs = (r, fs')" by fastforce
  have "fresh_uuid (uuid 1) fs" using assms(2) by blast
  note law = fence.reserve_law [OF assms(1) this t, of key]
  show ?thesis
    using that [of fs'] law assms(3,4) t fresh_reserve [OF t] assms(2) by (auto simp: enter_fence_def)
qed

lemma enter_fence_lost:
  assumes "encodable key" "\<forall>u. fresh_uuid u fs" "res \<noteq> Some RE_FIRE" "claimed fs key"
  obtains fs' where "enter_fence env uuid res key fs = (map_sum id Some (lose_reservation env res key fs), fs')"
    "claimed fs' key" "published fs' key = published fs key" "\<forall>u. fresh_uuid u fs'"
proof -
  obtain r fs' where t: "try_reserve env (uuid 1) key fs = (r, fs')" by fastforce
  have "fresh_uuid (uuid 1) fs" using assms(2) by blast
  note law = fence.reserve_law [OF assms(1) this t, of key]
  then have "lose_reservation env res key fs' = lose_reservation env res key fs" by (simp add: lose_reservation_def)
  then show ?thesis
    using that [of fs'] law assms(3,4) t fresh_reserve [OF t] assms(2) by (auto simp: enter_fence_def)
qed

lemma enter_fence_refire:
  assumes "encodable key" "\<forall>u. fresh_uuid u fs" "\<not> refired fs key"
  obtains fs' where "enter_fence env uuid (Some RE_FIRE) key fs = (Inr None, fs')" "claimed fs' key"
    "\<not> published fs' key" "refired fs' key" "\<forall>u. fresh_uuid u fs'"
proof -
  obtain r1 fs1 where t1: "try_consume_refire env (uuid 0) key fs = (r1, fs1)" by fastforce
  obtain r2 fs2 where t2: "clear_claim key fs1 = (r2, fs2)" by fastforce
  obtain r3 fs3 where t3: "try_reserve env (uuid 1) key fs2 = (r3, fs3)" by fastforce
  have f1: "\<forall>u. fresh_uuid u fs1" using assms(2) fresh_refire [OF t1] by blast
  then have f2: "\<forall>u. fresh_uuid u fs2" using fresh_clear [OF t2] by blast
  then have f3: "\<forall>u. fresh_uuid u fs3" using fresh_reserve [OF t3] by blast
  note l1 = fence.refire_law [OF assms(1) assms(2) [THEN spec, of "uuid 0"] t1, of key]
    and l2 = fence.clear_law [OF assms(1) t2, of key]
    and l3 = fence.reserve_law [OF assms(1) f2 [THEN spec, of "uuid 1"] t3, of key]
  show ?thesis
    using that [of fs3] l1 l2 l3 t1 t2 t3 f3 assms(3) by (auto simp: enter_fence_def)
qed

text \<open>Once the re-fire is spent, the resolution is as good as none.\<close>

lemma enter_fence_refired:
  assumes "encodable key" "\<forall>u. fresh_uuid u fs" "refired fs key" "claimed fs key"
  obtains fs' where "enter_fence env uuid (Some RE_FIRE) key fs = (map_sum id Some (lose_reservation env None key fs), fs')"
    "claimed fs' key" "refired fs' key" "\<forall>u. fresh_uuid u fs'"
proof -
  obtain r1 fs1 where t1: "try_consume_refire env (uuid 0) key fs = (r1, fs1)" by fastforce
  obtain r3 fs3 where t3: "try_reserve env (uuid 1) key fs1 = (r3, fs3)" by fastforce
  have f1: "\<forall>u. fresh_uuid u fs1" using assms(2) fresh_refire [OF t1] by blast
  then have f3: "\<forall>u. fresh_uuid u fs3" using fresh_reserve [OF t3] by blast
  note l1 = fence.refire_law [OF assms(1) assms(2) [THEN spec, of "uuid 0"] t1, of key]
    and l3 = fence.reserve_law [OF assms(1) f1 [THEN spec, of "uuid 1"] t3, of key]
  from l1 l3 have "lose_reservation env (Some RE_FIRE) key fs3 = lose_reservation env None key fs"
    by (simp add: lose_reservation_def)
  then show ?thesis
    using that [of fs3] l1 l3 t1 t3 f3 assms(3,4) by (auto simp: enter_fence_def)
qed

text \<open>The driver returns only what the fence can publish.\<close>

definition publishable_driver :: "fence_env \<Rightarrow> 'w tool_driver \<Rightarrow> bool" where
  "publishable_driver env dr \<longleftrightarrow>
     (\<forall>dec tool_id args key w resp w'. dr dec tool_id args key w = (Inr resp, w') \<longrightarrow> fence_payload env resp)"

lemma fire_and_capture_fenced:
  assumes "tdp_effect_fence d = Some env" "encodable key" "\<forall>u. fresh_uuid u (tss_files st)"
    and "claimed (tss_files st) key" "\<not> published (tss_files st) key"
    and "fire_and_capture d orc True plan key st = (r, st')"
    and "publishable_driver env (tpl_driver plan)"
  shows "claimed (tss_files st') key \<and> (\<forall>u. fresh_uuid u (tss_files st')) \<and>
    (case r of
       Inl e \<Rightarrow> read_output env key (tss_files st') = read_output env key (tss_files st) \<and>
                 \<not> published (tss_files st') key
     | Inr resp \<Rightarrow> resp = respond plan key (trs_response resp) \<and>
                 read_output env key (tss_files st') = Inr (Some (fence_canon (trs_response resp))))"
proof -
  obtain t st1 where c: "call_tool d plan key st = (t, st1)" by fastforce
  note files = call_tool_files [OF c]
  show ?thesis
  proof (cases t)
    case (Inl e)
    with assms c files show ?thesis by (auto simp: fire_and_capture_def)
  next
    case (Inr resp)
    then obtain dec tt a w w' where "tpl_driver plan dec tt a key w = (Inr resp, w')"
      using c by (auto simp: call_tool_def Let_def split: option.splits prod.splits sum.splits if_splits)
    then have ok: "fence_payload env resp" using assms(7) unfolding publishable_driver_def by blast
    obtain s fs where cap: "capture_output env (tor_uuid orc 2) key resp (tss_files st) = (s, fs)" by fastforce
    note law = fence.capture_law [OF assms(2) assms(3) [THEN spec, of "tor_uuid orc 2"] ok cap, of key]
    have "\<forall>u. fresh_uuid u fs" using assms(3) fresh_capture [OF cap] by blast
    with assms(1,4,5,6) c files Inr cap law show ?thesis
      by (auto simp: fire_and_capture_def respond_def)
  qed
qed

text \<open>The dispatch of a fenced step, once its plan, its secrets and its key are settled.\<close>

lemma dispatch_tool_fenced:
  assumes "plan_tool_call d step = Inr plan" "resolve_required_secrets d orc plan step ctx st = (Inr (), st1)"
    and "compose_idempotency_key (stc_parent_idempotency_key ctx) (tst_step_id step) (tpl_tool_id plan) = Some key"
    and "tdp_effect_fence d = Some env" "fence_gate_open d ctx (tpl_contract plan)"
    and "enter_fence env (tor_uuid orc) (bound_resolution ctx key) key (tss_files st1) = (v, fs)"
  shows "dispatch_tool d orc step ctx st =
    (case v of
       Inl e \<Rightarrow> (Inl e, st1\<lparr>tss_files := fs\<rparr>)
     | Inr (Some response) \<Rightarrow> (Inr (respond plan key response), emit d TEV_SANDBOX_EXIT (st1\<lparr>tss_files := fs\<rparr>))
     | Inr None \<Rightarrow> fire_and_capture d orc True plan key (st1\<lparr>tss_files := fs\<rparr>))"
  using assms by (simp add: dispatch_tool_def Let_def split: sum.split option.split)

definition with_resolution ::
  "fence_resolution option \<Rightarrow> pystr \<Rightarrow> 'a step_context \<Rightarrow> 'a step_context" where
  "with_resolution res key ctx =
     ctx\<lparr>stc_effect_fence_resolution :=
       map_option (\<lambda>r. \<lparr>efd_resolution = r, efd_idempotency_key = key\<rparr>) res\<rparr>"

lemma with_resolution_simps [simp]:
  "bound_resolution (with_resolution res key ctx) key = res"
  "fence_gate_open d (with_resolution res key ctx) c = fence_gate_open d ctx c"
  "stc_parent_idempotency_key (with_resolution res key ctx) = stc_parent_idempotency_key ctx"
  by (cases res; simp add: with_resolution_def bound_resolution_def fence_gate_open_def)+

text \<open>A fenced step dispatched on an effect nobody has claimed yet.\<close>

definition first_dispatch ::
  "'w tool_dispatcher \<Rightarrow> tool_oracle \<Rightarrow> tool_step \<Rightarrow> 'a step_context \<Rightarrow> fence_env \<Rightarrow> 'w tool_plan \<Rightarrow> pystr
   \<Rightarrow> ('a, 'w) tool_state \<Rightarrow> bool" where
  "first_dispatch d orc step ctx env plan key st \<longleftrightarrow>
     plan_tool_call d step = Inr plan \<and>
     compose_idempotency_key (stc_parent_idempotency_key ctx) (tst_step_id step) (tpl_tool_id plan) = Some key \<and>
     tdp_effect_fence d = Some env \<and> fence_gate_open d ctx (tpl_contract plan) \<and>
     bound_resolution ctx key \<noteq> Some RE_FIRE \<and> fst (resolve_required_secrets d orc plan step ctx st) = Inr () \<and>
     (\<forall>u. fresh_uuid u (tss_files st)) \<and> \<not> claimed (tss_files st) key \<and> \<not> published (tss_files st) key \<and>
     publishable_driver env (tpl_driver plan)"

lemma first_dispatch_fires:
  assumes "first_dispatch d orc step ctx env plan key st"
  obtains st0 where "dispatch_tool d orc step ctx st = fire_and_capture d orc True plan key st0"
    "tss_world st0 = tss_world st" "claimed (tss_files st0) key" "\<not> published (tss_files st0) key"
    "\<forall>u. fresh_uuid u (tss_files st0)" "encodable key"
proof -
  note f = assms(1) [unfolded first_dispatch_def]
  obtain st1 where s: "resolve_required_secrets d orc plan step ctx st = (Inr (), st1)"
    using f by (cases "resolve_required_secrets d orc plan step ctx st") simp
  note keeps = resolve_required_secrets_keeps [OF s]
  have key: "encodable key" using f compose_key_encodable by blast
  have un: "\<not> claimed (tss_files st1) key" "\<not> published (tss_files st1) key" "\<forall>u. fresh_uuid u (tss_files st1)"
    using f keeps by simp_all
  obtain fs where fs: "enter_fence env (tor_uuid orc) (bound_resolution ctx key) key (tss_files st1) = (Inr None, fs)"
    "claimed fs key" "\<not> published fs key" "\<forall>u. fresh_uuid u fs"
    using enter_fence_free [OF key un(3) _ un(1)] f un(2) by metis
  have "dispatch_tool d orc step ctx st = fire_and_capture d orc True plan key (st1\<lparr>tss_files := fs\<rparr>)"
    using dispatch_tool_fenced [OF _ s _ _ _ fs(1)] f by simp
  then show ?thesis using that [of "st1\<lparr>tss_files := fs\<rparr>"] fs key keeps by simp
qed

lemma first_dispatch_result:
  assumes "first_dispatch d orc step ctx env plan key st" "dispatch_tool d orc step ctx st = (r, st')"
  shows "claimed (tss_files st') key \<and> (\<forall>u. fresh_uuid u (tss_files st')) \<and>
    (case r of
       Inl e \<Rightarrow> read_output env key (tss_files st') = Inr None
     | Inr resp \<Rightarrow> resp = respond plan key (trs_response resp) \<and>
                 read_output env key (tss_files st') = Inr (Some (fence_canon (trs_response resp))))"
proof -
  obtain st0 where st0: "dispatch_tool d orc step ctx st = fire_and_capture d orc True plan key st0"
    "claimed (tss_files st0) key" "\<not> published (tss_files st0) key" "\<forall>u. fresh_uuid u (tss_files st0)" "encodable key"
    by (rule first_dispatch_fires [OF assms(1)])
  have "read_output env key (tss_files st0) = Inr None"
    using st0(3,5) by (simp add: read_output_file published_file)
  then show ?thesis
    using fire_and_capture_fenced [OF _ st0(5,4,2,3), of d env orc plan r st'] assms st0(1)
    unfolding first_dispatch_def by (auto split: sum.splits)
qed

lemma second_dispatch:
  assumes "first_dispatch d orc step ctx env plan key st" "claimed (tss_files st2) key" "\<forall>u. fresh_uuid u (tss_files st2)"
    and "res \<noteq> Some RE_FIRE" "resolve_required_secrets d orc' plan step (with_resolution res key ctx) st2 = (Inr (), st3)"
    and "lose_reservation env res key (tss_files st2) = v"
  obtains st4 where "dispatch_tool d orc' step (with_resolution res key ctx) st2 = (map_sum id (respond plan key) v, st4)"
    "tss_world st4 = tss_world st2"
proof -
  note f = assms(1) [unfolded first_dispatch_def]
  note keeps = resolve_required_secrets_keeps [OF assms(5)]
  have key: "encodable key" using f compose_key_encodable by blast
  obtain fs where fs: "enter_fence env (tor_uuid orc') res key (tss_files st3) = (map_sum id Some v, fs)"
    using enter_fence_lost [OF key assms(3,4,2)] assms(6) keeps by metis
  have "dispatch_tool d orc' step (with_resolution res key ctx) st2 =
    (case map_sum id Some v of
       Inl e \<Rightarrow> (Inl e, st3\<lparr>tss_files := fs\<rparr>)
     | Inr (Some response) \<Rightarrow> (Inr (respond plan key response), emit d TEV_SANDBOX_EXIT (st3\<lparr>tss_files := fs\<rparr>))
     | Inr None \<Rightarrow> fire_and_capture d orc' True plan key (st3\<lparr>tss_files := fs\<rparr>))"
    using f fs by (intro dispatch_tool_fenced [OF _ assms(5)]) simp_all
  with that keeps show ?thesis by (cases v) auto
qed

section \<open>Properties of a dispatch\<close>

text \<open>Property C27. The outside world is touched only by a call of the driver for a tool that is routed and
  registered, that the trust policy permits, in a sandbox at or above the tool's minimum tier, after
  every secret the tool requires has been resolved for it.\<close>

theorem dispatch_tool_guarded:
  assumes "dispatch_tool d orc step ctx st = (r, st')" "tss_world st' \<noteq> tss_world st"
  shows "\<exists>plan key. plan_tool_call d step = Inr plan \<and> te_permitted (tpl_trust plan) \<and>
    evaluate_trust (tdp_tier_resolver d) (mho_server_name (tpl_host plan)) MP_TOOL (Some (tpl_contract plan))
      (tdp_trust_policy d) = Inr (tpl_trust plan) \<and>
    mho_tool_registry (tpl_host plan) (tpl_tool_id plan) = Some (tpl_contract plan) \<and>
    tier_rank (tct_minimum_tier (tpl_contract plan)) \<le> tier_rank (sdd_tier (tpl_decision plan)) \<and>
    (\<forall>sec \<in> set (tct_required_secrets (tpl_contract plan)). \<exists>resolve a.
       tdp_secret_source d = SS_AUDITED resolve \<and>
       resolve (sae_name sec) (sae_scope sec) (sdd_tier (tpl_decision plan)) (Some (tpl_contract plan)) = Inr a \<and>
       \<not> py_blank (sar_secret_last_rotated_at a)) \<and>
    tss_world st' = snd (tpl_driver plan (tpl_decision plan) (tpl_tool_id plan) (tpl_args plan) key (tss_world st))"
proof -
  obtain plan where plan: "plan_tool_call d step = Inr plan"
    using assms by (cases "plan_tool_call d step") (auto simp: dispatch_tool_def)
  obtain sr st1 where s: "resolve_required_secrets d orc plan step ctx st = (sr, st1)" by fastforce
  note keeps = resolve_required_secrets_keeps [OF s]
  have sr: "sr = Inr ()" using assms plan s keeps by (cases sr) (auto simp: dispatch_tool_def)
  obtain key where key: "compose_idempotency_key (stc_parent_idempotency_key ctx) (tst_step_id step) (tpl_tool_id plan) = Some key"
    using assms plan s sr keeps
    by (cases "compose_idempotency_key (stc_parent_idempotency_key ctx) (tst_step_id step) (tpl_tool_id plan)")
      (auto simp: dispatch_tool_def)
  have "(\<exists>gate. fire_and_capture d orc gate plan key st1 = (r, st')) \<or>
      (\<exists>gate fs. fire_and_capture d orc gate plan key (st1\<lparr>tss_files := fs\<rparr>) = (r, st'))"
    using assms plan s sr key keeps
    by (auto simp: dispatch_tool_def Let_def split: option.splits if_splits prod.splits sum.splits)
  then obtain gate st2 where "fire_and_capture d orc gate plan key st2 = (r, st')" and "tss_world st2 = tss_world st1"
    by (metis tool_state.select_convs(1) tool_state.surjective tool_state.update_convs(2))
  from fire_and_capture_world [OF this(1)] this(2) have world: "tss_world st' = snd (tpl_driver plan (tpl_decision plan) (tpl_tool_id plan) (tpl_args plan) key
      (tss_world st))"
    using assms(2) keeps by simp
  have "\<exists>resolve a. tdp_secret_source d = SS_AUDITED resolve \<and>
       resolve (sae_name sec) (sae_scope sec) (sdd_tier (tpl_decision plan)) (Some (tpl_contract plan)) = Inr a \<and>
       \<not> py_blank (sar_secret_last_rotated_at a)" if "sec \<in> set (tct_required_secrets (tpl_contract plan))" for sec
    using s [unfolded sr] that fetch_secrets_resolved
    by (auto simp: resolve_required_secrets_def Let_def split: if_splits secret_source.splits)
  with plan plan_tool_call_sound [OF plan] world show ?thesis by blast
qed

text \<open>Property C25. A fenced tool runs once for a step: after a dispatch that called it and returned, any
  later dispatch of the same step on the same fence in a context without a directive of the operator, whatever
  else has happened to the world, returns the same response with its keys in order and leaves the world alone.\<close>

theorem dispatch_tool_replays:
  assumes "first_dispatch d orc step ctx env plan key st" "dispatch_tool d orc step ctx st = (Inr resp, st1)"
    and "tss_files st2 = tss_files st1"
    and "fst (resolve_required_secrets d orc' plan step (with_resolution None key ctx) st2) = Inr ()"
  shows "\<exists>st3. dispatch_tool d orc' step (with_resolution None key ctx) st2 =
      (Inr (resp\<lparr>trs_response := fence_canon (trs_response resp)\<rparr>), st3) \<and> tss_world st3 = tss_world st2"
proof -
  obtain st' where s: "resolve_required_secrets d orc' plan step (with_resolution None key ctx) st2 = (Inr (), st')"
    using assms(4) by (cases "resolve_required_secrets d orc' plan step (with_resolution None key ctx) st2") auto
  note first = first_dispatch_result [OF assms(1,2)]
  then have resp: "resp = respond plan key (trs_response resp)" by simp
  have v: "lose_reservation env None key (tss_files st2) = Inr (fence_canon (trs_response resp))"
    using first assms(3) by (simp add: lose_reservation_def)
  have c: "claimed (tss_files st2) key" "\<forall>u. fresh_uuid u (tss_files st2)" using first assms(3) by simp_all
  obtain st3 where d: "dispatch_tool d orc' step (with_resolution None key ctx) st2 =
      (map_sum id (respond plan key) (Inr (fence_canon (trs_response resp))), st3)" "tss_world st3 = tss_world st2"
    by (rule second_dispatch [OF assms(1) c _ s v]) simp
  have "respond plan key (fence_canon (trs_response resp)) = resp\<lparr>trs_response := fence_canon (trs_response resp)\<rparr>"
    by (subst (2) resp) (simp add: respond_def)
  with d show ?thesis by auto
qed

text \<open>Property C26. A fenced tool whose call failed may have had its effect, so no later dispatch calls it
  unless the operator asks to fire again: without an answer of the operator the dispatch stops with the ambiguity
  error, with ABORT it stops with the abort error, with SKIP_AS_FIRED it answers an empty response, and the world
  is left alone in all three.\<close>

theorem dispatch_tool_ambiguous:
  assumes "first_dispatch d orc step ctx env plan key st" "dispatch_tool d orc step ctx st = (Inl e, st1)"
    and "tss_files st2 = tss_files st1" "res \<noteq> Some RE_FIRE"
    and "fst (resolve_required_secrets d orc' plan step (with_resolution res key ctx) st2) = Inr ()"
  shows "\<exists>st3. dispatch_tool d orc' step (with_resolution res key ctx) st2 =
      (if res = Some SKIP_AS_FIRED then Inr (respond plan key [])
       else if res = Some ABORT then Inl (EffectFenceAbortedError key)
       else Inl (EffectFenceAmbiguousUncommittedError key), st3) \<and> tss_world st3 = tss_world st2"
proof -
  obtain st' where s: "resolve_required_secrets d orc' plan step (with_resolution res key ctx) st2 = (Inr (), st')"
    using assms(5) by (cases "resolve_required_secrets d orc' plan step (with_resolution res key ctx) st2") auto
  note first = first_dispatch_result [OF assms(1,2)]
  then have c: "claimed (tss_files st2) key" "\<forall>u. fresh_uuid u (tss_files st2)"
    "read_output env key (tss_files st2) = Inr None" using assms(3) by simp_all
  have v: "map_sum id (respond plan key) (lose_reservation env res key (tss_files st2)) =
      (if res = Some SKIP_AS_FIRED then Inr (respond plan key [])
       else if res = Some ABORT then Inl (EffectFenceAbortedError key)
       else Inl (EffectFenceAmbiguousUncommittedError key))"
    using c(3) by (simp add: lose_reservation_def)
  show ?thesis
    using second_dispatch [OF assms(1) c(1,2) assms(4) s refl] unfolding v by metis
qed

definition sample_tool :: contract where
  "sample_tool =
     \<lparr>tct_name = lit ''mail'', tct_description = [], tct_input_schema = [], tct_output_schema = [],
      tct_minimum_tier = TIER_2_CONTAINER, tct_blast_radius_tier = EXTERNAL_IRREVERSIBLE,
      tct_required_secrets = [], tct_forces_computer_use = False, tct_forces_code_execution = False,
      tct_is_deterministic_inhouse = False, tct_idempotent = False\<rparr>"

text \<open>A host that counts its calls and fails on the first argument \<open>fail\<close>.\<close>

definition sample_host :: "nat mcp_host" where
  "sample_host =
     \<lparr>mho_server_name = lit ''docs'', mho_tool_registry = [lit ''mail'' \<mapsto> sample_tool],
      mho_call_tool = (\<lambda>_ args _ n.
        (if args = [] then Inr [(lit ''sent'', JBool True)] else Inl TF_TIMEOUT, Suc n))\<rparr>"

definition sample_decision :: sandbox_decision where
  "sample_decision =
     \<lparr>sdd_tier = TIER_2_CONTAINER, sdd_tech = lit ''docker'', sdd_provider = lit ''host'',
      sdd_assigned_tier_reason = [], sdd_cost_tier_overhead_ms = 0\<rparr>"

definition sample_dispatcher :: "nat tool_dispatcher" where
  "sample_dispatcher =
     \<lparr>tdp_hosts = [lit ''docs'' \<mapsto> sample_host], tdp_routing_index = [lit ''mail'' \<mapsto> lit ''docs''],
      tdp_tier_resolver = default_tier_resolver, tdp_trust_policy = sample_trust_policy,
      tdp_sandbox_resolvers = [lit ''docs'' \<mapsto> \<lambda>_ _. Some sample_decision], tdp_drivers = Map.empty,
      tdp_secret_source = SS_NONE, tdp_audit_emitter = False, tdp_secret_backend = [], tdp_tracing = False,
      tdp_cost_attribution = False, tdp_effect_fence = Some sample_fence_env, tdp_fencing_explicit = True,
      tdp_floats = sample_floats, tdp_schema_ok = (\<lambda>_ _. True)\<rparr>"

definition sample_step :: "json_object \<Rightarrow> tool_step" where
  "sample_step args =
     \<lparr>tst_step_id = lit ''s1'', tst_payload = [(lit ''tool_id'', JStr (lit ''mail'')), (lit ''tool_args'', JObj args)]\<rparr>"

definition sample_context :: "unit step_context" where
  "sample_context =
     \<lparr>stc_parent_idempotency_key = lit ''run'', stc_workflow_id = lit ''w'', stc_parent_actor = (),
      stc_run_engine_class = None, stc_effect_fence_resolution = None\<rparr>"

definition sample_oracle :: tool_oracle where
  "sample_oracle = \<lparr>tor_now = (\<lambda>_. []), tor_uuid = (\<lambda>_. lit ''u'')\<rparr>"

definition sample_tool_state :: "(unit, nat) tool_state" where
  "sample_tool_state = \<lparr>tss_world = 0, tss_files = Map.empty, tss_events = []\<rparr>"

definition sample_plan :: "json_object \<Rightarrow> nat tool_plan" where
  "sample_plan args =
     \<lparr>tpl_tool_id = lit ''mail'', tpl_args = args, tpl_host = sample_host,
      tpl_driver = default_tool_driver sample_host, tpl_contract = sample_tool,
      tpl_trust = \<lparr>te_permitted = True, te_trust_tier_evaluated = LEVEL_1_SIGNED_PINNED,
        te_decision_reason = EXPLICIT_ALLOW, te_audit_required = True\<rparr>,
      tpl_decision = sample_decision\<rparr>"

definition sample_key :: pystr where
  "sample_key = the (compose_idempotency_key (lit ''run'') (lit ''s1'') (lit ''mail''))"

lemma sample_plan_ok: "plan_tool_call sample_dispatcher (sample_step args) = Inr (sample_plan args)"
  by (simp add: plan_tool_call_def tool_request_def sample_step_def py_get_def sample_dispatcher_def sample_host_def
      evaluate_trust_def sample_trust_policy_def require_audit_for_tier_def sample_decision_def sample_tool_def
      sample_plan_def)

lemma sample_key_ok: "compose_idempotency_key (lit ''run'') (lit ''s1'') (lit ''mail'') = Some sample_key"
proof -
  have "utf8_encode (lit ''run'') \<noteq> None" "utf8_encode (lit ''s1'') \<noteq> None" "utf8_encode (lit ''mail'') \<noteq> None"
    by (simp_all add: utf8_encode_def utf8_char_def)
  then show ?thesis by (auto simp: sample_key_def compose_idempotency_key_def)
qed

lemma sample_secrets:
  "resolve_required_secrets sample_dispatcher orc (sample_plan args) step ctx st = (Inr (), st)"
  by (simp add: resolve_required_secrets_def sample_plan_def sample_tool_def)

lemma sample_first_dispatch:
  "first_dispatch sample_dispatcher sample_oracle (sample_step args) sample_context sample_fence_env
     (sample_plan args) sample_key sample_tool_state"
  unfolding first_dispatch_def sample_plan_ok sample_secrets
proof (intro conjI)
  show "compose_idempotency_key (stc_parent_idempotency_key sample_context) (tst_step_id (sample_step args))
      (tpl_tool_id (sample_plan args)) = Some sample_key"
    using sample_key_ok by (simp add: sample_context_def sample_step_def sample_plan_def)
  show "publishable_driver sample_fence_env (tpl_driver (sample_plan args))"
    by (auto simp: publishable_driver_def sample_plan_def default_tool_driver_def sample_host_def fence_payload_def
        sample_fence_env_def sample_floats_def ascii_floats_def valid_cp_def)
  show "\<not> claimed (tss_files sample_tool_state) sample_key" "\<not> published (tss_files sample_tool_state) sample_key"
    by (simp_all add: sample_tool_state_def claimed_def published_def present_def split: option.split)
qed (simp_all add: sample_dispatcher_def fence_gate_open_def sample_context_def bound_resolution_def
    sample_tool_state_def fresh_uuid_empty sample_plan_def sample_tool_def)

lemma sample_call_tool:
  "call_tool sample_dispatcher (sample_plan args) sample_key st =
     (if args = [] then Inr [(lit ''sent'', JBool True)] else Inl (ToolDriverError TF_TIMEOUT),
      st\<lparr>tss_world := Suc (tss_world st)\<rparr>)"
proof -
  have "compute_primitive_signature_hash sample_floats (lit ''mail'') [] [] \<noteq> None"
    by (simp add: compute_primitive_signature_hash_def utf8_encode_def utf8_char_def fence_dumps_def)
  then obtain sig where "compute_primitive_signature_hash sample_floats (lit ''mail'') [] [] = Some sig" by blast
  then show ?thesis
    by (simp add: call_tool_def sample_dispatcher_def sample_plan_def sample_tool_def default_tool_driver_def
        sample_host_def emit_def validate_response_schema_def attribute_tool_cost_def emit_sandbox_violation_def)
qed

lemma sample_dispatch:
  obtains st1 where "dispatch_tool sample_dispatcher sample_oracle (sample_step args) sample_context sample_tool_state =
      (if args = [] then Inr (respond (sample_plan args) sample_key [(lit ''sent'', JBool True)])
       else Inl (ToolDriverError TF_TIMEOUT), st1)" "tss_world st1 = 1"
proof -
  obtain st0 where st0: "dispatch_tool sample_dispatcher sample_oracle (sample_step args) sample_context sample_tool_state =
      fire_and_capture sample_dispatcher sample_oracle True (sample_plan args) sample_key st0"
    "tss_world st0 = tss_world sample_tool_state" "\<forall>u. fresh_uuid u (tss_files st0)" "encodable sample_key"
    by (rule first_dispatch_fires [OF sample_first_dispatch])
  have fence: "tdp_effect_fence sample_dispatcher = Some sample_fence_env" by (simp add: sample_dispatcher_def)
  have "fence_payload sample_fence_env [(lit ''sent'', JBool True)]"
    by (simp add: fence_payload_def sample_fence_env_def sample_floats_def ascii_floats_def valid_cp_def)
  then obtain fs where cap: "capture_output sample_fence_env (tor_uuid sample_oracle 2) sample_key
      [(lit ''sent'', JBool True)] (tss_files st0) = (Inr (), fs)"
    using fence.capture_law [OF st0(4) st0(3) [THEN spec, of "tor_uuid sample_oracle 2"]]
    by (cases "capture_output sample_fence_env (tor_uuid sample_oracle 2) sample_key
      [(lit ''sent'', JBool True)] (tss_files st0)") blast
  have w: "tss_world st0 = 0" using st0(2) by (simp add: sample_tool_state_def)
  show ?thesis
  proof (cases "args = []")
    case True
    have "fire_and_capture sample_dispatcher sample_oracle True (sample_plan args) sample_key st0 =
        (Inr (respond (sample_plan args) sample_key [(lit ''sent'', JBool True)]), st0\<lparr>tss_world := 1, tss_files := fs\<rparr>)"
      unfolding fire_and_capture_def sample_call_tool fence using True w cap by (simp del: lit_Cons)
    with True st0(1) show ?thesis by (intro that [of "st0\<lparr>tss_world := 1, tss_files := fs\<rparr>"]) simp_all
  next
    case False
    have "fire_and_capture sample_dispatcher sample_oracle True (sample_plan args) sample_key st0 =
        (Inl (ToolDriverError TF_TIMEOUT), st0\<lparr>tss_world := 1\<rparr>)"
      unfolding fire_and_capture_def sample_call_tool using False w by simp
    with False st0(1) show ?thesis by (intro that [of "st0\<lparr>tss_world := 1\<rparr>"]) simp_all
  qed
qed

theorem dispatch_tool_guarded_witness:
  "\<exists>plan. plan_tool_call sample_dispatcher (sample_step []) = Inr plan \<and> te_permitted (tpl_trust plan)"
proof -
  obtain st1 where d: "dispatch_tool sample_dispatcher sample_oracle (sample_step []) sample_context sample_tool_state =
      (Inr (respond (sample_plan []) sample_key [(lit ''sent'', JBool True)]), st1)" "tss_world st1 = 1"
    using sample_dispatch [of "[]"] by auto
  have "tss_world st1 \<noteq> tss_world sample_tool_state" using d(2) by (simp add: sample_tool_state_def)
  from dispatch_tool_guarded [OF d(1) this] show ?thesis by blast
qed

theorem dispatch_tool_replays_witness:
  "\<exists>st1 st3. tss_world st1 = 7 \<and>
     dispatch_tool sample_dispatcher sample_oracle (sample_step []) (with_resolution None sample_key sample_context) st1 =
       (Inr (respond (sample_plan []) sample_key [(lit ''sent'', JBool True)]), st3) \<and> tss_world st3 = 7"
proof -
  obtain st1 where d: "dispatch_tool sample_dispatcher sample_oracle (sample_step []) sample_context sample_tool_state =
      (Inr (respond (sample_plan []) sample_key [(lit ''sent'', JBool True)]), st1)"
    using sample_dispatch [of "[]"] by auto
  have "fence_canon [(lit ''sent'', JBool True)] = [(lit ''sent'', JBool True)]" by (simp add: fence_canon_def)
  then have r: "(respond (sample_plan []) sample_key [(lit ''sent'', JBool True)])\<lparr>trs_response :=
      fence_canon (trs_response (respond (sample_plan []) sample_key [(lit ''sent'', JBool True)]))\<rparr> =
      respond (sample_plan []) sample_key [(lit ''sent'', JBool True)]"
    by (simp add: respond_def)
  have s: "tss_files (st1\<lparr>tss_world := 7\<rparr>) = tss_files st1" "tss_world (st1\<lparr>tss_world := 7\<rparr>) = 7" by simp_all
  from dispatch_tool_replays [OF sample_first_dispatch d s(1), of sample_oracle]
  show ?thesis unfolding r sample_secrets fst_conv using s(2) by metis
qed

theorem dispatch_tool_ambiguous_witness:
  "\<exists>st1 st3. tss_world st1 = 7 \<and>
     dispatch_tool sample_dispatcher sample_oracle (sample_step [([], JNull)])
         (with_resolution None sample_key sample_context) st1 =
       (Inl (EffectFenceAmbiguousUncommittedError sample_key), st3) \<and> tss_world st3 = 7"
proof -
  obtain st1 where d: "dispatch_tool sample_dispatcher sample_oracle (sample_step [([], JNull)]) sample_context
      sample_tool_state = (Inl (ToolDriverError TF_TIMEOUT), st1)"
    using sample_dispatch [of "[([], JNull)]"] by auto
  have s: "tss_files (st1\<lparr>tss_world := 7\<rparr>) = tss_files st1" "tss_world (st1\<lparr>tss_world := 7\<rparr>) = 7" by simp_all
  from dispatch_tool_ambiguous [OF sample_first_dispatch d s(1), of None sample_oracle]
  have "\<exists>st3. dispatch_tool sample_dispatcher sample_oracle (sample_step [([], JNull)])
         (with_resolution None sample_key sample_context) (st1\<lparr>tss_world := 7\<rparr>) =
       (Inl (EffectFenceAmbiguousUncommittedError sample_key), st3) \<and> tss_world st3 = 7"
    unfolding sample_secrets s(2) by simp
  with s(2) show ?thesis by blast
qed

section \<open>Idempotency keys\<close>

lemma utf8_char_no_colon: "utf8_char c = Some bs \<Longrightarrow> c \<noteq> 58 \<Longrightarrow> 58 \<notin> set bs"
  by (auto simp: utf8_char_def split: if_splits)

lemma utf8_codes_no_colon: "utf8_codes s = Some bs \<Longrightarrow> 58 \<notin> set s \<Longrightarrow> 58 \<notin> set bs"
  by (induction s arbitrary: bs) (auto dest: utf8_char_no_colon split: option.splits)

lemma utf8_encode_no_colon:
  assumes "utf8_encode s = Some bs" "58 \<notin> set s"
  shows "58 \<notin> set bs"
proof
  assume "58 \<in> set bs"
  then have "unat (58 :: 8 word) \<in> unat ` set bs" by (rule imageI)
  moreover have "58 \<notin> set (map unat bs)"
    using utf8_codes_no_colon [OF utf8_encode_codes [OF assms(1)] assms(2)] .
  ultimately show False by simp
qed

text \<open>The bytes that are hashed.\<close>

definition key_preimage :: "pystr \<Rightarrow> pystr \<Rightarrow> pystr \<Rightarrow> bytes option" where
  "key_preimage parent step_id tool_id = utf8_encode (parent @ [58] @ step_id @ [58] @ tool_id)"

lemma compose_key_preimage:
  "compose_idempotency_key p s t = map_option sha256_hexdigest (key_preimage p s t)"
proof -
  have "utf8_encode (58 # r) = map_option (\<lambda>bs. 58 # bs) (utf8_encode r)" for r
    by (cases "utf8_codes r") (simp_all add: utf8_encode_def utf8_char_def)
  then show ?thesis
    by (simp add: compose_idempotency_key_def key_preimage_def utf8_encode_append split: option.split)
qed

lemma split_at_colon: "a @ 58 # b = a' @ 58 # b' \<Longrightarrow> 58 \<notin> set a \<Longrightarrow> 58 \<notin> set a' \<Longrightarrow> a = a' \<and> b = (b' :: nat list)"
  by (induction a arbitrary: a') (case_tac a'; auto)+

text \<open>The idempotency key of a tool step is the digest of a text in which parent key, step and
  tool are joined by colons. When the parent keys and the step ids have no colon, different triples hash
  different bytes; with colons they may not: moving a part across the join gives the same key.\<close>

theorem idempotency_key_preimage:
  shows "compose_idempotency_key p s t = map_option sha256_hexdigest (key_preimage p s t) \<and>
    (58 \<notin> set p \<union> set s \<union> set p' \<union> set s' \<and> key_preimage p s t = Some bs \<and> key_preimage p' s' t' = Some bs
       \<longrightarrow> p = p' \<and> s = s' \<and> t = t') \<and>
    compose_idempotency_key (p @ [58] @ s) s' t = compose_idempotency_key p (s @ [58] @ s') t"
proof (intro conjI impI)
  show "compose_idempotency_key p s t = map_option sha256_hexdigest (key_preimage p s t)"
    by (rule compose_key_preimage)
  show "compose_idempotency_key (p @ [58] @ s) s' t = compose_idempotency_key p (s @ [58] @ s') t"
    by (simp add: compose_key_preimage key_preimage_def)
  assume a: "58 \<notin> set p \<union> set s \<union> set p' \<union> set s' \<and> key_preimage p s t = Some bs \<and> key_preimage p' s' t' = Some bs"
  then have "p @ 58 # s @ 58 # t = p' @ 58 # s' @ 58 # t'"
    using utf8_encode_inj by (simp add: key_preimage_def)
  with a show "p = p'" "s = s'" "t = t'" using split_at_colon by (metis UnI1 UnI2)+
qed

theorem idempotency_key_preimage_witness:
  "compose_idempotency_key (lit ''run:a'') (lit ''b'') (lit ''mail'') =
     compose_idempotency_key (lit ''run'') (lit ''a:b'') (lit ''mail'') \<and>
   key_preimage (lit ''run'') (lit ''a'') (lit ''mail'') \<noteq> key_preimage (lit ''run'') (lit ''b'') (lit ''mail'')"
proof -
  have enc: "key_preimage (lit ''run'') (lit ''a'') (lit ''mail'') \<noteq> None"
    by (simp add: key_preimage_def utf8_encode_def utf8_char_def)
  have "58 \<notin> set (lit ''run'') \<union> set (lit ''a'') \<union> set (lit ''run'') \<union> set (lit ''b'')" by simp
  with idempotency_key_preimage [of "lit ''run''" "lit ''a''" "lit ''mail''" "lit ''run''" "lit ''b''" _ "lit ''mail''"] enc
  have "key_preimage (lit ''run'') (lit ''a'') (lit ''mail'') \<noteq> key_preimage (lit ''run'') (lit ''b'') (lit ''mail'')"
    by auto
  moreover have "compose_idempotency_key (lit ''run'' @ [58] @ lit ''a'') (lit ''b'') (lit ''mail'') =
     compose_idempotency_key (lit ''run'') (lit ''a'' @ [58] @ lit ''b'') (lit ''mail'')"
    using idempotency_key_preimage [of "lit ''run''" "lit ''a''" "lit ''mail''"] by blast
  ultimately show ?thesis by simp
qed

end
