(* ===== verification/Fence_Machine.thy ===== *)
theory Fence_Machine
  imports Tool_Dispatch
begin

text \<open>
  Many dispatches at one fence. Each process runs the fenced part of one tool dispatch as a program
  counter over the shared files: consume the re-fire latch, remove the claim, remove the output, reserve,
  call the tool, publish the output. The steps of different processes interleave in any order and a
  process may crash between any two of them; a crashed or failed dispatch that is tried again is a new
  process. The file operations are those of \<open>effect_fence.py\<close>; the two removals of \<open>clear_claim\<close> are two
  steps. The log records what the processes did. \<open>enter_fence_runs\<close> shows that the sequential gate of
  the dispatcher is a run of the machine.
\<close>

record fence_job =
  fjb_key :: pystr
  fjb_resolution :: "fence_resolution option"

datatype fence_pc =
    PC_START | PC_CLEAR_CLAIM | PC_CLEAR_OUTPUT | PC_RESERVE | PC_LOST | PC_FIRE
  | PC_CAPTURE json_object | PC_DONE "tool_error + json_object" | PC_CRASHED

datatype fence_event = EV_REFIRE nat | EV_CLEAR nat | EV_RESERVE nat | EV_FIRE nat

record fence_machine =
  fmc_files :: files
  fmc_pc :: "nat \<Rightarrow> fence_pc"
  fmc_log :: "fence_event list"

definition at_pc :: "nat \<Rightarrow> fence_pc \<Rightarrow> files \<Rightarrow> fence_event list \<Rightarrow> fence_machine \<Rightarrow> fence_machine" where
  "at_pc i pc fs evs s =
     s\<lparr>fmc_files := fs, fmc_pc := (fmc_pc s)(i := pc), fmc_log := fmc_log s @ evs\<rparr>"

lemma at_pc_simps [simp]:
  "fmc_files (at_pc i pc fs evs s) = fs" "fmc_pc (at_pc i pc fs evs s) = (fmc_pc s)(i := pc)"
  "fmc_log (at_pc i pc fs evs s) = fmc_log s @ evs"
  by (simp_all add: at_pc_def)

inductive fence_step ::
  "fence_env \<Rightarrow> (nat \<Rightarrow> fence_job) \<Rightarrow> (nat \<Rightarrow> tool_error + json_object) \<Rightarrow> fence_machine \<Rightarrow> fence_machine \<Rightarrow> bool"
  for env :: fence_env and jobs :: "nat \<Rightarrow> fence_job" and outcome :: "nat \<Rightarrow> tool_error + json_object" where
  start: "fmc_pc s i = PC_START \<Longrightarrow> fjb_resolution (jobs i) \<noteq> Some RE_FIRE \<Longrightarrow>
     fence_step env jobs outcome s (at_pc i PC_RESERVE (fmc_files s) [] s)"
| start_refire: "fmc_pc s i = PC_START \<Longrightarrow> fjb_resolution (jobs i) = Some RE_FIRE \<Longrightarrow>
     try_consume_refire env u (fjb_key (jobs i)) (fmc_files s) = (Inr won, fs) \<Longrightarrow>
     fence_step env jobs outcome s
       (at_pc i (if won then PC_CLEAR_CLAIM else PC_RESERVE) fs (if won then [EV_REFIRE i] else []) s)"
| clear_the_claim: "fmc_pc s i = PC_CLEAR_CLAIM \<Longrightarrow> claim_file (fjb_key (jobs i)) = Some p \<Longrightarrow>
     fence_step env jobs outcome s (at_pc i PC_CLEAR_OUTPUT (unlink_missing_ok p (fmc_files s)) [EV_CLEAR i] s)"
| clear_the_output: "fmc_pc s i = PC_CLEAR_OUTPUT \<Longrightarrow> output_file (fjb_key (jobs i)) = Some p \<Longrightarrow>
     fence_step env jobs outcome s (at_pc i PC_RESERVE (unlink_missing_ok p (fmc_files s)) [] s)"
| reserve: "fmc_pc s i = PC_RESERVE \<Longrightarrow>
     try_reserve env u (fjb_key (jobs i)) (fmc_files s) = (Inr won, fs) \<Longrightarrow>
     fence_step env jobs outcome s
       (at_pc i (if won then PC_FIRE else PC_LOST) fs (if won then [EV_RESERVE i] else []) s)"
| lose: "fmc_pc s i = PC_LOST \<Longrightarrow>
     fence_step env jobs outcome s
       (at_pc i (PC_DONE (lose_reservation env (fjb_resolution (jobs i)) (fjb_key (jobs i)) (fmc_files s)))
          (fmc_files s) [] s)"
| fire: "fmc_pc s i = PC_FIRE \<Longrightarrow>
     fence_step env jobs outcome s
       (at_pc i (case outcome i of Inl e \<Rightarrow> PC_DONE (Inl e) | Inr r \<Rightarrow> PC_CAPTURE r) (fmc_files s) [EV_FIRE i] s)"
| capture: "fmc_pc s i = PC_CAPTURE r \<Longrightarrow>
     capture_output env u (fjb_key (jobs i)) r (fmc_files s) = (t, fs) \<Longrightarrow>
     fence_step env jobs outcome s
       (at_pc i (PC_DONE (case t of Inl e \<Rightarrow> Inl (ToolOSError e) | Inr _ \<Rightarrow> Inr r)) fs [] s)"
| crash: "fence_step env jobs outcome s (at_pc i PC_CRASHED (fmc_files s) [] s)"

inductive_cases fence_stepE: "fence_step env jobs outcome s s'"

definition fence_init :: fence_machine where
  "fence_init = \<lparr>fmc_files = Map.empty, fmc_pc = (\<lambda>_. PC_START), fmc_log = []\<rparr>"

inductive fence_reachable ::
  "fence_env \<Rightarrow> (nat \<Rightarrow> fence_job) \<Rightarrow> (nat \<Rightarrow> tool_error + json_object) \<Rightarrow> fence_machine \<Rightarrow> bool"
  for env :: fence_env and jobs :: "nat \<Rightarrow> fence_job" and outcome :: "nat \<Rightarrow> tool_error + json_object" where
  reach_init: "fence_reachable env jobs outcome fence_init"
| reach_step: "fence_reachable env jobs outcome s \<Longrightarrow> fence_step env jobs outcome s s' \<Longrightarrow>
     fence_reachable env jobs outcome s'"

text \<open>How often the tool has been called for the effect of a key.\<close>

fun fires_for :: "(nat \<Rightarrow> fence_job) \<Rightarrow> pystr \<Rightarrow> fence_event \<Rightarrow> bool" where
  "fires_for jobs k (EV_FIRE i) = same_effect (fjb_key (jobs i)) k"
| "fires_for jobs k _ = False"

definition fire_count :: "(nat \<Rightarrow> fence_job) \<Rightarrow> pystr \<Rightarrow> fence_machine \<Rightarrow> nat" where
  "fire_count jobs k s = length (filter (fires_for jobs k) (fmc_log s))"

section \<open>The invariant\<close>

text \<open>How far a program counter has come, and the events that lie behind it. A crash keeps the events.\<close>

fun before_clear :: "fence_pc \<Rightarrow> bool" where
  "before_clear pc = (pc = PC_START \<or> pc = PC_CLEAR_CLAIM)"

fun before_reserve :: "fence_pc \<Rightarrow> bool" where
  "before_reserve pc = (before_clear pc \<or> pc = PC_CLEAR_OUTPUT \<or> pc = PC_RESERVE)"

definition process_inv :: "(nat \<Rightarrow> fence_job) \<Rightarrow> fence_machine \<Rightarrow> bool" where
  "process_inv jobs s \<longleftrightarrow>
     (\<forall>i.
       (EV_REFIRE i \<in> set (fmc_log s) \<longrightarrow>
          fmc_pc s i \<noteq> PC_START \<and> fjb_resolution (jobs i) = Some RE_FIRE \<and> refired (fmc_files s) (fjb_key (jobs i))) \<and>
       (EV_CLEAR i \<in> set (fmc_log s) \<longrightarrow> \<not> before_clear (fmc_pc s i) \<and> EV_REFIRE i \<in> set (fmc_log s)) \<and>
       (EV_RESERVE i \<in> set (fmc_log s) \<longrightarrow> \<not> before_reserve (fmc_pc s i)) \<and>
       (EV_FIRE i \<in> set (fmc_log s) \<longrightarrow>
          \<not> before_reserve (fmc_pc s i) \<and> fmc_pc s i \<noteq> PC_FIRE \<and> EV_RESERVE i \<in> set (fmc_log s)) \<and>
       (fmc_pc s i = PC_CLEAR_CLAIM \<longrightarrow> EV_REFIRE i \<in> set (fmc_log s)) \<and>
       (fmc_pc s i = PC_FIRE \<longrightarrow> EV_RESERVE i \<in> set (fmc_log s)) \<and>
       (\<forall>r. fmc_pc s i = PC_CAPTURE r \<longrightarrow> EV_FIRE i \<in> set (fmc_log s)))"

definition winners :: "(nat \<Rightarrow> fence_job) \<Rightarrow> pystr \<Rightarrow> fence_machine \<Rightarrow> nat set" where
  "winners jobs k s = {i. EV_RESERVE i \<in> set (fmc_log s) \<and> same_effect (fjb_key (jobs i)) k}"

definition clearers :: "(nat \<Rightarrow> fence_job) \<Rightarrow> pystr \<Rightarrow> fence_machine \<Rightarrow> nat set" where
  "clearers jobs k s = {i. EV_CLEAR i \<in> set (fmc_log s) \<and> same_effect (fjb_key (jobs i)) k}"

definition one_refire :: "(nat \<Rightarrow> fence_job) \<Rightarrow> fence_machine \<Rightarrow> bool" where
  "one_refire jobs s \<longleftrightarrow>
     (\<forall>i j. EV_REFIRE i \<in> set (fmc_log s) \<and> EV_REFIRE j \<in> set (fmc_log s) \<and>
        same_effect (fjb_key (jobs i)) (fjb_key (jobs j)) \<longrightarrow> i = j)"

definition claim_balance :: "(nat \<Rightarrow> fence_job) \<Rightarrow> fence_machine \<Rightarrow> bool" where
  "claim_balance jobs s \<longleftrightarrow>
     (\<forall>k. card (winners jobs k s) \<le> card (clearers jobs k s) + (if claimed (fmc_files s) k then 1 else 0))"

definition fence_inv :: "(nat \<Rightarrow> fence_job) \<Rightarrow> fence_machine \<Rightarrow> bool" where
  "fence_inv jobs s \<longleftrightarrow>
     (\<forall>u. fresh_uuid u (fmc_files s)) \<and> distinct (fmc_log s) \<and> process_inv jobs s \<and> one_refire jobs s \<and>
     claim_balance jobs s"

lemma finite_events: "finite {i. EV_RESERVE i \<in> set l \<and> P i}" "finite {i. EV_CLEAR i \<in> set l \<and> Q i}"
proof -
  have "{i. EV_RESERVE i \<in> set l \<and> P i} \<subseteq> (\<lambda>e. case e of EV_RESERVE i \<Rightarrow> i | _ \<Rightarrow> 0) ` set l"
    "{i. EV_CLEAR i \<in> set l \<and> Q i} \<subseteq> (\<lambda>e. case e of EV_CLEAR i \<Rightarrow> i | _ \<Rightarrow> 0) ` set l"
    by force+
  then show "finite {i. EV_RESERVE i \<in> set l \<and> P i}" "finite {i. EV_CLEAR i \<in> set l \<and> Q i}"
    by (meson finite_imageI finite_set finite_subset)+
qed

text \<open>How the events of one step change the two sets.\<close>

lemma winners_at_pc:
  "winners jobs k (at_pc i pc fs evs s) =
     winners jobs k s \<union> {j. EV_RESERVE j \<in> set evs \<and> same_effect (fjb_key (jobs j)) k}"
  by (auto simp: winners_def)

lemma clearers_at_pc:
  "clearers jobs k (at_pc i pc fs evs s) =
     clearers jobs k s \<union> {j. EV_CLEAR j \<in> set evs \<and> same_effect (fjb_key (jobs j)) k}"
  by (auto simp: clearers_def)

lemma finite_winners: "finite (winners jobs k s)" "finite (clearers jobs k s)"
  unfolding winners_def clearers_def by (rule finite_events)+

lemma fence_init_inv: "fence_inv jobs fence_init"
  by (simp add: fence_inv_def fence_init_def fresh_uuid_empty process_inv_def one_refire_def claim_balance_def
      winners_def clearers_def)

section \<open>Every step keeps the invariant\<close>

lemma unlink_claim_view:
  assumes "claim_file k = Some p"
  shows "claimed (unlink_missing_ok p fs) k' = (claimed fs k' \<and> \<not> same_effect k k')"
    "refired (unlink_missing_ok p fs) k' = refired fs k'"
  using unlink_fence_file [OF assms [unfolded claim_file_def]] by (simp_all add: fence_files)

lemma unlink_output_view:
  assumes "output_file k = Some p"
  shows "claimed (unlink_missing_ok p fs) k' = claimed fs k'" "refired (unlink_missing_ok p fs) k' = refired fs k'"
  using unlink_fence_file [OF assms [unfolded output_file_def]] by (simp_all add: fence_files)

lemma capture_view:
  assumes "capture_output env u k p fs = (t, fs')" "\<forall>u. fresh_uuid u fs"
  shows "claimed fs' k' = claimed fs k'" "refired fs' k' = refired fs k'"
proof -
  have "claimed fs' k' = claimed fs k' \<and> refired fs' k' = refired fs k'"
  proof (cases "output_file k")
    case None
    with assms show ?thesis by (simp add: capture_output_def)
  next
    case (Some path)
    show ?thesis
    proof (cases "utf8_encode (fence_dumps (fen_floats env) p)")
      case None
      with assms Some show ?thesis by (simp add: capture_output_def)
    next
      case (Some bs)
      obtain r where pub: "publish_by_link path u bs fs = (r, fs')"
        using assms(1) Some \<open>output_file k = Some path\<close>
        by (cases "publish_by_link path u bs fs") (auto simp: capture_output_def split: sum.splits)
      have path: "fence_file OUTPUT_SUFFIX k = Some path" using \<open>output_file k = Some path\<close> by (simp add: output_file_def)
      note * = publish_fence_file(2) [OF path assms(2) [THEN spec, of u] _ pub]
      show ?thesis using *[of CLAIM_SUFFIX k'] *[of REFIRE_SUFFIX k'] by (simp add: fence_files)
    qed
  qed
  then show "claimed fs' k' = claimed fs k'" "refired fs' k' = refired fs k'" by blast+
qed

definition encodable_jobs :: "(nat \<Rightarrow> fence_job) \<Rightarrow> bool" where
  "encodable_jobs jobs \<longleftrightarrow> (\<forall>i. encodable (fjb_key (jobs i)))"

lemma fence_step_fresh:
  assumes "fence_step env jobs outcome s s'" "\<forall>u. fresh_uuid u (fmc_files s)"
  shows "\<forall>u. fresh_uuid u (fmc_files s')"
  using assms by (cases rule: fence_step.cases) (auto intro: fence_fresh)

lemma fence_step_distinct:
  assumes "fence_step env jobs outcome s s'" "distinct (fmc_log s)" "process_inv jobs s"
  shows "distinct (fmc_log s')"
proof -
note inv = assms(3) [unfolded process_inv_def, THEN spec]
show ?thesis
  using assms(1)
proof cases
  case (start_refire i u won fs)
  then show ?thesis using assms(2) inv [of i] by auto
next
  case (clear_the_claim i p)
  then show ?thesis using assms(2) inv [of i] by auto
next
  case (reserve i u won fs)
  then show ?thesis using assms(2) inv [of i] by auto
next
  case (fire i)
  then show ?thesis using assms(2) inv [of i] by auto
qed (use assms(2) in auto)
qed

text \<open>A refire file, once there, stays; so does what a process has behind it.\<close>

lemma fence_step_refired:
  assumes "fence_step env jobs outcome s s'" "\<forall>u. fresh_uuid u (fmc_files s)" "encodable_jobs jobs"
  shows "refired (fmc_files s) k \<Longrightarrow> refired (fmc_files s') k"
  using assms(1)
proof cases
  case (start_refire i u won fs)
  show "refired (fmc_files s) k \<Longrightarrow> ?thesis"
    using fence.refire_law [OF _ _ start_refire(4), of k] assms(2,3) start_refire(1) by (auto simp: encodable_jobs_def)
next
  case (reserve i u won fs)
  show "refired (fmc_files s) k \<Longrightarrow> ?thesis"
    using fence.reserve_law [OF _ _ reserve(3), of k] assms(2,3) reserve(1) by (auto simp: encodable_jobs_def)
next
  case (clear_the_claim i p)
  then show "refired (fmc_files s) k \<Longrightarrow> ?thesis" by (simp add: unlink_claim_view)
next
  case (clear_the_output i p)
  then show "refired (fmc_files s) k \<Longrightarrow> ?thesis" by (simp add: unlink_output_view)
next
  case (capture i r u t fs)
  then show "refired (fmc_files s) k \<Longrightarrow> ?thesis" using capture_view [OF capture(3) assms(2)] by simp
qed simp_all

lemma fence_step_process:
  assumes "fence_step env jobs outcome s s'" "\<forall>u. fresh_uuid u (fmc_files s)" "encodable_jobs jobs" "process_inv jobs s"
  shows "process_inv jobs s'"
proof -
  note stays = fence_step_refired [OF assms(1-3)]
  note inv = assms(4) [unfolded process_inv_def]
  show ?thesis using assms(1)
  proof cases
    case (start_refire i u won fs)
    have "won \<Longrightarrow> refired fs (fjb_key (jobs i))"
      using fence.refire_law [OF _ _ start_refire(4), of "fjb_key (jobs i)"] assms(2,3) by (auto simp: encodable_jobs_def)
    with start_refire inv stays show ?thesis unfolding process_inv_def by auto
  next
    case (fire i)
    with inv stays show ?thesis unfolding process_inv_def by (auto split: sum.splits)
  next
    case (crash i)
    with inv stays show ?thesis unfolding process_inv_def by auto
  next
    case (start i)
    with inv stays show ?thesis unfolding process_inv_def by auto
  next
    case (clear_the_claim i p)
    with inv stays show ?thesis unfolding process_inv_def by auto
  next
    case (clear_the_output i p)
    with inv stays show ?thesis unfolding process_inv_def by auto
  next
    case (reserve i u won fs)
    with inv stays show ?thesis unfolding process_inv_def by auto
  next
    case (lose i)
    with inv stays show ?thesis unfolding process_inv_def by auto
  next
    case (capture i r u t fs)
    with inv stays show ?thesis unfolding process_inv_def by auto
  qed
qed

lemma fence_step_one_refire:
  assumes "fence_step env jobs outcome s s'" "\<forall>u. fresh_uuid u (fmc_files s)" "encodable_jobs jobs"
    and "process_inv jobs s" "one_refire jobs s"
  shows "one_refire jobs s'"
  using assms(1)
proof cases
  case (start_refire i u won fs)
  show ?thesis
  proof (cases won)
    case True
    then have "\<not> refired (fmc_files s) (fjb_key (jobs i))"
      using fence.refire_law [OF _ _ start_refire(4), of "fjb_key (jobs i)"] assms(2,3) by (auto simp: encodable_jobs_def)
    then have "\<not> (EV_REFIRE j \<in> set (fmc_log s) \<and> same_effect (fjb_key (jobs j)) (fjb_key (jobs i)))" for j
      using assms(4) file_of_same by (auto simp: process_inv_def refired_file)
    then have "EV_REFIRE j \<in> set (fmc_log s) \<Longrightarrow> \<not> same_effect (fjb_key (jobs j)) (fjb_key (jobs i)) \<and>
        \<not> same_effect (fjb_key (jobs i)) (fjb_key (jobs j))" for j
      using same_effect_sym by blast
    with True start_refire(1) assms(5) show ?thesis by (auto simp: one_refire_def)
  qed (use start_refire(1) assms(5) in \<open>simp add: one_refire_def\<close>)
qed (use assms(5) in \<open>auto simp: one_refire_def\<close>)

lemma fence_step_balance:
  assumes "fence_step env jobs outcome s s'" "\<forall>u. fresh_uuid u (fmc_files s)" "encodable_jobs jobs"
    and "process_inv jobs s" "claim_balance jobs s"
  shows "claim_balance jobs s'"
  unfolding claim_balance_def
proof
  fix k
  have bal: "card (winners jobs k s) \<le> card (clearers jobs k s) + (if claimed (fmc_files s) k then 1 else 0)"
    using assms(5) by (simp add: claim_balance_def)
  show "card (winners jobs k s') \<le> card (clearers jobs k s') + (if claimed (fmc_files s') k then 1 else 0)"
    using assms(1)
  proof cases
    case (start_refire i u won fs)
    then show ?thesis
      using fence.refire_law [OF _ _ start_refire(4), of k] assms(2,3) bal
      by (auto simp: encodable_jobs_def winners_at_pc clearers_at_pc)
  next
    case (clear_the_claim i p)
    have "EV_CLEAR i \<notin> set (fmc_log s)"
      using assms(4) clear_the_claim(2) unfolding process_inv_def by auto
    then have new: "i \<notin> clearers jobs k s" by (simp add: clearers_def)
    have "clearers jobs k s' = (if same_effect (fjb_key (jobs i)) k then insert i (clearers jobs k s) else clearers jobs k s)"
      "winners jobs k s' = winners jobs k s"
      using clear_the_claim(1) by (auto simp: clearers_at_pc winners_at_pc)
    moreover have "claimed (fmc_files s') k = (claimed (fmc_files s) k \<and> \<not> same_effect (fjb_key (jobs i)) k)"
      using clear_the_claim(1,3) by (simp add: unlink_claim_view)
    ultimately show ?thesis using bal new finite_winners [of jobs k s] by (simp split: if_splits)
  next
    case (reserve i u won fs)
    note law = fence.reserve_law [OF _ _ reserve(3), of k]
    note own = fence.reserve_law [OF _ _ reserve(3), of "fjb_key (jobs i)"]
    have "EV_RESERVE i \<notin> set (fmc_log s)"
      using assms(4) reserve(2) unfolding process_inv_def by auto
    then have new: "i \<notin> winners jobs k s" by (simp add: winners_def)
    have w: "winners jobs k s' = (if won \<and> same_effect (fjb_key (jobs i)) k then insert i (winners jobs k s) else winners jobs k s)"
      "clearers jobs k s' = clearers jobs k s"
      using reserve(1) by (auto simp: clearers_at_pc winners_at_pc)
    have "won \<Longrightarrow> same_effect (fjb_key (jobs i)) k \<Longrightarrow> \<not> claimed (fmc_files s) k"
      using own assms(2,3) file_of_same [of "fjb_key (jobs i)" k] by (auto simp: encodable_jobs_def claimed_file)
    moreover have "won \<Longrightarrow> claimed (fmc_files s') k = (claimed (fmc_files s) k \<or> same_effect (fjb_key (jobs i)) k)"
      "\<not> won \<Longrightarrow> claimed (fmc_files s') k = (claimed (fmc_files s) k \<or> same_effect (fjb_key (jobs i)) k)"
      using law assms(2,3) reserve(1) by (auto simp: encodable_jobs_def)
    ultimately show ?thesis using bal new finite_winners [of jobs k s] w by (auto split: if_splits)
  next
    case (clear_the_output i p)
    then show ?thesis using bal by (simp add: winners_at_pc clearers_at_pc unlink_output_view)
  next
    case (capture i r u t fs)
    then show ?thesis using bal capture_view [OF capture(3) assms(2)] by (simp add: winners_at_pc clearers_at_pc)
  qed (use bal in \<open>simp_all add: winners_at_pc clearers_at_pc\<close>)
qed

lemma fence_step_inv:
  "fence_step env jobs outcome s s' \<Longrightarrow> encodable_jobs jobs \<Longrightarrow> fence_inv jobs s \<Longrightarrow> fence_inv jobs s'"
proof -
  assume st: "fence_step env jobs outcome s s'" and enc: "encodable_jobs jobs" and inv: "fence_inv jobs s"
  then have fr: "\<forall>u. fresh_uuid u (fmc_files s)" and di: "distinct (fmc_log s)" and pr: "process_inv jobs s"
    and one: "one_refire jobs s" and bal: "claim_balance jobs s" by (simp_all add: fence_inv_def)
  show ?thesis
    unfolding fence_inv_def
    using fence_step_fresh [OF st fr] fence_step_distinct [OF st di pr] fence_step_process [OF st fr enc pr]
      fence_step_one_refire [OF st fr enc pr one] fence_step_balance [OF st fr enc pr bal]
    by blast
qed

lemma fence_reachable_inv:
  "fence_reachable env jobs outcome s \<Longrightarrow> encodable_jobs jobs \<Longrightarrow> fence_inv jobs s"
  by (induction rule: fence_reachable.induct) (auto intro: fence_init_inv fence_step_inv)

section \<open>Calls are counted by processes\<close>

lemma fire_count_card:
  assumes "distinct (fmc_log s)"
  shows "fire_count jobs k s = card {i. EV_FIRE i \<in> set (fmc_log s) \<and> same_effect (fjb_key (jobs i)) k}"
proof -
  let ?F = "{i. EV_FIRE i \<in> set (fmc_log s) \<and> same_effect (fjb_key (jobs i)) k}"
  have "fire_count jobs k s = card (set (filter (fires_for jobs k) (fmc_log s)))"
    using assms by (simp add: fire_count_def distinct_card del: set_filter)
  also have "set (filter (fires_for jobs k) (fmc_log s)) = EV_FIRE ` ?F"
  proof (intro set_eqI iffI)
    fix e
    assume "e \<in> set (filter (fires_for jobs k) (fmc_log s))"
    then have "e \<in> set (fmc_log s)" "fires_for jobs k e" by simp_all
    then show "e \<in> EV_FIRE ` ?F" by (cases e rule: fence_event.exhaust) auto
  qed auto
  also have "card (EV_FIRE ` ?F) = card ?F" by (rule card_image) (simp add: inj_on_def)
  finally show ?thesis .
qed

lemma fire_count_bound:
  assumes "fence_inv jobs s"
  shows "fire_count jobs k s \<le> card (clearers jobs k s) + (if claimed (fmc_files s) k then 1 else 0)"
proof -
  have inv: "distinct (fmc_log s)" "process_inv jobs s" "claim_balance jobs s" using assms by (simp_all add: fence_inv_def)
  have "{i. EV_FIRE i \<in> set (fmc_log s) \<and> same_effect (fjb_key (jobs i)) k} \<subseteq> winners jobs k s"
    using inv(2) by (auto simp: process_inv_def winners_def)
  then have "fire_count jobs k s \<le> card (winners jobs k s)"
    using fire_count_card [OF inv(1)] card_mono [OF finite_winners(1)] by metis
  also have "\<dots> \<le> card (clearers jobs k s) + (if claimed (fmc_files s) k then 1 else 0)"
    using inv(3) by (simp add: claim_balance_def)
  finally show ?thesis .
qed

lemma clearers_at_most_one:
  assumes "fence_inv jobs s"
  shows "card (clearers jobs k s) \<le> 1"
    "(\<forall>i. same_effect (fjb_key (jobs i)) k \<longrightarrow> fjb_resolution (jobs i) \<noteq> Some RE_FIRE) \<Longrightarrow> clearers jobs k s = {}"
proof -
  have inv: "process_inv jobs s" "one_refire jobs s" using assms by (simp_all add: fence_inv_def)
  have re: "EV_REFIRE i \<in> set (fmc_log s)" "same_effect (fjb_key (jobs i)) k" if "i \<in> clearers jobs k s" for i
    using that inv(1) by (auto simp: clearers_def process_inv_def)
  have "i = j" if "i \<in> clearers jobs k s" "j \<in> clearers jobs k s" for i j
  proof -
    have "same_effect (fjb_key (jobs i)) (fjb_key (jobs j))"
      using re(2) [OF that(1)] re(2) [OF that(2)] same_effect_sym same_effect_trans by blast
    then show ?thesis using re(1) [OF that(1)] re(1) [OF that(2)] inv(2) by (auto simp: one_refire_def)
  qed
  then show "card (clearers jobs k s) \<le> 1" using finite_winners(2) by (simp add: card_le_Suc0_iff_eq)
  show "(\<forall>i. same_effect (fjb_key (jobs i)) k \<longrightarrow> fjb_resolution (jobs i) \<noteq> Some RE_FIRE) \<Longrightarrow> clearers jobs k s = {}"
    using re inv(1) by (fastforce simp: process_inv_def)
qed

section \<open>Where a response comes from\<close>

text \<open>Every readable output was captured by a process that called the tool.\<close>

definition genuine :: "(nat \<Rightarrow> fence_job) \<Rightarrow> (nat \<Rightarrow> tool_error + json_object) \<Rightarrow> pystr \<Rightarrow> fence_machine \<Rightarrow> json_object \<Rightarrow> bool" where
  "genuine jobs outcome k s out \<longleftrightarrow>
     (\<exists>j r. EV_FIRE j \<in> set (fmc_log s) \<and> same_effect (fjb_key (jobs j)) k \<and> outcome j = Inr r \<and>
        (out = r \<or> out = fence_canon r))"

definition output_inv ::
  "fence_env \<Rightarrow> (nat \<Rightarrow> fence_job) \<Rightarrow> (nat \<Rightarrow> tool_error + json_object) \<Rightarrow> fence_machine \<Rightarrow> bool" where
  "output_inv env jobs outcome s \<longleftrightarrow>
     (\<forall>k out. read_output env k (fmc_files s) = Inr (Some out) \<longrightarrow> genuine jobs outcome k s out) \<and>
     (\<forall>i r. fmc_pc s i = PC_CAPTURE r \<longrightarrow> outcome i = Inr r) \<and>
     (\<forall>i r. fmc_pc s i = PC_DONE (Inr r) \<longrightarrow>
        genuine jobs outcome (fjb_key (jobs i)) s r \<or> r = [] \<and> fjb_resolution (jobs i) = Some SKIP_AS_FIRED)"

definition publishable_outcomes :: "fence_env \<Rightarrow> (nat \<Rightarrow> tool_error + json_object) \<Rightarrow> bool" where
  "publishable_outcomes env outcome \<longleftrightarrow> (\<forall>i r. outcome i = Inr r \<longrightarrow> fence_payload env r)"

lemma genuine_log: "genuine jobs outcome k s out \<Longrightarrow> set (fmc_log s) \<subseteq> set (fmc_log s') \<Longrightarrow> genuine jobs outcome k s' out"
  unfolding genuine_def by blast

lemma read_output_unlink:
  assumes "fence_file sfx k = Some p" "read_output env k' (unlink_missing_ok p fs) = Inr (Some out)"
  shows "read_output env k' fs = Inr (Some out)"
  using assms(2) unlink_fence_file [OF assms(1), of OUTPUT_SUFFIX k']
  by (auto simp: read_output_file split: if_splits option.splits)

lemma fence_step_log: "fence_step env jobs outcome s s' \<Longrightarrow> set (fmc_log s) \<subseteq> set (fmc_log s')"
  by (cases rule: fence_step.cases) auto

lemma capture_read:
  assumes "capture_output env u k r fs = (t, fs')" "\<forall>u. fresh_uuid u fs" "encodable k" "fence_payload env r"
    and "read_output env k' fs' = Inr (Some out)"
  shows "read_output env k' fs = Inr (Some out) \<or> same_effect k k' \<and> out = fence_canon r"
  using fence.capture_law [OF assms(3) assms(2) [THEN spec, of u] assms(4,1), of k'] assms(5)
  by (auto split: if_splits)

lemma fence_step_output:
  assumes "fence_step env jobs outcome s s'" "\<forall>u. fresh_uuid u (fmc_files s)" "encodable_jobs jobs"
    and "publishable_outcomes env outcome" "process_inv jobs s" "output_inv env jobs outcome s"
  shows "output_inv env jobs outcome s'"
proof -
  have keep: "genuine jobs outcome k s out \<Longrightarrow> genuine jobs outcome k s' out" for k out
    using genuine_log fence_step_log [OF assms(1)] by blast
  have read: "genuine jobs outcome k s out" if "read_output env k (fmc_files s) = Inr (Some out)" for k out
    using assms(6) that by (simp add: output_inv_def)
  have pc: "fmc_pc s i = PC_CAPTURE r \<Longrightarrow> outcome i = Inr r"
    "fmc_pc s i = PC_DONE (Inr r) \<Longrightarrow>
        genuine jobs outcome (fjb_key (jobs i)) s r \<or> r = [] \<and> fjb_resolution (jobs i) = Some SKIP_AS_FIRED" for i r
    using assms(6) by (simp_all add: output_inv_def)
  have enc: "encodable (fjb_key (jobs i))" for i using assms(3) by (simp add: encodable_jobs_def)
  have frame: ?thesis
    if "fmc_files s' = fs" and "fmc_pc s' = (fmc_pc s)(i := c)"
      and "\<And>k out. read_output env k fs = Inr (Some out) \<Longrightarrow> genuine jobs outcome k s' out"
      and "\<And>r. c = PC_CAPTURE r \<Longrightarrow> outcome i = Inr r"
      and "\<And>r. c = PC_DONE (Inr r) \<Longrightarrow>
        genuine jobs outcome (fjb_key (jobs i)) s' r \<or> r = [] \<and> fjb_resolution (jobs i) = Some SKIP_AS_FIRED"
    for i c fs
    unfolding output_inv_def that(1,2)
  proof (intro conjI allI impI)
    show "read_output env k fs = Inr (Some out) \<Longrightarrow> genuine jobs outcome k s' out" for k out by (rule that(3))
    show "((fmc_pc s)(i := c)) j = PC_CAPTURE r \<Longrightarrow> outcome j = Inr r" for j r
      using that(4) pc(1) by (simp split: if_splits)
    show "genuine jobs outcome (fjb_key (jobs j)) s' r \<or> r = [] \<and> fjb_resolution (jobs j) = Some SKIP_AS_FIRED"
      if "((fmc_pc s)(i := c)) j = PC_DONE (Inr r)" for j r
      using that \<open>\<And>r. c = PC_DONE (Inr r) \<Longrightarrow>
        genuine jobs outcome (fjb_key (jobs i)) s' r \<or> r = [] \<and> fjb_resolution (jobs i) = Some SKIP_AS_FIRED\<close>
        pc(2) [of j r] keep [of "fjb_key (jobs j)" r]
      by (cases "j = i") auto
  qed
  show ?thesis using assms(1)
  proof cases
    case (start i)
    show ?thesis by (rule frame [of "fmc_files s" i PC_RESERVE]) (use start keep read in auto)
  next
    case (start_refire i u won fs)
    have same: "read_output env k fs = read_output env k (fmc_files s)" for k
      using fence.refire_law [OF enc assms(2) [THEN spec] start_refire(4), of k] by blast
    show ?thesis
      by (rule frame [of fs i "if won then PC_CLEAR_CLAIM else PC_RESERVE"])
        (use start_refire(1) same keep read in \<open>auto split: if_splits\<close>)
  next
    case (reserve i u won fs)
    have same: "read_output env k fs = read_output env k (fmc_files s)" for k
      using fence.reserve_law [OF enc assms(2) [THEN spec] reserve(3), of k] by blast
    show ?thesis
      by (rule frame [of fs i "if won then PC_FIRE else PC_LOST"])
        (use reserve(1) same keep read in \<open>auto split: if_splits\<close>)
  next
    case (crash i)
    show ?thesis by (rule frame [of "fmc_files s" i PC_CRASHED]) (use crash keep read in auto)
  next
    case (clear_the_claim i p)
    have "genuine jobs outcome k s' out" if "read_output env k (unlink_missing_ok p (fmc_files s)) = Inr (Some out)" for k out
      using keep read read_output_unlink [OF clear_the_claim(3) [unfolded claim_file_def] that] by blast
    with clear_the_claim(1) show ?thesis
      by (intro frame [of "unlink_missing_ok p (fmc_files s)" i PC_CLEAR_OUTPUT]) auto
  next
    case (clear_the_output i p)
    have "genuine jobs outcome k s' out" if "read_output env k (unlink_missing_ok p (fmc_files s)) = Inr (Some out)" for k out
      using keep read read_output_unlink [OF clear_the_output(3) [unfolded output_file_def] that] by blast
    with clear_the_output(1) show ?thesis
      by (intro frame [of "unlink_missing_ok p (fmc_files s)" i PC_RESERVE]) auto
  next
    case (lose i)
    have "genuine jobs outcome (fjb_key (jobs i)) s' r \<or> r = [] \<and> fjb_resolution (jobs i) = Some SKIP_AS_FIRED"
      if "lose_reservation env (fjb_resolution (jobs i)) (fjb_key (jobs i)) (fmc_files s) = Inr r" for r
      using that read keep by (auto simp: lose_reservation_def split: if_splits sum.splits option.splits)
    then show ?thesis
      by (intro frame [of "fmc_files s" i "PC_DONE (lose_reservation env (fjb_resolution (jobs i)) (fjb_key (jobs i)) (fmc_files s))"])
        (use lose(1) keep read in auto)
  next
    case (fire i)
    show ?thesis
      by (rule frame [of "fmc_files s" i "case outcome i of Inl e \<Rightarrow> PC_DONE (Inl e) | Inr r \<Rightarrow> PC_CAPTURE r"])
        (use fire(1) keep read in \<open>auto split: sum.splits\<close>)
  next
    case (capture i r u t fs)
    have "EV_FIRE i \<in> set (fmc_log s)" using assms(5) capture(2) by (auto simp: process_inv_def)
    then have fired: "EV_FIRE i \<in> set (fmc_log s')" using fence_step_log [OF assms(1)] by blast
    have own: "genuine jobs outcome (fjb_key (jobs i)) s' r"
      using fired pc(1) [OF capture(2)] by (auto simp: genuine_def)
    have "genuine jobs outcome k s' out" if "read_output env k fs = Inr (Some out)" for k out
    proof -
      have "fence_payload env r" using assms(4) pc(1) [OF capture(2)] by (auto simp: publishable_outcomes_def)
      from capture_read [OF capture(3) assms(2) enc this that] show ?thesis
        using read keep fired pc(1) [OF capture(2)] by (auto simp: genuine_def)
    qed
    with own show ?thesis
      by (intro frame [of fs i "PC_DONE (case t of Inl e \<Rightarrow> Inl (ToolOSError e) | Inr _ \<Rightarrow> Inr r)"])
        (use capture(1) in \<open>auto split: sum.splits\<close>)
  qed
qed

lemma fence_reachable_output:
  assumes "fence_reachable env jobs outcome s" "encodable_jobs jobs" "publishable_outcomes env outcome"
  shows "output_inv env jobs outcome s"
  using assms(1)
proof induction
  case reach_init
  show ?case
    by (auto simp: output_inv_def fence_init_def read_output_file file_of_def split: if_splits option.splits)
next
  case (reach_step s s')
  have "fence_inv jobs s" using fence_reachable_inv [OF reach_step(1) assms(2)] .
  with fence_step_output [OF reach_step(2) _ assms(2,3) _ reach_step(3)] show ?case
    by (simp add: fence_inv_def)
qed

section \<open>The dispatcher is one process of the machine\<close>

text \<open>From a state where process \<open>i\<close> is at \<open>pc\<close>, the process alone reaches \<open>pc'\<close> with the files \<open>fs'\<close>.\<close>

definition runs_to ::
  "fence_env \<Rightarrow> (nat \<Rightarrow> fence_job) \<Rightarrow> (nat \<Rightarrow> tool_error + json_object) \<Rightarrow> nat \<Rightarrow> fence_pc \<Rightarrow> files \<Rightarrow> fence_pc
   \<Rightarrow> files \<Rightarrow> bool" where
  "runs_to env jobs outcome i pc fs pc' fs' \<longleftrightarrow>
     (\<forall>s. fmc_pc s i = pc \<longrightarrow> fmc_files s = fs \<longrightarrow>
        (\<exists>evs. (fence_step env jobs outcome)\<^sup>*\<^sup>* s (at_pc i pc' fs' evs s)))"

lemma at_pc_again: "at_pc i pc' fs' evs' (at_pc i pc fs evs s) = at_pc i pc' fs' (evs @ evs') s"
  by (simp add: at_pc_def)

lemma runs_to_step:
  assumes "\<And>s. fmc_pc s i = pc \<Longrightarrow> fmc_files s = fs \<Longrightarrow> \<exists>evs. fence_step env jobs outcome s (at_pc i pc' fs' evs s)"
  shows "runs_to env jobs outcome i pc fs pc' fs'"
  unfolding runs_to_def
proof (intro allI impI)
  fix s :: fence_machine
  assume "fmc_pc s i = pc" "fmc_files s = fs"
  then obtain evs where "fence_step env jobs outcome s (at_pc i pc' fs' evs s)" using assms by blast
  then show "\<exists>evs. (fence_step env jobs outcome)\<^sup>*\<^sup>* s (at_pc i pc' fs' evs s)" by blast
qed

lemma runs_to_refl: "runs_to env jobs outcome i pc fs pc fs"
  unfolding runs_to_def
proof (intro allI impI)
  fix s :: fence_machine
  assume s: "fmc_pc s i = pc" "fmc_files s = fs"
  then have "at_pc i pc fs [] s = s" by (cases s) (auto simp: at_pc_def fun_upd_idem)
  then have "(fence_step env jobs outcome)\<^sup>*\<^sup>* s (at_pc i pc fs [] s)" by simp
  then show "\<exists>evs. (fence_step env jobs outcome)\<^sup>*\<^sup>* s (at_pc i pc fs evs s)" ..
qed

lemma runs_to_trans:
  assumes "runs_to env jobs outcome i pc fs pc' fs'" "runs_to env jobs outcome i pc' fs' pc'' fs''"
  shows "runs_to env jobs outcome i pc fs pc'' fs''"
  unfolding runs_to_def
proof (intro allI impI)
  fix s :: fence_machine
  assume s: "fmc_pc s i = pc" "fmc_files s = fs"
  obtain evs where 1: "(fence_step env jobs outcome)\<^sup>*\<^sup>* s (at_pc i pc' fs' evs s)"
    using assms(1) s unfolding runs_to_def by blast
  have "fmc_pc (at_pc i pc' fs' evs s) i = pc'" "fmc_files (at_pc i pc' fs' evs s) = fs'" by simp_all
  then obtain evs' where "(fence_step env jobs outcome)\<^sup>*\<^sup>* (at_pc i pc' fs' evs s) (at_pc i pc'' fs'' evs' (at_pc i pc' fs' evs s))"
    using assms(2) unfolding runs_to_def by blast
  with 1 show "\<exists>evs. (fence_step env jobs outcome)\<^sup>*\<^sup>* s (at_pc i pc'' fs'' evs s)"
    unfolding at_pc_again by (meson rtranclp_trans)
qed

definition pc_of_verdict :: "tool_error + json_object option \<Rightarrow> fence_pc" where
  "pc_of_verdict v =
     (case v of Inl e \<Rightarrow> PC_DONE (Inl e) | Inr None \<Rightarrow> PC_FIRE | Inr (Some r) \<Rightarrow> PC_DONE (Inr r))"

lemma reserve_runs:
  assumes "try_reserve env u (fjb_key (jobs i)) fs = (Inr won, fs')"
  shows "runs_to env jobs outcome i PC_RESERVE fs
    (pc_of_verdict (if won then Inr None
       else map_sum id Some (lose_reservation env (fjb_resolution (jobs i)) (fjb_key (jobs i)) fs'))) fs'"
proof -
  have 1: "runs_to env jobs outcome i PC_RESERVE fs (if won then PC_FIRE else PC_LOST) fs'"
    by (rule runs_to_step) (use fence_step.reserve assms in blast)
  have 2: "runs_to env jobs outcome i PC_LOST fs'
      (PC_DONE (lose_reservation env (fjb_resolution (jobs i)) (fjb_key (jobs i)) fs')) fs'"
    by (rule runs_to_step) (use fence_step.lose in blast)
  show ?thesis
  proof (cases won)
    case True
    with 1 show ?thesis by (simp add: pc_of_verdict_def)
  next
    case False
    then have "runs_to env jobs outcome i PC_RESERVE fs
        (PC_DONE (lose_reservation env (fjb_resolution (jobs i)) (fjb_key (jobs i)) fs')) fs'"
      using runs_to_trans [OF 1] 2 by simp
    with False show ?thesis
      by (cases "lose_reservation env (fjb_resolution (jobs i)) (fjb_key (jobs i)) fs'") (simp_all add: pc_of_verdict_def)
  qed
qed

lemma clear_runs:
  assumes "clear_claim (fjb_key (jobs i)) fs = (Inr (), fs')"
  shows "runs_to env jobs outcome i PC_CLEAR_CLAIM fs PC_RESERVE fs'"
proof -
  obtain p q where p: "claim_file (fjb_key (jobs i)) = Some p" and q: "output_file (fjb_key (jobs i)) = Some q"
    and fs': "fs' = unlink_missing_ok q (unlink_missing_ok p fs)"
    using assms by (auto simp: clear_claim_def Let_def split: option.splits)
  have "runs_to env jobs outcome i PC_CLEAR_CLAIM fs PC_CLEAR_OUTPUT (unlink_missing_ok p fs)"
    by (rule runs_to_step) (metis fence_step.clear_the_claim p)
  moreover have "runs_to env jobs outcome i PC_CLEAR_OUTPUT (unlink_missing_ok p fs) PC_RESERVE fs'"
    unfolding fs' by (rule runs_to_step) (metis fence_step.clear_the_output q)
  ultimately show ?thesis by (rule runs_to_trans)
qed

lemma enter_fence_runs:
  assumes "enter_fence env uuid (fjb_resolution (jobs i)) (fjb_key (jobs i)) fs = (v, fs')"
    and "encodable (fjb_key (jobs i))" "\<forall>u. fresh_uuid u fs"
  shows "runs_to env jobs outcome i PC_START fs (pc_of_verdict v) fs'"
proof -
  let ?k = "fjb_key (jobs i)" and ?res = "fjb_resolution (jobs i)"
  show ?thesis
  proof (cases "?res = Some RE_FIRE")
    case False
    obtain r fs1 where t: "try_reserve env (uuid 1) ?k fs = (r, fs1)" by fastforce
    obtain won where won: "r = Inr won" using fence.reserve_law [OF assms(2) assms(3) [THEN spec, of "uuid 1"] t] by blast
    have "runs_to env jobs outcome i PC_START fs PC_RESERVE fs"
      by (rule runs_to_step) (use fence_step.start False in blast)
    moreover have v: "v = (if won then Inr None else map_sum id Some (lose_reservation env ?res ?k fs1))" "fs' = fs1"
      using assms(1) False t won by (auto simp: enter_fence_def split: if_splits)
    ultimately show ?thesis unfolding v using runs_to_trans [OF _ reserve_runs [where jobs = jobs and i = i, OF t [unfolded won]]] by blast
  next
    case True
    obtain r1 fs1 where t1: "try_consume_refire env (uuid 0) ?k fs = (r1, fs1)" by fastforce
    obtain consumed where r1: "r1 = Inr consumed" using fence.refire_law [OF assms(2) assms(3) [THEN spec, of "uuid 0"] t1] by blast
    obtain r2 fs2 where t2: "(if consumed then clear_claim ?k fs1 else (Inr (), fs1)) = (r2, fs2)" by fastforce
    have r2: "r2 = Inr ()"
      using fence.clear_law [OF assms(2), of fs1 r2 fs2 ?k] t2 by (auto split: if_splits)
    have f1: "\<forall>u. fresh_uuid u fs1" using assms(3) fresh_refire [OF t1] by blast
    then have f2: "\<forall>u. fresh_uuid u fs2" using t2 fresh_clear by (auto split: if_splits)
    obtain r3 fs3 where t3: "try_reserve env (uuid 1) ?k fs2 = (r3, fs3)" by fastforce
    obtain won where r3: "r3 = Inr won" using fence.reserve_law [OF assms(2) f2 [THEN spec, of "uuid 1"] t3] by blast
    have "runs_to env jobs outcome i PC_START fs (if consumed then PC_CLEAR_CLAIM else PC_RESERVE) fs1"
      by (rule runs_to_step) (use fence_step.start_refire True t1 r1 in blast)
    moreover have "runs_to env jobs outcome i (if consumed then PC_CLEAR_CLAIM else PC_RESERVE) fs1 PC_RESERVE fs2"
    proof (cases consumed)
      case True
      with t2 r2 show ?thesis using clear_runs by simp
    next
      case False
      with t2 show ?thesis using runs_to_refl by simp
    qed
    ultimately have "runs_to env jobs outcome i PC_START fs PC_RESERVE fs2" by (rule runs_to_trans)
    moreover have v: "v = (if won then Inr None else map_sum id Some (lose_reservation env ?res ?k fs3))" "fs' = fs3"
      using assms(1) True t1 t2 t3 r1 r2 r3 by (auto simp: enter_fence_def split: if_splits)
    ultimately show ?thesis unfolding v using runs_to_trans [OF _ reserve_runs [where jobs = jobs and i = i, OF t3 [unfolded r3]]] by blast
  qed
qed

lemma call_tool_ignores_files: "fst (call_tool d plan key (st\<lparr>tss_files := fs\<rparr>)) = fst (call_tool d plan key st)"
  by (simp add: call_tool_def Let_def emit_def split: option.split prod.split sum.split)

lemma fire_and_capture_runs:
  assumes "fire_and_capture d orc True plan key st = (r, st')" "tdp_effect_fence d = Some env"
    and "fjb_key (jobs i) = key" "outcome i = fst (call_tool d plan key st)"
  shows "runs_to env jobs outcome i PC_FIRE (tss_files st) (PC_DONE (map_sum id trs_response r)) (tss_files st')"
proof -
  obtain t st1 where c: "call_tool d plan key st = (t, st1)" by fastforce
  note files = call_tool_files [OF c]
  have fire: "runs_to env jobs outcome i PC_FIRE (tss_files st)
      (case t of Inl e \<Rightarrow> PC_DONE (Inl e) | Inr r \<Rightarrow> PC_CAPTURE r) (tss_files st)"
    using runs_to_step [of i PC_FIRE "tss_files st" env jobs outcome] fence_step.fire [where i = i and env = env and jobs = jobs and outcome = outcome] assms(4) c
    by (metis fst_conv)
  show ?thesis
  proof (cases t)
    case (Inl e)
    with assms(1) c files fire show ?thesis by (auto simp: fire_and_capture_def)
  next
    case (Inr resp)
    obtain q fs where cap: "capture_output env (tor_uuid orc 2) key resp (tss_files st) = (q, fs)" by fastforce
    have "runs_to env jobs outcome i (PC_CAPTURE resp) (tss_files st)
        (PC_DONE (case q of Inl e \<Rightarrow> Inl (ToolOSError e) | Inr _ \<Rightarrow> Inr resp)) fs"
      by (rule runs_to_step) (metis fence_step.capture cap assms(3))
    moreover have "(case q of Inl e \<Rightarrow> Inl (ToolOSError e) | Inr _ \<Rightarrow> Inr resp) = map_sum id trs_response r"
      "tss_files st' = fs"
      using assms(1,2) c Inr cap files by (auto simp: fire_and_capture_def respond_def split: sum.splits)
    ultimately show ?thesis using runs_to_trans [OF fire] Inr by simp
  qed
qed

section \<open>Properties\<close>

text \<open>Property C24. The fenced dispatch of a tool is a run of one process of the fence machine: whatever the
  other processes have left in the files, it ends with the files and the answer the machine gives, so
  what the machine shows of all interleavings holds of the dispatcher.\<close>

theorem dispatch_tool_runs:
  assumes "plan_tool_call d step = Inr plan" "resolve_required_secrets d orc plan step ctx st = (Inr (), st1)"
    and "compose_idempotency_key (stc_parent_idempotency_key ctx) (tst_step_id step) (tpl_tool_id plan) = Some key"
    and "tdp_effect_fence d = Some env" "fence_gate_open d ctx (tpl_contract plan)"
    and "jobs i = \<lparr>fjb_key = key, fjb_resolution = bound_resolution ctx key\<rparr>"
    and "outcome i = fst (call_tool d plan key st1)"
    and "fmc_pc s i = PC_START" "fmc_files s = tss_files st" "\<forall>u. fresh_uuid u (tss_files st)"
    and "dispatch_tool d orc step ctx st = (r, st')"
  shows "\<exists>s'. (fence_step env jobs outcome)\<^sup>*\<^sup>* s s' \<and> fmc_files s' = tss_files st' \<and>
    fmc_pc s' i = PC_DONE (map_sum id trs_response r) \<and> (\<forall>j. j \<noteq> i \<longrightarrow> fmc_pc s' j = fmc_pc s j)"
proof -
  have key: "encodable (fjb_key (jobs i))" using compose_key_encodable [OF assms(3)] assms(6) by simp
  have files: "tss_files st1 = tss_files st" using resolve_required_secrets_keeps [OF assms(2)] by simp
  obtain v fs where v: "enter_fence env (tor_uuid orc) (bound_resolution ctx key) key (tss_files st1) = (v, fs)"
    by fastforce
  have gate: "runs_to env jobs outcome i PC_START (tss_files st) (pc_of_verdict v) fs"
    by (rule enter_fence_runs [where uuid = "tor_uuid orc" and jobs = jobs and i = i, OF _ key assms(10)]) (use v assms(6) files in simp)
  note disp = dispatch_tool_fenced [OF assms(1-5) v]
  have "runs_to env jobs outcome i PC_START (tss_files st) (PC_DONE (map_sum id trs_response r)) (tss_files st')"
  proof (cases "v = Inr None")
    case True
    have f: "fire_and_capture d orc True plan key (st1\<lparr>tss_files := fs\<rparr>) = (r, st')"
      using disp assms(11) True by simp
    have "runs_to env jobs outcome i PC_FIRE (tss_files (st1\<lparr>tss_files := fs\<rparr>)) (PC_DONE (map_sum id trs_response r))
        (tss_files st')"
      by (rule fire_and_capture_runs [OF f assms(4)]) (simp_all add: assms(6,7) call_tool_ignores_files)
    then show ?thesis using runs_to_trans [OF gate] True by (simp add: pc_of_verdict_def)
  next
    case False
    then have "pc_of_verdict v = PC_DONE (map_sum id trs_response r)" "tss_files st' = fs"
      using disp assms(11) by (auto simp: pc_of_verdict_def respond_def split: sum.splits option.splits)
    then show ?thesis using gate by simp
  qed
  then obtain evs where "(fence_step env jobs outcome)\<^sup>*\<^sup>* s
      (at_pc i (PC_DONE (map_sum id trs_response r)) (tss_files st') evs s)"
    unfolding runs_to_def using assms(8,9) by blast
  then show ?thesis by (intro exI conjI) auto
qed

definition sample_jobs :: "nat \<Rightarrow> fence_job" where
  "sample_jobs i = \<lparr>fjb_key = sample_key, fjb_resolution = None\<rparr>"

definition sample_outcome :: "nat \<Rightarrow> tool_error + json_object" where
  "sample_outcome i = Inr [(lit ''sent'', JBool True)]"

lemma sample_jobs_ok: "encodable_jobs sample_jobs" "publishable_outcomes sample_fence_env sample_outcome"
  using compose_key_encodable [OF sample_key_ok]
  by (simp_all add: encodable_jobs_def sample_jobs_def publishable_outcomes_def sample_outcome_def fence_payload_def
      sample_fence_env_def sample_floats_def ascii_floats_def valid_cp_def)

theorem dispatch_tool_runs_witness:
  "\<exists>s'. (fence_step sample_fence_env sample_jobs sample_outcome)\<^sup>*\<^sup>* fence_init s' \<and>
     fmc_pc s' 0 = PC_DONE (Inr [(lit ''sent'', JBool True)])"
proof -
  obtain st1 where d: "dispatch_tool sample_dispatcher sample_oracle (sample_step []) sample_context sample_tool_state =
      (Inr (respond (sample_plan []) sample_key [(lit ''sent'', JBool True)]), st1)"
    using sample_dispatch [of "[]"] by auto
  have "\<exists>s'. (fence_step sample_fence_env sample_jobs sample_outcome)\<^sup>*\<^sup>* fence_init s' \<and>
      fmc_files s' = tss_files st1 \<and>
      fmc_pc s' 0 = PC_DONE (map_sum id trs_response
        (Inr (respond (sample_plan []) sample_key [(lit ''sent'', JBool True)]) :: tool_error + tool_response)) \<and>
      (\<forall>j. j \<noteq> 0 \<longrightarrow> fmc_pc s' j = fmc_pc fence_init j)"
  proof (rule dispatch_tool_runs [OF sample_plan_ok sample_secrets])
    show "compose_idempotency_key (stc_parent_idempotency_key sample_context) (tst_step_id (sample_step []))
        (tpl_tool_id (sample_plan [])) = Some sample_key"
      using sample_key_ok by (simp add: sample_context_def sample_step_def sample_plan_def)
    show "sample_outcome 0 = fst (call_tool sample_dispatcher (sample_plan []) sample_key sample_tool_state)"
      by (simp add: sample_call_tool sample_outcome_def)
  qed (use d in \<open>simp_all add: sample_dispatcher_def fence_gate_open_def sample_context_def sample_plan_def sample_tool_def
      sample_jobs_def bound_resolution_def fence_init_def sample_tool_state_def fresh_uuid_empty\<close>)
  then show ?thesis by (auto simp: respond_def)
qed

text \<open>Property C22. However many processes dispatch the same fenced step, in whatever order their steps fall
  and wherever they crash, the tool is called at most once, and at most twice when an operator has asked
  for a re-fire, because the re-fire latch lets the claim be cleared only once.\<close>

theorem fence_at_most_once:
  assumes "fence_reachable env jobs outcome s" "encodable_jobs jobs"
  shows "fire_count jobs k s \<le> 2 \<and>
    ((\<forall>i. same_effect (fjb_key (jobs i)) k \<longrightarrow> fjb_resolution (jobs i) \<noteq> Some RE_FIRE) \<longrightarrow> fire_count jobs k s \<le> 1)"
proof -
  note inv = fence_reachable_inv [OF assms]
  have b: "fire_count jobs k s \<le> card (clearers jobs k s) + 1"
    using fire_count_bound [OF inv, of k] by (simp split: if_splits)
  show ?thesis using b clearers_at_most_one [OF inv, of k] by auto
qed

lemma sample_run:
  obtains s where "fence_reachable sample_fence_env sample_jobs sample_outcome s" "fire_count sample_jobs sample_key s = 1"
    "fmc_pc s 0 = PC_CAPTURE [(lit ''sent'', JBool True)]"
proof -
  let ?step = "fence_step sample_fence_env sample_jobs sample_outcome"
  let ?reach = "fence_reachable sample_fence_env sample_jobs sample_outcome"
  define s1 where "s1 = at_pc 0 PC_RESERVE Map.empty [] fence_init"
  obtain r fs where t: "try_reserve sample_fence_env (lit ''u'') sample_key Map.empty = (r, fs)" by fastforce
  have "\<not> claimed Map.empty sample_key" by (simp add: claimed_def present_def split: option.split)
  then have r: "r = Inr True"
    using fence.reserve_law [OF compose_key_encodable [OF sample_key_ok] fresh_uuid_empty t, of sample_key] by simp
  define s2 where "s2 = at_pc 0 PC_FIRE fs [EV_RESERVE 0] s1"
  define s3 where "s3 = at_pc 0 (PC_CAPTURE [(lit ''sent'', JBool True)]) fs [EV_FIRE 0] s2"
  have "?step fence_init s1"
    using fence_step.start [of fence_init 0 sample_jobs] by (simp add: s1_def fence_init_def sample_jobs_def)
  moreover have "?step s1 s2"
    using fence_step.reserve [of s1 0 sample_fence_env "lit ''u''" sample_jobs True fs] t r
    by (simp add: s1_def s2_def sample_jobs_def)
  moreover have "?step s2 s3"
    using fence_step.fire [of s2 0 sample_fence_env sample_jobs sample_outcome]
    by (simp add: s2_def s3_def sample_outcome_def)
  ultimately have "?reach s3" by (meson fence_reachable.intros)
  moreover have "fire_count sample_jobs sample_key s3 = 1"
    by (simp add: fire_count_def s3_def s2_def s1_def fence_init_def sample_jobs_def)
  ultimately show ?thesis using that by (simp add: s3_def)
qed

theorem fence_at_most_once_witness:
  "\<exists>s. fence_reachable sample_fence_env sample_jobs sample_outcome s \<and> fire_count sample_jobs sample_key s = 1 \<and>
     fire_count sample_jobs sample_key s \<le> 1"
proof -
  obtain s where s: "fence_reachable sample_fence_env sample_jobs sample_outcome s"
    "fire_count sample_jobs sample_key s = 1" by (rule sample_run)
  from fence_at_most_once [OF s(1) sample_jobs_ok(1), of sample_key] s show ?thesis by (auto simp: sample_jobs_def)
qed

text \<open>Property C23. No process answers with an invented response: what a fenced dispatch returns is what the
  tool returned to some process that called it for the same effect, possibly with its keys in order, unless
  the operator asked to skip the effect and the answer is empty.\<close>

theorem fence_responses_genuine:
  assumes "fence_reachable env jobs outcome s" "encodable_jobs jobs" "publishable_outcomes env outcome"
    and "fmc_pc s i = PC_DONE (Inr r)"
  shows "(\<exists>j r'. EV_FIRE j \<in> set (fmc_log s) \<and> same_effect (fjb_key (jobs j)) (fjb_key (jobs i)) \<and>
        outcome j = Inr r' \<and> (r = r' \<or> r = fence_canon r')) \<or>
      (r = [] \<and> fjb_resolution (jobs i) = Some SKIP_AS_FIRED)"
  using fence_reachable_output [OF assms(1-3)] assms(4) unfolding output_inv_def genuine_def by blast

theorem fence_responses_genuine_witness:
  "\<exists>s j. fence_reachable sample_fence_env sample_jobs sample_outcome s \<and>
     fmc_pc s 0 = PC_DONE (Inr [(lit ''sent'', JBool True)]) \<and> EV_FIRE j \<in> set (fmc_log s)"
proof -
  obtain s where s: "fence_reachable sample_fence_env sample_jobs sample_outcome s"
    "fmc_pc s 0 = PC_CAPTURE [(lit ''sent'', JBool True)]" by (rule sample_run)
  have fresh: "\<forall>u. fresh_uuid u (fmc_files s)"
    using fence_reachable_inv [OF s(1) sample_jobs_ok(1)] by (simp add: fence_inv_def)
  obtain t fs where cap: "capture_output sample_fence_env (lit ''u'') sample_key [(lit ''sent'', JBool True)] (fmc_files s) = (t, fs)"
    by fastforce
  have "fence_payload sample_fence_env [(lit ''sent'', JBool True)]"
    using sample_jobs_ok(2) by (simp add: publishable_outcomes_def sample_outcome_def)
  then have t: "t = Inr ()"
    using fence.capture_law [OF compose_key_encodable [OF sample_key_ok] fresh [THEN spec] _ cap] by blast
  define s' where "s' = at_pc 0 (PC_DONE (Inr [(lit ''sent'', JBool True)])) fs [] s"
  have "fence_step sample_fence_env sample_jobs sample_outcome s s'"
    using fence_step.capture [OF s(2), of sample_fence_env "lit ''u''" sample_jobs t fs] cap t
    by (simp add: s'_def sample_jobs_def)
  then have reach: "fence_reachable sample_fence_env sample_jobs sample_outcome s'"
    using s(1) fence_reachable.reach_step by blast
  have fin: "fmc_pc s' 0 = PC_DONE (Inr [(lit ''sent'', JBool True)])" by (simp add: s'_def)
  from fence_responses_genuine [OF reach sample_jobs_ok fin] reach fin show ?thesis by auto
qed

end
