(* ===== verification/Py_Time.thy ===== *)
theory Py_Time
  imports Py_Strings
begin

text \<open>
  \<open>datetime.datetime\<close> as the harness uses it: a date, a time of day down to microseconds and an optional
  UTC offset in minutes; \<open>isoformat ()\<close>, \<open>fromisoformat\<close> on the texts that \<open>isoformat\<close> writes, and the
  comparison, which raises \<open>TypeError\<close> between a naive and an aware time. Offsets with seconds and the other
  spellings \<open>fromisoformat\<close> accepts are not modelled.
\<close>

record py_datetime =
  dtm_year :: nat
  dtm_month :: nat
  dtm_day :: nat
  dtm_hour :: nat
  dtm_minute :: nat
  dtm_second :: nat
  dtm_microsecond :: nat
  dtm_offset :: "int option"

definition leap_year :: "nat \<Rightarrow> bool" where
  "leap_year y \<longleftrightarrow> y mod 4 = 0 \<and> (y mod 100 \<noteq> 0 \<or> y mod 400 = 0)"

definition days_in_month :: "nat \<Rightarrow> nat \<Rightarrow> nat" where
  "days_in_month y m = (if m = 2 then (if leap_year y then 29 else 28) else if m \<in> {4, 6, 9, 11} then 30 else 31)"

definition valid_datetime :: "py_datetime \<Rightarrow> bool" where
  "valid_datetime t \<longleftrightarrow>
     1 \<le> dtm_year t \<and> dtm_year t \<le> 9999 \<and> 1 \<le> dtm_month t \<and> dtm_month t \<le> 12 \<and>
     1 \<le> dtm_day t \<and> dtm_day t \<le> days_in_month (dtm_year t) (dtm_month t) \<and>
     dtm_hour t < 24 \<and> dtm_minute t < 60 \<and> dtm_second t < 60 \<and> dtm_microsecond t < 1000000 \<and>
     (case dtm_offset t of None \<Rightarrow> True | Some z \<Rightarrow> \<bar>z\<bar> < 1440)"

section \<open>Text\<close>

text \<open>The last \<open>k\<close> decimal digits.\<close>

fun dec_pad :: "nat \<Rightarrow> nat \<Rightarrow> pystr" where
  "dec_pad 0 n = []"
| "dec_pad (Suc k) n = dec_pad k (n div 10) @ [48 + n mod 10]"

definition dec_digit :: "nat \<Rightarrow> bool" where
  "dec_digit c \<longleftrightarrow> 48 \<le> c \<and> c \<le> 57"

definition dec_val :: "pystr \<Rightarrow> nat" where
  "dec_val s = foldl (\<lambda>v c. v * 10 + (c - 48)) 0 s"

definition iso_offset :: "int option \<Rightarrow> pystr" where
  "iso_offset z =
     (case z of
        None \<Rightarrow> []
      | Some m \<Rightarrow> (if m < 0 then 45 else 43) # dec_pad 2 (nat \<bar>m\<bar> div 60) @ 58 # dec_pad 2 (nat \<bar>m\<bar> mod 60))"

definition isoformat :: "py_datetime \<Rightarrow> pystr" where
  "isoformat t =
     dec_pad 4 (dtm_year t) @ 45 # dec_pad 2 (dtm_month t) @ 45 # dec_pad 2 (dtm_day t) @ 84 #
     dec_pad 2 (dtm_hour t) @ 58 # dec_pad 2 (dtm_minute t) @ 58 # dec_pad 2 (dtm_second t) @
     (if dtm_microsecond t = 0 then [] else 46 # dec_pad 6 (dtm_microsecond t)) @
     iso_offset (dtm_offset t)"

text \<open>A fixed number of digits.\<close>

definition take_digits :: "nat \<Rightarrow> pystr \<Rightarrow> (nat \<times> pystr) option" where
  "take_digits k s =
     (if k \<le> length s \<and> (\<forall>c \<in> set (take k s). dec_digit c) then Some (dec_val (take k s), drop k s) else None)"

text \<open>A character and then digits.\<close>

definition take_field :: "nat \<Rightarrow> nat \<Rightarrow> pystr \<Rightarrow> (nat \<times> pystr) option" where
  "take_field c k s = (case s of [] \<Rightarrow> None | d # r \<Rightarrow> if d = c then take_digits k r else None)"

definition parse_offset :: "pystr \<Rightarrow> int option option" where
  "parse_offset s =
     (case s of
        [] \<Rightarrow> Some None
      | c # r \<Rightarrow>
          if c = 43 \<or> c = 45 then
            Option.bind (take_digits 2 r) (\<lambda>(h, r1).
            Option.bind (take_field 58 2 r1) (\<lambda>(m, r2).
              if r2 = [] \<and> h < 24 \<and> m < 60
              then Some (Some (if c = 45 then - int (h * 60 + m) else int (h * 60 + m))) else None))
          else None)"

definition fromisoformat :: "pystr \<Rightarrow> py_datetime option" where
  "fromisoformat s =
     Option.bind (take_digits 4 s) (\<lambda>(y, s).
     Option.bind (take_field 45 2 s) (\<lambda>(mo, s).
     Option.bind (take_field 45 2 s) (\<lambda>(d, s).
     Option.bind (take_field 84 2 s) (\<lambda>(h, s).
     Option.bind (take_field 58 2 s) (\<lambda>(mi, s).
     Option.bind (take_field 58 2 s) (\<lambda>(sec, s).
     Option.bind (case s of c # r \<Rightarrow> if c = 46 then take_digits 6 r else Some (0, s) | [] \<Rightarrow> Some (0, s)) (\<lambda>(us, s).
     Option.bind (parse_offset s) (\<lambda>z.
       let t = \<lparr>dtm_year = y, dtm_month = mo, dtm_day = d, dtm_hour = h, dtm_minute = mi, dtm_second = sec,
                dtm_microsecond = us, dtm_offset = z\<rparr>
       in if valid_datetime t then Some t else None))))))))"

section \<open>Comparison\<close>

definition days_before_year :: "nat \<Rightarrow> nat" where
  "days_before_year y = (y - 1) * 365 + (y - 1) div 4 - (y - 1) div 100 + (y - 1) div 400"

definition days_before_month :: "nat \<Rightarrow> nat \<Rightarrow> nat" where
  "days_before_month y m = sum_list (map (days_in_month y) [1..<m])"

text \<open>Microseconds since the start of the calendar, in UTC when there is an offset.\<close>

definition datetime_micros :: "py_datetime \<Rightarrow> int" where
  "datetime_micros t =
     (let days = int (days_before_year (dtm_year t) + days_before_month (dtm_year t) (dtm_month t) + dtm_day t);
          minutes = (days * 24 + int (dtm_hour t)) * 60 + int (dtm_minute t)
                    - (case dtm_offset t of None \<Rightarrow> 0 | Some z \<Rightarrow> z)
      in (minutes * 60 + int (dtm_second t)) * 1000000 + int (dtm_microsecond t))"

text \<open>\<open>a < b\<close>; \<open>None\<close> stands for the \<open>TypeError\<close> of comparing a naive with an aware time.\<close>

definition datetime_less :: "py_datetime \<Rightarrow> py_datetime \<Rightarrow> bool option" where
  "datetime_less a b =
     (if (dtm_offset a = None) = (dtm_offset b = None) then Some (datetime_micros a < datetime_micros b) else None)"

section \<open>Round trip\<close>

lemma dec_pad_length [simp]: "length (dec_pad k n) = k"
  by (induction k arbitrary: n) simp_all

lemma dec_pad_digits: "c \<in> set (dec_pad k n) \<Longrightarrow> dec_digit c"
proof (induction k arbitrary: n)
  case (Suc k)
  have "n mod 10 < 10" by simp
  with Suc show ?case by (auto simp: dec_digit_def)
qed simp

lemma dec_val_snoc: "dec_val (s @ [c]) = dec_val s * 10 + (c - 48)"
  by (simp add: dec_val_def)

lemma dec_val_pad: "n < 10 ^ k \<Longrightarrow> dec_val (dec_pad k n) = n"
proof (induction k arbitrary: n)
  case (Suc k)
  then have "n div 10 < 10 ^ k" by (simp add: less_mult_imp_div_less mult.commute)
  with Suc.IH show ?case by (simp add: dec_val_snoc)
qed (simp add: dec_val_def)

lemma take_digits_pad [simp]: "n < 10 ^ k \<Longrightarrow> take_digits k (dec_pad k n @ r) = Some (n, r)"
  using dec_pad_digits by (simp add: take_digits_def dec_val_pad)

lemma take_digits_pad_end [simp]: "n < 10 ^ k \<Longrightarrow> take_digits k (dec_pad k n) = Some (n, [])"
  using take_digits_pad [of n k "[]"] by simp

lemma take_field_pad [simp]: "n < 10 ^ k \<Longrightarrow> take_field c k (c # dec_pad k n @ r) = Some (n, r)"
  by (simp add: take_field_def)

lemma parse_iso_offset:
  assumes "case z of None \<Rightarrow> True | Some m \<Rightarrow> \<bar>m\<bar> < 1440"
  shows "parse_offset (iso_offset z) = Some z"
proof (cases z)
  case (Some m)
  define a where "a = nat \<bar>m\<bar>"
  have a: "a < 1440" "int a = \<bar>m\<bar>" using assms Some by (auto simp: a_def)
  have "a div 60 < 24" "a mod 60 < 60" using a(1) by auto
  moreover have "a div 60 * 60 + a mod 60 = a" by simp
  ultimately show ?thesis
    using Some a(2) take_field_pad [of "a mod 60" 2 58 "[]"]
    by (simp add: parse_offset_def iso_offset_def a_def [symmetric] del: of_nat_add of_nat_mult)
qed (simp add: parse_offset_def iso_offset_def)

text \<open>Reading back what was written.\<close>

lemma fromisoformat_isoformat:
  assumes "valid_datetime t"
  shows "fromisoformat (isoformat t) = Some t"
proof -
  have off: "parse_offset (iso_offset (dtm_offset t)) = Some (dtm_offset t)"
    using assms by (intro parse_iso_offset) (simp add: valid_datetime_def)
  have "dtm_day t \<le> 31" using assms by (auto simp: valid_datetime_def days_in_month_def split: if_splits)
  then have b: "dtm_year t < 10 ^ 4" "dtm_month t < 10 ^ 2" "dtm_day t < 10 ^ 2" "dtm_hour t < 10 ^ 2"
    "dtm_minute t < 10 ^ 2" "dtm_second t < 10 ^ 2" "dtm_microsecond t < 10 ^ 6"
    using assms by (simp_all add: valid_datetime_def)
  have frac: "(case (if dtm_microsecond t = 0 then [] else 46 # dec_pad 6 (dtm_microsecond t)) @ iso_offset (dtm_offset t) of
      c # r \<Rightarrow> if c = 46 then take_digits 6 r
        else Some (0, (if dtm_microsecond t = 0 then [] else 46 # dec_pad 6 (dtm_microsecond t)) @ iso_offset (dtm_offset t))
      | [] \<Rightarrow> Some (0, (if dtm_microsecond t = 0 then [] else 46 # dec_pad 6 (dtm_microsecond t)) @ iso_offset (dtm_offset t)))
      = Some (dtm_microsecond t, iso_offset (dtm_offset t))"
    using b(7) by (cases "dtm_offset t") (auto simp: iso_offset_def)
  show ?thesis
    unfolding fromisoformat_def isoformat_def
    by (simp only: take_digits_pad [OF b(1)] take_field_pad [OF b(2)] take_field_pad [OF b(3)] take_field_pad [OF b(4)]
        take_field_pad [OF b(5)] take_field_pad [OF b(6)] bind.bind_lunit prod.case frac off Let_def append_assoc append_Cons)
      (use assms in \<open>cases t; simp\<close>)
qed

end
