(* ===== verification/Ledger_Entry.thy ===== *)
theory Ledger_Entry
  imports Sha256 Py_Time
begin

text \<open>
  \<open>harness_is/state_ledger_entry_schema.py\<close>, \<open>entry_hash.py\<close>, \<open>chain_link_construction.py\<close> and
  \<open>chain_verification.py\<close>: the entry of the state ledger, its canonical bytes, its SHA-256 response hash,
  the link to its predecessor and the verification of a chain. Unicode NFC normalisation is an argument;
  nothing is assumed of it. \<open>None\<close> stands for the \<open>UnicodeEncodeError\<close> of a text that has no UTF-8 form.
\<close>

section \<open>Entries\<close>

datatype actor_class = ACTOR_AGENT | ACTOR_SUB_AGENT | ACTOR_OPERATOR

fun actor_class_value :: "actor_class \<Rightarrow> pystr" where
  "actor_class_value ACTOR_AGENT = lit ''agent''"
| "actor_class_value ACTOR_SUB_AGENT = lit ''sub_agent''"
| "actor_class_value ACTOR_OPERATOR = lit ''operator''"

record actor =
  act_actor_class :: actor_class
  act_actor_id :: pystr

datatype terminal_status = TS_CANCELLED | TS_COMPLETED | TS_TIMED_OUT

fun terminal_status_value :: "terminal_status \<Rightarrow> pystr" where
  "terminal_status_value TS_CANCELLED = lit ''cancelled''"
| "terminal_status_value TS_COMPLETED = lit ''completed''"
| "terminal_status_value TS_TIMED_OUT = lit ''timed_out''"

record branch_metadata =
  brm_parent_action_id :: pystr
  brm_branch_index :: nat
  brm_terminal_status :: "terminal_status option"

record ledger_entry =
  len_action_id :: pystr
  len_idempotency_key :: pystr
  len_actor :: actor
  len_response_hash :: bytes
  len_timestamp :: py_datetime
  len_prior_event_hash :: bytes
  len_procedural_tier_snapshot_ref :: "pystr option"
  len_branch_metadata :: "branch_metadata option"

definition ALL_ZEROS_SENTINEL :: bytes where
  "ALL_ZEROS_SENTINEL = replicate 32 0"

section \<open>Canonical bytes\<close>

definition bytes_hex :: "bytes \<Rightarrow> pystr" where
  "bytes_hex bs = concat (map (\<lambda>b. [hex_digit (unat b div 16), hex_digit (unat b mod 16)]) bs)"

text \<open>\<open>bytes.fromhex\<close>: pairs of digits of either case, with ASCII white space between the pairs.\<close>

definition hex_space :: "nat \<Rightarrow> bool" where
  "hex_space c \<longleftrightarrow> c = 32 \<or> (9 \<le> c \<and> c \<le> 13)"

fun bytes_fromhex :: "pystr \<Rightarrow> bytes option" where
  "bytes_fromhex [] = Some []"
| "bytes_fromhex (a # s) =
     (if hex_space a then bytes_fromhex s
      else case s of
             [] \<Rightarrow> None
           | b # r \<Rightarrow>
               (case (hex_val a, hex_val b) of
                  (Some x, Some y) \<Rightarrow> map_option (\<lambda>bs. of_nat (x * 16 + y) # bs) (bytes_fromhex r)
                | _ \<Rightarrow> None))"

definition compact :: dumps_options where
  "compact = \<lparr>do_spaced = False, do_ensure_ascii = False\<rparr>"

text \<open>Entries hold no floats; the codec is never asked.\<close>

definition no_floats :: float_codec where
  "no_floats = \<lparr>fl_repr = (\<lambda>_. lit ''0.0''), fl_parse = (\<lambda>_. 0)\<rparr>"

definition canonical_branch :: "(pystr \<Rightarrow> pystr) \<Rightarrow> branch_metadata \<Rightarrow> json" where
  "canonical_branch nfc bm =
     JObj [(lit ''parent_action_id'', JStr (nfc (brm_parent_action_id bm))),
           (lit ''branch_index'', JInt (int (brm_branch_index bm))),
           (lit ''terminal_status'',
            case brm_terminal_status bm of None \<Rightarrow> JNull | Some t \<Rightarrow> JStr (nfc (terminal_status_value t)))]"

definition canonical_payload :: "(pystr \<Rightarrow> pystr) \<Rightarrow> ledger_entry \<Rightarrow> json" where
  "canonical_payload nfc e =
     JObj ([(lit ''action_id'', JStr (nfc (len_action_id e))),
            (lit ''idempotency_key'', JStr (nfc (len_idempotency_key e))),
            (lit ''actor'', JObj [(lit ''actor_class'', JStr (nfc (actor_class_value (act_actor_class (len_actor e))))),
                                  (lit ''actor_id'', JStr (nfc (act_actor_id (len_actor e))))]),
            (lit ''timestamp'', JStr (isoformat (len_timestamp e))),
            (lit ''prior_event_hash'', JStr (bytes_hex (len_prior_event_hash e)))]
           @ (case len_procedural_tier_snapshot_ref e of
                None \<Rightarrow> [] | Some r \<Rightarrow> [(lit ''procedural_tier_snapshot_ref'', JStr (nfc r))])
           @ (case len_branch_metadata e of
                None \<Rightarrow> [] | Some bm \<Rightarrow> [(lit ''branch_metadata'', canonical_branch nfc bm)]))"

definition canonicalize :: "(pystr \<Rightarrow> pystr) \<Rightarrow> ledger_entry \<Rightarrow> bytes option" where
  "canonicalize nfc e = utf8_encode (dumps no_floats compact (sort_keys (canonical_payload nfc e)))"

definition sha256_digest :: "bytes \<Rightarrow> bytes" where
  "sha256_digest bs = concat (map (\<lambda>w. be_bytes 4 (unat w)) (sha256 bs))"

definition compute_response_hash :: "(pystr \<Rightarrow> pystr) \<Rightarrow> ledger_entry \<Rightarrow> bytes option" where
  "compute_response_hash nfc e = map_option sha256_digest (canonicalize nfc e)"

definition construct_prior_event_hash :: "(pystr \<Rightarrow> pystr) \<Rightarrow> ledger_entry option \<Rightarrow> bytes option" where
  "construct_prior_event_hash nfc prior =
     (case prior of None \<Rightarrow> Some ALL_ZEROS_SENTINEL | Some e \<Rightarrow> compute_response_hash nfc e)"

section \<open>Chain verification\<close>

datatype verification_status = VS_VALID | VS_INVALID

datatype failure_type = INCEPTION_SENTINEL_MISMATCH | CHAIN_LINK_MISMATCH

record chain_verification_result =
  cvf_status :: verification_status
  cvf_failure_position :: "nat option"
  cvf_failure_type :: "failure_type option"
  cvf_entries_verified :: nat

text \<open>The loop over \<open>range (1, len (ledger))\<close>, on the previous entry and the entries still to come.\<close>

fun verify_links ::
  "(pystr \<Rightarrow> pystr) \<Rightarrow> nat \<Rightarrow> ledger_entry \<Rightarrow> ledger_entry list \<Rightarrow> chain_verification_result option" where
  "verify_links nfc i prev [] =
     Some \<lparr>cvf_status = VS_VALID, cvf_failure_position = None, cvf_failure_type = None, cvf_entries_verified = i\<rparr>"
| "verify_links nfc i prev (e # es) =
     (case compute_response_hash nfc prev of
        None \<Rightarrow> None
      | Some h \<Rightarrow>
          if len_prior_event_hash e \<noteq> h then
            Some \<lparr>cvf_status = VS_INVALID, cvf_failure_position = Some (i + 1),
                  cvf_failure_type = Some CHAIN_LINK_MISMATCH, cvf_entries_verified = i\<rparr>
          else verify_links nfc (i + 1) e es)"

definition verify_chain :: "(pystr \<Rightarrow> pystr) \<Rightarrow> ledger_entry list \<Rightarrow> chain_verification_result option" where
  "verify_chain nfc ledger =
     (case ledger of
        [] \<Rightarrow> Some \<lparr>cvf_status = VS_VALID, cvf_failure_position = None, cvf_failure_type = None,
                    cvf_entries_verified = 0\<rparr>
      | e # es \<Rightarrow>
          if len_prior_event_hash e \<noteq> ALL_ZEROS_SENTINEL then
            Some \<lparr>cvf_status = VS_INVALID, cvf_failure_position = Some 1,
                  cvf_failure_type = Some INCEPTION_SENTINEL_MISMATCH, cvf_entries_verified = 0\<rparr>
          else verify_links nfc 1 e es)"

section \<open>What the canonical bytes determine\<close>

lemma byte_less: "unat (b :: 8 word) < 256"
proof -
  have "unat b < 2 ^ LENGTH(8)" by (rule unsigned_less)
  then show ?thesis by simp
qed

lemma bytes_fromhex_hex: "bytes_fromhex (bytes_hex bs) = Some bs"
proof (induction bs)
  case (Cons b bs)
  have lt: "unat b div 16 < 16" "unat b mod 16 < 16" using byte_less [of b] by auto
  then have "\<not> hex_space (hex_digit (unat b div 16))" by (simp add: hex_space_def hex_digit_def)
  moreover have "of_nat (unat b div 16 * 16 + unat b mod 16) = b" by simp
  ultimately show ?case
    using Cons lt by (simp add: bytes_hex_def hex_val_digit del: of_nat_add of_nat_mult)
qed (simp add: bytes_hex_def)

lemma bytes_hex_inject: "bytes_hex a = bytes_hex b \<longleftrightarrow> a = b"
  using bytes_fromhex_hex by (metis option.inject)

lemma hex_digit_valid: "d < 16 \<Longrightarrow> valid_cp (hex_digit d)"
  by (simp add: hex_digit_def valid_cp_def)

lemma bytes_hex_valid: "list_all valid_cp (bytes_hex bs)"
proof -
  have "valid_cp (hex_digit (unat b div 16))" "valid_cp (hex_digit (unat b mod 16))" for b :: "8 word"
    using byte_less [of b] by (auto intro!: hex_digit_valid)
  then show ?thesis by (induction bs) (simp_all add: bytes_hex_def)
qed

lemma dec_pad_valid: "list_all valid_cp (dec_pad k n)"
  using dec_pad_digits by (fastforce simp: list_all_iff dec_digit_def valid_cp_def)

lemma isoformat_valid: "list_all valid_cp (isoformat t)"
  by (simp add: isoformat_def iso_offset_def dec_pad_valid valid_cp_def split: option.split)

text \<open>Entries with times and texts that Python can hold.\<close>

definition entry_texts :: "(pystr \<Rightarrow> pystr) \<Rightarrow> ledger_entry \<Rightarrow> pystr list" where
  "entry_texts nfc e =
     [nfc (len_action_id e), nfc (len_idempotency_key e), nfc (actor_class_value (act_actor_class (len_actor e))),
      nfc (act_actor_id (len_actor e))]
     @ (case len_procedural_tier_snapshot_ref e of None \<Rightarrow> [] | Some r \<Rightarrow> [nfc r])
     @ (case len_branch_metadata e of
          None \<Rightarrow> []
        | Some bm \<Rightarrow> nfc (brm_parent_action_id bm) #
            (case brm_terminal_status bm of None \<Rightarrow> [] | Some t \<Rightarrow> [nfc (terminal_status_value t)]))"

definition wf_entry :: "(pystr \<Rightarrow> pystr) \<Rightarrow> ledger_entry \<Rightarrow> bool" where
  "wf_entry nfc e \<longleftrightarrow>
     (\<forall>s \<in> set (entry_texts nfc e). list_all valid_cp s) \<and> valid_datetime (len_timestamp e) \<and>
     length (len_prior_event_hash e) = 32 \<and> length (len_response_hash e) = 32"

text \<open>The signed part of an entry, after normalisation.\<close>

record signed_view =
  sgv_action_id :: pystr
  sgv_idempotency_key :: pystr
  sgv_actor_class :: pystr
  sgv_actor_id :: pystr
  sgv_timestamp :: py_datetime
  sgv_prior_event_hash :: bytes
  sgv_snapshot_ref :: "pystr option"
  sgv_branch :: "(pystr \<times> nat \<times> pystr option) option"

definition view_of :: "(pystr \<Rightarrow> pystr) \<Rightarrow> ledger_entry \<Rightarrow> signed_view" where
  "view_of nfc e =
     \<lparr>sgv_action_id = nfc (len_action_id e), sgv_idempotency_key = nfc (len_idempotency_key e),
      sgv_actor_class = nfc (actor_class_value (act_actor_class (len_actor e))),
      sgv_actor_id = nfc (act_actor_id (len_actor e)), sgv_timestamp = len_timestamp e,
      sgv_prior_event_hash = len_prior_event_hash e,
      sgv_snapshot_ref = map_option nfc (len_procedural_tier_snapshot_ref e),
      sgv_branch = map_option (\<lambda>bm. (nfc (brm_parent_action_id bm), brm_branch_index bm,
        map_option (\<lambda>t. nfc (terminal_status_value t)) (brm_terminal_status bm))) (len_branch_metadata e)\<rparr>"

lemma canonical_payload_wf: "wf_entry nfc e \<Longrightarrow> wf_json no_floats (canonical_payload nfc e)"
  by (auto simp: canonical_payload_def canonical_branch_def wf_entry_def entry_texts_def bytes_hex_valid
      isoformat_valid valid_cp_def split: option.split)

definition payload_fields :: "(pystr \<Rightarrow> pystr) \<Rightarrow> ledger_entry \<Rightarrow> (pystr \<times> json) list" where
  "payload_fields nfc e = (case canonical_payload nfc e of JObj d \<Rightarrow> d | _ \<Rightarrow> [])"

lemma canonical_payload_fields: "canonical_payload nfc e = JObj (payload_fields nfc e)"
  by (simp add: payload_fields_def canonical_payload_def)

lemma payload_keys_distinct: "distinct (map fst (payload_fields nfc e))"
  by (simp add: payload_fields_def canonical_payload_def split: option.split)

lemma payload_lookups:
  "map_of (payload_fields nfc e) (lit ''action_id'') = Some (JStr (nfc (len_action_id e)))"
  "map_of (payload_fields nfc e) (lit ''idempotency_key'') = Some (JStr (nfc (len_idempotency_key e)))"
  "map_of (payload_fields nfc e) (lit ''actor'') =
     Some (JObj [(lit ''actor_class'', JStr (nfc (actor_class_value (act_actor_class (len_actor e))))),
                 (lit ''actor_id'', JStr (nfc (act_actor_id (len_actor e))))])"
  "map_of (payload_fields nfc e) (lit ''timestamp'') = Some (JStr (isoformat (len_timestamp e)))"
  "map_of (payload_fields nfc e) (lit ''prior_event_hash'') = Some (JStr (bytes_hex (len_prior_event_hash e)))"
  "map_of (payload_fields nfc e) (lit ''procedural_tier_snapshot_ref'') =
     map_option (\<lambda>r. JStr (nfc r)) (len_procedural_tier_snapshot_ref e)"
  "map_of (payload_fields nfc e) (lit ''branch_metadata'') = map_option (canonical_branch nfc) (len_branch_metadata e)"
  by (simp_all add: payload_fields_def canonical_payload_def split: option.split)

lemma canonical_branch_inject:
  assumes "sort_keys (canonical_branch nfc a) = sort_keys (canonical_branch nfc b)"
  shows "nfc (brm_parent_action_id a) = nfc (brm_parent_action_id b)" "brm_branch_index a = brm_branch_index b"
    "map_option (\<lambda>t. nfc (terminal_status_value t)) (brm_terminal_status a) =
     map_option (\<lambda>t. nfc (terminal_status_value t)) (brm_terminal_status b)"
proof -
  note eq = sort_keys_obj_eq [OF assms [unfolded canonical_branch_def]]
  show "nfc (brm_parent_action_id a) = nfc (brm_parent_action_id b)"
    using eq [of "lit ''parent_action_id''"] by simp
  show "brm_branch_index a = brm_branch_index b" using eq [of "lit ''branch_index''"] by simp
  show "map_option (\<lambda>t. nfc (terminal_status_value t)) (brm_terminal_status a) =
     map_option (\<lambda>t. nfc (terminal_status_value t)) (brm_terminal_status b)"
    using eq [of "lit ''terminal_status''"] by (auto split: option.splits)
qed

lemma isoformat_inject: "valid_datetime a \<Longrightarrow> valid_datetime b \<Longrightarrow> isoformat a = isoformat b \<Longrightarrow> a = b"
  using fromisoformat_isoformat by (metis option.inject)

lemma sorted_payload_view:
  assumes "wf_entry nfc a" "wf_entry nfc b"
    and "sort_keys (canonical_payload nfc a) = sort_keys (canonical_payload nfc b)"
  shows "view_of nfc a = view_of nfc b"
proof -
  note eq = sort_keys_obj_eq [OF assms(3) [unfolded canonical_payload_fields] payload_keys_distinct payload_keys_distinct]
  have "len_timestamp a = len_timestamp b"
    using eq [of "lit ''timestamp''"] assms(1,2) unfolding payload_lookups by (simp add: wf_entry_def isoformat_inject)
  moreover have "len_prior_event_hash a = len_prior_event_hash b"
    using eq [of "lit ''prior_event_hash''"] unfolding payload_lookups by (simp add: bytes_hex_inject)
  moreover have actor: "sort_keys (JObj [(lit ''actor_class'', JStr (nfc (actor_class_value (act_actor_class (len_actor a))))),
                 (lit ''actor_id'', JStr (nfc (act_actor_id (len_actor a))))]) =
      sort_keys (JObj [(lit ''actor_class'', JStr (nfc (actor_class_value (act_actor_class (len_actor b))))),
                 (lit ''actor_id'', JStr (nfc (act_actor_id (len_actor b))))])"
    using eq [of "lit ''actor''"] unfolding payload_lookups option.map option.inject .
  then have "nfc (actor_class_value (act_actor_class (len_actor a))) = nfc (actor_class_value (act_actor_class (len_actor b)))"
    "nfc (act_actor_id (len_actor a)) = nfc (act_actor_id (len_actor b))"
    using sort_keys_obj_eq [OF actor, of "lit ''actor_class''"] sort_keys_obj_eq [OF actor, of "lit ''actor_id''"] by simp_all
  moreover have "map_option nfc (len_procedural_tier_snapshot_ref a) = map_option nfc (len_procedural_tier_snapshot_ref b)"
    using eq [of "lit ''procedural_tier_snapshot_ref''"] unfolding payload_lookups
    by (cases "len_procedural_tier_snapshot_ref a"; cases "len_procedural_tier_snapshot_ref b") simp_all
  moreover have "sgv_branch (view_of nfc a) = sgv_branch (view_of nfc b)"
  proof -
    have e: "map_option (\<lambda>bm. sort_keys (canonical_branch nfc bm)) (len_branch_metadata a) =
        map_option (\<lambda>bm. sort_keys (canonical_branch nfc bm)) (len_branch_metadata b)"
      using eq [of "lit ''branch_metadata''"] unfolding payload_lookups option.map_comp comp_def .
    show ?thesis
    proof (cases "len_branch_metadata a")
      case None
      then show ?thesis using e by (simp add: view_of_def)
    next
      case (Some x)
      then obtain y where y: "len_branch_metadata b = Some y" using e by (metis None_eq_map_option_iff option.exhaust)
      then have "sort_keys (canonical_branch nfc x) = sort_keys (canonical_branch nfc y)"
        using e unfolding Some y option.map option.inject by blast
      note f = canonical_branch_inject [OF this]
      show ?thesis unfolding view_of_def Some y by (simp only: option.map signed_view.simps f)
    qed
  qed
  moreover have "nfc (len_action_id a) = nfc (len_action_id b)" "nfc (len_idempotency_key a) = nfc (len_idempotency_key b)"
    using eq [of "lit ''action_id''"] eq [of "lit ''idempotency_key''"] unfolding payload_lookups by simp_all
  ultimately show ?thesis by (simp add: view_of_def)
qed

lemma dumps_sorted_inject:
  assumes "wf_entry nfc a" "wf_entry nfc b"
    and eq: "dumps no_floats compact (sort_keys (canonical_payload nfc a)) =
      dumps no_floats compact (sort_keys (canonical_payload nfc b))"
  shows "sort_keys (canonical_payload nfc a) = sort_keys (canonical_payload nfc b)"
proof -
  note la = loads_dumps [OF wf_sort_keys [OF canonical_payload_wf [OF assms(1)]], of compact]
  note lb = loads_dumps [OF wf_sort_keys [OF canonical_payload_wf [OF assms(2)]], of compact]
  have "loads no_floats (dumps no_floats compact (sort_keys (canonical_payload nfc a))) =
      loads no_floats (dumps no_floats compact (sort_keys (canonical_payload nfc b)))"
    by (rule arg_cong [OF eq])
  then show ?thesis unfolding la lb by (rule option.inject [THEN iffD1])
qed

lemma canonicalize_view:
  assumes "wf_entry nfc a" "wf_entry nfc b" "canonicalize nfc a = Some bs" "canonicalize nfc b = Some bs"
  shows "view_of nfc a = view_of nfc b"
proof -
  have "dumps no_floats compact (sort_keys (canonical_payload nfc a)) = dumps no_floats compact (sort_keys (canonical_payload nfc b))"
    using assms(3,4) unfolding canonicalize_def by (rule utf8_encode_inj)
  then show ?thesis by (intro sorted_payload_view [OF assms(1,2)] dumps_sorted_inject [OF assms(1,2)])
qed

lemma canonicalize_total:
  assumes "wf_entry nfc e"
  shows "\<exists>bs. canonicalize nfc e = Some bs"
proof -
  have "printable_floats no_floats" by (simp add: printable_floats_def no_floats_def)
  then show ?thesis
    using utf8_encode_dumps [OF wf_sort_keys [OF canonical_payload_wf [OF assms]], of compact]
    by (simp add: canonicalize_def compact_def)
qed

end
