(* ===== verification/Ledger_Chain.thy ===== *)
theory Ledger_Chain
  imports Ledger_Entry
begin

text \<open>
  What verification of a ledger chain (\<open>harness_is/chain_verification.py\<close>) shows and what it cannot show:
  agreement with the link that the writer makes, evidence of tampering up to a collision of SHA-256, and
  the fields that no link covers.
\<close>

section \<open>The links\<close>

text \<open>The entry at position \<open>i\<close> (from 0) names the hash that the writer would give it.\<close>

definition predecessor :: "ledger_entry list \<Rightarrow> nat \<Rightarrow> ledger_entry option" where
  "predecessor ledger i = (case i of 0 \<Rightarrow> None | Suc j \<Rightarrow> Some (ledger ! j))"

definition link_holds :: "(pystr \<Rightarrow> pystr) \<Rightarrow> ledger_entry list \<Rightarrow> nat \<Rightarrow> bool" where
  "link_holds nfc ledger i \<longleftrightarrow>
     construct_prior_event_hash nfc (predecessor ledger i) = Some (len_prior_event_hash (ledger ! i))"

definition linked :: "(pystr \<Rightarrow> pystr) \<Rightarrow> ledger_entry list \<Rightarrow> bool" where
  "linked nfc ledger \<longleftrightarrow> (\<forall>i < length ledger. link_holds nfc ledger i)"

definition hashable :: "(pystr \<Rightarrow> pystr) \<Rightarrow> ledger_entry \<Rightarrow> bool" where
  "hashable nfc e \<longleftrightarrow> canonicalize nfc e \<noteq> None"

text \<open>The verdict, from the first link that does not hold.\<close>

definition chain_verdict :: "(pystr \<Rightarrow> pystr) \<Rightarrow> ledger_entry list \<Rightarrow> chain_verification_result" where
  "chain_verdict nfc ledger =
     (case find (\<lambda>i. \<not> link_holds nfc ledger i) [0..<length ledger] of
        None \<Rightarrow> \<lparr>cvf_status = VS_VALID, cvf_failure_position = None, cvf_failure_type = None,
                 cvf_entries_verified = length ledger\<rparr>
      | Some i \<Rightarrow> \<lparr>cvf_status = VS_INVALID, cvf_failure_position = Some (i + 1),
                   cvf_failure_type = Some (if i = 0 then INCEPTION_SENTINEL_MISMATCH else CHAIN_LINK_MISMATCH),
                   cvf_entries_verified = i\<rparr>)"

lemma link_holds_0: "link_holds nfc (e # es) 0 \<longleftrightarrow> len_prior_event_hash e = ALL_ZEROS_SENTINEL"
  by (auto simp: link_holds_def predecessor_def construct_prior_event_hash_def)

lemma link_holds_Suc:
  "link_holds nfc ledger (Suc i) \<longleftrightarrow> compute_response_hash nfc (ledger ! i) = Some (len_prior_event_hash (ledger ! Suc i))"
  by (simp add: link_holds_def predecessor_def construct_prior_event_hash_def)

lemma hashable_hash: "hashable nfc e \<Longrightarrow> \<exists>h. compute_response_hash nfc e = Some h"
  by (auto simp: hashable_def compute_response_hash_def)

lemma find_upt_Suc: "i < n \<Longrightarrow> find P [i..<n] = (if P i then Some i else find P [Suc i..<n])"
  by (simp add: upt_conv_Cons)

lemma verify_links_find:
  assumes "ledger = pre @ prev # es" "\<forall>e \<in> set (butlast (prev # es)). hashable nfc e"
  shows "verify_links nfc (length pre + 1) prev es =
    Some (case find (\<lambda>i. \<not> link_holds nfc ledger i) [length pre + 1..<length ledger] of
        None \<Rightarrow> \<lparr>cvf_status = VS_VALID, cvf_failure_position = None, cvf_failure_type = None,
                 cvf_entries_verified = length ledger\<rparr>
      | Some i \<Rightarrow> \<lparr>cvf_status = VS_INVALID, cvf_failure_position = Some (i + 1),
                   cvf_failure_type = Some CHAIN_LINK_MISMATCH, cvf_entries_verified = i\<rparr>)"
  using assms
proof (induction es arbitrary: pre prev)
  case Nil
  then show ?case by simp
next
  case (Cons e es)
  let ?i = "Suc (length pre)"
  have lt: "?i < length ledger" using Cons.prems(1) by simp
  have at: "ledger ! length pre = prev" "ledger ! ?i = e"
    using Cons.prems(1) by (simp_all add: nth_append)
  have hp: "hashable nfc prev" using Cons.prems(2) by simp
  then obtain h where h: "compute_response_hash nfc prev = Some h" using hashable_hash by blast
  have link: "link_holds nfc ledger ?i \<longleftrightarrow> h = len_prior_event_hash e" by (simp add: link_holds_Suc at h)
  show ?case
  proof (cases "h = len_prior_event_hash e")
    case True
    have "verify_links nfc (length (pre @ [prev]) + 1) e es =
      Some (case find (\<lambda>i. \<not> link_holds nfc ledger i) [length (pre @ [prev]) + 1..<length ledger] of
        None \<Rightarrow> \<lparr>cvf_status = VS_VALID, cvf_failure_position = None, cvf_failure_type = None,
                 cvf_entries_verified = length ledger\<rparr>
      | Some i \<Rightarrow> \<lparr>cvf_status = VS_INVALID, cvf_failure_position = Some (i + 1),
                   cvf_failure_type = Some CHAIN_LINK_MISMATCH, cvf_entries_verified = i\<rparr>)"
      using Cons.prems by (intro Cons.IH) auto
    then show ?thesis using True h link by (simp add: find_upt_Suc [OF lt] del: upt_Suc)
  next
    case False
    then show ?thesis using h link by (simp add: find_upt_Suc [OF lt] del: upt_Suc)
  qed
qed

lemma verify_chain_verdict:
  assumes "\<forall>e \<in> set (butlast ledger). hashable nfc e"
  shows "verify_chain nfc ledger = Some (chain_verdict nfc ledger)"
proof (cases ledger)
  case Nil
  then show ?thesis by (simp add: verify_chain_def chain_verdict_def)
next
  case (Cons e es)
  have *: "find (\<lambda>i. \<not> link_holds nfc ledger i) [0..<length ledger] =
    (if \<not> link_holds nfc ledger 0 then Some 0 else find (\<lambda>i. \<not> link_holds nfc ledger i) [1..<length ledger])"
    using find_upt_Suc [of 0 "length ledger"] Cons by simp
  have r: "verify_links nfc 1 e es = Some (case find (\<lambda>i. \<not> link_holds nfc ledger i) [1..<length ledger] of
        None \<Rightarrow> \<lparr>cvf_status = VS_VALID, cvf_failure_position = None, cvf_failure_type = None,
                 cvf_entries_verified = length ledger\<rparr>
      | Some i \<Rightarrow> \<lparr>cvf_status = VS_INVALID, cvf_failure_position = Some (i + 1),
                   cvf_failure_type = Some CHAIN_LINK_MISMATCH, cvf_entries_verified = i\<rparr>)"
    using verify_links_find [of ledger "[]" e es nfc] Cons assms by simp
  have pos: "0 < i" if "find (\<lambda>i. \<not> link_holds nfc ledger i) [1..<length ledger] = Some i" for i
    using that by (auto simp: find_Some_iff)
  show ?thesis
  proof (cases "link_holds nfc ledger 0")
    case True
    then have z: "len_prior_event_hash e = ALL_ZEROS_SENTINEL" using link_holds_0 Cons by simp
    show ?thesis
    proof (cases "find (\<lambda>i. \<not> link_holds nfc ledger i) [1..<length ledger]")
      case None
      then show ?thesis using z r * True by (simp add: verify_chain_def chain_verdict_def Cons)
    next
      case (Some i)
      then show ?thesis using z r * True pos [OF Some] by (simp add: verify_chain_def chain_verdict_def Cons)
    qed
  next
    case False
    then have z: "len_prior_event_hash e \<noteq> ALL_ZEROS_SENTINEL" using link_holds_0 Cons by simp
    with False * show ?thesis by (simp add: verify_chain_def chain_verdict_def Cons)
  qed
qed

lemma chain_verdict_valid: "cvf_status (chain_verdict nfc ledger) = VS_VALID \<longleftrightarrow> linked nfc ledger"
proof -
  have "find (\<lambda>i. \<not> link_holds nfc ledger i) [0..<length ledger] = None \<longleftrightarrow> linked nfc ledger"
    by (auto simp: find_None_iff linked_def)
  then show ?thesis
    by (cases "find (\<lambda>i. \<not> link_holds nfc ledger i) [0..<length ledger]") (simp_all add: chain_verdict_def)
qed

lemma linked_hashable: "linked nfc (es @ [e]) \<Longrightarrow> \<forall>x \<in> set es. hashable nfc x"
proof
  fix x assume l: "linked nfc (es @ [e])" and "x \<in> set es"
  then obtain i where i: "i < length es" "es ! i = x" by (auto simp: in_set_conv_nth)
  then have "link_holds nfc (es @ [e]) (Suc i)" using l by (simp add: linked_def)
  then show "hashable nfc x" using i by (auto simp: link_holds_Suc nth_append compute_response_hash_def hashable_def)
qed

lemma linked_snoc:
  "linked nfc (es @ [e]) \<longleftrightarrow> linked nfc es \<and>
     construct_prior_event_hash nfc (if es = [] then None else Some (last es)) = Some (len_prior_event_hash e)"
proof -
  have shared: "link_holds nfc (es @ [e]) i \<longleftrightarrow> link_holds nfc es i" if "i < length es" for i
    using that by (cases i) (simp_all add: link_holds_def predecessor_def nth_append)
  have l: "predecessor (es @ [e]) (length es) = (if es = [] then None else Some (last es))"
    by (cases es rule: rev_cases) (simp_all add: predecessor_def nth_append)
  have "linked nfc (es @ [e]) \<longleftrightarrow> (\<forall>i < length es. link_holds nfc (es @ [e]) i) \<and> link_holds nfc (es @ [e]) (length es)"
    by (simp add: linked_def All_less_Suc conj_commute)
  then show ?thesis by (simp add: shared linked_def link_holds_def [of nfc "es @ [e]" "length es"] l)
qed

lemma linked_pair:
  assumes "linked nfc ((es @ [x]) @ [e])"
  shows "linked nfc (es @ [x])" "compute_response_hash nfc x = Some (len_prior_event_hash e)"
  using assms unfolding linked_snoc [of nfc "es @ [x]"] by (simp_all add: construct_prior_event_hash_def)

lemma linked_single: "linked nfc [e] \<Longrightarrow> len_prior_event_hash e = ALL_ZEROS_SENTINEL"
  by (simp add: linked_def link_holds_0)

section \<open>Evidence\<close>

text \<open>Two texts with one digest, at the same place of two ledgers, or a text with the digest of all zeros.\<close>

definition digests_collide :: "(pystr \<Rightarrow> pystr) \<Rightarrow> ledger_entry \<Rightarrow> ledger_entry \<Rightarrow> bool" where
  "digests_collide nfc a b \<longleftrightarrow>
     (\<exists>x y. canonicalize nfc a = Some x \<and> canonicalize nfc b = Some y \<and> x \<noteq> y \<and> sha256_digest x = sha256_digest y)"

definition zero_digest :: "(pystr \<Rightarrow> pystr) \<Rightarrow> ledger_entry \<Rightarrow> bool" where
  "zero_digest nfc e \<longleftrightarrow> compute_response_hash nfc e = Some ALL_ZEROS_SENTINEL"

lemma same_hash:
  assumes "wf_entry nfc a" "wf_entry nfc b" "compute_response_hash nfc a = Some h" "compute_response_hash nfc b = Some h"
  shows "view_of nfc a = view_of nfc b \<or> digests_collide nfc a b"
proof -
  obtain x y where xy: "canonicalize nfc a = Some x" "canonicalize nfc b = Some y" "sha256_digest x = h" "sha256_digest y = h"
    using assms(3,4) by (auto simp: compute_response_hash_def)
  show ?thesis
  proof (cases "x = y")
    case True
    then have "view_of nfc a = view_of nfc b" using canonicalize_view [OF assms(1,2)] xy(1,2) by metis
    then show ?thesis ..
  next
    case False
    then have "digests_collide nfc a b" unfolding digests_collide_def using xy by metis
    then show ?thesis ..
  qed
qed

lemma view_prior: "view_of nfc a = view_of nfc b \<Longrightarrow> len_prior_event_hash a = len_prior_event_hash b"
  by (simp add: view_of_def)

lemma heads_determine:
  assumes "linked nfc (as @ [a])" "linked nfc (bs @ [b])"
    and "\<forall>e \<in> set (as @ [a]) \<union> set (bs @ [b]). wf_entry nfc e"
    and "compute_response_hash nfc a = Some h" "compute_response_hash nfc b = Some h"
  shows "map (view_of nfc) (as @ [a]) = map (view_of nfc) (bs @ [b]) \<or>
    (\<exists>x \<in> set (as @ [a]). \<exists>y \<in> set (bs @ [b]). digests_collide nfc x y) \<or>
    (\<exists>x \<in> set as \<union> set bs. zero_digest nfc x)"
  using assms
proof (induction as arbitrary: a bs b h rule: rev_induct)
  case Nil
  have za: "len_prior_event_hash a = ALL_ZEROS_SENTINEL"
    using Nil.prems(1) by (simp add: linked_single)
  from same_hash [OF _ _ Nil.prems(4,5)] Nil.prems(3) consider "view_of nfc a = view_of nfc b" | "digests_collide nfc a b" by auto
  then show ?case
  proof cases
    case 1
    then have zb: "len_prior_event_hash b = ALL_ZEROS_SENTINEL" using za view_prior by metis
    show ?thesis
    proof (cases bs rule: rev_cases)
      case (snoc ys y)
      then have "zero_digest nfc y"
        using linked_pair(2) [OF Nil.prems(2) [unfolded snoc]] zb by (simp add: zero_digest_def)
      then show ?thesis using snoc by auto
    qed (use 1 in simp)
  qed auto
next
  case (snoc x xs)
  note lx = linked_pair [OF snoc.prems(1)]
  from same_hash [OF _ _ snoc.prems(4,5)] snoc.prems(3) consider "view_of nfc a = view_of nfc b" | "digests_collide nfc a b" by auto
  then show ?case
  proof cases
    case 1
    then have p: "len_prior_event_hash a = len_prior_event_hash b" by (rule view_prior)
    show ?thesis
    proof (cases bs rule: rev_cases)
      case Nil
      then have "zero_digest nfc x"
        using snoc.prems(2) lx(2) p by (simp add: linked_single zero_digest_def)
      then show ?thesis by auto
    next
      case (snoc ys y)
      then have ly: "linked nfc (ys @ [y])" "compute_response_hash nfc y = Some (len_prior_event_hash a)"
        using linked_pair [OF snoc.prems(2) [unfolded snoc]] p by simp_all
      have "\<forall>e \<in> set (xs @ [x]) \<union> set (ys @ [y]). wf_entry nfc e" using snoc.prems(3) snoc by auto
      from snoc.IH [OF lx(1) ly(1) this lx(2) ly(2)] show ?thesis using 1 snoc by auto
    qed
  qed auto
qed

lemma verify_links_hashable:
  "verify_links nfc i prev es = Some r \<Longrightarrow> cvf_status r = VS_VALID \<Longrightarrow> \<forall>e \<in> set (butlast (prev # es)). hashable nfc e"
proof (induction es arbitrary: i prev)
  case (Cons e es)
  then obtain h where h: "compute_response_hash nfc prev = Some h" "h = len_prior_event_hash e"
    by (auto split: option.splits if_splits)
  then have "\<forall>x \<in> set (butlast (e # es)). hashable nfc x" using Cons by (intro Cons.IH) auto
  moreover have "hashable nfc prev" using h by (auto simp: hashable_def compute_response_hash_def)
  ultimately show ?case by simp
qed simp

lemma verified_linked:
  assumes "verify_chain nfc ledger = Some r" "cvf_status r = VS_VALID"
  shows "linked nfc ledger"
proof -
  have "\<forall>e \<in> set (butlast ledger). hashable nfc e"
  proof (cases ledger)
    case (Cons e es)
    then have "verify_links nfc 1 e es = Some r" using assms by (auto simp: verify_chain_def split: if_splits)
    then show ?thesis using verify_links_hashable assms(2) Cons by metis
  qed simp
  from verify_chain_verdict [OF this] show ?thesis using assms chain_verdict_valid by simp
qed

section \<open>What no link covers\<close>

definition set_response_hash :: "(ledger_entry \<Rightarrow> bytes) \<Rightarrow> ledger_entry \<Rightarrow> ledger_entry" where
  "set_response_hash f e = e\<lparr>len_response_hash := f e\<rparr>"

lemma hash_ignores_response_hash: "compute_response_hash nfc (set_response_hash f e) = compute_response_hash nfc e"
  by (simp add: compute_response_hash_def canonicalize_def canonical_payload_def set_response_hash_def)

lemma prior_set_response_hash: "len_prior_event_hash (set_response_hash f e) = len_prior_event_hash e"
  by (simp add: set_response_hash_def)

lemma verify_links_response_hash:
  "verify_links nfc i (set_response_hash f prev) (map (set_response_hash f) es) = verify_links nfc i prev es"
  by (induction es arbitrary: i prev)
    (simp_all add: hash_ignores_response_hash prior_set_response_hash split: option.split)

lemma verify_links_last:
  "len_prior_event_hash x = len_prior_event_hash e \<Longrightarrow>
     verify_links nfc i prev (es @ [x]) = verify_links nfc i prev (es @ [e])"
  by (induction es arbitrary: i prev) (simp_all split: option.split)

section \<open>The properties\<close>

text \<open>Entries for the examples: the second one names the digest of the first.\<close>

definition sample_entry :: ledger_entry where
  "sample_entry =
     \<lparr>len_action_id = lit ''a-1'', len_idempotency_key = lit ''k-1'',
      len_actor = \<lparr>act_actor_class = ACTOR_AGENT, act_actor_id = lit ''planner''\<rparr>,
      len_response_hash = ALL_ZEROS_SENTINEL,
      len_timestamp = \<lparr>dtm_year = 2026, dtm_month = 5, dtm_day = 20, dtm_hour = 9, dtm_minute = 30, dtm_second = 0,
                       dtm_microsecond = 250000, dtm_offset = Some 0\<rparr>,
      len_prior_event_hash = ALL_ZEROS_SENTINEL, len_procedural_tier_snapshot_ref = None,
      len_branch_metadata = Some \<lparr>brm_parent_action_id = lit ''root'', brm_branch_index = 1,
                                  brm_terminal_status = Some TS_COMPLETED\<rparr>\<rparr>"

definition sample_next :: ledger_entry where
  "sample_next =
     sample_entry\<lparr>len_action_id := lit ''a-2'', len_idempotency_key := lit ''k-2'',
       len_prior_event_hash := the (compute_response_hash (\<lambda>s. s) sample_entry)\<rparr>"

lemma sample_wf: "wf_entry (\<lambda>s. s) sample_entry"
  by (simp add: wf_entry_def entry_texts_def sample_entry_def valid_datetime_def days_in_month_def valid_cp_def
      ALL_ZEROS_SENTINEL_def)

lemma length_concat_const: "\<forall>x \<in> set xs. length (f x) = k \<Longrightarrow> length (concat (map f xs)) = k * length xs"
  by (induction xs) simp_all

lemma sha256_digest_length: "length (sha256_digest bs) = 32"
  using length_concat_const [of "sha256 bs" "\<lambda>w. be_bytes 4 (unat w)" 4]
  by (simp add: sha256_digest_def sha256_length be_bytes_def)

lemma hash_length: "compute_response_hash nfc e = Some h \<Longrightarrow> length h = 32"
  using sha256_digest_length by (auto simp: compute_response_hash_def)

lemma wf_hash: "wf_entry nfc e \<Longrightarrow> \<exists>h. compute_response_hash nfc e = Some h"
  using canonicalize_total by (force simp: compute_response_hash_def)

lemma wf_hashable: "wf_entry nfc e \<Longrightarrow> hashable nfc e"
  using canonicalize_total by (force simp: hashable_def)

lemma sample_next_hash: "compute_response_hash (\<lambda>s. s) sample_entry = Some (len_prior_event_hash sample_next)"
  using wf_hash [OF sample_wf] by (auto simp: sample_next_def)

lemma sample_next_wf: "wf_entry (\<lambda>s. s) sample_next"
proof -
  have "length (len_prior_event_hash sample_next) = 32" by (rule hash_length [OF sample_next_hash])
  moreover have "len_action_id sample_next = lit ''a-2''" "len_idempotency_key sample_next = lit ''k-2''"
    by (simp_all add: sample_next_def)
  ultimately show ?thesis
    using sample_wf by (auto simp: wf_entry_def entry_texts_def sample_next_def valid_cp_def)
qed

lemma sample_linked: "linked (\<lambda>s. s) ([sample_entry] @ [sample_next])"
proof -
  have "len_prior_event_hash sample_entry = ALL_ZEROS_SENTINEL" by (simp add: sample_entry_def)
  then have "linked (\<lambda>s. s) [sample_entry]" by (simp add: linked_def link_holds_0)
  then show ?thesis unfolding linked_snoc using sample_next_hash by (simp add: construct_prior_event_hash_def)
qed

lemma sample_verified: "verify_chain (\<lambda>s. s) ([sample_entry] @ [sample_next]) =
    Some (chain_verdict (\<lambda>s. s) ([sample_entry] @ [sample_next]))"
  "cvf_status (chain_verdict (\<lambda>s. s) ([sample_entry] @ [sample_next])) = VS_VALID"
  using verify_chain_verdict [of "[sample_entry] @ [sample_next]" "\<lambda>s. s"] wf_hashable [OF sample_wf]
    sample_linked chain_verdict_valid by simp_all

definition sample_rehashed :: ledger_entry where
  "sample_rehashed = set_response_hash (\<lambda>_. replicate 32 7) sample_next"

lemma sample_rehashed_wf: "wf_entry (\<lambda>s. s) sample_rehashed"
  using sample_next_wf by (auto simp: sample_rehashed_def set_response_hash_def wf_entry_def entry_texts_def)

lemma sample_rehashed_verified: "verify_chain (\<lambda>s. s) ([sample_entry] @ [sample_rehashed]) =
    Some (chain_verdict (\<lambda>s. s) ([sample_entry] @ [sample_rehashed]))"
  "cvf_status (chain_verdict (\<lambda>s. s) ([sample_entry] @ [sample_rehashed])) = VS_VALID"
proof -
  have "linked (\<lambda>s. s) ([sample_entry] @ [sample_rehashed])"
    using sample_linked unfolding linked_snoc by (simp add: sample_rehashed_def prior_set_response_hash)
  then show "cvf_status (chain_verdict (\<lambda>s. s) ([sample_entry] @ [sample_rehashed])) = VS_VALID"
    by (simp add: chain_verdict_valid)
  show "verify_chain (\<lambda>s. s) ([sample_entry] @ [sample_rehashed]) =
    Some (chain_verdict (\<lambda>s. s) ([sample_entry] @ [sample_rehashed]))"
    by (rule verify_chain_verdict) (simp add: wf_hashable [OF sample_wf])
qed

text \<open>
  Property C34. On entries that can be encoded, \<open>verify_chain\<close> answers with the first position whose
  \<open>prior_event_hash\<close> is not the one that \<open>construct_prior_event_hash\<close> gives for its predecessor, counted from
  1, and with the number of entries before it; it answers VALID exactly when there is no such position.
\<close>

theorem verify_chain_first_break:
  assumes "\<forall>e \<in> set (butlast ledger). hashable nfc e"
  shows "verify_chain nfc ledger = Some (chain_verdict nfc ledger) \<and>
    (cvf_status (chain_verdict nfc ledger) = VS_VALID \<longleftrightarrow> linked nfc ledger)"
  using verify_chain_verdict [OF assms] chain_verdict_valid by blast

lemma verify_chain_first_break_witness:
  "verify_chain (\<lambda>s. s) ([sample_entry] @ [sample_next]) = Some (chain_verdict (\<lambda>s. s) ([sample_entry] @ [sample_next])) \<and>
     (cvf_status (chain_verdict (\<lambda>s. s) ([sample_entry] @ [sample_next])) = VS_VALID \<longleftrightarrow>
      linked (\<lambda>s. s) ([sample_entry] @ [sample_next]))"
  by (rule verify_chain_first_break) (simp add: wf_hashable [OF sample_wf])

text \<open>
  Property C33. Two ledgers that both verify and whose last entries have the same SHA-256 digest agree, entry by
  entry and in length, in every signed field after normalisation; or they exhibit a collision of SHA-256 between
  two of their canonical texts, or a canonical text whose digest is the all-zeros sentinel.
\<close>

theorem tamper_evidence:
  assumes "verify_chain nfc (as @ [a]) = Some r" "cvf_status r = VS_VALID"
    and "verify_chain nfc (bs @ [b]) = Some q" "cvf_status q = VS_VALID"
    and "\<forall>e \<in> set (as @ [a]) \<union> set (bs @ [b]). wf_entry nfc e"
    and "compute_response_hash nfc a = compute_response_hash nfc b"
  shows "map (view_of nfc) (as @ [a]) = map (view_of nfc) (bs @ [b]) \<or>
    (\<exists>x \<in> set (as @ [a]). \<exists>y \<in> set (bs @ [b]). digests_collide nfc x y) \<or>
    (\<exists>x \<in> set as \<union> set bs. zero_digest nfc x)"
proof -
  obtain h where h: "compute_response_hash nfc a = Some h" using wf_hash assms(5) by (meson UnI1 in_set_conv_decomp)
  then show ?thesis
    using heads_determine [OF verified_linked [OF assms(1,2)] verified_linked [OF assms(3,4)] assms(5)] assms(6) by simp
qed

lemma tamper_evidence_witness:
  "map (view_of (\<lambda>s. s)) ([sample_entry] @ [sample_next]) = map (view_of (\<lambda>s. s)) ([sample_entry] @ [sample_rehashed]) \<or>
    (\<exists>x \<in> set ([sample_entry] @ [sample_next]). \<exists>y \<in> set ([sample_entry] @ [sample_rehashed]). digests_collide (\<lambda>s. s) x y) \<or>
    (\<exists>x \<in> set [sample_entry] \<union> set [sample_entry]. zero_digest (\<lambda>s. s) x)"
proof (rule tamper_evidence [OF sample_verified sample_rehashed_verified])
  show "compute_response_hash (\<lambda>s. s) sample_next = compute_response_hash (\<lambda>s. s) sample_rehashed"
    by (simp add: sample_rehashed_def hash_ignores_response_hash)
qed (auto simp: sample_wf sample_next_wf sample_rehashed_wf)

text \<open>
  No link covers the stored \<open>response_hash\<close> fields, nor anything of the last entry but its
  \<open>prior_event_hash\<close>: rewriting every \<open>response_hash\<close>, or replacing the last entry by any other that keeps its
  \<open>prior_event_hash\<close>, leaves the verdict of \<open>verify_chain\<close> as it was.
\<close>

theorem chain_blind_spots:
  "verify_chain nfc (map (set_response_hash f) ledger) = verify_chain nfc ledger \<and>
   verify_chain nfc (es @ [x\<lparr>len_prior_event_hash := len_prior_event_hash e\<rparr>]) = verify_chain nfc (es @ [e])"
proof
  show "verify_chain nfc (map (set_response_hash f) ledger) = verify_chain nfc ledger"
    by (cases ledger) (simp_all add: verify_chain_def prior_set_response_hash verify_links_response_hash)
  show "verify_chain nfc (es @ [x\<lparr>len_prior_event_hash := len_prior_event_hash e\<rparr>]) = verify_chain nfc (es @ [e])"
  proof (cases es)
    case (Cons d ds)
    have "verify_links nfc 1 d (ds @ [x\<lparr>len_prior_event_hash := len_prior_event_hash e\<rparr>]) = verify_links nfc 1 d (ds @ [e])"
      by (rule verify_links_last) simp
    then show ?thesis by (simp add: verify_chain_def Cons)
  qed (simp add: verify_chain_def)
qed

end
