(* ===== verification/Text_Lines.thy ===== *)
theory Text_Lines
  imports Py_Strings Utf8
begin

text \<open>
  Text files as Python reads them: \<open>read_text (encoding="utf-8")\<close> decodes the bytes and turns every line end into
  LF, and \<open>str.splitlines ()\<close> cuts the text at every character that ends a line.
\<close>

section \<open>Lines of text\<close>

text \<open>Text mode turns CRLF and CR into LF.\<close>

fun universal_newlines :: "pystr \<Rightarrow> pystr" where
  "universal_newlines [] = []"
| "universal_newlines (c # s) =
     (if c = 13 then
        (case s of
           [] \<Rightarrow> [10]
         | d # r \<Rightarrow> if d = 10 then 10 # universal_newlines r else 10 # universal_newlines s)
      else c # universal_newlines s)"

text \<open>The characters at which \<open>str.splitlines ()\<close> ends a line.\<close>

definition line_break :: "nat \<Rightarrow> bool" where
  "line_break c \<longleftrightarrow> (10 \<le> c \<and> c \<le> 13) \<or> (28 \<le> c \<and> c \<le> 30) \<or> c = 133 \<or> c = 8232 \<or> c = 8233"

definition after_break :: "nat \<Rightarrow> pystr \<Rightarrow> pystr" where
  "after_break c s = (case s of [] \<Rightarrow> [] | d # r \<Rightarrow> if c = 13 \<and> d = 10 then r else s)"

lemma after_break_le: "length (after_break c s) \<le> length s"
  by (simp add: after_break_def split: list.split)

function splitlines :: "pystr \<Rightarrow> pystr list" where
  "splitlines s =
     (if s = [] then []
      else takeWhile (\<lambda>c. \<not> line_break c) s #
           (case dropWhile (\<lambda>c. \<not> line_break c) s of [] \<Rightarrow> [] | c # r \<Rightarrow> splitlines (after_break c r)))"
  by pat_completeness auto

termination splitlines
proof (relation "measure length")
  fix s :: pystr and c r
  assume "dropWhile (\<lambda>c. \<not> line_break c) s = c # r"
  then have "length (c # r) \<le> length s" by (metis length_dropWhile_le)
  then show "(after_break c r, s) \<in> measure length" using after_break_le [of c r] by simp
qed simp

declare splitlines.simps [simp del]

definition read_text :: "bytes \<Rightarrow> pystr option" where
  "read_text bs = map_option universal_newlines (utf8_decode False (map unat bs))"

section \<open>Lines that are written come back\<close>

lemma universal_newlines_id: "13 \<notin> set s \<Longrightarrow> universal_newlines s = s"
  by (induction s rule: universal_newlines.induct) (auto split: list.split)

lemma splitlines_Nil [simp]: "splitlines [] = []"
  by (simp add: splitlines.simps)

lemma splitlines_line: "\<forall>c \<in> set l. \<not> line_break c \<Longrightarrow> splitlines (l @ 10 # r) = l # splitlines r"
  by (subst splitlines.simps) (simp add: line_break_def after_break_def split: list.split)

lemma splitlines_lines:
  "\<forall>l \<in> set ls. \<forall>c \<in> set l. \<not> line_break c \<Longrightarrow> splitlines (concat (map (\<lambda>l. l @ [10]) ls)) = ls"
  by (induction ls) (simp_all add: splitlines_line)

lemma splitlines_single: "l \<noteq> [] \<Longrightarrow> \<forall>c \<in> set l. \<not> line_break c \<Longrightarrow> splitlines l = [l]"
proof -
  assume l: "l \<noteq> []" "\<forall>c \<in> set l. \<not> line_break c"
  have t: "takeWhile (\<lambda>c. \<not> line_break c) l = l" and d: "dropWhile (\<lambda>c. \<not> line_break c) l = []"
    using l(2) by (simp_all add: dropWhile_eq_Nil_conv takeWhile_eq_all_conv)
  show ?thesis by (subst splitlines.simps) (simp only: t d l(1) list.case if_False)
qed

text \<open>Text whose only line end is LF: what follows a line end is cut on its own.\<close>

definition lf_text :: "pystr \<Rightarrow> bool" where
  "lf_text s \<longleftrightarrow> (\<forall>c \<in> set s. c = 10 \<or> \<not> line_break c)"

lemma lf_text_append [simp]: "lf_text (a @ b) \<longleftrightarrow> lf_text a \<and> lf_text b"
  by (auto simp: lf_text_def)

lemma lf_text_cut:
  assumes "lf_text s"
  shows "(\<forall>c \<in> set s. \<not> line_break c) \<or> (\<exists>l r. s = l @ 10 # r \<and> (\<forall>c \<in> set l. \<not> line_break c))"
proof (cases "10 \<in> set s")
  case True
  then obtain l r where s: "s = l @ 10 # r" "10 \<notin> set l" by (metis split_list_first)
  then have "\<forall>c \<in> set l. \<not> line_break c" using assms unfolding lf_text_def s(1) by (metis UnCI set_append)
  with s(1) show ?thesis by blast
next
  case False
  then show ?thesis using assms by (auto simp: lf_text_def)
qed

lemma splitlines_append:
  assumes "lf_text s" "s = [] \<or> last s = 10"
  shows "splitlines (s @ t) = splitlines s @ splitlines t"
  using assms
proof (induction "length s" arbitrary: s rule: less_induct)
  case less
  show ?case
  proof (cases "s = []")
    case False
    then have l: "last s = 10" using less.prems by simp
    then have "10 \<in> set s" using False last_in_set by metis
    then have "\<not> (\<forall>c \<in> set s. \<not> line_break c)" by (auto simp: line_break_def)
    then obtain a r where s: "s = a @ 10 # r" "\<forall>c \<in> set a. \<not> line_break c"
      using lf_text_cut [OF less.prems(1)] by blast
    have "splitlines (r @ t) = splitlines r @ splitlines t"
    proof (rule less.hyps)
      show "lf_text r" using less.prems(1) by (simp add: s lf_text_def)
      show "r = [] \<or> last r = 10" using l by (simp add: s split: if_splits)
    qed (simp add: s)
    then show ?thesis using s by (simp add: splitlines_line)
  qed simp
qed

end
