(* ===== verification/Ledger_Store.thy ===== *)
theory Ledger_Store
  imports Ledger_Chain Text_Lines
begin

text \<open>
  \<open>harness_is/state_ledger_write.py\<close>: the state ledger as a JSONL file, one line for each entry, read as a
  whole and appended to under the idempotency, order and chain rules. The file is its bytes, \<open>None\<close> when it
  does not exist; \<open>read_text\<close> and \<open>open ("a")\<close> use UTF-8. Unicode normalisation, the spelling of floats and
  what pydantic makes of a JSON value that is given for an integer field are arguments.
\<close>

record ledger_env =
  lge_nfc :: "pystr \<Rightarrow> pystr"
  lge_floats :: float_codec
  lge_lax_int :: "json \<Rightarrow> int option"

section \<open>One line\<close>

text \<open>\<open>_serialize_entry\<close>.\<close>

definition raw_branch :: "branch_metadata \<Rightarrow> json" where
  "raw_branch bm =
     JObj [(lit ''parent_action_id'', JStr (brm_parent_action_id bm)),
           (lit ''branch_index'', JInt (int (brm_branch_index bm))),
           (lit ''terminal_status'',
            case brm_terminal_status bm of None \<Rightarrow> JNull | Some t \<Rightarrow> JStr (terminal_status_value t))]"

definition raw_fields :: "ledger_entry \<Rightarrow> (pystr \<times> json) list" where
  "raw_fields e =
     [(lit ''action_id'', JStr (len_action_id e)),
      (lit ''idempotency_key'', JStr (len_idempotency_key e)),
      (lit ''actor'', JObj [(lit ''actor_class'', JStr (actor_class_value (act_actor_class (len_actor e)))),
                            (lit ''actor_id'', JStr (act_actor_id (len_actor e)))]),
      (lit ''response_hash'', JStr (bytes_hex (len_response_hash e))),
      (lit ''timestamp'', JStr (isoformat (len_timestamp e))),
      (lit ''prior_event_hash'', JStr (bytes_hex (len_prior_event_hash e)))]
     @ (case len_procedural_tier_snapshot_ref e of
          None \<Rightarrow> [] | Some r \<Rightarrow> [(lit ''procedural_tier_snapshot_ref'', JStr r)])
     @ (case len_branch_metadata e of None \<Rightarrow> [] | Some bm \<Rightarrow> [(lit ''branch_metadata'', raw_branch bm)])"

definition serialize_entry :: "ledger_env \<Rightarrow> ledger_entry \<Rightarrow> pystr" where
  "serialize_entry env e = dumps (lge_floats env) compact (JObj (raw_fields e))"

text \<open>
  \<open>_deserialize_entry\<close> and the validation of the models it builds; \<open>None\<close> stands for the exception that a line
  of another shape raises.
\<close>

fun as_str :: "json \<Rightarrow> pystr option" where
  "as_str (JStr s) = Some s"
| "as_str _ = None"

fun as_obj :: "json \<Rightarrow> (pystr \<times> json) list option" where
  "as_obj (JObj d) = Some d"
| "as_obj _ = None"

definition str_field :: "(pystr \<times> json) list \<Rightarrow> string \<Rightarrow> pystr option" where
  "str_field d k = Option.bind (map_of d (lit k)) as_str"

definition actor_class_of :: "pystr \<Rightarrow> actor_class option" where
  "actor_class_of s = find (\<lambda>c. actor_class_value c = s) [ACTOR_AGENT, ACTOR_SUB_AGENT, ACTOR_OPERATOR]"

definition terminal_status_of :: "json \<Rightarrow> terminal_status option option" where
  "terminal_status_of v =
     (case v of
        JNull \<Rightarrow> Some None
      | JStr s \<Rightarrow> map_option Some (find (\<lambda>t. terminal_status_value t = s) [TS_CANCELLED, TS_COMPLETED, TS_TIMED_OUT])
      | _ \<Rightarrow> None)"

text \<open>An optional field; an absent key and \<open>null\<close> are both \<open>None\<close>.\<close>

definition optional_field :: "(pystr \<times> json) list \<Rightarrow> string \<Rightarrow> (json \<Rightarrow> 'a option) \<Rightarrow> 'a option option" where
  "optional_field d k f = (case py_get d (lit k) of JNull \<Rightarrow> Some None | v \<Rightarrow> map_option Some (f v))"

definition branch_of :: "ledger_env \<Rightarrow> json \<Rightarrow> branch_metadata option" where
  "branch_of env v =
     Option.bind (as_obj v) (\<lambda>d.
     Option.bind (str_field d ''parent_action_id'') (\<lambda>p.
     Option.bind (Option.bind (map_of d (lit ''branch_index'')) (lge_lax_int env)) (\<lambda>i.
     Option.bind (Option.bind (map_of d (lit ''terminal_status'')) terminal_status_of) (\<lambda>t.
       if 0 \<le> i then Some \<lparr>brm_parent_action_id = p, brm_branch_index = nat i, brm_terminal_status = t\<rparr>
       else None))))"

definition actor_of :: "json \<Rightarrow> actor option" where
  "actor_of v =
     Option.bind (as_obj v) (\<lambda>d.
     Option.bind (Option.bind (str_field d ''actor_class'') actor_class_of) (\<lambda>c.
     map_option (\<lambda>i. \<lparr>act_actor_class = c, act_actor_id = i\<rparr>) (str_field d ''actor_id'')))"

definition digest_field :: "(pystr \<times> json) list \<Rightarrow> string \<Rightarrow> bytes option" where
  "digest_field d k =
     (case Option.bind (str_field d k) bytes_fromhex of
        None \<Rightarrow> None
      | Some bs \<Rightarrow> if length bs = 32 then Some bs else None)"

definition deserialize_entry :: "ledger_env \<Rightarrow> pystr \<Rightarrow> ledger_entry option" where
  "deserialize_entry env line =
     Option.bind (Option.bind (loads (lge_floats env) line) as_obj) (\<lambda>d.
     Option.bind (str_field d ''action_id'') (\<lambda>aid.
     Option.bind (str_field d ''idempotency_key'') (\<lambda>key.
     Option.bind (Option.bind (map_of d (lit ''actor'')) actor_of) (\<lambda>act.
     Option.bind (digest_field d ''response_hash'') (\<lambda>rh.
     Option.bind (Option.bind (str_field d ''timestamp'') fromisoformat) (\<lambda>ts.
     Option.bind (digest_field d ''prior_event_hash'') (\<lambda>ph.
     Option.bind (optional_field d ''procedural_tier_snapshot_ref'' as_str) (\<lambda>ref.
     Option.bind (optional_field d ''branch_metadata'' (branch_of env)) (\<lambda>bm.
       Some \<lparr>len_action_id = aid, len_idempotency_key = key, len_actor = act, len_response_hash = rh,
             len_timestamp = ts, len_prior_event_hash = ph, len_procedural_tier_snapshot_ref = ref,
             len_branch_metadata = bm\<rparr>)))))))))"

section \<open>The file\<close>

type_synonym ledger_file = "bytes option"

text \<open>\<open>read_ledger\<close>.\<close>

definition read_ledger :: "ledger_env \<Rightarrow> ledger_file \<Rightarrow> ledger_entry list option" where
  "read_ledger env file =
     (case file of
        None \<Rightarrow> Some []
      | Some bs \<Rightarrow>
          Option.bind (utf8_decode False (map unat bs)) (\<lambda>text.
            those (map (deserialize_entry env)
              (filter (\<lambda>line. \<not> py_blank line) (splitlines (universal_newlines text))))))"

record entry_payload =
  epl_action_id :: pystr
  epl_idempotency_key :: pystr
  epl_actor :: actor
  epl_timestamp :: py_datetime
  epl_procedural_tier_snapshot_ref :: "pystr option"
  epl_branch_metadata :: "branch_metadata option"

record write_key =
  wky_thread_id :: pystr
  wky_step_id :: pystr
  wky_idempotency_key :: pystr

datatype write_result = APPENDED | IDEMPOTENT_NOOP

datatype write_error =
    WRITE_KEY_MISMATCH
  | LEDGER_UNREADABLE
  | TIMES_NOT_COMPARABLE
  | NON_MONOTONIC_TIMESTAMP
  | TEXT_NOT_ENCODABLE

definition draft_entry :: "entry_payload \<Rightarrow> bytes \<Rightarrow> ledger_entry" where
  "draft_entry p prior_hash =
     \<lparr>len_action_id = epl_action_id p, len_idempotency_key = epl_idempotency_key p, len_actor = epl_actor p,
      len_response_hash = ALL_ZEROS_SENTINEL, len_timestamp = epl_timestamp p, len_prior_event_hash = prior_hash,
      len_procedural_tier_snapshot_ref = epl_procedural_tier_snapshot_ref p,
      len_branch_metadata = epl_branch_metadata p\<rparr>"

text \<open>The entry that follows a prior one: the draft with its own hash.\<close>

definition seal_entry :: "ledger_env \<Rightarrow> ledger_entry option \<Rightarrow> entry_payload \<Rightarrow> ledger_entry option" where
  "seal_entry env prior p =
     Option.bind (construct_prior_event_hash (lge_nfc env) prior) (\<lambda>ph.
       let draft = draft_entry p ph
       in map_option (\<lambda>h. draft\<lparr>len_response_hash := h\<rparr>) (compute_response_hash (lge_nfc env) draft))"

text \<open>Opening for appending creates the file; the text is encoded as a whole before anything is written.\<close>

definition append_text :: "ledger_file \<Rightarrow> pystr \<Rightarrow> ledger_file \<times> bool" where
  "append_text file s =
     (let old = (case file of None \<Rightarrow> [] | Some bs \<Rightarrow> bs)
      in case utf8_encode s of None \<Rightarrow> (Some old, False) | Some bs \<Rightarrow> (Some (old @ bs), True))"

definition out_of_order :: "ledger_entry option \<Rightarrow> py_datetime \<Rightarrow> bool option" where
  "out_of_order prior t = (case prior of None \<Rightarrow> Some False | Some e \<Rightarrow> datetime_less t (len_timestamp e))"

definition last_entry :: "ledger_entry list \<Rightarrow> ledger_entry option" where
  "last_entry ledger = (if ledger = [] then None else Some (last ledger))"

definition append_ledger_entry ::
  "ledger_env \<Rightarrow> ledger_file \<Rightarrow> entry_payload \<Rightarrow> write_key \<Rightarrow> ledger_file \<times> (write_error + write_result)" where
  "append_ledger_entry env file p wk =
     (if wky_idempotency_key wk \<noteq> epl_idempotency_key p then (file, Inl WRITE_KEY_MISMATCH)
      else case read_ledger env file of
        None \<Rightarrow> (file, Inl LEDGER_UNREADABLE)
      | Some ledger \<Rightarrow>
          if \<exists>e \<in> set ledger. len_idempotency_key e = epl_idempotency_key p then (file, Inr IDEMPOTENT_NOOP)
          else case out_of_order (last_entry ledger) (epl_timestamp p) of
            None \<Rightarrow> (file, Inl TIMES_NOT_COMPARABLE)
          | Some True \<Rightarrow> (file, Inl NON_MONOTONIC_TIMESTAMP)
          | Some False \<Rightarrow>
              (case seal_entry env (last_entry ledger) p of
                 None \<Rightarrow> (file, Inl TEXT_NOT_ENCODABLE)
               | Some e \<Rightarrow>
                   (case append_text file (serialize_entry env e @ [10]) of
                      (file', ok) \<Rightarrow> (file', if ok then Inr APPENDED else Inl TEXT_NOT_ENCODABLE))))"

section \<open>Lines that read back\<close>

definition raw_texts :: "ledger_entry \<Rightarrow> pystr list" where
  "raw_texts e =
     [len_action_id e, len_idempotency_key e, act_actor_id (len_actor e)]
     @ (case len_procedural_tier_snapshot_ref e of None \<Rightarrow> [] | Some r \<Rightarrow> [r])
     @ (case len_branch_metadata e of None \<Rightarrow> [] | Some bm \<Rightarrow> [brm_parent_action_id bm])"

text \<open>An entry that Python can hold, write in UTF-8 and hash.\<close>

definition encodable :: "ledger_entry \<Rightarrow> bool" where
  "encodable e \<longleftrightarrow>
     (\<forall>s \<in> set (raw_texts e). list_all valid_cp s) \<and> valid_datetime (len_timestamp e) \<and>
     length (len_prior_event_hash e) = 32 \<and> length (len_response_hash e) = 32"

text \<open>The three line ends that JSON leaves as they are do not occur.\<close>

definition one_line :: "ledger_entry \<Rightarrow> bool" where
  "one_line e \<longleftrightarrow> (\<forall>s \<in> set (raw_texts e). \<forall>c \<in> set s. c \<notin> {133, 8232, 8233})"

definition lax_int_ok :: "ledger_env \<Rightarrow> bool" where
  "lax_int_ok env \<longleftrightarrow> (\<forall>i. lge_lax_int env (JInt i) = Some i)"

lemma actor_class_of_value: "actor_class_of (actor_class_value c) = Some c"
  by (cases c) (simp_all add: actor_class_of_def)

lemma terminal_status_of_value:
  "terminal_status_of (case t of None \<Rightarrow> JNull | Some t \<Rightarrow> JStr (terminal_status_value t)) = Some t"
proof (cases t)
  case (Some x)
  then show ?thesis by (cases x) (simp_all add: terminal_status_of_def)
qed (simp add: terminal_status_of_def)

lemma raw_lookups:
  "map_of (raw_fields e) (lit ''action_id'') = Some (JStr (len_action_id e))"
  "map_of (raw_fields e) (lit ''idempotency_key'') = Some (JStr (len_idempotency_key e))"
  "map_of (raw_fields e) (lit ''actor'') =
     Some (JObj [(lit ''actor_class'', JStr (actor_class_value (act_actor_class (len_actor e)))),
                 (lit ''actor_id'', JStr (act_actor_id (len_actor e)))])"
  "map_of (raw_fields e) (lit ''response_hash'') = Some (JStr (bytes_hex (len_response_hash e)))"
  "map_of (raw_fields e) (lit ''timestamp'') = Some (JStr (isoformat (len_timestamp e)))"
  "map_of (raw_fields e) (lit ''prior_event_hash'') = Some (JStr (bytes_hex (len_prior_event_hash e)))"
  "map_of (raw_fields e) (lit ''procedural_tier_snapshot_ref'') = map_option JStr (len_procedural_tier_snapshot_ref e)"
  "map_of (raw_fields e) (lit ''branch_metadata'') = map_option raw_branch (len_branch_metadata e)"
  by (simp_all add: raw_fields_def split: option.split)

lemma raw_fields_wf:
  assumes "encodable e"
  shows "wf_json fc (JObj (raw_fields e))"
proof -
  have "list_all valid_cp (actor_class_value c)" for c by (cases c) (simp_all add: valid_cp_def)
  moreover have "list_all valid_cp (terminal_status_value t)" for t by (cases t) (simp_all add: valid_cp_def)
  ultimately show ?thesis
    using assms by (auto simp: raw_fields_def raw_branch_def encodable_def raw_texts_def bytes_hex_valid
        isoformat_valid valid_cp_def split: option.split)
qed

lemma branch_of_raw: "lax_int_ok env \<Longrightarrow> branch_of env (raw_branch bm) = Some bm"
  by (simp add: branch_of_def raw_branch_def str_field_def lax_int_ok_def terminal_status_of_value)

lemma raw_branch_not_null: "raw_branch bm \<noteq> JNull"
  by (simp add: raw_branch_def)

lemma actor_of_raw:
  "actor_of (JObj [(lit ''actor_class'', JStr (actor_class_value (act_actor_class a))),
                   (lit ''actor_id'', JStr (act_actor_id a))]) = Some a"
  by (simp add: actor_of_def str_field_def actor_class_of_value)

lemma optional_field_raw:
  assumes "map_of d (lit k) = map_option g x" "\<And>y. f (g y) = Some y" "\<And>y. g y \<noteq> JNull"
  shows "optional_field d k f = Some x"
proof (cases x)
  case (Some y)
  then have "py_get d (lit k) = g y" using assms(1) by (simp add: py_get_def)
  then show ?thesis using Some assms(2,3) [of y] unfolding optional_field_def by (cases "g y") simp_all
qed (use assms in \<open>simp add: optional_field_def py_get_def\<close>)

lemma raw_str_fields:
  "str_field (raw_fields e) ''action_id'' = Some (len_action_id e)"
  "str_field (raw_fields e) ''idempotency_key'' = Some (len_idempotency_key e)"
  "str_field (raw_fields e) ''response_hash'' = Some (bytes_hex (len_response_hash e))"
  "str_field (raw_fields e) ''timestamp'' = Some (isoformat (len_timestamp e))"
  "str_field (raw_fields e) ''prior_event_hash'' = Some (bytes_hex (len_prior_event_hash e))"
  unfolding str_field_def raw_lookups bind.simps as_str.simps by (rule refl)+

lemma raw_optional_fields:
  "optional_field (raw_fields e) ''procedural_tier_snapshot_ref'' as_str = Some (len_procedural_tier_snapshot_ref e)"
  "lax_int_ok env \<Longrightarrow> optional_field (raw_fields e) ''branch_metadata'' (branch_of env) = Some (len_branch_metadata e)"
  by (rule optional_field_raw [OF raw_lookups(7)], simp_all)
    (rule optional_field_raw [OF raw_lookups(8)], simp_all add: branch_of_raw raw_branch_not_null)

lemma deserialize_serialize:
  assumes "encodable e" "lax_int_ok env"
  shows "deserialize_entry env (serialize_entry env e) = Some e"
proof -
  have l: "loads (lge_floats env) (serialize_entry env e) = Some (JObj (raw_fields e))"
    unfolding serialize_entry_def by (rule loads_dumps [OF raw_fields_wf [OF assms(1)]])
  have d: "digest_field (raw_fields e) ''response_hash'' = Some (len_response_hash e)"
    "digest_field (raw_fields e) ''prior_event_hash'' = Some (len_prior_event_hash e)"
    using assms(1) by (simp_all add: digest_field_def raw_str_fields bytes_fromhex_hex encodable_def)
  have t: "fromisoformat (isoformat (len_timestamp e)) = Some (len_timestamp e)"
    using assms(1) by (simp add: fromisoformat_isoformat encodable_def)
  show ?thesis
    unfolding deserialize_entry_def l bind.simps as_obj.simps raw_str_fields raw_lookups actor_of_raw d t
      raw_optional_fields(1) raw_optional_fields(2) [OF assms(2)]
    by simp
qed

section \<open>Files that read back\<close>

text \<open>What the code relies on for its arguments.\<close>

definition env_ok :: "ledger_env \<Rightarrow> bool" where
  "env_ok env \<longleftrightarrow> lax_int_ok env \<and> printable_floats (lge_floats env) \<and>
     (\<forall>s. list_all valid_cp s \<longrightarrow> list_all valid_cp (lge_nfc env s))"

definition ledger_text :: "ledger_env \<Rightarrow> ledger_entry list \<Rightarrow> pystr" where
  "ledger_text env es = concat (map (\<lambda>e. serialize_entry env e @ [10]) es)"

definition file_holds :: "ledger_env \<Rightarrow> ledger_file \<Rightarrow> ledger_entry list \<Rightarrow> bool" where
  "file_holds env file es \<longleftrightarrow>
     (case file of None \<Rightarrow> es = [] | Some bs \<Rightarrow> utf8_encode (ledger_text env es) = Some bs)"

definition ascii_text :: "pystr \<Rightarrow> bool" where
  "ascii_text s \<longleftrightarrow> list_all (\<lambda>c. c < 127) s"

lemma ascii_text_D: "ascii_text s \<Longrightarrow> c \<in> set s \<Longrightarrow> c < 127"
  by (simp add: ascii_text_def list_all_iff)

lemma bytes_hex_ascii: "ascii_text (bytes_hex bs)"
proof -
  have "hex_digit (unat b div 16) < 127" "hex_digit (unat b mod 16) < 127" for b :: "8 word"
    using byte_less [of b] by (auto intro!: conjunct2 [OF hex_digit_printable])
  then show ?thesis by (auto simp: bytes_hex_def ascii_text_def list_all_iff)
qed

lemma isoformat_ascii: "ascii_text (isoformat t)"
proof -
  have "ascii_text (dec_pad k n)" for k n
    using dec_pad_digits by (fastforce simp: ascii_text_def list_all_iff dec_digit_def)
  then show ?thesis
    by (simp add: isoformat_def iso_offset_def ascii_text_def split: option.split)
qed

lemma actor_class_ascii: "ascii_text (actor_class_value a)"
  by (cases a) (simp_all add: ascii_text_def)

lemma terminal_status_ascii: "ascii_text (terminal_status_value t)"
  by (cases t) (simp_all add: ascii_text_def)

text \<open>A member whose key and value hold only characters of a set or ASCII.\<close>

definition member_chars :: "nat set \<Rightarrow> pystr \<times> json \<Rightarrow> bool" where
  "member_chars A kv \<longleftrightarrow> ascii_text (fst kv) \<and> (\<forall>c \<in> json_chars (snd kv). c < 127 \<or> c \<in> A)"

lemma json_chars_members: "\<forall>kv \<in> set kvs. member_chars A kv \<Longrightarrow> c \<in> json_chars (JObj kvs) \<Longrightarrow> c < 127 \<or> c \<in> A"
  by (auto simp: member_chars_def dest: ascii_text_D)

lemma member_chars_str: "ascii_text k \<Longrightarrow> (ascii_text s \<or> set s \<subseteq> A) \<Longrightarrow> member_chars A (k, JStr s)"
  by (auto simp: member_chars_def dest: ascii_text_D)

lemma member_chars_obj: "ascii_text k \<Longrightarrow> \<forall>kv \<in> set kvs. member_chars A kv \<Longrightarrow> member_chars A (k, JObj kvs)"
  unfolding member_chars_def [of A "(k, JObj kvs)"] using json_chars_members by simp

lemma key_ascii:
  "ascii_text (lit ''action_id'')" "ascii_text (lit ''idempotency_key'')" "ascii_text (lit ''actor'')"
  "ascii_text (lit ''actor_class'')" "ascii_text (lit ''actor_id'')" "ascii_text (lit ''response_hash'')"
  "ascii_text (lit ''timestamp'')" "ascii_text (lit ''prior_event_hash'')"
  "ascii_text (lit ''procedural_tier_snapshot_ref'')" "ascii_text (lit ''branch_metadata'')"
  "ascii_text (lit ''parent_action_id'')" "ascii_text (lit ''branch_index'')" "ascii_text (lit ''terminal_status'')"
  by (simp_all add: ascii_text_def)

definition raw_text_chars :: "ledger_entry \<Rightarrow> nat set" where
  "raw_text_chars e = (\<Union>s \<in> set (raw_texts e). set s)"

lemma raw_text_chars_fields:
  "set (len_action_id e) \<subseteq> raw_text_chars e" "set (len_idempotency_key e) \<subseteq> raw_text_chars e"
  "set (act_actor_id (len_actor e)) \<subseteq> raw_text_chars e"
  "len_procedural_tier_snapshot_ref e = Some r \<Longrightarrow> set r \<subseteq> raw_text_chars e"
  "len_branch_metadata e = Some bm \<Longrightarrow> set (brm_parent_action_id bm) \<subseteq> raw_text_chars e"
  by (auto simp: raw_text_chars_def raw_texts_def)

lemma raw_branch_members:
  assumes "set (brm_parent_action_id bm) \<subseteq> A" "ascii_text k"
  shows "member_chars A (k, raw_branch bm)"
  unfolding raw_branch_def
  by (intro member_chars_obj [OF assms(2)])
    (auto simp: key_ascii terminal_status_ascii assms(1) member_chars_str member_chars_def [of A "(_, JInt _)"]
      member_chars_def [of A "(_, JNull)"] simp del: lit_Cons split: option.split)

lemma raw_members: "\<forall>kv \<in> set (raw_fields e). member_chars (raw_text_chars e) kv"
  unfolding raw_fields_def
  by (auto simp: key_ascii bytes_hex_ascii isoformat_ascii actor_class_ascii raw_text_chars_fields member_chars_str
      member_chars_obj raw_branch_members simp del: lit_Cons split: option.splits)

lemma raw_chars: "c \<in> json_chars (JObj (raw_fields e)) \<Longrightarrow> c < 127 \<or> (\<exists>s \<in> set (raw_texts e). c \<in> set s)"
  using json_chars_members [OF raw_members] by (auto simp: raw_text_chars_def)

lemma serialize_chars:
  assumes "env_ok env" "c \<in> set (serialize_entry env e)"
  shows "32 \<le> c \<and> (c < 127 \<or> (\<exists>s \<in> set (raw_texts e). c \<in> set s))"
  using dumps_printable [of "lge_floats env" compact c "JObj (raw_fields e)"] raw_chars assms
  unfolding serialize_entry_def env_ok_def by (auto simp: compact_def)

lemma serialize_one_line: "env_ok env \<Longrightarrow> one_line e \<Longrightarrow> c \<in> set (serialize_entry env e) \<Longrightarrow> \<not> line_break c"
  using serialize_chars [of env c e] by (auto simp: one_line_def line_break_def)

lemma serialize_not_blank: "\<not> py_blank (serialize_entry env e)"
  by (simp add: serialize_entry_def dumps_obj py_blank_def py_isspace_def)

lemma serialize_encodes:
  assumes "env_ok env" "encodable e"
  shows "\<exists>bs. utf8_encode (serialize_entry env e @ [10]) = Some bs"
proof (rule utf8_encode_valid)
  show "\<forall>c \<in> set (serialize_entry env e @ [10]). valid_cp c"
    using serialize_chars [OF assms(1)] assms(2) by (fastforce simp: encodable_def valid_cp_def list_all_iff)
qed

lemma file_holds_append:
  assumes "env_ok env" "encodable e" "file_holds env file es"
  shows "\<exists>bs. append_text file (serialize_entry env e @ [10]) = (Some bs, True) \<and> file_holds env (Some bs) (es @ [e])"
proof -
  obtain bs where bs: "utf8_encode (serialize_entry env e @ [10]) = Some bs" using serialize_encodes [OF assms(1,2)] by blast
  define old where "old = (case file of None \<Rightarrow> [] | Some bs \<Rightarrow> bs)"
  have "utf8_encode (ledger_text env es) = Some old"
    using assms(3) by (cases "file") (simp_all add: file_holds_def old_def ledger_text_def utf8_encode_def)
  then have "utf8_encode (ledger_text env es @ serialize_entry env e @ [10]) = Some (old @ bs)"
    using bs by (simp add: utf8_encode_append [of "ledger_text env es"])
  then have "file_holds env (Some (old @ bs)) (es @ [e])"
    by (simp add: file_holds_def ledger_text_def)
  then show ?thesis by (simp add: append_text_def bs old_def)
qed

lemma those_map_Some: "\<forall>x \<in> set xs. f (g x) = Some x \<Longrightarrow> those (map f (map g xs)) = Some xs"
  by (induction xs) simp_all

lemma read_held:
  assumes "env_ok env" "file_holds env file es" "\<forall>e \<in> set es. encodable e \<and> one_line e"
  shows "read_ledger env file = Some es"
proof (cases "file")
  case None
  then show ?thesis using assms(2) by (simp add: read_ledger_def file_holds_def)
next
  case (Some bs)
  then have dec: "utf8_decode False (map unat bs) = Some (ledger_text env es)"
    using assms(2) by (simp add: file_holds_def utf8_decode_encode)
  have nb: "\<not> line_break c" if "e \<in> set es" "c \<in> set (serialize_entry env e)" for e c
    using serialize_one_line [OF assms(1) _ that(2)] assms(3) that(1) by blast
  have "line_break 13" by (simp add: line_break_def)
  then have "13 \<notin> set (ledger_text env es)" using nb by (auto simp: ledger_text_def)
  moreover have "splitlines (ledger_text env es) = map (serialize_entry env) es"
    using splitlines_lines [of "map (serialize_entry env) es"] nb by (simp add: ledger_text_def comp_def)
  moreover have "filter (\<lambda>line. \<not> py_blank line) (map (serialize_entry env) es) = map (serialize_entry env) es"
    by (auto simp: serialize_not_blank intro!: filter_True)
  moreover have "those (map (deserialize_entry env) (map (serialize_entry env) es)) = Some es"
    using deserialize_serialize assms(1,3) by (intro those_map_Some) (simp add: env_ok_def)
  ultimately show ?thesis by (simp add: read_ledger_def Some dec universal_newlines_id)
qed

end
