(* ===== verification/Ledger_Correctness.thy ===== *)
theory Ledger_Correctness
  imports Ledger_Store
begin

text \<open>
  What the writes of \<open>harness_is/state_ledger_write.py\<close> keep: a file that reads back entry by entry, a chain
  that verifies, one entry for each idempotency key, times in order; and the text that breaks it.
\<close>

section \<open>Ledgers in order\<close>

fun times_in_order :: "ledger_entry list \<Rightarrow> bool" where
  "times_in_order (a # b # es) \<longleftrightarrow>
     datetime_less (len_timestamp b) (len_timestamp a) = Some False \<and> times_in_order (b # es)"
| "times_in_order _ \<longleftrightarrow> True"

definition sealed :: "ledger_env \<Rightarrow> ledger_entry \<Rightarrow> bool" where
  "sealed env e \<longleftrightarrow> encodable e \<and> one_line e \<and> compute_response_hash (lge_nfc env) e = Some (len_response_hash e)"

definition ledger_ok :: "ledger_env \<Rightarrow> ledger_entry list \<Rightarrow> bool" where
  "ledger_ok env es \<longleftrightarrow>
     (\<forall>e \<in> set es. sealed env e) \<and> linked (lge_nfc env) es \<and> distinct (map len_idempotency_key es) \<and> times_in_order es"

text \<open>A payload whose entry can be written on one line.\<close>

definition payload_encodable :: "entry_payload \<Rightarrow> bool" where
  "payload_encodable p \<longleftrightarrow> encodable (draft_entry p ALL_ZEROS_SENTINEL)"

definition payload_ok :: "entry_payload \<Rightarrow> bool" where
  "payload_ok p \<longleftrightarrow> payload_encodable p \<and> one_line (draft_entry p ALL_ZEROS_SENTINEL)"

text \<open>The entry is the payload with two digests.\<close>

definition entry_of :: "entry_payload \<Rightarrow> ledger_entry \<Rightarrow> bool" where
  "entry_of p e \<longleftrightarrow> draft_entry p (len_prior_event_hash e) = e\<lparr>len_response_hash := ALL_ZEROS_SENTINEL\<rparr>"

lemma times_in_order_snoc:
  "times_in_order (es @ [e]) \<longleftrightarrow>
     times_in_order es \<and> (es \<noteq> [] \<longrightarrow> datetime_less (len_timestamp e) (len_timestamp (last es)) = Some False)"
  by (induction es rule: times_in_order.induct) auto

lemma raw_texts_draft: "raw_texts (draft_entry p h) = raw_texts (draft_entry p h')"
  by (simp add: raw_texts_def draft_entry_def)

lemma raw_texts_hash: "raw_texts (e\<lparr>len_response_hash := h\<rparr>) = raw_texts e"
  by (simp add: raw_texts_def)

lemma draft_encodable: "payload_encodable p \<Longrightarrow> length h = 32 \<Longrightarrow> encodable (draft_entry p h)"
  unfolding payload_encodable_def encodable_def raw_texts_draft [of p h ALL_ZEROS_SENTINEL]
  by (simp add: draft_entry_def)

lemma draft_one_line: "payload_ok p \<Longrightarrow> one_line (draft_entry p h)"
  unfolding payload_ok_def one_line_def raw_texts_draft [of p h ALL_ZEROS_SENTINEL] by simp

lemma encodable_wf:
  assumes "env_ok env" "encodable e"
  shows "wf_entry (lge_nfc env) e"
proof -
  have "list_all valid_cp (actor_class_value c)" for c by (cases c) (simp_all add: valid_cp_def)
  moreover have "list_all valid_cp (terminal_status_value t)" for t by (cases t) (simp_all add: valid_cp_def)
  ultimately show ?thesis
    using assms by (auto simp: wf_entry_def entry_texts_def encodable_def raw_texts_def env_ok_def split: option.splits)
qed

lemma seal_entry_sealed:
  assumes "env_ok env" "payload_encodable p" "\<forall>e. prior = Some e \<longrightarrow> encodable e"
  shows "\<exists>e. seal_entry env prior p = Some e \<and> entry_of p e \<and> encodable e \<and>
    construct_prior_event_hash (lge_nfc env) prior = Some (len_prior_event_hash e) \<and>
    compute_response_hash (lge_nfc env) e = Some (len_response_hash e) \<and> raw_texts e = raw_texts (draft_entry p ALL_ZEROS_SENTINEL)"
proof -
  obtain ph where ph: "construct_prior_event_hash (lge_nfc env) prior = Some ph" "length ph = 32"
  proof (cases prior)
    case None
    then show ?thesis using that by (simp add: construct_prior_event_hash_def ALL_ZEROS_SENTINEL_def)
  next
    case (Some e)
    then obtain h where "compute_response_hash (lge_nfc env) e = Some h"
      using wf_hash encodable_wf assms(1,3) by blast
    then show ?thesis using that hash_length Some by (simp add: construct_prior_event_hash_def)
  qed
  define d where "d = draft_entry p ph"
  have d: "encodable d" unfolding d_def by (rule draft_encodable [OF assms(2) ph(2)])
  then obtain h where h: "compute_response_hash (lge_nfc env) d = Some h" using wf_hash encodable_wf assms(1) by blast
  have s: "d\<lparr>len_response_hash := h\<rparr> = set_response_hash (\<lambda>_. h) d" by (simp add: set_response_hash_def)
  have "seal_entry env prior p = Some (d\<lparr>len_response_hash := h\<rparr>)" using ph h by (simp add: seal_entry_def d_def)
  moreover have "entry_of p (d\<lparr>len_response_hash := h\<rparr>)" by (simp add: entry_of_def d_def draft_entry_def)
  moreover have "encodable (d\<lparr>len_response_hash := h\<rparr>)"
    using d hash_length [OF h] unfolding encodable_def raw_texts_hash by simp
  moreover have "compute_response_hash (lge_nfc env) (d\<lparr>len_response_hash := h\<rparr>) = Some h"
    unfolding s hash_ignores_response_hash by (rule h)
  moreover have "raw_texts (d\<lparr>len_response_hash := h\<rparr>) = raw_texts (draft_entry p ALL_ZEROS_SENTINEL)"
    unfolding raw_texts_hash d_def by (rule raw_texts_draft)
  ultimately show ?thesis using ph(1) by (intro exI [of _ "d\<lparr>len_response_hash := h\<rparr>"]) (simp add: d_def draft_entry_def)
qed

text \<open>What a write does to a file that holds a ledger.\<close>

definition write_outcome ::
  "ledger_env \<Rightarrow> ledger_file \<Rightarrow> ledger_entry list \<Rightarrow> entry_payload \<Rightarrow> write_key \<Rightarrow>
     ledger_file \<times> (write_error + write_result) \<Rightarrow> bool" where
  "write_outcome env fl es p wk out \<longleftrightarrow>
     (case snd out of
        Inr APPENDED \<Rightarrow>
          (\<exists>e. entry_of p e \<and> ledger_ok env (es @ [e]) \<and> file_holds env (fst out) (es @ [e]))
      | Inr IDEMPOTENT_NOOP \<Rightarrow>
          fst out = fl \<and> (\<exists>e \<in> set es. len_idempotency_key e = epl_idempotency_key p)
      | Inl WRITE_KEY_MISMATCH \<Rightarrow> fst out = fl \<and> wky_idempotency_key wk \<noteq> epl_idempotency_key p
      | Inl TIMES_NOT_COMPARABLE \<Rightarrow>
          fst out = fl \<and> es \<noteq> [] \<and> datetime_less (epl_timestamp p) (len_timestamp (last es)) = None
      | Inl NON_MONOTONIC_TIMESTAMP \<Rightarrow>
          fst out = fl \<and> es \<noteq> [] \<and> datetime_less (epl_timestamp p) (len_timestamp (last es)) = Some True
      | Inl LEDGER_UNREADABLE \<Rightarrow> False
      | Inl TEXT_NOT_ENCODABLE \<Rightarrow> False)"

lemma ledger_ok_read: "env_ok env \<Longrightarrow> file_holds env fl es \<Longrightarrow> ledger_ok env es \<Longrightarrow> read_ledger env fl = Some es"
  by (rule read_held) (auto simp: ledger_ok_def sealed_def)

lemma entry_of_fields: "entry_of p e \<Longrightarrow> len_idempotency_key e = epl_idempotency_key p \<and> len_timestamp e = epl_timestamp p"
  by (cases e) (simp add: entry_of_def draft_entry_def)

lemma ledger_ok_snoc:
  assumes "ledger_ok env es" "sealed env e" "entry_of p e"
    and "\<forall>x \<in> set es. len_idempotency_key x \<noteq> epl_idempotency_key p"
    and "construct_prior_event_hash (lge_nfc env) (last_entry es) = Some (len_prior_event_hash e)"
    and "out_of_order (last_entry es) (epl_timestamp p) = Some False"
  shows "ledger_ok env (es @ [e])"
proof -
  have "linked (lge_nfc env) (es @ [e])" using assms(1,5) by (simp add: linked_snoc ledger_ok_def last_entry_def)
  moreover have "distinct (map len_idempotency_key (es @ [e]))"
    using assms(1,4) entry_of_fields [OF assms(3)] by (auto simp: ledger_ok_def)
  moreover have "times_in_order (es @ [e])"
    using assms(1,6) entry_of_fields [OF assms(3)]
    by (auto simp: times_in_order_snoc ledger_ok_def out_of_order_def last_entry_def split: if_splits)
  ultimately show ?thesis using assms(1,2) by (simp add: ledger_ok_def)
qed

lemma append_outcome:
  assumes env: "env_ok env" and held: "file_holds env fl es" and ok: "ledger_ok env es" and p: "payload_ok p"
  shows "write_outcome env fl es p wk (append_ledger_entry env fl p wk)"
proof -
  note r = ledger_ok_read [OF env held ok]
  show ?thesis
  proof (cases "wky_idempotency_key wk \<noteq> epl_idempotency_key p")
    case True
    then show ?thesis by (simp add: append_ledger_entry_def write_outcome_def)
  next
    case key: False
    show ?thesis
    proof (cases "\<exists>e \<in> set es. len_idempotency_key e = epl_idempotency_key p")
      case True
      then show ?thesis using key r by (simp add: append_ledger_entry_def write_outcome_def)
    next
      case fresh: False
      show ?thesis
      proof (cases "out_of_order (last_entry es) (epl_timestamp p) = Some False")
        case order: False
        then have "es \<noteq> []" by (auto simp: out_of_order_def last_entry_def)
        then have "out_of_order (last_entry es) (epl_timestamp p) = datetime_less (epl_timestamp p) (len_timestamp (last es))"
          by (simp add: out_of_order_def last_entry_def)
        then show ?thesis using order key fresh r \<open>es \<noteq> []\<close>
          by (cases "datetime_less (epl_timestamp p) (len_timestamp (last es))")
            (auto simp: append_ledger_entry_def write_outcome_def)
      next
        case order: True
        have "\<forall>e. last_entry es = Some e \<longrightarrow> encodable e"
          using ok by (auto simp: last_entry_def ledger_ok_def sealed_def)
        then obtain e where e: "seal_entry env (last_entry es) p = Some e" "entry_of p e" "encodable e"
          "construct_prior_event_hash (lge_nfc env) (last_entry es) = Some (len_prior_event_hash e)"
          "compute_response_hash (lge_nfc env) e = Some (len_response_hash e)"
          "raw_texts e = raw_texts (draft_entry p ALL_ZEROS_SENTINEL)"
          using seal_entry_sealed [OF env] p unfolding payload_ok_def by blast
        obtain bs where bs: "append_text fl (serialize_entry env e @ [10]) = (Some bs, True)"
          "file_holds env (Some bs) (es @ [e])"
          using file_holds_append [OF env e(3) held] by blast
        have "sealed env e" using e(3,5,6) p by (simp add: sealed_def payload_ok_def one_line_def)
        from ledger_ok_snoc [OF ok this e(2) _ e(4) order] fresh have "ledger_ok env (es @ [e])" by blast
        then have "write_outcome env fl es p wk (Some bs, Inr APPENDED)"
          using bs(2) e(2) by (auto simp: write_outcome_def)
        moreover have "append_ledger_entry env fl p wk = (Some bs, Inr APPENDED)"
          using key fresh r order e(1) bs(1) by (simp add: append_ledger_entry_def)
        ultimately show ?thesis by simp
      qed
    qed
  qed
qed

section \<open>Runs of writes\<close>

fun write_all ::
  "ledger_env \<Rightarrow> ledger_file \<Rightarrow> (entry_payload \<times> write_key) list \<Rightarrow> ledger_file \<times> (write_error + write_result) list" where
  "write_all env fl [] = (fl, [])"
| "write_all env fl (call # calls) =
     (case append_ledger_entry env fl (fst call) (snd call) of
        (fl', out) \<Rightarrow> (case write_all env fl' calls of (fl'', outs) \<Rightarrow> (fl'', out # outs)))"

text \<open>What a run adds: one entry for each write that was appended, and an entry for each write that was accepted.\<close>

definition accepted :: "ledger_entry list \<Rightarrow> (entry_payload \<times> write_key) \<Rightarrow> write_error + write_result \<Rightarrow> bool" where
  "accepted es call out \<longleftrightarrow>
     (\<forall>r. out = Inr r \<longrightarrow>
        wky_idempotency_key (snd call) = epl_idempotency_key (fst call) \<and>
        epl_idempotency_key (fst call) \<in> len_idempotency_key ` set es)"

lemma accepted_mono: "accepted es call out \<Longrightarrow> accepted (es @ es') call out"
  by (auto simp: accepted_def)

lemma append_key: "append_ledger_entry env fl p wk = (fl', Inr r) \<Longrightarrow> wky_idempotency_key wk = epl_idempotency_key p"
  by (simp add: append_ledger_entry_def split: if_splits)

lemma write_step:
  assumes "env_ok env" "file_holds env fl es" "ledger_ok env es" "payload_ok p"
    and "append_ledger_entry env fl p wk = (fl', out)"
  shows "\<exists>new. file_holds env fl' (es @ new) \<and> ledger_ok env (es @ new) \<and> (\<forall>e \<in> set new. entry_of p e) \<and>
    length new = (if out = Inr APPENDED then 1 else 0) \<and> accepted (es @ new) (p, wk) out"
proof -
  have o: "write_outcome env fl es p wk (fl', out)" using append_outcome [OF assms(1-4), of wk] assms(5) by simp
  have key: "wky_idempotency_key wk = epl_idempotency_key p" if "out = Inr r" for r
    using append_key assms(5) that by blast
  show ?thesis
  proof (cases "out = Inr APPENDED")
    case True
    then obtain e where e: "entry_of p e" "ledger_ok env (es @ [e])" "file_holds env fl' (es @ [e])"
      using o by (auto simp: write_outcome_def)
    then have "accepted (es @ [e]) (p, wk) out" using key True entry_of_fields [OF e(1)] by (simp add: accepted_def)
    then show ?thesis using e True by (intro exI [of _ "[e]"]) simp
  next
    case False
    then have "fl' = fl" using o by (auto simp: write_outcome_def split: sum.splits write_error.splits write_result.splits)
    moreover have "accepted es (p, wk) out"
      using o False key by (auto simp: write_outcome_def accepted_def intro: rev_image_eqI split: sum.splits write_result.splits)
    ultimately show ?thesis using assms(2,3) False by (intro exI [of _ "[]"]) simp
  qed
qed

lemma write_run:
  assumes "env_ok env" "file_holds env fl es" "ledger_ok env es" "\<forall>call \<in> set calls. payload_ok (fst call)"
    and "write_all env fl calls = (fl', outs)"
  shows "\<exists>new. file_holds env fl' (es @ new) \<and> ledger_ok env (es @ new) \<and>
    (\<forall>e \<in> set new. \<exists>call \<in> set calls. entry_of (fst call) e) \<and>
    length new = length (filter (\<lambda>out. out = Inr APPENDED) outs) \<and> list_all2 (accepted (es @ new)) calls outs"
  using assms(2-5)
proof (induction calls arbitrary: fl fl' es outs)
  case Nil
  then show ?case by (intro exI [of _ "[]"]) simp
next
  case (Cons call calls)
  obtain fl1 out where 1: "append_ledger_entry env fl (fst call) (snd call) = (fl1, out)" by fastforce
  obtain fl2 outs2 where 2: "write_all env fl1 calls = (fl2, outs2)" by fastforce
  have outs: "fl' = fl2" "outs = out # outs2" using Cons.prems(4) 1 2 by simp_all
  obtain a where a: "file_holds env fl1 (es @ a)" "ledger_ok env (es @ a)" "\<forall>e \<in> set a. entry_of (fst call) e"
    "length a = (if out = Inr APPENDED then 1 else 0)" "accepted (es @ a) call out"
    using write_step [OF assms(1) Cons.prems(1,2) _ 1] Cons.prems(3) by auto
  obtain b where b: "file_holds env fl2 ((es @ a) @ b)" "ledger_ok env ((es @ a) @ b)"
    "\<forall>e \<in> set b. \<exists>call \<in> set calls. entry_of (fst call) e"
    "length b = length (filter (\<lambda>out. out = Inr APPENDED) outs2)" "list_all2 (accepted ((es @ a) @ b)) calls outs2"
    using Cons.IH [OF a(1,2) _ 2] Cons.prems(3) by auto
  have "accepted ((es @ a) @ b) call out" using a(5) by (rule accepted_mono)
  with a b outs show ?case by (intro exI [of _ "a @ b"]) auto
qed

lemma append_again:
  assumes "env_ok env" "file_holds env fl es" "ledger_ok env es" "accepted es (p, wk) (Inr r)"
  shows "append_ledger_entry env fl p wk = (fl, Inr IDEMPOTENT_NOOP)"
  using assms(4) by (auto simp: append_ledger_entry_def accepted_def ledger_ok_read [OF assms(1-3)])

lemma ledger_ok_verified:
  assumes "env_ok env" "ledger_ok env es"
  shows "verify_chain (lge_nfc env) es =
    Some \<lparr>cvf_status = VS_VALID, cvf_failure_position = None, cvf_failure_type = None, cvf_entries_verified = length es\<rparr>"
proof -
  have l: "linked (lge_nfc env) es" using assms(2) by (simp add: ledger_ok_def)
  have "\<forall>e \<in> set es. hashable (lge_nfc env) e"
    using assms wf_hashable encodable_wf by (auto simp: ledger_ok_def sealed_def)
  then have "verify_chain (lge_nfc env) es = Some (chain_verdict (lge_nfc env) es)"
    by (intro verify_chain_verdict) (auto dest: in_set_butlastD)
  moreover have "find (\<lambda>i. \<not> link_holds (lge_nfc env) es i) [0..<length es] = None"
    using l by (auto simp: find_None_iff linked_def)
  ultimately show ?thesis by (simp add: chain_verdict_def)
qed

section \<open>A line end inside a text\<close>

lemma parse_chars_open: "list_all valid_cp s \<Longrightarrow> parse_chars (concat (map (escape_char ascii) s)) = None"
  by (induction s) (simp_all add: parse_chars_escape parse_chars.simps [of "[]"])

lemma parse_value_open:
  assumes "list_all valid_cp s"
  shows "parse_value fc n (34 # concat (map (escape_char ascii) s)) = None"
  using parse_chars_open [OF assms] by (cases n) simp_all

lemma parse_members_open:
  assumes "list_all valid_cp k" "list_all valid_cp s"
  shows "parse_members fc n (34 # concat (map (escape_char ascii) k) @ 34 # 58 # 34 # concat (map (escape_char ascii) s)) = None"
proof (cases n)
  case (Suc m)
  have c: "parse_chars (concat (map (escape_char ascii) k) @ 34 # 58 # 34 # concat (map (escape_char ascii) s)) =
    Some (k, 58 # 34 # concat (map (escape_char ascii) s))"
    by (rule parse_chars_dumps [OF assms(1)])
  have w: "skip_ws (58 # r) = 58 # r" "skip_ws (34 # r) = 34 # r" for r by (simp_all add: skip_ws_def json_ws_def)
  show ?thesis unfolding Suc parse_members.simps by (simp add: c w parse_value_open [OF assms(2)])
qed simp

text \<open>An object whose first string is still open.\<close>

definition open_line :: "pystr \<Rightarrow> pystr \<Rightarrow> pystr" where
  "open_line k s = 123 # 34 # concat (map (escape_char False) k) @ 34 # 58 # 34 # concat (map (escape_char False) s)"

lemma loads_open_line: "list_all valid_cp k \<Longrightarrow> list_all valid_cp s \<Longrightarrow> loads fc (open_line k s) = None"
proof -
  assume a: "list_all valid_cp k" "list_all valid_cp s"
  have w: "skip_ws (34 # r) = 34 # r" "skip_ws (123 # r) = 123 # r" for r by (simp_all add: skip_ws_def json_ws_def)
  have "parse_value fc n (open_line k s) = None" for n
    by (cases n) (simp_all add: open_line_def w parse_members_open [OF a])
  moreover have "skip_ws (open_line k s) = open_line k s" by (simp add: open_line_def w)
  ultimately show ?thesis by (simp only: loads_def option.case)
qed

lemma serialize_open:
  assumes "len_action_id e = u @ c # v" "c \<in> {133, 8232, 8233}"
  shows "\<exists>rest. serialize_entry env e = open_line (lit ''action_id'') u @ c # rest"
proof -
  obtain x xs where f: "raw_fields e = (lit ''action_id'', JStr (len_action_id e)) # x # xs" by (simp add: raw_fields_def)
  have c: "escape_char False c = [c]" using assms(2) by (auto simp: escape_char_def)
  show ?thesis
    unfolding serialize_entry_def dumps_obj f list.map py_join.simps dumps_member_def fst_conv snd_conv dumps.simps
      assms(1) dumps_str_def open_line_def
    by (simp add: compact_def key_sep_def c del: lit_Cons)
qed

lemma escaped_chars: "d \<in> set (concat (map (escape_char False) s)) \<Longrightarrow> 32 \<le> d \<and> (d < 127 \<or> d \<in> set s)"
  using dumps_str_printable [of d s] by (simp add: dumps_str_def)

lemma open_line_chars:
  assumes "ascii_text k" "\<forall>d \<in> set u. d \<notin> {133, 8232, 8233}" "d \<in> set (open_line k u)"
  shows "\<not> line_break d"
proof -
  have "d \<in> {34, 58, 123} \<or> d \<in> set (concat (map (escape_char False) k)) \<or> d \<in> set (concat (map (escape_char False) u))"
    using assms(3) unfolding open_line_def set_append list.set Un_iff insert_iff empty_iff by argo
  moreover have "d < 127" if "d \<in> set k" using ascii_text_D [OF assms(1) that] .
  ultimately have "32 \<le> d \<and> (d < 127 \<or> d \<in> set u)" using escaped_chars [of d k] escaped_chars [of d u] by auto
  moreover have "d < 32 \<or> d \<in> {133, 8232, 8233}" if "line_break d" using that unfolding line_break_def by auto
  moreover have "\<not> x < 127" if "x \<in> {133, 8232, 8233}" for x :: nat using that by auto
  ultimately show ?thesis using assms(2) by (meson leD)
qed

lemma open_line_not_blank: "\<not> py_blank (open_line k u)"
  by (simp add: open_line_def py_blank_def py_isspace_def)

lemma splitlines_break:
  assumes "\<forall>d \<in> set l. \<not> line_break d" "line_break c"
  shows "\<exists>rest. splitlines (l @ c # r) = l # rest"
  using assms by (subst splitlines.simps) simp

lemma splitlines_more:
  "\<forall>l \<in> set ls. \<forall>c \<in> set l. \<not> line_break c \<Longrightarrow>
     splitlines (concat (map (\<lambda>l. l @ [10]) ls) @ r) = ls @ splitlines r"
  by (induction ls) (simp_all add: splitlines_line)

lemma those_None: "None \<in> set xs \<Longrightarrow> those xs = None"
  by (induction xs) (auto split: option.splits)

lemma read_broken:
  assumes env: "env_ok env" and ok: "\<forall>x \<in> set es. encodable x \<and> one_line x" and e: "encodable e"
    and id: "len_action_id e = u @ c # v" "c \<in> {133, 8232, 8233}" "\<forall>d \<in> set u. d \<notin> {133, 8232, 8233}"
    and held: "file_holds env (Some bs) (es @ [e])"
  shows "read_ledger env (Some bs) = None"
proof -
  define frag where "frag = open_line (lit ''action_id'') u"
  obtain rest where s: "serialize_entry env e = frag @ c # rest" using serialize_open [OF id(1,2)] unfolding frag_def by blast
  have dec: "utf8_decode False (map unat bs) = Some (ledger_text env (es @ [e]))"
    using held by (simp add: file_holds_def utf8_decode_encode)
  have nb: "\<not> line_break d" if "x \<in> set es" "d \<in> set (serialize_entry env x)" for x d
    using serialize_one_line [OF env _ that(2)] ok that(1) by blast
  have "32 \<le> d" if "d \<in> set (serialize_entry env x)" for x d using serialize_chars [OF env that] by auto
  then have nl: "universal_newlines (ledger_text env (es @ [e])) = ledger_text env (es @ [e])"
    by (intro universal_newlines_id) (auto simp: ledger_text_def dest!: \<open>\<And>x d. d \<in> set (serialize_entry env x) \<Longrightarrow> 32 \<le> d\<close>)
  have "line_break c" using id(2) by (auto simp: line_break_def)
  then obtain more where "splitlines (frag @ c # rest @ [10]) = frag # more"
    using splitlines_break [of frag c "rest @ [10]"] open_line_chars [OF key_ascii(1) id(3)] unfolding frag_def by blast
  moreover have "ledger_text env (es @ [e]) = concat (map (\<lambda>l. l @ [10]) (map (serialize_entry env) es)) @ frag @ c # rest @ [10]"
    by (simp add: ledger_text_def s comp_def)
  ultimately have "splitlines (ledger_text env (es @ [e])) = map (serialize_entry env) es @ frag # more"
    using splitlines_more [of "map (serialize_entry env) es"] nb by simp
  moreover have "\<not> py_blank frag" unfolding frag_def by (rule open_line_not_blank)
  moreover have "deserialize_entry env frag = None"
  proof -
    have "list_all valid_cp (len_action_id e)" using e by (simp add: encodable_def raw_texts_def)
    then have "list_all valid_cp u" using id(1) by simp
    moreover have "list_all valid_cp (lit ''action_id'')" by (simp add: valid_cp_def)
    ultimately have "loads (lge_floats env) frag = None" unfolding frag_def by (intro loads_open_line)
    then show ?thesis by (simp add: deserialize_entry_def)
  qed
  ultimately show ?thesis
    by (simp add: read_ledger_def dec nl) (rule those_None, simp)
qed

section \<open>The properties\<close>

text \<open>Arguments for the examples.\<close>

definition sample_env :: ledger_env where
  "sample_env =
     \<lparr>lge_nfc = (\<lambda>s. s), lge_floats = no_floats, lge_lax_int = (\<lambda>v. case v of JInt i \<Rightarrow> Some i | _ \<Rightarrow> None)\<rparr>"

definition sample_payload :: "pystr \<Rightarrow> pystr \<Rightarrow> entry_payload" where
  "sample_payload action key =
     \<lparr>epl_action_id = action, epl_idempotency_key = key,
      epl_actor = \<lparr>act_actor_class = ACTOR_AGENT, act_actor_id = lit ''planner''\<rparr>,
      epl_timestamp = \<lparr>dtm_year = 2026, dtm_month = 5, dtm_day = 20, dtm_hour = 9, dtm_minute = 30, dtm_second = 0,
                       dtm_microsecond = 0, dtm_offset = Some 0\<rparr>,
      epl_procedural_tier_snapshot_ref = None, epl_branch_metadata = None\<rparr>"

definition sample_key :: "pystr \<Rightarrow> write_key" where
  "sample_key key = \<lparr>wky_thread_id = lit ''t'', wky_step_id = lit ''s'', wky_idempotency_key = key\<rparr>"

lemma sample_env_ok: "env_ok sample_env"
  by (simp add: env_ok_def sample_env_def lax_int_ok_def printable_floats_def no_floats_def)

lemma sample_payload_ok: "payload_ok (sample_payload (lit ''a'') (lit ''k''))"
  by (simp add: payload_ok_def payload_encodable_def one_line_def encodable_def raw_texts_def draft_entry_def
      sample_payload_def valid_cp_def valid_datetime_def days_in_month_def ALL_ZEROS_SENTINEL_def)

lemma empty_ledger: "file_holds env None [] \<and> ledger_ok env []"
  by (simp add: file_holds_def ledger_ok_def linked_def)

text \<open>
  Property C31. On a file that holds a ledger in order (each entry sealed with its own hash, links, distinct
  idempotency keys, times not decreasing) a write of an encodable one-line payload either appends one entry with
  the payload's fields and leaves such a ledger, or leaves the file untouched: with a no-op exactly for a key the
  ledger has, or with the error of a key mismatch, of times that cannot be compared or of a time before the last.
\<close>

theorem append_ledger_entry_keeps_ledger:
  assumes "env_ok env" "file_holds env fl es" "ledger_ok env es" "payload_ok p"
  shows "read_ledger env fl = Some es \<and> write_outcome env fl es p wk (append_ledger_entry env fl p wk)"
  using append_outcome [OF assms] ledger_ok_read [OF assms(1-3)] by blast

lemma append_ledger_entry_keeps_ledger_witness:
  "read_ledger sample_env None = Some [] \<and>
     write_outcome sample_env None [] (sample_payload (lit ''a'') (lit ''k'')) (sample_key (lit ''k''))
       (append_ledger_entry sample_env None (sample_payload (lit ''a'') (lit ''k'')) (sample_key (lit ''k'')))"
  by (rule append_ledger_entry_keeps_ledger [OF sample_env_ok conjunct1 [OF empty_ledger] conjunct2 [OF empty_ledger]
        sample_payload_ok])

text \<open>
  Property C30. After any sequence of writes of encodable one-line payloads to a fresh file the ledger reads back, has
  one entry for each write answered APPENDED, taken from the payloads written, verifies as a chain over its whole
  length, has distinct idempotency keys and times in order; and writing any accepted payload again is a no-op.
\<close>

theorem writes_build_verified_ledger:
  assumes "env_ok env" "\<forall>call \<in> set calls. payload_ok (fst call)" "write_all env None calls = (fl, outs)"
  shows "\<exists>es. read_ledger env fl = Some es \<and> length es = length (filter (\<lambda>out. out = Inr APPENDED) outs) \<and>
    (\<forall>e \<in> set es. \<exists>call \<in> set calls. entry_of (fst call) e) \<and>
    verify_chain (lge_nfc env) es =
      Some \<lparr>cvf_status = VS_VALID, cvf_failure_position = None, cvf_failure_type = None, cvf_entries_verified = length es\<rparr> \<and>
    distinct (map len_idempotency_key es) \<and> times_in_order es \<and> length outs = length calls \<and>
    (\<forall>i < length calls. \<forall>r. outs ! i = Inr r \<longrightarrow>
       append_ledger_entry env fl (fst (calls ! i)) (snd (calls ! i)) = (fl, Inr IDEMPOTENT_NOOP))"
proof -
  obtain es where es: "file_holds env fl es" "ledger_ok env es" "\<forall>e \<in> set es. \<exists>call \<in> set calls. entry_of (fst call) e"
    "length es = length (filter (\<lambda>out. out = Inr APPENDED) outs)" "list_all2 (accepted es) calls outs"
    using write_run [OF assms(1) conjunct1 [OF empty_ledger] conjunct2 [OF empty_ledger] assms(2,3)] by auto
  have again: "append_ledger_entry env fl (fst (calls ! i)) (snd (calls ! i)) = (fl, Inr IDEMPOTENT_NOOP)"
    if "i < length calls" "outs ! i = Inr r" for i r
  proof -
    have "accepted es (fst (calls ! i), snd (calls ! i)) (Inr r)"
      using list_all2_nthD [OF es(5) that(1)] that(2) by simp
    then show ?thesis by (rule append_again [OF assms(1) es(1,2)])
  qed
  then show ?thesis
    using es ledger_ok_read [OF assms(1) es(1,2)] ledger_ok_verified [OF assms(1) es(2)] list_all2_lengthD [OF es(5)]
    by (intro exI [of _ es]) (simp add: ledger_ok_def)
qed

definition sample_calls :: "(entry_payload \<times> write_key) list" where
  "sample_calls = [(sample_payload (lit ''a'') (lit ''k''), sample_key (lit ''k'')),
                   (sample_payload (lit ''a'') (lit ''k''), sample_key (lit ''other''))]"

lemma writes_build_verified_ledger_witness:
  "\<exists>es. read_ledger sample_env (fst (write_all sample_env None sample_calls)) = Some es \<and>
    length es = length (filter (\<lambda>out. out = Inr APPENDED) (snd (write_all sample_env None sample_calls))) \<and>
    verify_chain (lge_nfc sample_env) es =
      Some \<lparr>cvf_status = VS_VALID, cvf_failure_position = None, cvf_failure_type = None, cvf_entries_verified = length es\<rparr>"
proof -
  have "\<forall>call \<in> set sample_calls. payload_ok (fst call)"
    unfolding sample_calls_def using sample_payload_ok by simp
  from writes_build_verified_ledger [OF sample_env_ok this surjective_pairing] show ?thesis by blast
qed

text \<open>
  Property C32. JSON leaves U+0085, U+2028 and U+2029 as they are, and reading splits lines at them: a payload that
  has one in its action id is accepted and written, and from then on the ledger cannot be read and every write with
  a matching key fails.
\<close>

theorem separator_breaks_ledger:
  assumes "env_ok env" "file_holds env fl es" "ledger_ok env es" "payload_encodable p"
    and "epl_action_id p = u @ c # v" "c \<in> {133, 8232, 8233}" "\<forall>d \<in> set u. d \<notin> {133, 8232, 8233}"
    and "wky_idempotency_key wk = epl_idempotency_key p" "\<forall>e \<in> set es. len_idempotency_key e \<noteq> epl_idempotency_key p"
    and "out_of_order (last_entry es) (epl_timestamp p) = Some False"
  shows "\<exists>fl'. append_ledger_entry env fl p wk = (fl', Inr APPENDED) \<and> read_ledger env fl' = None \<and>
    (\<forall>p' wk'. append_ledger_entry env fl' p' wk' =
       (fl', Inl (if wky_idempotency_key wk' \<noteq> epl_idempotency_key p' then WRITE_KEY_MISMATCH else LEDGER_UNREADABLE)))"
proof -
  have enc: "\<forall>e. last_entry es = Some e \<longrightarrow> encodable e"
    using assms(3) by (auto simp: last_entry_def ledger_ok_def sealed_def)
  obtain e where e: "seal_entry env (last_entry es) p = Some e" "entry_of p e" "encodable e"
    using seal_entry_sealed [OF assms(1,4) enc] by blast
  obtain bs where bs: "append_text fl (serialize_entry env e @ [10]) = (Some bs, True)"
    "file_holds env (Some bs) (es @ [e])"
    using file_holds_append [OF assms(1) e(3) assms(2)] by blast
  have "append_ledger_entry env fl p wk = (Some bs, Inr APPENDED)"
    using assms(8-10) ledger_ok_read [OF assms(1-3)] e(1) bs(1) by (simp add: append_ledger_entry_def)
  moreover have "len_action_id e = u @ c # v" using e(2) assms(5) by (cases e) (simp add: entry_of_def draft_entry_def)
  then have "read_ledger env (Some bs) = None"
    using assms(3) by (intro read_broken [OF assms(1) _ e(3) _ assms(6,7) bs(2)]) (auto simp: ledger_ok_def sealed_def)
  ultimately show ?thesis by (intro exI [of _ "Some bs"]) (simp add: append_ledger_entry_def)
qed

lemma separator_breaks_ledger_witness:
  "\<exists>fl'. append_ledger_entry sample_env None (sample_payload (lit ''a'' @ [8232]) (lit ''k'')) (sample_key (lit ''k'')) =
       (fl', Inr APPENDED) \<and> read_ledger sample_env fl' = None"
proof -
  have "payload_encodable (sample_payload (lit ''a'' @ [8232]) (lit ''k''))"
    by (simp add: payload_encodable_def encodable_def raw_texts_def draft_entry_def sample_payload_def valid_cp_def
        valid_datetime_def days_in_month_def ALL_ZEROS_SENTINEL_def)
  then show ?thesis
    using separator_breaks_ledger [of sample_env None "[]" "sample_payload (lit ''a'' @ [8232]) (lit ''k'')" "lit ''a''"
        8232 "[]" "sample_key (lit ''k'')"] sample_env_ok empty_ledger
    by (fastforce simp: sample_payload_def sample_key_def out_of_order_def last_entry_def)
qed

end
