(* ===== verification/Ledger_Read.thy ===== *)
theory Ledger_Read
  imports Ledger_Correctness
begin

text \<open>
  \<open>harness_is/state_ledger_read.py\<close>: selective, bounded reads of a loaded ledger; and the structural check of
  the file in \<open>harness_is/jsonl_event_ledger_lifecycle.py\<close>. Python's slices and indices are written out for
  negative numbers, which nothing in the code refuses.
\<close>

section \<open>Queries\<close>

record navigation_query =
  nvq_by_action_id :: "pystr option"
  nvq_by_idempotency_key :: "pystr option"
  nvq_by_position_range :: "(int \<times> int) option"
  nvq_most_recent_n :: "int option"

record ledger_read_result =
  lrr_entries :: "ledger_entry list"
  lrr_truncated :: bool
  lrr_next_position :: "int option"

text \<open>\<open>list (enumerate (ledger, start=1))\<close>.\<close>

definition positions :: "ledger_entry list \<Rightarrow> (int \<times> ledger_entry) list" where
  "positions ledger = zip (map (\<lambda>i. int i + 1) [0..<length ledger]) ledger"

text \<open>\<open>xs[:m]\<close> and \<open>xs[m]\<close>.\<close>

definition py_take :: "int \<Rightarrow> 'a list \<Rightarrow> 'a list" where
  "py_take m xs = (if 0 \<le> m then take (nat m) xs else take (length xs - nat (- m)) xs)"

definition py_nth :: "'a list \<Rightarrow> int \<Rightarrow> 'a option" where
  "py_nth xs m =
     (if 0 \<le> m \<and> m < int (length xs) then Some (xs ! nat m)
      else if m < 0 \<and> - m \<le> int (length xs) then Some (xs ! nat (int (length xs) + m))
      else None)"

definition select_entries :: "ledger_entry list \<Rightarrow> navigation_query \<Rightarrow> (int \<times> ledger_entry) list" where
  "select_entries ledger q =
     (case nvq_by_action_id q of
        Some a \<Rightarrow> filter (\<lambda>(p, e). len_action_id e = a) (positions ledger)
      | None \<Rightarrow>
     (case nvq_by_idempotency_key q of
        Some k \<Rightarrow> filter (\<lambda>(p, e). len_idempotency_key e = k) (positions ledger)
      | None \<Rightarrow>
     (case nvq_by_position_range q of
        Some (lo, hi) \<Rightarrow> filter (\<lambda>(p, e). lo \<le> p \<and> p \<le> hi) (positions ledger)
      | None \<Rightarrow>
     (case nvq_most_recent_n q of
        Some n \<Rightarrow> if 0 < n then drop (length ledger - nat n) (positions ledger) else []
      | None \<Rightarrow> []))))"

text \<open>\<open>None\<close> stands for the \<open>IndexError\<close> of \<open>matches[max_entries]\<close>.\<close>

definition navigation_read ::
  "ledger_entry list \<Rightarrow> navigation_query \<Rightarrow> int \<Rightarrow> ledger_read_result option" where
  "navigation_read ledger q max_entries =
     (let matches = select_entries ledger q;
          page = py_take max_entries matches;
          truncated = max_entries < int (length matches)
      in if truncated then
           map_option (\<lambda>m. \<lparr>lrr_entries = map snd page, lrr_truncated = True, lrr_next_position = Some (fst m)\<rparr>)
             (py_nth matches max_entries)
         else Some \<lparr>lrr_entries = map snd page, lrr_truncated = False, lrr_next_position = None\<rparr>)"

definition no_query :: navigation_query where
  "no_query = \<lparr>nvq_by_action_id = None, nvq_by_idempotency_key = None, nvq_by_position_range = None,
               nvq_most_recent_n = None\<rparr>"

definition read_entry :: "ledger_entry list \<Rightarrow> pystr \<Rightarrow> int \<Rightarrow> ledger_read_result option" where
  "read_entry ledger a m = navigation_read ledger (no_query\<lparr>nvq_by_action_id := Some a\<rparr>) m"

definition read_range :: "ledger_entry list \<Rightarrow> int \<Rightarrow> int \<Rightarrow> int \<Rightarrow> ledger_read_result option" where
  "read_range ledger lo hi m = navigation_read ledger (no_query\<lparr>nvq_by_position_range := Some (lo, hi)\<rparr>) m"

definition read_recent :: "ledger_entry list \<Rightarrow> int \<Rightarrow> int \<Rightarrow> ledger_read_result option" where
  "read_recent ledger n m = navigation_read ledger (no_query\<lparr>nvq_most_recent_n := Some n\<rparr>) m"

definition read_by_idempotency_key :: "ledger_entry list \<Rightarrow> pystr \<Rightarrow> int \<Rightarrow> ledger_read_result option" where
  "read_by_idempotency_key ledger k m = navigation_read ledger (no_query\<lparr>nvq_by_idempotency_key := Some k\<rparr>) m"

section \<open>The file as a whole\<close>

datatype ledger_format = FORMAT_VALID | FORMAT_EMPTY | FORMAT_MALFORMED_LINE | FORMAT_IO_ERROR

text \<open>\<open>None\<close> stands for the \<open>UnicodeDecodeError\<close>, which is no \<open>OSError\<close> and leaves the function.\<close>

definition validate_jsonl_event_ledger_format :: "float_codec \<Rightarrow> ledger_file \<Rightarrow> ledger_format option" where
  "validate_jsonl_event_ledger_format fc file =
     (case file of
        None \<Rightarrow> Some FORMAT_IO_ERROR
      | Some bs \<Rightarrow>
          if bs = [] then Some FORMAT_EMPTY
          else case utf8_decode False (map unat bs) of
            None \<Rightarrow> None
          | Some text \<Rightarrow>
              if \<forall>line \<in> set (splitlines (universal_newlines text)). py_blank line \<or> loads fc line \<noteq> None
              then Some FORMAT_VALID else Some FORMAT_MALFORMED_LINE)"

text \<open>The file after opening and the count of its lines.\<close>

definition initialize_jsonl_event_ledger :: "ledger_file \<Rightarrow> (ledger_file \<times> nat) option" where
  "initialize_jsonl_event_ledger file =
     (case file of
        None \<Rightarrow> Some (Some [], 0)
      | Some bs \<Rightarrow>
          map_option (\<lambda>text. (Some bs, length (filter (\<lambda>line. \<not> py_blank line) (splitlines (universal_newlines text)))))
            (utf8_decode False (map unat bs)))"

lemma those_length: "those xs = Some ys \<Longrightarrow> length ys = length xs"
  by (induction xs arbitrary: ys) (auto split: option.splits)

lemma those_Some: "those xs = Some ys \<Longrightarrow> \<forall>x \<in> set xs. x \<noteq> None"
  by (induction xs arbitrary: ys) (auto split: option.splits)

lemma deserialize_loads: "deserialize_entry env line \<noteq> None \<Longrightarrow> loads (lge_floats env) line \<noteq> None"
  by (cases "loads (lge_floats env) line") (simp_all add: deserialize_entry_def)

lemma readable_format:
  assumes "read_ledger env (Some bs) = Some es"
  shows "validate_jsonl_event_ledger_format (lge_floats env) (Some bs) =
      Some (if bs = [] then FORMAT_EMPTY else FORMAT_VALID)"
    and "initialize_jsonl_event_ledger (Some bs) = Some (Some bs, length es)"
proof -
  obtain s where t: "utf8_decode False (map unat bs) = Some s"
    "those (map (deserialize_entry env) (filter (\<lambda>line. \<not> py_blank line) (splitlines (universal_newlines s)))) = Some es"
    using assms by (auto simp: read_ledger_def split: bind_splits)
  have "\<forall>line \<in> set (splitlines (universal_newlines s)). py_blank line \<or> loads (lge_floats env) line \<noteq> None"
    using those_Some [OF t(2)] deserialize_loads by auto
  then show "validate_jsonl_event_ledger_format (lge_floats env) (Some bs) =
      Some (if bs = [] then FORMAT_EMPTY else FORMAT_VALID)"
    by (simp add: validate_jsonl_event_ledger_format_def t(1))
  show "initialize_jsonl_event_ledger (Some bs) = Some (Some bs, length es)"
    using those_length [OF t(2)] by (simp add: initialize_jsonl_event_ledger_def t(1))
qed

section \<open>Pages\<close>

lemma positions_length [simp]: "length (positions ledger) = length ledger"
  by (simp add: positions_def)

lemma positions_nth: "i < length ledger \<Longrightarrow> positions ledger ! i = (int i + 1, ledger ! i)"
  by (simp add: positions_def)

lemma positions_sorted: "sorted_wrt (\<lambda>x y. fst x < fst y) (positions ledger)"
  by (simp add: sorted_wrt_iff_nth_less positions_nth)

lemma sorted_filter_split:
  fixes xs :: "(int \<times> 'a) list"
  assumes "sorted_wrt (\<lambda>x y. fst x < fst y) xs" "filter P xs = as @ b # bs"
  shows "filter (\<lambda>x. P x \<and> fst b \<le> fst x) xs = b # bs"
proof -
  have s: "sorted_wrt (\<lambda>x y. fst x < fst y) (as @ b # bs)"
    using sorted_wrt_filter [OF assms(1), of P] assms(2) by simp
  have "filter (\<lambda>x. P x \<and> fst b \<le> fst x) xs = filter (\<lambda>x. fst b \<le> fst x) (filter P xs)"
    by (simp add: conj_commute)
  also have "\<dots> = b # bs"
  proof -
    have "\<not> fst b \<le> fst x" if "x \<in> set as" for x
    proof -
      have "fst x < fst b" using s that by (simp add: sorted_wrt_append)
      then show ?thesis by simp
    qed
    then have "filter (\<lambda>x. fst b \<le> fst x) as = []" by (simp add: filter_empty_conv)
    moreover have "filter (\<lambda>x. fst b \<le> fst x) bs = bs" using s by (auto simp: sorted_wrt_append intro!: filter_True)
    ultimately show ?thesis by (simp add: assms(2))
  qed
  finally show ?thesis .
qed

lemma py_take_nonneg: "0 \<le> m \<Longrightarrow> py_take m xs = take (nat m) xs"
  by (simp add: py_take_def)

lemma navigation_read_nonneg:
  assumes "0 \<le> m"
  shows "navigation_read ledger q m =
    Some (if m < int (length (select_entries ledger q))
      then \<lparr>lrr_entries = map snd (take (nat m) (select_entries ledger q)), lrr_truncated = True,
            lrr_next_position = Some (fst (select_entries ledger q ! nat m))\<rparr>
      else \<lparr>lrr_entries = map snd (select_entries ledger q), lrr_truncated = False, lrr_next_position = None\<rparr>)"
  using assms by (simp add: navigation_read_def Let_def py_take_nonneg py_nth_def)

definition ranged :: "ledger_entry list \<Rightarrow> int \<Rightarrow> int \<Rightarrow> (int \<times> ledger_entry) list" where
  "ranged ledger lo hi = filter (\<lambda>(p, e). lo \<le> p \<and> p \<le> hi) (positions ledger)"

lemma select_range: "select_entries ledger (no_query\<lparr>nvq_by_position_range := Some (lo, hi)\<rparr>) = ranged ledger lo hi"
  by (simp add: select_entries_def no_query_def ranged_def)

lemma ranged_split:
  assumes "ranged ledger lo hi = as @ b # bs"
  shows "ranged ledger (fst b) hi = b # bs"
proof -
  have "b \<in> set (ranged ledger lo hi)" using assms by simp
  then have "lo \<le> fst b" by (auto simp: ranged_def)
  then have "filter (\<lambda>x. (case x of (p, e) \<Rightarrow> lo \<le> p \<and> p \<le> hi) \<and> fst b \<le> fst x) (positions ledger) = ranged ledger (fst b) hi"
    unfolding ranged_def by (intro filter_cong) auto
  then show ?thesis
    using sorted_filter_split [OF positions_sorted] assms unfolding ranged_def by metis
qed

text \<open>A client that follows \<open>next_position\<close> until nothing is truncated.\<close>

fun read_pages :: "nat \<Rightarrow> ledger_entry list \<Rightarrow> int \<Rightarrow> int \<Rightarrow> int \<Rightarrow> ledger_entry list list option" where
  "read_pages 0 ledger lo hi m = None"
| "read_pages (Suc n) ledger lo hi m =
     (case read_range ledger lo hi m of
        None \<Rightarrow> None
      | Some r \<Rightarrow>
          (case lrr_next_position r of
             None \<Rightarrow> Some [lrr_entries r]
           | Some p \<Rightarrow> map_option (\<lambda>pages. lrr_entries r # pages) (read_pages n ledger p hi m)))"

lemma read_pages_complete:
  assumes "0 < m" "length (ranged ledger lo hi) < n"
  shows "\<exists>pages. read_pages n ledger lo hi m = Some pages \<and> concat pages = map snd (ranged ledger lo hi) \<and>
    (\<forall>page \<in> set pages. int (length page) \<le> m)"
  using assms(2)
proof (induction n arbitrary: lo)
  case (Suc n)
  let ?r = "ranged ledger lo hi"
  have m: "0 \<le> m" using assms(1) by simp
  show ?case
  proof (cases "m < int (length ?r)")
    case False
    then show ?thesis by (simp add: read_range_def navigation_read_nonneg [OF m] select_range)
  next
    case True
    then have d: "?r = take (nat m) ?r @ ?r ! nat m # drop (Suc (nat m)) ?r" using m by (intro id_take_nth_drop) (simp add: nat_less_iff)
    then have next': "ranged ledger (fst (?r ! nat m)) hi = drop (nat m) ?r"
      using ranged_split [OF d] True m by (simp add: Cons_nth_drop_Suc nat_less_iff)
    have "length (drop (nat m) ?r) < n" using Suc.prems True assms(1) by simp
    then obtain pages where p: "read_pages n ledger (fst (?r ! nat m)) hi m = Some pages"
      "concat pages = map snd (drop (nat m) ?r)" "\<forall>page \<in> set pages. int (length page) \<le> m"
      using Suc.IH [of "fst (?r ! nat m)"] unfolding next' by blast
    have "map snd (take (nat m) ?r) @ map snd (drop (nat m) ?r) = map snd ?r"
      by (simp flip: map_append)
    then show ?thesis using True p m by (simp add: read_range_def navigation_read_nonneg [OF m] select_range)
  qed
qed simp

text \<open>
  Property C35. With a window of at least one entry, reads by position range are bounded and complete: following
  \<open>next_position\<close> ends, every page has at most \<open>max_entries\<close> entries, and the pages together are exactly the
  entries at the positions of the range, in order; one step more than there are entries is enough.
\<close>

theorem read_range_pages:
  assumes "0 < m"
  shows "\<exists>pages. read_pages (Suc (length ledger)) ledger lo hi m = Some pages \<and>
    concat pages = map snd (filter (\<lambda>(p, e). lo \<le> p \<and> p \<le> hi) (positions ledger)) \<and>
    (\<forall>page \<in> set pages. int (length page) \<le> m)"
proof -
  have "length (ranged ledger lo hi) < Suc (length ledger)"
    using length_filter_le [of _ "positions ledger"] by (simp add: ranged_def less_Suc_eq_le)
  from read_pages_complete [OF assms this] show ?thesis by (simp add: ranged_def)
qed

lemma read_range_pages_witness:
  "\<exists>pages. read_pages 3 [sample_entry, sample_next] 1 9 1 = Some pages \<and>
    concat pages = map snd (filter (\<lambda>(p, e). 1 \<le> p \<and> p \<le> 9) (positions [sample_entry, sample_next])) \<and>
    (\<forall>page \<in> set pages. int (length page) \<le> 1)"
  using read_range_pages [of 1 "[sample_entry, sample_next]" 1 9] by (simp add: numeral_3_eq_3)

text \<open>A negative window is not refused: on nothing it raises.\<close>

lemma negative_window_raises: "navigation_read [] q (- 1) = None"
  by (simp add: navigation_read_def select_entries_def positions_def py_nth_def Let_def split: option.splits prod.splits)

end
