(* ===== verification/Pause_Resume.thy ===== *)
theory Pause_Resume
  imports Effect_Fence Ledger_Store
begin

text \<open>
  \<open>harness_cp/pause_resume_protocol.py\<close> and \<open>pause_resume_protocol_types.py\<close>: the snapshot of a paused
  workflow with its hash, the resume decision, and the ledger entries both leave; the engine-layer substrate of
  the same module. A workflow's outputs are JSON objects. pydantic's \<open>model_dump (mode="json")\<close> writes bytes as
  UTF-8 text and fails on other bytes: then there is no hash (\<open>None\<close>).
\<close>

section \<open>Snapshots\<close>

datatype reference_class = F2_LEDGER_ENTRY | EXTERNAL_MCP_RESOURCE | FILESYSTEM_STATE | FAILED_ATTEMPTS_HISTORY

fun reference_class_value :: "reference_class \<Rightarrow> pystr" where
  "reference_class_value F2_LEDGER_ENTRY = lit ''f2_ledger_entry''"
| "reference_class_value EXTERNAL_MCP_RESOURCE = lit ''external_mcp_resource''"
| "reference_class_value FILESYSTEM_STATE = lit ''filesystem_state''"
| "reference_class_value FAILED_ATTEMPTS_HISTORY = lit ''failed_attempts_history''"

record ledger_entry_ref =
  ler_action_id :: pystr
  ler_entry_hash :: pystr
  ler_actor :: pystr

record external_reference =
  exr_reference_class :: reference_class
  exr_reference_id :: pystr
  exr_snapshot_capture_at_pause :: "bytes option"

record state_summary =
  ssm_relevant_entries :: "ledger_entry_ref list"
  ssm_summary_text :: pystr
  ssm_summary_hash :: pystr
  ssm_idempotency_key :: pystr
  ssm_external_references :: "external_reference list"

datatype workflow_pause_reason =
    EXPLICIT_OPERATOR
  | HITL_PENDING
  | VALIDATOR_ESCALATION
  | TIMEOUT_BOUNDARY
  | EXTERNAL_DEPENDENCY
  | EFFECT_FENCE_AMBIGUOUS

fun workflow_pause_reason_value :: "workflow_pause_reason \<Rightarrow> pystr" where
  "workflow_pause_reason_value EXPLICIT_OPERATOR = lit ''explicit_operator''"
| "workflow_pause_reason_value HITL_PENDING = lit ''hitl_pending''"
| "workflow_pause_reason_value VALIDATOR_ESCALATION = lit ''validator_escalation''"
| "workflow_pause_reason_value TIMEOUT_BOUNDARY = lit ''timeout_boundary''"
| "workflow_pause_reason_value EXTERNAL_DEPENDENCY = lit ''external_dependency''"
| "workflow_pause_reason_value EFFECT_FENCE_AMBIGUOUS = lit ''effect_fence_ambiguous''"

datatype material_diff_policy = POLICY_STRICT | POLICY_LENIENT | POLICY_OPERATOR_ARBITRATE

record fan_out_branch_resume_state =
  fbr_branch_index :: int
  fbr_step_id :: pystr
  fbr_terminal_status :: pystr
  fbr_output :: "json_object option"

record handoff_stage_resume_state =
  hsr_stage_index :: int
  hsr_step_id :: pystr
  hsr_output :: json_object

record handoff_resume_state =
  hrs_completed_stages :: "handoff_stage_resume_state list"
  hrs_stage_count :: int

record evaluator_optimizer_step_resume_state =
  eos_entry_index :: int
  eos_declared_step_index :: int
  eos_step_id :: pystr
  eos_output :: json_object

record evaluator_optimizer_resume_state =
  eor_completed_steps :: "evaluator_optimizer_step_resume_state list"

record effect_fence_resume_state =
  efr_idempotency_key :: pystr

record orchestrator_effect_fence_paused_resume_state =
  oef_idempotency_key :: pystr
  oef_step_id :: pystr
  oef_step_kind :: pystr

record effect_fence_paused_branch_resume_state =
  efp_branch_index :: int
  efp_step_id :: pystr
  efp_step_kind :: pystr
  efp_idempotency_key :: pystr

record peer_fan_out_resume_state =
  pfr_branches :: "fan_out_branch_resume_state list"
  pfr_branch_count :: int
  pfr_synthesis_step_id :: "pystr option"
  pfr_effect_fence_paused_branches :: "effect_fence_paused_branch_resume_state list"

text \<open>A paused branch of a hierarchical workflow holds the snapshot of its child.\<close>

datatype pause_snapshot =
  PauseSnapshot (psn_workflow_id: pystr) (psn_run_id: pystr) (psn_step_index: int)
    (psn_pause_reason: workflow_pause_reason) (psn_state_summary: state_summary) (psn_snapshot_hash: pystr)
    (psn_created_at: int) (psn_state_ledger_anchor: pystr)
    (psn_fan_out_resume: "fan_out_resume_state option") (psn_peer_fan_out_resume: "peer_fan_out_resume_state option")
    (psn_handoff_resume: "handoff_resume_state option")
    (psn_evaluator_optimizer_resume: "evaluator_optimizer_resume_state option")
    (psn_effect_fence_resume: "effect_fence_resume_state option")
    (psn_orchestrator_effect_fence_resume: "orchestrator_effect_fence_paused_resume_state option")
and fan_out_resume_state =
  FanOutResumeState (for_orchestrator_output: json_object) (for_orchestrator_step_id: pystr)
    (for_branches: "fan_out_branch_resume_state list") (for_worker_count: int)
    (for_paused_child_branches: "paused_child_branch_resume_state list") (for_synthesis_step_id: "pystr option")
    (for_effect_fence_paused_branches: "effect_fence_paused_branch_resume_state list")
and paused_child_branch_resume_state =
  PausedChildBranchResumeState (pcb_branch_index: int) (pcb_step_id: pystr) (pcb_child_snapshot: pause_snapshot)

section \<open>Dumps\<close>

definition json_opt :: "('a \<Rightarrow> json) \<Rightarrow> 'a option \<Rightarrow> json" where
  "json_opt f x = (case x of None \<Rightarrow> JNull | Some y \<Rightarrow> f y)"

definition ledger_entry_ref_json :: "ledger_entry_ref \<Rightarrow> json" where
  "ledger_entry_ref_json r =
     JObj [(lit ''action_id'', JStr (ler_action_id r)), (lit ''entry_hash'', JStr (ler_entry_hash r)),
           (lit ''actor'', JStr (ler_actor r))]"

definition bytes_json :: "bytes option \<Rightarrow> json option" where
  "bytes_json b =
     (case b of None \<Rightarrow> Some JNull | Some bs \<Rightarrow> map_option JStr (utf8_decode False (map unat bs)))"

definition external_reference_json :: "external_reference \<Rightarrow> json option" where
  "external_reference_json r =
     map_option (\<lambda>b.
       JObj [(lit ''reference_class'', JStr (reference_class_value (exr_reference_class r))),
             (lit ''reference_id'', JStr (exr_reference_id r)), (lit ''snapshot_capture_at_pause'', b)])
       (bytes_json (exr_snapshot_capture_at_pause r))"

definition state_summary_json :: "state_summary \<Rightarrow> json option" where
  "state_summary_json s =
     map_option (\<lambda>refs.
       JObj [(lit ''relevant_entries'', JList (map ledger_entry_ref_json (ssm_relevant_entries s))),
             (lit ''summary_text'', JStr (ssm_summary_text s)), (lit ''summary_hash'', JStr (ssm_summary_hash s)),
             (lit ''idempotency_key'', JStr (ssm_idempotency_key s)), (lit ''external_references'', JList refs)])
       (those (map external_reference_json (ssm_external_references s)))"

definition fan_out_branch_json :: "fan_out_branch_resume_state \<Rightarrow> json" where
  "fan_out_branch_json b =
     JObj [(lit ''branch_index'', JInt (fbr_branch_index b)), (lit ''step_id'', JStr (fbr_step_id b)),
           (lit ''terminal_status'', JStr (fbr_terminal_status b)), (lit ''output'', json_opt JObj (fbr_output b))]"

definition effect_fence_paused_branch_json :: "effect_fence_paused_branch_resume_state \<Rightarrow> json" where
  "effect_fence_paused_branch_json b =
     JObj [(lit ''branch_index'', JInt (efp_branch_index b)), (lit ''step_id'', JStr (efp_step_id b)),
           (lit ''step_kind'', JStr (efp_step_kind b)), (lit ''idempotency_key'', JStr (efp_idempotency_key b))]"

definition peer_fan_out_json :: "peer_fan_out_resume_state \<Rightarrow> json" where
  "peer_fan_out_json p =
     JObj [(lit ''branches'', JList (map fan_out_branch_json (pfr_branches p))),
           (lit ''branch_count'', JInt (pfr_branch_count p)),
           (lit ''synthesis_step_id'', json_opt JStr (pfr_synthesis_step_id p)),
           (lit ''effect_fence_paused_branches'',
            JList (map effect_fence_paused_branch_json (pfr_effect_fence_paused_branches p)))]"

definition handoff_json :: "handoff_resume_state \<Rightarrow> json" where
  "handoff_json h =
     JObj [(lit ''completed_stages'', JList (map (\<lambda>s.
              JObj [(lit ''stage_index'', JInt (hsr_stage_index s)), (lit ''step_id'', JStr (hsr_step_id s)),
                    (lit ''output'', JObj (hsr_output s))]) (hrs_completed_stages h))),
           (lit ''stage_count'', JInt (hrs_stage_count h))]"

definition evaluator_optimizer_json :: "evaluator_optimizer_resume_state \<Rightarrow> json" where
  "evaluator_optimizer_json e =
     JObj [(lit ''completed_steps'', JList (map (\<lambda>s.
              JObj [(lit ''entry_index'', JInt (eos_entry_index s)),
                    (lit ''declared_step_index'', JInt (eos_declared_step_index s)),
                    (lit ''step_id'', JStr (eos_step_id s)), (lit ''output'', JObj (eos_output s))])
              (eor_completed_steps e)))]"

definition effect_fence_resume_json :: "effect_fence_resume_state \<Rightarrow> json" where
  "effect_fence_resume_json e = JObj [(lit ''idempotency_key'', JStr (efr_idempotency_key e))]"

definition orchestrator_effect_fence_json :: "orchestrator_effect_fence_paused_resume_state \<Rightarrow> json" where
  "orchestrator_effect_fence_json e =
     JObj [(lit ''idempotency_key'', JStr (oef_idempotency_key e)), (lit ''step_id'', JStr (oef_step_id e)),
           (lit ''step_kind'', JStr (oef_step_kind e))]"

fun pause_snapshot_json :: "pause_snapshot \<Rightarrow> json option"
  and fan_out_json :: "fan_out_resume_state \<Rightarrow> json option"
  and paused_child_json :: "paused_child_branch_resume_state \<Rightarrow> json option" where
  "pause_snapshot_json (PauseSnapshot wid run idx reason summary hash created anchor fan peer hand ev ef oef) =
     Option.bind (state_summary_json summary) (\<lambda>sj.
     Option.bind (case fan of None \<Rightarrow> Some JNull | Some f \<Rightarrow> fan_out_json f) (\<lambda>fj.
       Some (JObj [(lit ''workflow_id'', JStr wid), (lit ''run_id'', JStr run), (lit ''step_index'', JInt idx),
             (lit ''pause_reason'', JStr (workflow_pause_reason_value reason)), (lit ''state_summary'', sj),
             (lit ''snapshot_hash'', JStr hash), (lit ''created_at'', JInt created),
             (lit ''state_ledger_anchor'', JStr anchor), (lit ''fan_out_resume'', fj),
             (lit ''peer_fan_out_resume'', json_opt peer_fan_out_json peer),
             (lit ''handoff_resume'', json_opt handoff_json hand),
             (lit ''evaluator_optimizer_resume'', json_opt evaluator_optimizer_json ev),
             (lit ''effect_fence_resume'', json_opt effect_fence_resume_json ef),
             (lit ''orchestrator_effect_fence_resume'', json_opt orchestrator_effect_fence_json oef)])))"
| "fan_out_json (FanOutResumeState out step_id branches count children synth paused) =
     map_option (\<lambda>cs.
       JObj [(lit ''orchestrator_output'', JObj out), (lit ''orchestrator_step_id'', JStr step_id),
             (lit ''branches'', JList (map fan_out_branch_json branches)), (lit ''worker_count'', JInt count),
             (lit ''paused_child_branches'', JList cs), (lit ''synthesis_step_id'', json_opt JStr synth),
             (lit ''effect_fence_paused_branches'', JList (map effect_fence_paused_branch_json paused))])
       (those (map paused_child_json children))"
| "paused_child_json (PausedChildBranchResumeState idx step_id child) =
     map_option (\<lambda>c.
       JObj [(lit ''branch_index'', JInt idx), (lit ''step_id'', JStr step_id), (lit ''child_snapshot'', c)])
       (pause_snapshot_json child)"

section \<open>The hash\<close>

text \<open>\<open>_strip_default_fanout_resume_fields\<close>: the default fields of a carrier, and of the carriers of its paused
  children, are dropped; nothing else is entered.\<close>

definition pop_if :: "string \<Rightarrow> (json \<Rightarrow> bool) \<Rightarrow> (pystr \<times> json) list \<Rightarrow> (pystr \<times> json) list" where
  "pop_if k P d = filter (\<lambda>(k', v). \<not> (k' = lit k \<and> P v)) d"

lemma size_pop_if: "(k, v) \<in> set (pop_if a P d) \<Longrightarrow> size v < size (JObj d)"
  by (induction d) (auto simp: pop_if_def split: if_splits)

lemma size_list_member: "v \<in> set vs \<Longrightarrow> size v < size (JList vs)"
  by (induction vs) auto

lemma size_pop_if2:
  assumes "(k, v) \<in> set (pop_if a P (pop_if b Q d))"
  shows "size v < size (JObj d)"
proof -
  have "(k, v) \<in> set (pop_if b Q d)" using assms unfolding pop_if_def [of a] by simp
  then show ?thesis by (rule size_pop_if)
qed

lemma size_member: "(k, v) \<in> set d \<Longrightarrow> size v < size (JObj d)"
  by (induction d) auto

function strip_default_fanout_resume_fields :: "json \<Rightarrow> json"
  and strip_paused_child :: "json \<Rightarrow> json"
  and strip_child_snapshot :: "json \<Rightarrow> json" where
  "strip_default_fanout_resume_fields carrier =
     (case carrier of
        JObj d \<Rightarrow>
          JObj (map (\<lambda>(k, v).
              (k, if k = lit ''paused_child_branches''
                  then (case v of JList ps \<Rightarrow> JList (map strip_paused_child ps) | _ \<Rightarrow> v) else v))
            (pop_if ''synthesis_step_id'' (\<lambda>v. v = JNull)
              (pop_if ''effect_fence_paused_branches'' (\<lambda>v. \<not> truthy v) d)))
      | _ \<Rightarrow> carrier)"
| "strip_paused_child pcb =
     (case pcb of
        JObj d \<Rightarrow> JObj (map (\<lambda>(k, v). (k, if k = lit ''child_snapshot'' then strip_child_snapshot v else v)) d)
      | _ \<Rightarrow> pcb)"
| "strip_child_snapshot child =
     (case child of
        JObj d \<Rightarrow>
          JObj (map (\<lambda>(k, v).
              (k, if k \<in> {lit ''fan_out_resume'', lit ''peer_fan_out_resume''}
                  then strip_default_fanout_resume_fields v else v))
            (pop_if ''orchestrator_effect_fence_resume'' (\<lambda>v. v = JNull) d))
      | _ \<Rightarrow> child)"
  by pat_completeness auto

termination
proof (relation "measure (case_sum size (case_sum size size))", goal_cases)
  case (2 carrier d x k v ps z)
  then have "size z < size v" "size v < size carrier"
    using size_list_member size_pop_if2 by (metis, metis)
  then show ?case by simp
next
  case (3 pcb d x k v)
  then show ?case using size_member [of k v d] by simp
next
  case (4 child d x k v)
  then have "(k, v) \<in> set (pop_if ''orchestrator_effect_fence_resume'' (\<lambda>v. v = JNull) d)" by simp
  then have "size v < size (JObj d)" by (rule size_pop_if)
  then show ?case using 4 by simp
qed auto

declare strip_default_fanout_resume_fields.simps [simp del] strip_paused_child.simps [simp del]
  strip_child_snapshot.simps [simp del]

definition snapshot_canonical :: "pause_snapshot \<Rightarrow> (pystr \<times> json) list option" where
  "snapshot_canonical s =
     Option.bind (state_summary_json (psn_state_summary s)) (\<lambda>sj.
     Option.bind (case psn_fan_out_resume s of None \<Rightarrow> Some [] | Some f \<Rightarrow>
         map_option (\<lambda>j. [(lit ''fan_out_resume'',
           strip_default_fanout_resume_fields (case j of JObj d \<Rightarrow> JObj (pop_if ''paused_child_branches'' (\<lambda>v. \<not> truthy v) d) | _ \<Rightarrow> j))])
           (fan_out_json f)) (\<lambda>fj.
       Some ([(lit ''workflow_id'', JStr (psn_workflow_id s)), (lit ''run_id'', JStr (psn_run_id s)),
              (lit ''step_index'', JInt (psn_step_index s)), (lit ''state_summary'', sj)]
             @ fj
             @ (case psn_peer_fan_out_resume s of None \<Rightarrow> [] | Some p \<Rightarrow>
                  [(lit ''peer_fan_out_resume'', strip_default_fanout_resume_fields (peer_fan_out_json p))])
             @ (case psn_handoff_resume s of None \<Rightarrow> [] | Some h \<Rightarrow> [(lit ''handoff_resume'', handoff_json h)])
             @ (case psn_evaluator_optimizer_resume s of None \<Rightarrow> [] | Some e \<Rightarrow>
                  [(lit ''evaluator_optimizer_resume'', evaluator_optimizer_json e)])
             @ (case psn_effect_fence_resume s of None \<Rightarrow> [] | Some e \<Rightarrow>
                  [(lit ''effect_fence_resume'', effect_fence_resume_json e)])
             @ (case psn_orchestrator_effect_fence_resume s of None \<Rightarrow> [] | Some e \<Rightarrow>
                  [(lit ''orchestrator_effect_fence_resume'', orchestrator_effect_fence_json e)]))))"

text \<open>\<open>json.dumps (.., sort_keys=True, separators=(",", ":"))\<close> and the digest of its bytes.\<close>

definition ascii_compact :: dumps_options where
  "ascii_compact = \<lparr>do_spaced = False, do_ensure_ascii = True\<rparr>"

definition compute_snapshot_hash :: "float_codec \<Rightarrow> pause_snapshot \<Rightarrow> pystr option" where
  "compute_snapshot_hash fc s =
     Option.bind (snapshot_canonical s) (\<lambda>d.
       map_option sha256_hexdigest (utf8_encode (dumps fc ascii_compact (sort_keys (JObj d)))))"

definition compute_diff_summary_hash :: "float_codec \<Rightarrow> pystr \<Rightarrow> pystr \<Rightarrow> pystr option" where
  "compute_diff_summary_hash fc snapshot_anchor current_anchor =
     map_option sha256_hexdigest (utf8_encode (dumps fc ascii_compact (sort_keys
       (JObj [(lit ''snapshot_anchor'', JStr snapshot_anchor), (lit ''current_anchor'', JStr current_anchor)]))))"

section \<open>Pause and resume\<close>

text \<open>What the context reader answers: the state summary and the anchor of the ledger; and the clock.\<close>

record pause_context =
  pct_state_summary :: state_summary
  pct_anchor :: pystr
  pct_now_epoch_ms :: int

record resume_carriers =
  rca_fan_out_resume :: "fan_out_resume_state option"
  rca_peer_fan_out_resume :: "peer_fan_out_resume_state option"
  rca_handoff_resume :: "handoff_resume_state option"
  rca_evaluator_optimizer_resume :: "evaluator_optimizer_resume_state option"
  rca_effect_fence_resume :: "effect_fence_resume_state option"
  rca_orchestrator_effect_fence_resume :: "orchestrator_effect_fence_paused_resume_state option"

definition no_carriers :: resume_carriers where
  "no_carriers =
     \<lparr>rca_fan_out_resume = None, rca_peer_fan_out_resume = None, rca_handoff_resume = None,
      rca_evaluator_optimizer_resume = None, rca_effect_fence_resume = None,
      rca_orchestrator_effect_fence_resume = None\<rparr>"

definition capture_pause_snapshot ::
  "float_codec \<Rightarrow> pause_context \<Rightarrow> pystr \<Rightarrow> pystr \<Rightarrow> int \<Rightarrow> workflow_pause_reason \<Rightarrow> resume_carriers \<Rightarrow> pause_snapshot option" where
  "capture_pause_snapshot fc ctx workflow_id run_id step_index reason c =
     (let s = (\<lambda>h. PauseSnapshot workflow_id run_id step_index reason (pct_state_summary ctx) h
                (pct_now_epoch_ms ctx) (pct_anchor ctx) (rca_fan_out_resume c) (rca_peer_fan_out_resume c)
                (rca_handoff_resume c) (rca_evaluator_optimizer_resume c) (rca_effect_fence_resume c)
                (rca_orchestrator_effect_fence_resume c))
      in map_option s (compute_snapshot_hash fc (s [])))"

record resume_result =
  rsr_resumed :: bool
  rsr_diff_detected :: bool
  rsr_diff_summary_hash :: "pystr option"
  rsr_fail_class :: "pystr option"

definition CP_FAIL_PAUSE_SNAPSHOT_CORRUPTION :: pystr where
  "CP_FAIL_PAUSE_SNAPSHOT_CORRUPTION = lit ''CP-FAIL-PAUSE-SNAPSHOT-CORRUPTION''"

definition CP_FAIL_RESUME_MATERIAL_DIFF_DETECTED :: pystr where
  "CP_FAIL_RESUME_MATERIAL_DIFF_DETECTED = lit ''CP-FAIL-RESUME-MATERIAL-DIFF-DETECTED''"

definition CP_FAIL_RESUME_OPERATOR_ARBITRATION_OWED :: pystr where
  "CP_FAIL_RESUME_OPERATOR_ARBITRATION_OWED = lit ''CP-FAIL-RESUME-OPERATOR-ARBITRATION-OWED''"

definition is_material_diff :: "pause_snapshot \<Rightarrow> pystr \<Rightarrow> bool" where
  "is_material_diff s current_anchor \<longleftrightarrow> psn_state_ledger_anchor s \<noteq> current_anchor"

text \<open>\<open>None\<close> stands for an exception while a hash is computed.\<close>

definition attempt_resume ::
  "float_codec \<Rightarrow> pause_context \<Rightarrow> pause_snapshot \<Rightarrow> material_diff_policy \<Rightarrow> resume_result option" where
  "attempt_resume fc ctx s policy =
     (case compute_snapshot_hash fc s of
        None \<Rightarrow> None
      | Some expected \<Rightarrow>
          if expected \<noteq> psn_snapshot_hash s then
            Some \<lparr>rsr_resumed = False, rsr_diff_detected = False, rsr_diff_summary_hash = None,
                  rsr_fail_class = Some CP_FAIL_PAUSE_SNAPSHOT_CORRUPTION\<rparr>
          else if \<not> is_material_diff s (pct_anchor ctx) then
            Some \<lparr>rsr_resumed = True, rsr_diff_detected = False, rsr_diff_summary_hash = None, rsr_fail_class = None\<rparr>
          else
            map_option (\<lambda>h.
              \<lparr>rsr_resumed = (policy = POLICY_LENIENT), rsr_diff_detected = True, rsr_diff_summary_hash = Some h,
               rsr_fail_class =
                 (case policy of
                    POLICY_STRICT \<Rightarrow> Some CP_FAIL_RESUME_MATERIAL_DIFF_DETECTED
                  | POLICY_OPERATOR_ARBITRATE \<Rightarrow> Some CP_FAIL_RESUME_OPERATOR_ARBITRATION_OWED
                  | POLICY_LENIENT \<Rightarrow> None)\<rparr>)
              (compute_diff_summary_hash fc (psn_state_ledger_anchor s) (pct_anchor ctx)))"

definition derive_resume_outcome :: "resume_result \<Rightarrow> pystr" where
  "derive_resume_outcome r =
     (if rsr_fail_class r = Some CP_FAIL_RESUME_MATERIAL_DIFF_DETECTED then lit ''diff_aborted''
      else if rsr_fail_class r = Some CP_FAIL_RESUME_OPERATOR_ARBITRATION_OWED then lit ''arbitration_owed''
      else lit ''resumed'')"

section \<open>Ledger entries of the protocol\<close>

datatype pause_resume_protocol_event_kind = PAUSE_CAPTURED | RESUME_ATTEMPTED

fun protocol_event_kind_value :: "pause_resume_protocol_event_kind \<Rightarrow> pystr" where
  "protocol_event_kind_value PAUSE_CAPTURED = lit ''pause-captured''"
| "protocol_event_kind_value RESUME_ATTEMPTED = lit ''resume-attempted''"

text \<open>\<open>_canonicalize_outcome_bytes\<close>; non-finite floats, which it refuses, are not modelled.\<close>

definition canonicalize_outcome_bytes :: "float_codec \<Rightarrow> json \<Rightarrow> bytes option" where
  "canonicalize_outcome_bytes fc payload = utf8_encode (dumps fc compact (sort_keys payload))"

text \<open>The digest of segments joined by the record separator U+001E.\<close>

definition join_segments :: "bytes list \<Rightarrow> bytes" where
  "join_segments segs = (case segs of [] \<Rightarrow> [] | s # ss \<Rightarrow> s @ concat (map (\<lambda>t. 30 # t) ss))"

definition segments_key :: "pystr list \<Rightarrow> pystr option" where
  "segments_key segs = map_option (\<lambda>bs. sha256_hexdigest (join_segments bs)) (those (map utf8_encode segs))"

definition pause_resume_idempotency_key ::
  "pystr \<Rightarrow> pystr \<Rightarrow> pause_resume_protocol_event_kind \<Rightarrow> int \<Rightarrow> pystr \<Rightarrow> pystr option" where
  "pause_resume_idempotency_key workflow_id step_id kind sequence_id outcome_hash =
     segments_key [workflow_id, step_id, protocol_event_kind_value kind, dec_int sequence_id, outcome_hash]"

definition pause_captured_idempotency_key :: "pystr \<Rightarrow> pystr \<Rightarrow> pystr \<Rightarrow> pystr \<Rightarrow> pystr option" where
  "pause_captured_idempotency_key workflow_id step_id pause_audit_entry_id outcome_hash =
     segments_key [workflow_id, step_id, pause_audit_entry_id, pause_audit_entry_id, outcome_hash]"

definition resume_attempted_idempotency_key :: "pystr \<Rightarrow> pystr \<Rightarrow> pystr \<Rightarrow> int \<Rightarrow> pystr \<Rightarrow> pystr option" where
  "resume_attempted_idempotency_key workflow_id step_id resume_event_id attempt_count outcome_hash =
     segments_key [workflow_id, step_id, resume_event_id, dec_int attempt_count, outcome_hash]"

text \<open>The payload of an entry; time and snapshot reference come from outside.\<close>

definition protocol_payload :: "string \<Rightarrow> pystr \<Rightarrow> pystr \<Rightarrow> py_datetime \<Rightarrow> pystr option \<Rightarrow> entry_payload" where
  "protocol_payload action_id key actor_id now ref =
     \<lparr>epl_action_id = lit action_id, epl_idempotency_key = key,
      epl_actor = \<lparr>act_actor_class = ACTOR_AGENT, act_actor_id = actor_id\<rparr>, epl_timestamp = now,
      epl_procedural_tier_snapshot_ref = ref, epl_branch_metadata = None\<rparr>"

definition emit_pause_resume_state_ledger_entry ::
  "float_codec \<Rightarrow> pystr \<Rightarrow> pystr \<Rightarrow> pause_resume_protocol_event_kind \<Rightarrow> int \<Rightarrow> json \<Rightarrow> pystr \<Rightarrow> py_datetime \<Rightarrow> pystr option \<Rightarrow>
     entry_payload option" where
  "emit_pause_resume_state_ledger_entry fc workflow_id step_id kind sequence_id snapshot actor_id now ref =
     Option.bind (canonicalize_outcome_bytes fc snapshot) (\<lambda>bs.
       map_option (\<lambda>key. protocol_payload ''cp.pause-resume-protocol'' key actor_id now ref)
         (pause_resume_idempotency_key workflow_id step_id kind sequence_id (sha256_hexdigest bs)))"

section \<open>The engine layer\<close>

datatype engine_pause_reason =
  HITL_INVOCATION_PENDING | CROSS_DEPLOYMENT_BRIDGING_ARC_PAUSE | OPERATOR_INITIATED_PAUSE | ENGINE_NATIVE_PAUSE

fun engine_pause_reason_value :: "engine_pause_reason \<Rightarrow> pystr" where
  "engine_pause_reason_value HITL_INVOCATION_PENDING = lit ''hitl-invocation-pending''"
| "engine_pause_reason_value CROSS_DEPLOYMENT_BRIDGING_ARC_PAUSE = lit ''cross-deployment-bridging-arc-pause''"
| "engine_pause_reason_value OPERATOR_INITIATED_PAUSE = lit ''operator-initiated-pause''"
| "engine_pause_reason_value ENGINE_NATIVE_PAUSE = lit ''engine-native-pause''"

record pause_event =
  pev_paused_at :: pystr
  pev_pause_reason :: engine_pause_reason
  pev_state_summary_snapshot :: state_summary
  pev_external_refs_captured :: "external_reference list"
  pev_pause_audit_entry_id :: pystr

record material_diff =
  mdf_reference :: external_reference
  mdf_prior_snapshot :: bytes
  mdf_current_value :: bytes
  mdf_is_material :: bool

record engine_resume_attempt =
  era_paused_workflow_id :: pystr
  era_resume_at :: pystr
  era_resume_request_actor :: pystr

datatype resume_outcome_kind =
  RESUME_CLEAN | RESUME_AFTER_REVALIDATION | ABORT_REVALIDATION_FAILED | ABORT_SNAPSHOT_CORRUPTED

record resume_outcome =
  rso_outcome_kind :: resume_outcome_kind
  rso_material_diff :: "material_diff list"
  rso_context_revalidated :: bool
  rso_resume_audit_entry_id :: "pystr option"

definition classify_resume :: "material_diff list \<Rightarrow> bool \<Rightarrow> resume_outcome_kind" where
  "classify_resume diff revalidation_succeeded =
     (if \<not> list_ex mdf_is_material diff then RESUME_CLEAN
      else if revalidation_succeeded then RESUME_AFTER_REVALIDATION
      else ABORT_REVALIDATION_FAILED)"

text \<open>The substrate: what it is built with, and the pauses it remembers.\<close>

record engine_providers =
  epv_state_summary :: state_summary
  epv_diff :: "pause_event \<Rightarrow> engine_resume_attempt \<Rightarrow> material_diff list"
  epv_revalidation_succeeded :: "engine_resume_attempt \<Rightarrow> material_diff list \<Rightarrow> bool"
  epv_pause_audit_entry_id :: "(pystr \<Rightarrow> engine_pause_reason \<Rightarrow> pystr) option"
  epv_resume_audit_entry_id :: "(engine_resume_attempt \<Rightarrow> resume_outcome_kind \<Rightarrow> pystr option) option"

type_synonym engine_pauses = "pystr \<rightharpoonup> pause_event"

definition engine_capture_pause_snapshot ::
  "engine_providers \<Rightarrow> pystr \<Rightarrow> pystr \<Rightarrow> engine_pause_reason \<Rightarrow> engine_pauses \<Rightarrow> (pause_event \<times> engine_pauses) option" where
  "engine_capture_pause_snapshot pv now workflow_id reason pauses =
     map_option (\<lambda>audit_id.
         let event = \<lparr>pev_paused_at = now, pev_pause_reason = reason, pev_state_summary_snapshot = epv_state_summary pv,
               pev_external_refs_captured = ssm_external_references (epv_state_summary pv),
               pev_pause_audit_entry_id = audit_id\<rparr>
         in (event, pauses(workflow_id \<mapsto> event)))
       (case epv_pause_audit_entry_id pv of
          Some f \<Rightarrow> Some (f workflow_id reason)
        | None \<Rightarrow> segments_key [workflow_id, engine_pause_reason_value reason, ssm_summary_hash (epv_state_summary pv)])"

definition engine_attempt_resume :: "engine_providers \<Rightarrow> engine_resume_attempt \<Rightarrow> engine_pauses \<Rightarrow> resume_outcome" where
  "engine_attempt_resume pv attempt pauses =
     (case pauses (era_paused_workflow_id attempt) of
        None \<Rightarrow> \<lparr>rso_outcome_kind = ABORT_SNAPSHOT_CORRUPTED, rso_material_diff = [], rso_context_revalidated = False,
                 rso_resume_audit_entry_id = None\<rparr>
      | Some event \<Rightarrow>
          let diff = epv_diff pv event attempt;
              kind = classify_resume diff (epv_revalidation_succeeded pv attempt diff)
          in \<lparr>rso_outcome_kind = kind, rso_material_diff = diff,
              rso_context_revalidated = (kind = RESUME_AFTER_REVALIDATION),
              rso_resume_audit_entry_id =
                (case epv_resume_audit_entry_id pv of None \<Rightarrow> None | Some f \<Rightarrow> f attempt kind)\<rparr>)"

definition has_pause_record :: "engine_pauses \<Rightarrow> pystr \<Rightarrow> bool" where
  "has_pause_record pauses workflow_id \<longleftrightarrow> pauses workflow_id \<noteq> None"

section \<open>Hashes\<close>

lemma ascii_dumps_encode:
  assumes "ascii_floats fc" "do_ensure_ascii opts"
  shows "\<exists>bs. utf8_encode (dumps fc opts v) = Some bs"
  using dumps_ascii [OF assms] utf8_encode_ascii [of "dumps fc opts v"] by blast

lemma ascii_compact_ascii: "do_ensure_ascii ascii_compact"
  by (simp add: ascii_compact_def)

lemma diff_summary_hash_total: "ascii_floats fc \<Longrightarrow> \<exists>h. compute_diff_summary_hash fc a b = Some h"
proof -
  assume "ascii_floats fc"
  then obtain bs where "utf8_encode (dumps fc ascii_compact (sort_keys
      (JObj [(lit ''snapshot_anchor'', JStr a), (lit ''current_anchor'', JStr b)]))) = Some bs"
    using ascii_dumps_encode [of fc ascii_compact, OF _ ascii_compact_ascii] by blast
  then show ?thesis unfolding compute_diff_summary_hash_def by (simp only: option.map) blast
qed

text \<open>The snapshot that a capture returns, its hash and its anchor.\<close>

lemma capture_hash:
  assumes "capture_pause_snapshot fc ctx w r i reason c = Some s"
  shows "compute_snapshot_hash fc s = Some (psn_snapshot_hash s)" "psn_state_ledger_anchor s = pct_anchor ctx"
  using assms by (auto simp: capture_pause_snapshot_def compute_snapshot_hash_def snapshot_canonical_def Let_def)

section \<open>Resuming what was captured\<close>

text \<open>The answer to a difference of the anchors.\<close>

definition diff_answer :: "material_diff_policy \<Rightarrow> pystr \<Rightarrow> resume_result" where
  "diff_answer policy h =
     (case policy of
        POLICY_STRICT \<Rightarrow> \<lparr>rsr_resumed = False, rsr_diff_detected = True, rsr_diff_summary_hash = Some h,
          rsr_fail_class = Some CP_FAIL_RESUME_MATERIAL_DIFF_DETECTED\<rparr>
      | POLICY_OPERATOR_ARBITRATE \<Rightarrow> \<lparr>rsr_resumed = False, rsr_diff_detected = True, rsr_diff_summary_hash = Some h,
          rsr_fail_class = Some CP_FAIL_RESUME_OPERATOR_ARBITRATION_OWED\<rparr>
      | POLICY_LENIENT \<Rightarrow> \<lparr>rsr_resumed = True, rsr_diff_detected = True, rsr_diff_summary_hash = Some h,
          rsr_fail_class = None\<rparr>)"

definition clean_answer :: resume_result where
  "clean_answer = \<lparr>rsr_resumed = True, rsr_diff_detected = False, rsr_diff_summary_hash = None, rsr_fail_class = None\<rparr>"

lemma attempt_resume_valid:
  assumes "ascii_floats fc" "compute_snapshot_hash fc s = Some (psn_snapshot_hash s)"
  shows "\<exists>h. attempt_resume fc ctx s policy =
    Some (if psn_state_ledger_anchor s = pct_anchor ctx then clean_answer else diff_answer policy h)"
proof -
  obtain h where "compute_diff_summary_hash fc (psn_state_ledger_anchor s) (pct_anchor ctx) = Some h"
    using diff_summary_hash_total [OF assms(1)] by blast
  then show ?thesis
    by (intro exI [of _ h])
      (cases policy; simp add: attempt_resume_def assms(2) is_material_diff_def clean_answer_def diff_answer_def)
qed

lemma attempt_resume_total:
  assumes "ascii_floats fc" "compute_snapshot_hash fc s = Some h"
  shows "\<exists>res. attempt_resume fc ctx s policy = Some res"
  using diff_summary_hash_total [OF assms(1), of "psn_state_ledger_anchor s" "pct_anchor ctx"]
  by (auto simp: attempt_resume_def assms(2))

definition sample_summary :: state_summary where
  "sample_summary =
     \<lparr>ssm_relevant_entries = [], ssm_summary_text = lit ''s'', ssm_summary_hash = lit ''h'',
      ssm_idempotency_key = lit ''k'', ssm_external_references = []\<rparr>"

definition sample_context :: pause_context where
  "sample_context = \<lparr>pct_state_summary = sample_summary, pct_anchor = lit ''anchor'', pct_now_epoch_ms = 0\<rparr>"

definition sample_snapshot :: pause_snapshot where
  "sample_snapshot =
     the (capture_pause_snapshot no_floats sample_context (lit ''w'') (lit ''r'') 2 EXPLICIT_OPERATOR no_carriers)"

lemma no_floats_ascii: "ascii_floats no_floats"
  by (simp add: ascii_floats_def no_floats_def)

lemma sample_capture_at: "\<exists>s. capture_pause_snapshot no_floats sample_context w r i reason no_carriers = Some s"
proof -
  have "\<exists>d. snapshot_canonical (PauseSnapshot w r i q sample_summary h n a None None None None None None) = Some d"
    for w r i q h n a
    by (simp add: snapshot_canonical_def state_summary_json_def sample_summary_def)
  then have "\<exists>h. compute_snapshot_hash no_floats (PauseSnapshot w r i q sample_summary h' n a None None None None None None) = Some h"
    for w r i q h' n a
    using ascii_dumps_encode [OF no_floats_ascii, of ascii_compact]
    unfolding compute_snapshot_hash_def by (metis ascii_compact_def bind.bind_lunit dumps_options.select_convs(2) option.map(2))
  then show ?thesis
    unfolding capture_pause_snapshot_def Let_def no_carriers_def sample_context_def by (simp del: lit_Cons)
qed

lemma sample_capture:
  "capture_pause_snapshot no_floats sample_context (lit ''w'') (lit ''r'') 2 EXPLICIT_OPERATOR no_carriers = Some sample_snapshot"
  using sample_capture_at unfolding sample_snapshot_def by (metis option.sel)

end
