(* ===== verification/Snapshot_Hash.thy ===== *)
theory Snapshot_Hash
  imports Pause_Resume
begin

text \<open>
  What the hash of a pause snapshot (\<open>_compute_snapshot_hash\<close> of \<open>pause_resume_protocol.py\<close>) binds: two snapshots with
  one hash agree, field by field of their records, in everything but the pause reason, the creation time and the ledger
  anchor, up to the order of keys in step outputs; or two texts have one SHA-256 digest. The comparison is stated on the
  records, without the dumps that are hashed.
\<close>

section \<open>Equal content\<close>

text \<open>Step outputs are dictionaries: they are the same up to the order of their keys, at any depth.\<close>

definition same_object :: "json_object \<Rightarrow> json_object \<Rightarrow> bool" where
  "same_object d e \<longleftrightarrow> sort_keys (JObj d) = sort_keys (JObj e)"

definition same_branch :: "fan_out_branch_resume_state \<Rightarrow> fan_out_branch_resume_state \<Rightarrow> bool" where
  "same_branch b c \<longleftrightarrow>
     fbr_branch_index b = fbr_branch_index c \<and> fbr_step_id b = fbr_step_id c \<and>
     fbr_terminal_status b = fbr_terminal_status c \<and> rel_option same_object (fbr_output b) (fbr_output c)"

text \<open>The bytes captured of a reference are dumped as the text they encode.\<close>

definition captured_text :: "external_reference \<Rightarrow> pystr option" where
  "captured_text r = Option.bind (exr_snapshot_capture_at_pause r) (\<lambda>bs. utf8_decode False (map unat bs))"

definition same_reference :: "external_reference \<Rightarrow> external_reference \<Rightarrow> bool" where
  "same_reference r q \<longleftrightarrow>
     exr_reference_class r = exr_reference_class q \<and> exr_reference_id r = exr_reference_id q \<and>
     (exr_snapshot_capture_at_pause r = None \<longleftrightarrow> exr_snapshot_capture_at_pause q = None) \<and> captured_text r = captured_text q"

definition same_summary :: "state_summary \<Rightarrow> state_summary \<Rightarrow> bool" where
  "same_summary s t \<longleftrightarrow>
     ssm_relevant_entries s = ssm_relevant_entries t \<and> ssm_summary_text s = ssm_summary_text t \<and>
     ssm_summary_hash s = ssm_summary_hash t \<and> ssm_idempotency_key s = ssm_idempotency_key t \<and>
     list_all2 same_reference (ssm_external_references s) (ssm_external_references t)"

definition same_handoff :: "handoff_resume_state \<Rightarrow> handoff_resume_state \<Rightarrow> bool" where
  "same_handoff h k \<longleftrightarrow>
     hrs_stage_count h = hrs_stage_count k \<and>
     list_all2 (\<lambda>a b. hsr_stage_index a = hsr_stage_index b \<and> hsr_step_id a = hsr_step_id b \<and>
         same_object (hsr_output a) (hsr_output b)) (hrs_completed_stages h) (hrs_completed_stages k)"

definition same_evaluator :: "evaluator_optimizer_resume_state \<Rightarrow> evaluator_optimizer_resume_state \<Rightarrow> bool" where
  "same_evaluator e f \<longleftrightarrow>
     list_all2 (\<lambda>a b. eos_entry_index a = eos_entry_index b \<and> eos_declared_step_index a = eos_declared_step_index b \<and>
         eos_step_id a = eos_step_id b \<and> same_object (eos_output a) (eos_output b)) (eor_completed_steps e) (eor_completed_steps f)"

definition same_peer :: "peer_fan_out_resume_state \<Rightarrow> peer_fan_out_resume_state \<Rightarrow> bool" where
  "same_peer p q \<longleftrightarrow>
     list_all2 same_branch (pfr_branches p) (pfr_branches q) \<and> pfr_branch_count p = pfr_branch_count q \<and>
     pfr_synthesis_step_id p = pfr_synthesis_step_id q \<and>
     pfr_effect_fence_paused_branches p = pfr_effect_fence_paused_branches q"

text \<open>A paused child is compared with its whole snapshot, the fields the hash of the parent does not cover included.\<close>

fun same_snapshot :: "pause_snapshot \<Rightarrow> pause_snapshot \<Rightarrow> bool"
  and same_fan_out :: "fan_out_resume_state \<Rightarrow> fan_out_resume_state \<Rightarrow> bool"
  and same_children :: "paused_child_branch_resume_state list \<Rightarrow> paused_child_branch_resume_state list \<Rightarrow> bool" where
  "same_snapshot (PauseSnapshot wid run idx reason summary h created anchor fan peer hand ev ef oef) t \<longleftrightarrow>
     wid = psn_workflow_id t \<and> run = psn_run_id t \<and> idx = psn_step_index t \<and> reason = psn_pause_reason t \<and>
     same_summary summary (psn_state_summary t) \<and> h = psn_snapshot_hash t \<and> created = psn_created_at t \<and>
     anchor = psn_state_ledger_anchor t \<and>
     (case fan of
        None \<Rightarrow> psn_fan_out_resume t = None
      | Some f \<Rightarrow> (case psn_fan_out_resume t of None \<Rightarrow> False | Some g \<Rightarrow> same_fan_out f g)) \<and>
     rel_option same_peer peer (psn_peer_fan_out_resume t) \<and> rel_option same_handoff hand (psn_handoff_resume t) \<and>
     rel_option same_evaluator ev (psn_evaluator_optimizer_resume t) \<and> ef = psn_effect_fence_resume t \<and>
     oef = psn_orchestrator_effect_fence_resume t"
| "same_fan_out (FanOutResumeState out step_id branches count children synth paused) g \<longleftrightarrow>
     same_object out (for_orchestrator_output g) \<and> step_id = for_orchestrator_step_id g \<and>
     list_all2 same_branch branches (for_branches g) \<and> count = for_worker_count g \<and>
     same_children children (for_paused_child_branches g) \<and> synth = for_synthesis_step_id g \<and>
     paused = for_effect_fence_paused_branches g"
| "same_children [] ds \<longleftrightarrow> ds = []"
| "same_children (PausedChildBranchResumeState i step_id child # cs) ds \<longleftrightarrow>
     (case ds of
        [] \<Rightarrow> False
      | d # ds' \<Rightarrow> i = pcb_branch_index d \<and> step_id = pcb_step_id d \<and> same_snapshot child (pcb_child_snapshot d) \<and>
          same_children cs ds')"

text \<open>What a hash covers.\<close>

definition same_hashed :: "pause_snapshot \<Rightarrow> pause_snapshot \<Rightarrow> bool" where
  "same_hashed s t \<longleftrightarrow>
     psn_workflow_id s = psn_workflow_id t \<and> psn_run_id s = psn_run_id t \<and> psn_step_index s = psn_step_index t \<and>
     same_summary (psn_state_summary s) (psn_state_summary t) \<and>
     rel_option same_fan_out (psn_fan_out_resume s) (psn_fan_out_resume t) \<and>
     rel_option same_peer (psn_peer_fan_out_resume s) (psn_peer_fan_out_resume t) \<and>
     rel_option same_handoff (psn_handoff_resume s) (psn_handoff_resume t) \<and>
     rel_option same_evaluator (psn_evaluator_optimizer_resume s) (psn_evaluator_optimizer_resume t) \<and>
     psn_effect_fence_resume s = psn_effect_fence_resume t \<and>
     psn_orchestrator_effect_fence_resume s = psn_orchestrator_effect_fence_resume t"

section \<open>From dumps to records\<close>

lemma sort_keys_fields:
  assumes "sort_keys (JObj (zip ks vs)) = sort_keys (JObj (zip ks us))" "distinct ks" "length vs = length ks" "length us = length ks"
  shows "map sort_keys vs = map sort_keys us"
proof (rule nth_equalityI)
  fix i
  assume "i < length (map sort_keys vs)"
  then have i: "i < length ks" using assms(3) by simp
  have at: "map_of (zip ks ws) (ks ! i) = Some (ws ! i)" if "length ws = length ks" for ws :: "json list"
    using i that assms(2) by (intro map_of_eq_Some_iff [THEN iffD2]) (auto simp: in_set_zip)
  have "map_option sort_keys (map_of (zip ks vs) (ks ! i)) = map_option sort_keys (map_of (zip ks us) (ks ! i))"
    by (rule sort_keys_obj_eq [OF assms(1)]) (use assms(2-4) in simp_all)
  then show "map sort_keys vs ! i = map sort_keys us ! i"
    using i assms(3,4) by (simp add: at)
qed (use assms(3,4) in simp)

lemma map_eq_list_all2:
  "map f xs = map f ys \<Longrightarrow> (\<And>x y. f x = f y \<Longrightarrow> P x y) \<Longrightarrow> list_all2 P xs ys"
  by (induction xs ys rule: list_induct2') auto

lemma json_opt_inject:
  "sort_keys (json_opt f x) = sort_keys (json_opt f y) \<Longrightarrow> (\<And>u v. sort_keys (f u) = sort_keys (f v) \<Longrightarrow> R u v) \<Longrightarrow>
   (\<And>u. sort_keys (f u) \<noteq> JNull) \<Longrightarrow> rel_option R x y"
  by (cases x; cases y; simp add: json_opt_def) metis+

lemma branch_same: "sort_keys (fan_out_branch_json b) = sort_keys (fan_out_branch_json c) \<Longrightarrow> same_branch b c"
proof -
  let ?ks = "[lit ''branch_index'', lit ''step_id'', lit ''terminal_status'', lit ''output'']"
  have z: "fan_out_branch_json b = JObj (zip ?ks
      [JInt (fbr_branch_index b), JStr (fbr_step_id b), JStr (fbr_terminal_status b), json_opt JObj (fbr_output b)])" for b
    by (simp add: fan_out_branch_json_def)
  assume "sort_keys (fan_out_branch_json b) = sort_keys (fan_out_branch_json c)"
  from sort_keys_fields [OF this [unfolded z]] show ?thesis
    by (auto simp: same_branch_def same_object_def intro: json_opt_inject)
qed

lemma branches_same:
  "map sort_keys (map fan_out_branch_json bs) = map sort_keys (map fan_out_branch_json cs) \<Longrightarrow> list_all2 same_branch bs cs"
  by (rule map_eq_list_all2 [of "sort_keys \<circ> fan_out_branch_json"]) (simp_all add: branch_same)

lemma paused_branch_same:
  "sort_keys (effect_fence_paused_branch_json b) = sort_keys (effect_fence_paused_branch_json c) \<Longrightarrow> b = c"
proof -
  let ?ks = "[lit ''branch_index'', lit ''step_id'', lit ''step_kind'', lit ''idempotency_key'']"
  have z: "effect_fence_paused_branch_json b = JObj (zip ?ks
      [JInt (efp_branch_index b), JStr (efp_step_id b), JStr (efp_step_kind b), JStr (efp_idempotency_key b)])" for b
    by (simp add: effect_fence_paused_branch_json_def)
  assume "sort_keys (effect_fence_paused_branch_json b) = sort_keys (effect_fence_paused_branch_json c)"
  from sort_keys_fields [OF this [unfolded z]] show ?thesis by simp
qed

lemma paused_branches_same:
  "map sort_keys (map effect_fence_paused_branch_json bs) = map sort_keys (map effect_fence_paused_branch_json cs) \<Longrightarrow> bs = cs"
  using map_eq_list_all2 [of "sort_keys \<circ> effect_fence_paused_branch_json" bs cs "(=)"]
  by (simp add: paused_branch_same list.rel_eq)

lemma ledger_ref_same: "sort_keys (ledger_entry_ref_json r) = sort_keys (ledger_entry_ref_json q) \<Longrightarrow> r = q"
proof -
  let ?ks = "[lit ''action_id'', lit ''entry_hash'', lit ''actor'']"
  have z: "ledger_entry_ref_json r = JObj (zip ?ks [JStr (ler_action_id r), JStr (ler_entry_hash r), JStr (ler_actor r)])" for r
    by (simp add: ledger_entry_ref_json_def)
  assume "sort_keys (ledger_entry_ref_json r) = sort_keys (ledger_entry_ref_json q)"
  from sort_keys_fields [OF this [unfolded z]] show ?thesis by simp
qed

lemma reference_class_inject: "reference_class_value c = reference_class_value d \<Longrightarrow> c = d"
  by (cases c; cases d) simp_all

lemma reference_same:
  assumes "external_reference_json r = Some j" "external_reference_json q = Some k" "sort_keys j = sort_keys k"
  shows "same_reference r q"
proof -
  let ?ks = "[lit ''reference_class'', lit ''reference_id'', lit ''snapshot_capture_at_pause'']"
  have z: "\<exists>b. j = JObj (zip ?ks [JStr (reference_class_value (exr_reference_class r)), JStr (exr_reference_id r), b]) \<and>
      (case exr_snapshot_capture_at_pause r of None \<Rightarrow> b = JNull | Some bs \<Rightarrow> captured_text r \<noteq> None \<and> b = JStr (the (captured_text r)))"
    if "external_reference_json r = Some j" for r j
    using that by (auto simp: external_reference_json_def bytes_json_def captured_text_def split: option.splits)
  obtain b where b: "j = JObj (zip ?ks [JStr (reference_class_value (exr_reference_class r)), JStr (exr_reference_id r), b])"
    "case exr_snapshot_capture_at_pause r of None \<Rightarrow> b = JNull | Some bs \<Rightarrow> captured_text r \<noteq> None \<and> b = JStr (the (captured_text r))"
    using z [OF assms(1)] by blast
  obtain c where c: "k = JObj (zip ?ks [JStr (reference_class_value (exr_reference_class q)), JStr (exr_reference_id q), c])"
    "case exr_snapshot_capture_at_pause q of None \<Rightarrow> c = JNull | Some bs \<Rightarrow> captured_text q \<noteq> None \<and> c = JStr (the (captured_text q))"
    using z [OF assms(2)] by blast
  have f: "exr_reference_class r = exr_reference_class q" "exr_reference_id r = exr_reference_id q" "sort_keys b = sort_keys c"
    using sort_keys_fields [OF assms(3) [unfolded b(1) c(1)]] by (simp_all add: reference_class_inject)
  have n: "captured_text p = None" if "exr_snapshot_capture_at_pause p = None" for p using that by (simp add: captured_text_def)
  show ?thesis
    using f b(2) c(2) n [of r] n [of q]
    by (cases "exr_snapshot_capture_at_pause r"; cases "exr_snapshot_capture_at_pause q") (auto simp: same_reference_def)
qed

lemma those_list_all2: "those (map f xs) = Some ys \<Longrightarrow> list_all2 (\<lambda>x y. f x = Some y) xs ys"
  by (induction xs arbitrary: ys) (auto split: option.splits)

lemma those_same:
  assumes "those (map f xs) = Some js" "those (map f ys) = Some ks" "map g js = map g ks"
    and "\<And>x y j k. x \<in> set xs \<Longrightarrow> f x = Some j \<Longrightarrow> f y = Some k \<Longrightarrow> g j = g k \<Longrightarrow> P x y"
  shows "list_all2 P xs ys"
proof -
  have l: "length xs = length js" "length ys = length ks" "length js = length ks"
    using those_list_all2 [OF assms(1)] those_list_all2 [OF assms(2)] assms(3) by (auto dest: list_all2_lengthD map_eq_imp_length_eq)
  show ?thesis unfolding list_all2_conv_all_nth
  proof (intro conjI allI impI)
    fix i
    assume i: "i < length xs"
    then have "g (js ! i) = g (ks ! i)" using assms(3) l by (metis nth_map)
    then show "P (xs ! i) (ys ! i)"
      using i l those_list_all2 [OF assms(1)] those_list_all2 [OF assms(2)]
      by (intro assms(4) [where j = "js ! i" and k = "ks ! i"]) (simp_all add: list_all2_conv_all_nth)
  qed (use l in simp)
qed

lemma summary_same:
  assumes "state_summary_json s = Some j" "state_summary_json t = Some k" "sort_keys j = sort_keys k"
  shows "same_summary s t"
proof -
  let ?ks = "[lit ''relevant_entries'', lit ''summary_text'', lit ''summary_hash'', lit ''idempotency_key'', lit ''external_references'']"
  have z: "\<exists>refs. those (map external_reference_json (ssm_external_references s)) = Some refs \<and>
      j = JObj (zip ?ks [JList (map ledger_entry_ref_json (ssm_relevant_entries s)), JStr (ssm_summary_text s),
        JStr (ssm_summary_hash s), JStr (ssm_idempotency_key s), JList refs])"
    if "state_summary_json s = Some j" for s j
    using that by (auto simp: state_summary_json_def)
  obtain a where a: "those (map external_reference_json (ssm_external_references s)) = Some a"
      "j = JObj (zip ?ks [JList (map ledger_entry_ref_json (ssm_relevant_entries s)), JStr (ssm_summary_text s),
        JStr (ssm_summary_hash s), JStr (ssm_idempotency_key s), JList a])" using z [OF assms(1)] by blast
  obtain b where b: "those (map external_reference_json (ssm_external_references t)) = Some b"
      "k = JObj (zip ?ks [JList (map ledger_entry_ref_json (ssm_relevant_entries t)), JStr (ssm_summary_text t),
        JStr (ssm_summary_hash t), JStr (ssm_idempotency_key t), JList b])" using z [OF assms(2)] by blast
  have f: "map sort_keys (map ledger_entry_ref_json (ssm_relevant_entries s)) = map sort_keys (map ledger_entry_ref_json (ssm_relevant_entries t))"
    "ssm_summary_text s = ssm_summary_text t" "ssm_summary_hash s = ssm_summary_hash t" "ssm_idempotency_key s = ssm_idempotency_key t"
    "map sort_keys a = map sort_keys b"
    using sort_keys_fields [OF assms(3) [unfolded a(2) b(2)]] by simp_all
  have "list_all2 (=) (ssm_relevant_entries s) (ssm_relevant_entries t)"
    by (rule map_eq_list_all2 [of "sort_keys \<circ> ledger_entry_ref_json"]) (use f(1) in \<open>simp_all add: ledger_ref_same\<close>)
  moreover have "list_all2 same_reference (ssm_external_references s) (ssm_external_references t)"
    by (rule those_same [OF a(1) b(1) f(5)]) (rule reference_same)
  ultimately show ?thesis using f by (simp add: same_summary_def list.rel_eq)
qed

lemma handoff_same: "sort_keys (handoff_json h) = sort_keys (handoff_json k) \<Longrightarrow> same_handoff h k"
proof -
  let ?stage = "\<lambda>s. JObj (zip [lit ''stage_index'', lit ''step_id'', lit ''output'']
      [JInt (hsr_stage_index s), JStr (hsr_step_id s), JObj (hsr_output s)])"
  have z: "handoff_json h = JObj (zip [lit ''completed_stages'', lit ''stage_count'']
      [JList (map ?stage (hrs_completed_stages h)), JInt (hrs_stage_count h)])" for h
    by (simp add: handoff_json_def)
  assume "sort_keys (handoff_json h) = sort_keys (handoff_json k)"
  from sort_keys_fields [OF this [unfolded z]]
  have f: "map sort_keys (map ?stage (hrs_completed_stages h)) = map sort_keys (map ?stage (hrs_completed_stages k))"
    "hrs_stage_count h = hrs_stage_count k" by simp_all
  have stage: "hsr_stage_index a = hsr_stage_index b \<and> hsr_step_id a = hsr_step_id b \<and> same_object (hsr_output a) (hsr_output b)"
    if "sort_keys (?stage a) = sort_keys (?stage b)" for a b
    using sort_keys_fields [OF that] by (simp add: same_object_def)
  show ?thesis unfolding same_handoff_def
    by (intro conjI f(2) map_eq_list_all2 [OF f(1) [unfolded map_map]] stage) (simp only: o_apply)
qed

lemma evaluator_same: "sort_keys (evaluator_optimizer_json e) = sort_keys (evaluator_optimizer_json f) \<Longrightarrow> same_evaluator e f"
proof -
  let ?stage = "\<lambda>s. JObj (zip [lit ''entry_index'', lit ''declared_step_index'', lit ''step_id'', lit ''output'']
      [JInt (eos_entry_index s), JInt (eos_declared_step_index s), JStr (eos_step_id s), JObj (eos_output s)])"
  have z: "evaluator_optimizer_json e = JObj (zip [lit ''completed_steps''] [JList (map ?stage (eor_completed_steps e))])" for e
    by (simp add: evaluator_optimizer_json_def)
  assume "sort_keys (evaluator_optimizer_json e) = sort_keys (evaluator_optimizer_json f)"
  from sort_keys_fields [OF this [unfolded z]]
  have f: "map sort_keys (map ?stage (eor_completed_steps e)) = map sort_keys (map ?stage (eor_completed_steps f))" by simp
  have stage: "eos_entry_index a = eos_entry_index b \<and> eos_declared_step_index a = eos_declared_step_index b \<and>
      eos_step_id a = eos_step_id b \<and> same_object (eos_output a) (eos_output b)"
    if "sort_keys (?stage a) = sort_keys (?stage b)" for a b
    using sort_keys_fields [OF that] by (simp add: same_object_def)
  show ?thesis unfolding same_evaluator_def
    by (intro map_eq_list_all2 [OF f [unfolded map_map]] stage) (simp only: o_apply)
qed

lemma effect_fence_same: "sort_keys (effect_fence_resume_json e) = sort_keys (effect_fence_resume_json f) \<Longrightarrow> e = f"
  using sort_keys_fields [of "[lit ''idempotency_key'']" "[JStr (efr_idempotency_key e)]" "[JStr (efr_idempotency_key f)]"]
  by (simp add: effect_fence_resume_json_def)

lemma orchestrator_fence_same:
  "sort_keys (orchestrator_effect_fence_json e) = sort_keys (orchestrator_effect_fence_json f) \<Longrightarrow> e = f"
  using sort_keys_fields [of "[lit ''idempotency_key'', lit ''step_id'', lit ''step_kind'']"
      "[JStr (oef_idempotency_key e), JStr (oef_step_id e), JStr (oef_step_kind e)]"
      "[JStr (oef_idempotency_key f), JStr (oef_step_id f), JStr (oef_step_kind f)]"]
  by (simp add: orchestrator_effect_fence_json_def)

section \<open>Defaults that are left out\<close>

lemma map_of_pop_if:
  assumes "distinct (map fst d)"
  shows "map_of (pop_if a P d) k =
    (case map_of d k of None \<Rightarrow> None | Some v \<Rightarrow> if k = lit a \<and> P v then None else Some v)"
  using assms
proof (induction d)
  case (Cons kv d)
  then show ?case
    by (cases kv; cases "map_of d k") (auto simp: pop_if_def map_of_eq_None_iff [symmetric] dest: map_of_SomeD)
qed (simp add: pop_if_def)

lemma distinct_pop_if: "distinct (map fst d) \<Longrightarrow> distinct (map fst (pop_if a P d))"
  by (induction d) (auto simp: pop_if_def)

lemma map_of_map_snd: "map_of (map (\<lambda>(k, v). (k, f k v)) d) k = map_option (f k) (map_of d k)"
  by (induction d) auto

lemma fst_map_snd: "map fst (map (\<lambda>(k, v). (k, f k v)) d) = map fst d"
  by (induction d) auto

text \<open>A field that is left out when \<open>P\<close> holds of it.\<close>

definition unless :: "('a \<Rightarrow> bool) \<Rightarrow> 'a \<Rightarrow> 'a option" where
  "unless P v = (if P v then None else Some v)"

lemma unless_sorted:
  assumes "map_option sort_keys (unless P v) = map_option sort_keys (unless P u)" "P v \<Longrightarrow> P u \<Longrightarrow> sort_keys v = sort_keys u"
  shows "sort_keys v = sort_keys u"
  using assms by (auto simp: unless_def split: if_splits)

definition strip_children :: "pystr \<Rightarrow> json \<Rightarrow> json" where
  "strip_children k v =
     (if k = lit ''paused_child_branches'' then (case v of JList ps \<Rightarrow> JList (map strip_paused_child ps) | _ \<Rightarrow> v) else v)"

lemma strip_fan_lookup:
  assumes "distinct (map fst d)"
  shows "\<exists>d'. strip_default_fanout_resume_fields (JObj d) = JObj d' \<and> distinct (map fst d') \<and>
    (\<forall>k. map_of d' k = map_option (strip_children k)
       (map_of (pop_if ''synthesis_step_id'' (\<lambda>v. v = JNull) (pop_if ''effect_fence_paused_branches'' (\<lambda>v. \<not> truthy v) d)) k))"
proof -
  let ?p = "pop_if ''synthesis_step_id'' (\<lambda>v. v = JNull) (pop_if ''effect_fence_paused_branches'' (\<lambda>v. \<not> truthy v) d)"
  let ?d = "map (\<lambda>(k, v). (k, strip_children k v)) ?p"
  have "strip_default_fanout_resume_fields (JObj d) = JObj ?d"
    by (simp only: strip_default_fanout_resume_fields.simps [of "JObj d"] json.case strip_children_def)
  moreover have "distinct (map fst ?d)" unfolding fst_map_snd by (intro distinct_pop_if assms)
  ultimately show ?thesis using map_of_map_snd [of strip_children ?p] by blast
qed

text \<open>The carrier of a fan-out as it is hashed: at the top the list of paused children is left out when it is empty.\<close>

definition hashed_fan :: "bool \<Rightarrow> json \<Rightarrow> json" where
  "hashed_fan outer j =
     strip_default_fanout_resume_fields
       (if outer then (case j of JObj d \<Rightarrow> JObj (pop_if ''paused_child_branches'' (\<lambda>v. \<not> truthy v) d) | _ \<Rightarrow> j) else j)"

lemma fan_lookup:
  assumes "fan_out_json f = Some j"
  shows "\<exists>d cs. those (map paused_child_json (for_paused_child_branches f)) = Some cs \<and> hashed_fan outer j = JObj d \<and>
    distinct (map fst d) \<and>
    map_of d (lit ''orchestrator_output'') = Some (JObj (for_orchestrator_output f)) \<and>
    map_of d (lit ''orchestrator_step_id'') = Some (JStr (for_orchestrator_step_id f)) \<and>
    map_of d (lit ''branches'') = Some (JList (map fan_out_branch_json (for_branches f))) \<and>
    map_of d (lit ''worker_count'') = Some (JInt (for_worker_count f)) \<and>
    map_of d (lit ''paused_child_branches'') = unless (\<lambda>v. outer \<and> v = JList []) (JList (map strip_paused_child cs)) \<and>
    map_of d (lit ''synthesis_step_id'') = unless (\<lambda>v. v = JNull) (json_opt JStr (for_synthesis_step_id f)) \<and>
    map_of d (lit ''effect_fence_paused_branches'') =
      unless (\<lambda>v. v = JList []) (JList (map effect_fence_paused_branch_json (for_effect_fence_paused_branches f)))"
proof -
  obtain out step_id branches count children synth paused where f:
    "f = FanOutResumeState out step_id branches count children synth paused" by (cases f)
  let ?d = "\<lambda>cs. [(lit ''orchestrator_output'', JObj out), (lit ''orchestrator_step_id'', JStr step_id),
      (lit ''branches'', JList (map fan_out_branch_json branches)), (lit ''worker_count'', JInt count),
      (lit ''paused_child_branches'', JList cs), (lit ''synthesis_step_id'', json_opt JStr synth),
      (lit ''effect_fence_paused_branches'', JList (map effect_fence_paused_branch_json paused))]"
  obtain cs where cs: "those (map paused_child_json children) = Some cs" "j = JObj (?d cs)" using assms by (auto simp: f)
  define e where "e = (if outer then pop_if ''paused_child_branches'' (\<lambda>v. \<not> truthy v) (?d cs) else ?d cs)"
  have dist: "distinct (map fst (?d cs))" by simp
  have e: "distinct (map fst e)" "hashed_fan outer j = strip_default_fanout_resume_fields (JObj e)"
    "map_of e k = (case map_of (?d cs) k of None \<Rightarrow> None | Some v \<Rightarrow>
       if outer \<and> k = lit ''paused_child_branches'' \<and> \<not> truthy v then None else Some v)" for k
    using distinct_pop_if [OF dist] dist map_of_pop_if [OF dist]
    by (simp_all add: e_def hashed_fan_def cs(2) del: map_of.simps split: option.split)
  obtain d where d: "strip_default_fanout_resume_fields (JObj e) = JObj d" "distinct (map fst d)"
      "\<And>k. map_of d k = map_option (strip_children k) (map_of (pop_if ''synthesis_step_id'' (\<lambda>v. v = JNull)
         (pop_if ''effect_fence_paused_branches'' (\<lambda>v. \<not> truthy v) e)) k)"
    using strip_fan_lookup [OF e(1)] by blast
  note look = d(3) map_of_pop_if [OF distinct_pop_if [OF e(1)]] map_of_pop_if [OF e(1)] e(3)
  show ?thesis
    by (intro exI [of _ d] exI [of _ cs] conjI)
      (simp_all add: f cs(1) e(2) d(1,2) look strip_children_def unless_def)
qed

lemma unless_list_sorted:
  assumes "map_option sort_keys (unless (\<lambda>v. b \<and> v = JList []) (JList xs)) = map_option sort_keys (unless (\<lambda>v. b \<and> v = JList []) (JList ys))"
  shows "map sort_keys xs = map sort_keys ys"
  using unless_sorted [OF assms] by simp

lemma synthesis_same:
  assumes "map_option sort_keys (unless (\<lambda>v. v = JNull) (json_opt JStr x)) = map_option sort_keys (unless (\<lambda>v. v = JNull) (json_opt JStr y))"
  shows "x = y"
proof -
  have "sort_keys (json_opt JStr x) = sort_keys (json_opt JStr y)" by (rule unless_sorted [OF assms]) simp
  then have "rel_option (=) x y" by (rule json_opt_inject) simp_all
  then show ?thesis by (simp add: option.rel_eq)
qed

lemma same_fan_out_fields:
  "same_fan_out f g \<longleftrightarrow>
     same_object (for_orchestrator_output f) (for_orchestrator_output g) \<and> for_orchestrator_step_id f = for_orchestrator_step_id g \<and>
     list_all2 same_branch (for_branches f) (for_branches g) \<and> for_worker_count f = for_worker_count g \<and>
     same_children (for_paused_child_branches f) (for_paused_child_branches g) \<and> for_synthesis_step_id f = for_synthesis_step_id g \<and>
     for_effect_fence_paused_branches f = for_effect_fence_paused_branches g"
  by (cases f) simp

lemma fan_same:
  assumes j: "fan_out_json f = Some j" and k: "fan_out_json g = Some k"
    and eq: "sort_keys (hashed_fan outer j) = sort_keys (hashed_fan outer k)"
    and children: "\<And>js ks. those (map paused_child_json (for_paused_child_branches f)) = Some js \<Longrightarrow>
      those (map paused_child_json (for_paused_child_branches g)) = Some ks \<Longrightarrow>
      map sort_keys (map strip_paused_child js) = map sort_keys (map strip_paused_child ks) \<Longrightarrow>
      same_children (for_paused_child_branches f) (for_paused_child_branches g)"
  shows "same_fan_out f g"
proof -
  obtain d cs where d: "those (map paused_child_json (for_paused_child_branches f)) = Some cs" "hashed_fan outer j = JObj d"
    "distinct (map fst d)"
    "map_of d (lit ''orchestrator_output'') = Some (JObj (for_orchestrator_output f))"
    "map_of d (lit ''orchestrator_step_id'') = Some (JStr (for_orchestrator_step_id f))"
    "map_of d (lit ''branches'') = Some (JList (map fan_out_branch_json (for_branches f)))"
    "map_of d (lit ''worker_count'') = Some (JInt (for_worker_count f))"
    "map_of d (lit ''paused_child_branches'') = unless (\<lambda>v. outer \<and> v = JList []) (JList (map strip_paused_child cs))"
    "map_of d (lit ''synthesis_step_id'') = unless (\<lambda>v. v = JNull) (json_opt JStr (for_synthesis_step_id f))"
    "map_of d (lit ''effect_fence_paused_branches'') =
      unless (\<lambda>v. v = JList []) (JList (map effect_fence_paused_branch_json (for_effect_fence_paused_branches f)))"
    using fan_lookup [OF j, of outer] by blast
  obtain e ds where e: "those (map paused_child_json (for_paused_child_branches g)) = Some ds" "hashed_fan outer k = JObj e"
    "distinct (map fst e)"
    "map_of e (lit ''orchestrator_output'') = Some (JObj (for_orchestrator_output g))"
    "map_of e (lit ''orchestrator_step_id'') = Some (JStr (for_orchestrator_step_id g))"
    "map_of e (lit ''branches'') = Some (JList (map fan_out_branch_json (for_branches g)))"
    "map_of e (lit ''worker_count'') = Some (JInt (for_worker_count g))"
    "map_of e (lit ''paused_child_branches'') = unless (\<lambda>v. outer \<and> v = JList []) (JList (map strip_paused_child ds))"
    "map_of e (lit ''synthesis_step_id'') = unless (\<lambda>v. v = JNull) (json_opt JStr (for_synthesis_step_id g))"
    "map_of e (lit ''effect_fence_paused_branches'') =
      unless (\<lambda>v. v = JList []) (JList (map effect_fence_paused_branch_json (for_effect_fence_paused_branches g)))"
    using fan_lookup [OF k, of outer] by blast
  note at = sort_keys_obj_eq [OF eq [unfolded d(2) e(2)] d(3) e(3)]
  have "for_orchestrator_step_id f = for_orchestrator_step_id g" using at [of "lit ''orchestrator_step_id''"] unfolding d(5) e(5) by simp
  moreover have "same_object (for_orchestrator_output f) (for_orchestrator_output g)"
    using at [of "lit ''orchestrator_output''"] unfolding d(4) e(4) same_object_def by simp
  moreover have "list_all2 same_branch (for_branches f) (for_branches g)"
    using at [of "lit ''branches''"] unfolding d(6) e(6) by (intro branches_same) simp
  moreover have "for_worker_count f = for_worker_count g" using at [of "lit ''worker_count''"] unfolding d(7) e(7) by simp
  moreover have "map sort_keys (map strip_paused_child cs) = map sort_keys (map strip_paused_child ds)"
    by (rule unless_list_sorted) (rule at [of "lit ''paused_child_branches''", unfolded d(8) e(8)])
  then have "same_children (for_paused_child_branches f) (for_paused_child_branches g)" by (rule children [OF d(1) e(1)])
  moreover have "for_synthesis_step_id f = for_synthesis_step_id g"
    by (rule synthesis_same) (rule at [of "lit ''synthesis_step_id''", unfolded d(9) e(9)])
  moreover have "for_effect_fence_paused_branches f = for_effect_fence_paused_branches g"
    by (rule paused_branches_same, rule unless_list_sorted [where b = True, unfolded simp_thms])
      (rule at [of "lit ''effect_fence_paused_branches''", unfolded d(10) e(10)])
  ultimately show ?thesis unfolding same_fan_out_fields by blast
qed

lemma peer_same:
  assumes "sort_keys (strip_default_fanout_resume_fields (peer_fan_out_json p)) =
    sort_keys (strip_default_fanout_resume_fields (peer_fan_out_json q))"
  shows "same_peer p q"
proof -
  have look: "\<exists>d. strip_default_fanout_resume_fields (peer_fan_out_json p) = JObj d \<and> distinct (map fst d) \<and>
    map_of d (lit ''branches'') = Some (JList (map fan_out_branch_json (pfr_branches p))) \<and>
    map_of d (lit ''branch_count'') = Some (JInt (pfr_branch_count p)) \<and>
    map_of d (lit ''synthesis_step_id'') = unless (\<lambda>v. v = JNull) (json_opt JStr (pfr_synthesis_step_id p)) \<and>
    map_of d (lit ''effect_fence_paused_branches'') =
      unless (\<lambda>v. v = JList []) (JList (map effect_fence_paused_branch_json (pfr_effect_fence_paused_branches p)))" for p
  proof -
    let ?d = "[(lit ''branches'', JList (map fan_out_branch_json (pfr_branches p))), (lit ''branch_count'', JInt (pfr_branch_count p)),
        (lit ''synthesis_step_id'', json_opt JStr (pfr_synthesis_step_id p)),
        (lit ''effect_fence_paused_branches'', JList (map effect_fence_paused_branch_json (pfr_effect_fence_paused_branches p)))]"
    define c where "c = ?d"
    have c: "distinct (map fst c)" "peer_fan_out_json p = JObj c" "map_of c k = map_of ?d k" for k
      by (simp_all add: c_def peer_fan_out_json_def)
    obtain d where d: "strip_default_fanout_resume_fields (JObj c) = JObj d" "distinct (map fst d)"
      "\<And>k. map_of d k = map_option (strip_children k) (map_of (pop_if ''synthesis_step_id'' (\<lambda>v. v = JNull)
         (pop_if ''effect_fence_paused_branches'' (\<lambda>v. \<not> truthy v) c)) k)"
      using strip_fan_lookup [OF c(1)] by blast
    note look = d(3) map_of_pop_if [OF distinct_pop_if [OF c(1)]] map_of_pop_if [OF c(1)] c(3)
    show ?thesis
      by (intro exI [of _ d] conjI) (simp_all add: c(2) d(1,2) look strip_children_def unless_def)
  qed
  obtain d where d: "strip_default_fanout_resume_fields (peer_fan_out_json p) = JObj d" "distinct (map fst d)"
    "map_of d (lit ''branches'') = Some (JList (map fan_out_branch_json (pfr_branches p)))"
    "map_of d (lit ''branch_count'') = Some (JInt (pfr_branch_count p))"
    "map_of d (lit ''synthesis_step_id'') = unless (\<lambda>v. v = JNull) (json_opt JStr (pfr_synthesis_step_id p))"
    "map_of d (lit ''effect_fence_paused_branches'') =
      unless (\<lambda>v. v = JList []) (JList (map effect_fence_paused_branch_json (pfr_effect_fence_paused_branches p)))"
    using look by blast
  obtain e where e: "strip_default_fanout_resume_fields (peer_fan_out_json q) = JObj e" "distinct (map fst e)"
    "map_of e (lit ''branches'') = Some (JList (map fan_out_branch_json (pfr_branches q)))"
    "map_of e (lit ''branch_count'') = Some (JInt (pfr_branch_count q))"
    "map_of e (lit ''synthesis_step_id'') = unless (\<lambda>v. v = JNull) (json_opt JStr (pfr_synthesis_step_id q))"
    "map_of e (lit ''effect_fence_paused_branches'') =
      unless (\<lambda>v. v = JList []) (JList (map effect_fence_paused_branch_json (pfr_effect_fence_paused_branches q)))"
    using look by blast
  note at = sort_keys_obj_eq [OF assms [unfolded d(1) e(1)] d(2) e(2)]
  have "list_all2 same_branch (pfr_branches p) (pfr_branches q)"
    using at [of "lit ''branches''"] unfolding d(3) e(3) by (intro branches_same) simp
  moreover have "pfr_branch_count p = pfr_branch_count q" using at [of "lit ''branch_count''"] unfolding d(4) e(4) by simp
  moreover have "pfr_synthesis_step_id p = pfr_synthesis_step_id q"
    by (rule synthesis_same) (rule at [of "lit ''synthesis_step_id''", unfolded d(5) e(5)])
  moreover have "pfr_effect_fence_paused_branches p = pfr_effect_fence_paused_branches q"
    by (rule paused_branches_same, rule unless_list_sorted [where b = True, unfolded simp_thms])
      (rule at [of "lit ''effect_fence_paused_branches''", unfolded d(6) e(6)])
  ultimately show ?thesis by (simp add: same_peer_def)
qed

section \<open>Snapshots of paused children\<close>

lemma pause_reason_inject: "workflow_pause_reason_value a = workflow_pause_reason_value b \<Longrightarrow> a = b"
  by (cases a; cases b) simp_all

lemma same_snapshot_fields:
  "same_snapshot s t \<longleftrightarrow>
     same_hashed s t \<and> psn_pause_reason s = psn_pause_reason t \<and> psn_snapshot_hash s = psn_snapshot_hash t \<and>
     psn_created_at s = psn_created_at t \<and> psn_state_ledger_anchor s = psn_state_ledger_anchor t"
  by (cases s) (auto simp: same_hashed_def option_rel_Some1 split: option.split)

text \<open>The dump of an optional carrier, as it is hashed.\<close>

fun fan_dump :: "bool \<Rightarrow> fan_out_resume_state option \<Rightarrow> json option" where
  "fan_dump outer None = Some JNull"
| "fan_dump outer (Some f) = map_option (hashed_fan outer) (fan_out_json f)"

definition peer_dump :: "peer_fan_out_resume_state option \<Rightarrow> json" where
  "peer_dump = json_opt (\<lambda>p. strip_default_fanout_resume_fields (peer_fan_out_json p))"

lemma strip_null: "strip_default_fanout_resume_fields JNull = JNull"
  by (simp add: strip_default_fanout_resume_fields.simps)

lemma child_lookup:
  assumes "pause_snapshot_json s = Some j"
  shows "\<exists>d sj fj. strip_child_snapshot j = JObj d \<and> distinct (map fst d) \<and>
    state_summary_json (psn_state_summary s) = Some sj \<and> fan_dump False (psn_fan_out_resume s) = Some fj \<and>
    map_of d (lit ''workflow_id'') = Some (JStr (psn_workflow_id s)) \<and> map_of d (lit ''run_id'') = Some (JStr (psn_run_id s)) \<and>
    map_of d (lit ''step_index'') = Some (JInt (psn_step_index s)) \<and>
    map_of d (lit ''pause_reason'') = Some (JStr (workflow_pause_reason_value (psn_pause_reason s))) \<and>
    map_of d (lit ''state_summary'') = Some sj \<and> map_of d (lit ''snapshot_hash'') = Some (JStr (psn_snapshot_hash s)) \<and>
    map_of d (lit ''created_at'') = Some (JInt (psn_created_at s)) \<and>
    map_of d (lit ''state_ledger_anchor'') = Some (JStr (psn_state_ledger_anchor s)) \<and>
    map_of d (lit ''fan_out_resume'') = Some fj \<and>
    map_of d (lit ''peer_fan_out_resume'') = Some (peer_dump (psn_peer_fan_out_resume s)) \<and>
    map_of d (lit ''handoff_resume'') = Some (json_opt handoff_json (psn_handoff_resume s)) \<and>
    map_of d (lit ''evaluator_optimizer_resume'') = Some (json_opt evaluator_optimizer_json (psn_evaluator_optimizer_resume s)) \<and>
    map_of d (lit ''effect_fence_resume'') = Some (json_opt effect_fence_resume_json (psn_effect_fence_resume s)) \<and>
    map_of d (lit ''orchestrator_effect_fence_resume'') =
      unless (\<lambda>v. v = JNull) (json_opt orchestrator_effect_fence_json (psn_orchestrator_effect_fence_resume s))"
proof -
  obtain wid run idx reason summary h created anchor fan peer hand ev ef oef where
    s: "s = PauseSnapshot wid run idx reason summary h created anchor fan peer hand ev ef oef" by (cases s)
  let ?d = "\<lambda>sj fj. [(lit ''workflow_id'', JStr wid), (lit ''run_id'', JStr run), (lit ''step_index'', JInt idx),
             (lit ''pause_reason'', JStr (workflow_pause_reason_value reason)), (lit ''state_summary'', sj),
             (lit ''snapshot_hash'', JStr h), (lit ''created_at'', JInt created),
             (lit ''state_ledger_anchor'', JStr anchor), (lit ''fan_out_resume'', fj),
             (lit ''peer_fan_out_resume'', json_opt peer_fan_out_json peer),
             (lit ''handoff_resume'', json_opt handoff_json hand),
             (lit ''evaluator_optimizer_resume'', json_opt evaluator_optimizer_json ev),
             (lit ''effect_fence_resume'', json_opt effect_fence_resume_json ef),
             (lit ''orchestrator_effect_fence_resume'', json_opt orchestrator_effect_fence_json oef)]"
  obtain sj fj where dump: "state_summary_json summary = Some sj" "(case fan of None \<Rightarrow> Some JNull | Some f \<Rightarrow> fan_out_json f) = Some fj"
      "j = JObj (?d sj fj)"
    using assms unfolding s pause_snapshot_json.simps bind_eq_Some_conv option.inject by blast
  have fan: "fan_dump False fan = Some (strip_default_fanout_resume_fields fj)"
    using dump(2) by (cases fan) (auto simp: hashed_fan_def strip_null)
  have peer: "strip_default_fanout_resume_fields (json_opt peer_fan_out_json peer) = peer_dump peer"
    by (cases peer) (simp_all add: json_opt_def peer_dump_def strip_null)
  define c where "c = ?d sj fj"
  have c: "distinct (map fst c)" "map_of c k = map_of (?d sj fj) k" for k by (simp_all add: c_def)
  let ?strip = "\<lambda>k v. if k \<in> {lit ''fan_out_resume'', lit ''peer_fan_out_resume''} then strip_default_fanout_resume_fields v else v"
  define d where "d = map (\<lambda>(k, v). (k, ?strip k v)) (pop_if ''orchestrator_effect_fence_resume'' (\<lambda>v. v = JNull) c)"
  have d: "strip_child_snapshot j = JObj d" "distinct (map fst d)"
    "map_of d k = map_option (?strip k) (map_of (pop_if ''orchestrator_effect_fence_resume'' (\<lambda>v. v = JNull) c) k)" for k
    unfolding d_def by (simp only: dump(3) strip_child_snapshot.simps [of "JObj _"] json.case c_def)
      (unfold fst_map_snd map_of_map_snd, intro distinct_pop_if c(1), rule refl)
  note look = d(3) map_of_pop_if [OF c(1)] c(2)
  show ?thesis
    by (intro exI [of _ d] exI [of _ sj] exI [of _ "strip_default_fanout_resume_fields fj"] conjI)
      (simp_all add: s dump(1) d(1,2) fan look peer unless_def)
qed

lemma carriers_same:
  "sort_keys (json_opt handoff_json x) = sort_keys (json_opt handoff_json y) \<Longrightarrow> rel_option same_handoff x y"
  "sort_keys (json_opt evaluator_optimizer_json a) = sort_keys (json_opt evaluator_optimizer_json b) \<Longrightarrow> rel_option same_evaluator a b"
  "sort_keys (json_opt effect_fence_resume_json e) = sort_keys (json_opt effect_fence_resume_json f) \<Longrightarrow> e = f"
  "sort_keys (json_opt orchestrator_effect_fence_json c) = sort_keys (json_opt orchestrator_effect_fence_json d) \<Longrightarrow> c = d"
  "sort_keys (peer_dump p) = sort_keys (peer_dump q) \<Longrightarrow> rel_option same_peer p q"
proof -
  show "sort_keys (json_opt handoff_json x) = sort_keys (json_opt handoff_json y) \<Longrightarrow> rel_option same_handoff x y"
    by (erule json_opt_inject) (rule handoff_same, assumption, simp add: handoff_json_def)
  show "sort_keys (json_opt evaluator_optimizer_json a) = sort_keys (json_opt evaluator_optimizer_json b) \<Longrightarrow> rel_option same_evaluator a b"
    by (erule json_opt_inject) (rule evaluator_same, assumption, simp add: evaluator_optimizer_json_def)
  show "sort_keys (json_opt effect_fence_resume_json e) = sort_keys (json_opt effect_fence_resume_json f) \<Longrightarrow> e = f"
    unfolding option.rel_eq [symmetric]
    by (erule json_opt_inject) (rule effect_fence_same, assumption, simp add: effect_fence_resume_json_def)
  show "sort_keys (json_opt orchestrator_effect_fence_json c) = sort_keys (json_opt orchestrator_effect_fence_json d) \<Longrightarrow> c = d"
    unfolding option.rel_eq [symmetric]
    by (erule json_opt_inject) (rule orchestrator_fence_same, assumption, simp add: orchestrator_effect_fence_json_def)
  have "sort_keys (strip_default_fanout_resume_fields (peer_fan_out_json u)) \<noteq> JNull" for u
  proof -
    obtain d where "strip_default_fanout_resume_fields (peer_fan_out_json u) = JObj d"
      unfolding peer_fan_out_json_def strip_default_fanout_resume_fields.simps [of "JObj _"] json.case by blast
    then show ?thesis by simp
  qed
  then show "sort_keys (peer_dump p) = sort_keys (peer_dump q) \<Longrightarrow> rel_option same_peer p q"
    unfolding peer_dump_def by (intro json_opt_inject [OF _ peer_same])
qed

lemma hashed_fan_null: "fan_out_json f = Some j \<Longrightarrow> sort_keys (hashed_fan outer j) \<noteq> JNull"
  using fan_lookup [of f j outer] by auto

lemma fan_dump_same:
  assumes "fan_dump outer x = Some j" "fan_dump outer y = Some k" "sort_keys j = sort_keys k"
    and "\<And>f g j k. x = Some f \<Longrightarrow> y = Some g \<Longrightarrow> fan_out_json f = Some j \<Longrightarrow> fan_out_json g = Some k \<Longrightarrow>
      sort_keys (hashed_fan outer j) = sort_keys (hashed_fan outer k) \<Longrightarrow> same_fan_out f g"
  shows "rel_option same_fan_out x y"
proof (cases x)
  case None
  then show ?thesis using assms(1-3) by (cases y) (auto, metis hashed_fan_null)
next
  case (Some f)
  show ?thesis
  proof (cases y)
    case None
    then show ?thesis using Some assms(1-3) by (auto, metis hashed_fan_null)
  next
    case (Some g)
    with \<open>x = Some f\<close> assms show ?thesis by auto
  qed
qed

lemma child_same:
  assumes j: "pause_snapshot_json s = Some j" and k: "pause_snapshot_json t = Some k"
    and eq: "sort_keys (strip_child_snapshot j) = sort_keys (strip_child_snapshot k)"
    and fan: "\<And>f g j k. psn_fan_out_resume s = Some f \<Longrightarrow> psn_fan_out_resume t = Some g \<Longrightarrow> fan_out_json f = Some j \<Longrightarrow>
      fan_out_json g = Some k \<Longrightarrow> sort_keys (hashed_fan False j) = sort_keys (hashed_fan False k) \<Longrightarrow> same_fan_out f g"
  shows "same_snapshot s t"
proof -
  obtain d sj fj where d: "strip_child_snapshot j = JObj d" "distinct (map fst d)"
    "state_summary_json (psn_state_summary s) = Some sj" "fan_dump False (psn_fan_out_resume s) = Some fj" and
    dl: "map_of d (lit ''workflow_id'') = Some (JStr (psn_workflow_id s))" "map_of d (lit ''run_id'') = Some (JStr (psn_run_id s))"
    "map_of d (lit ''step_index'') = Some (JInt (psn_step_index s))"
    "map_of d (lit ''pause_reason'') = Some (JStr (workflow_pause_reason_value (psn_pause_reason s)))"
    "map_of d (lit ''state_summary'') = Some sj" "map_of d (lit ''snapshot_hash'') = Some (JStr (psn_snapshot_hash s))"
    "map_of d (lit ''created_at'') = Some (JInt (psn_created_at s))"
    "map_of d (lit ''state_ledger_anchor'') = Some (JStr (psn_state_ledger_anchor s))"
    "map_of d (lit ''fan_out_resume'') = Some fj"
    "map_of d (lit ''peer_fan_out_resume'') = Some (peer_dump (psn_peer_fan_out_resume s))"
    "map_of d (lit ''handoff_resume'') = Some (json_opt handoff_json (psn_handoff_resume s))"
    "map_of d (lit ''evaluator_optimizer_resume'') = Some (json_opt evaluator_optimizer_json (psn_evaluator_optimizer_resume s))"
    "map_of d (lit ''effect_fence_resume'') = Some (json_opt effect_fence_resume_json (psn_effect_fence_resume s))"
    "map_of d (lit ''orchestrator_effect_fence_resume'') =
      unless (\<lambda>v. v = JNull) (json_opt orchestrator_effect_fence_json (psn_orchestrator_effect_fence_resume s))"
    using child_lookup [OF j] by blast
  obtain e tj gj where e: "strip_child_snapshot k = JObj e" "distinct (map fst e)"
    "state_summary_json (psn_state_summary t) = Some tj" "fan_dump False (psn_fan_out_resume t) = Some gj" and
    el: "map_of e (lit ''workflow_id'') = Some (JStr (psn_workflow_id t))" "map_of e (lit ''run_id'') = Some (JStr (psn_run_id t))"
    "map_of e (lit ''step_index'') = Some (JInt (psn_step_index t))"
    "map_of e (lit ''pause_reason'') = Some (JStr (workflow_pause_reason_value (psn_pause_reason t)))"
    "map_of e (lit ''state_summary'') = Some tj" "map_of e (lit ''snapshot_hash'') = Some (JStr (psn_snapshot_hash t))"
    "map_of e (lit ''created_at'') = Some (JInt (psn_created_at t))"
    "map_of e (lit ''state_ledger_anchor'') = Some (JStr (psn_state_ledger_anchor t))"
    "map_of e (lit ''fan_out_resume'') = Some gj"
    "map_of e (lit ''peer_fan_out_resume'') = Some (peer_dump (psn_peer_fan_out_resume t))"
    "map_of e (lit ''handoff_resume'') = Some (json_opt handoff_json (psn_handoff_resume t))"
    "map_of e (lit ''evaluator_optimizer_resume'') = Some (json_opt evaluator_optimizer_json (psn_evaluator_optimizer_resume t))"
    "map_of e (lit ''effect_fence_resume'') = Some (json_opt effect_fence_resume_json (psn_effect_fence_resume t))"
    "map_of e (lit ''orchestrator_effect_fence_resume'') =
      unless (\<lambda>v. v = JNull) (json_opt orchestrator_effect_fence_json (psn_orchestrator_effect_fence_resume t))"
    using child_lookup [OF k] by blast
  note at = sort_keys_obj_eq [OF eq [unfolded d(1) e(1)] d(2) e(2)]
  have "psn_workflow_id s = psn_workflow_id t" "psn_run_id s = psn_run_id t" "psn_step_index s = psn_step_index t"
    "psn_pause_reason s = psn_pause_reason t" "psn_snapshot_hash s = psn_snapshot_hash t" "psn_created_at s = psn_created_at t"
    "psn_state_ledger_anchor s = psn_state_ledger_anchor t"
    using at [of "lit ''workflow_id''", unfolded dl(1) el(1)] at [of "lit ''run_id''", unfolded dl(2) el(2)]
      at [of "lit ''step_index''", unfolded dl(3) el(3)] at [of "lit ''pause_reason''", unfolded dl(4) el(4)]
      at [of "lit ''snapshot_hash''", unfolded dl(6) el(6)] at [of "lit ''created_at''", unfolded dl(7) el(7)]
      at [of "lit ''state_ledger_anchor''", unfolded dl(8) el(8)]
    by (simp_all add: pause_reason_inject)
  moreover have "same_summary (psn_state_summary s) (psn_state_summary t)"
    using summary_same [OF d(3) e(3)] at [of "lit ''state_summary''", unfolded dl(5) el(5)] by simp
  moreover have "rel_option same_fan_out (psn_fan_out_resume s) (psn_fan_out_resume t)"
    using at [of "lit ''fan_out_resume''", unfolded dl(9) el(9)] by (intro fan_dump_same [OF d(4) e(4) _ fan]) simp
  moreover have "rel_option same_peer (psn_peer_fan_out_resume s) (psn_peer_fan_out_resume t)"
    using at [of "lit ''peer_fan_out_resume''", unfolded dl(10) el(10)] by (intro carriers_same) simp
  moreover have "rel_option same_handoff (psn_handoff_resume s) (psn_handoff_resume t)"
    using at [of "lit ''handoff_resume''", unfolded dl(11) el(11)] by (intro carriers_same) simp
  moreover have "rel_option same_evaluator (psn_evaluator_optimizer_resume s) (psn_evaluator_optimizer_resume t)"
    using at [of "lit ''evaluator_optimizer_resume''", unfolded dl(12) el(12)] by (intro carriers_same) simp
  moreover have "psn_effect_fence_resume s = psn_effect_fence_resume t"
    using at [of "lit ''effect_fence_resume''", unfolded dl(13) el(13)] by (intro carriers_same) simp
  moreover have "psn_orchestrator_effect_fence_resume s = psn_orchestrator_effect_fence_resume t"
    by (rule carriers_same(4), rule unless_sorted [OF at [of "lit ''orchestrator_effect_fence_resume''", unfolded dl(14) el(14)]]) simp
  ultimately show ?thesis by (simp add: same_snapshot_fields same_hashed_def)
qed

lemma paused_child_same:
  assumes "paused_child_json a = Some j" "paused_child_json b = Some k"
    and "sort_keys (strip_paused_child j) = sort_keys (strip_paused_child k)"
  shows "pcb_branch_index a = pcb_branch_index b \<and> pcb_step_id a = pcb_step_id b \<and>
    (\<exists>x y. pause_snapshot_json (pcb_child_snapshot a) = Some x \<and> pause_snapshot_json (pcb_child_snapshot b) = Some y \<and>
       sort_keys (strip_child_snapshot x) = sort_keys (strip_child_snapshot y))"
proof -
  let ?ks = "[lit ''branch_index'', lit ''step_id'', lit ''child_snapshot'']"
  have z: "\<exists>x. pause_snapshot_json (pcb_child_snapshot c) = Some x \<and> strip_paused_child l =
      JObj (zip ?ks [JInt (pcb_branch_index c), JStr (pcb_step_id c), strip_child_snapshot x])"
    if "paused_child_json c = Some l" for c l
    using that by (cases c) (auto simp: strip_paused_child.simps)
  obtain x where x: "pause_snapshot_json (pcb_child_snapshot a) = Some x"
      "strip_paused_child j = JObj (zip ?ks [JInt (pcb_branch_index a), JStr (pcb_step_id a), strip_child_snapshot x])"
    using z [OF assms(1)] by blast
  obtain y where y: "pause_snapshot_json (pcb_child_snapshot b) = Some y"
      "strip_paused_child k = JObj (zip ?ks [JInt (pcb_branch_index b), JStr (pcb_step_id b), strip_child_snapshot y])"
    using z [OF assms(2)] by blast
  have "map sort_keys [JInt (pcb_branch_index a), JStr (pcb_step_id a), strip_child_snapshot x] =
      map sort_keys [JInt (pcb_branch_index b), JStr (pcb_step_id b), strip_child_snapshot y]"
    by (rule sort_keys_fields [OF assms(3) [unfolded x(2) y(2)]]) simp_all
  then show ?thesis using x(1) y(1) by simp
qed

lemma same_dumps:
  "\<And>j k. pause_snapshot_json s = Some j \<Longrightarrow> pause_snapshot_json t = Some k \<Longrightarrow>
     sort_keys (strip_child_snapshot j) = sort_keys (strip_child_snapshot k) \<Longrightarrow> same_snapshot s t"
  "\<And>j k outer. fan_out_json f = Some j \<Longrightarrow> fan_out_json g = Some k \<Longrightarrow>
     sort_keys (hashed_fan outer j) = sort_keys (hashed_fan outer k) \<Longrightarrow> same_fan_out f g"
  "\<And>js ks. those (map paused_child_json cs) = Some js \<Longrightarrow> those (map paused_child_json ds) = Some ks \<Longrightarrow>
     map sort_keys (map strip_paused_child js) = map sort_keys (map strip_paused_child ks) \<Longrightarrow> same_children cs ds"
proof (induction s t and f g and cs ds rule: same_snapshot_same_fan_out_same_children.induct)
  case (1 wid run idx reason summary h created anchor fan peer hand ev ef oef t)
  show ?case by (rule child_same [OF 1(2-4)]) (use 1(1) in simp)
next
  case (2 out step_id branches count children synth paused g)
  show ?case by (rule fan_same [OF 2(2-4)]) (use 2(1) in simp)
next
  case (3 ds)
  then have "ks = []" by simp
  then show ?case using 3(2) by (cases ds) (auto split: option.splits)
next
  case (4 i step_id child cs ds)
  obtain a js' where js: "js = a # js'" "paused_child_json (PausedChildBranchResumeState i step_id child) = Some a"
      "those (map paused_child_json cs) = Some js'"
    using 4(3) by (auto split: option.splits)
  obtain d ds' b ks' where ds: "ds = d # ds'" "ks = b # ks'" "paused_child_json d = Some b" "those (map paused_child_json ds') = Some ks'"
    using 4(4,5) js(1) by (cases ds) (auto split: option.splits)
  obtain x y where xy: "i = pcb_branch_index d" "step_id = pcb_step_id d" "pause_snapshot_json child = Some x"
      "pause_snapshot_json (pcb_child_snapshot d) = Some y" "sort_keys (strip_child_snapshot x) = sort_keys (strip_child_snapshot y)"
    using paused_child_same [OF js(2) ds(3)] 4(5) js(1) ds(2) by auto
  show ?case using 4(1) [OF ds(1) xy(3-5)] 4(2) [OF ds(1) js(3) ds(4)] 4(5) xy(1,2) by (simp add: js(1) ds(1,2))
qed

section \<open>What the hash binds\<close>

text \<open>A snapshot whose hashed fields are JSON that the codec can print and read.\<close>

definition wf_snapshot :: "float_codec \<Rightarrow> pause_snapshot \<Rightarrow> bool" where
  "wf_snapshot fc s \<longleftrightarrow> (case snapshot_canonical s of None \<Rightarrow> False | Some d \<Rightarrow> wf_json fc (JObj d))"

lemma wf_snapshot_hash:
  assumes "ascii_floats fc" "wf_snapshot fc s"
  shows "\<exists>h. compute_snapshot_hash fc s = Some h"
proof -
  obtain d where d: "snapshot_canonical s = Some d" using assms(2) by (auto simp: wf_snapshot_def split: option.splits)
  obtain bs where "utf8_encode (dumps fc ascii_compact (sort_keys (JObj d))) = Some bs"
    using ascii_dumps_encode [OF assms(1) ascii_compact_ascii] by blast
  then show ?thesis by (simp add: compute_snapshot_hash_def d)
qed

definition snapshots_collide :: "float_codec \<Rightarrow> pause_snapshot \<Rightarrow> pause_snapshot \<Rightarrow> bool" where
  "snapshots_collide fc s t \<longleftrightarrow>
     (\<exists>d e x y. snapshot_canonical s = Some d \<and> snapshot_canonical t = Some e \<and>
        utf8_encode (dumps fc ascii_compact (sort_keys (JObj d))) = Some x \<and>
        utf8_encode (dumps fc ascii_compact (sort_keys (JObj e))) = Some y \<and> x \<noteq> y \<and> sha256_hexdigest x = sha256_hexdigest y)"

lemma dumps_sort_keys_inject:
  assumes "wf_json fc v" "wf_json fc u" "dumps fc opts (sort_keys v) = dumps fc opts (sort_keys u)"
  shows "sort_keys v = sort_keys u"
proof -
  note a = loads_dumps [OF wf_sort_keys [OF assms(1)], of opts]
  note b = loads_dumps [OF wf_sort_keys [OF assms(2)], of opts]
  have "loads fc (dumps fc opts (sort_keys v)) = loads fc (dumps fc opts (sort_keys u))" by (rule arg_cong [OF assms(3)])
  then show ?thesis unfolding a b by (rule option.inject [THEN iffD1])
qed

lemma map_option_same:
  "map_option sort_keys (map_option f x) = map_option sort_keys (map_option f y) \<Longrightarrow>
   (\<And>u v. sort_keys (f u) = sort_keys (f v) \<Longrightarrow> R u v) \<Longrightarrow> rel_option R x y"
  by (cases x; cases y) auto

lemma map_of_optional:
  "map_of (case x of None \<Rightarrow> [] | Some y \<Rightarrow> [(k, f y)]) k' = (if k' = k then map_option f x else None)"
  "map_of (case z of None \<Rightarrow> [] | Some j \<Rightarrow> [(k, j)]) k' = (if k' = k then z else None)"
  by (cases x; simp) (cases z; simp)

lemma canonical_lookup:
  assumes "snapshot_canonical s = Some d"
  shows "\<exists>sj fj. state_summary_json (psn_state_summary s) = Some sj \<and>
    (case psn_fan_out_resume s of None \<Rightarrow> fj = None | Some f \<Rightarrow> \<exists>j. fan_out_json f = Some j \<and> fj = Some (hashed_fan True j)) \<and>
    map_of d (lit ''workflow_id'') = Some (JStr (psn_workflow_id s)) \<and> map_of d (lit ''run_id'') = Some (JStr (psn_run_id s)) \<and>
    map_of d (lit ''step_index'') = Some (JInt (psn_step_index s)) \<and> map_of d (lit ''state_summary'') = Some sj \<and>
    map_of d (lit ''fan_out_resume'') = fj \<and>
    map_of d (lit ''peer_fan_out_resume'') =
      map_option (\<lambda>p. strip_default_fanout_resume_fields (peer_fan_out_json p)) (psn_peer_fan_out_resume s) \<and>
    map_of d (lit ''handoff_resume'') = map_option handoff_json (psn_handoff_resume s) \<and>
    map_of d (lit ''evaluator_optimizer_resume'') = map_option evaluator_optimizer_json (psn_evaluator_optimizer_resume s) \<and>
    map_of d (lit ''effect_fence_resume'') = map_option effect_fence_resume_json (psn_effect_fence_resume s) \<and>
    map_of d (lit ''orchestrator_effect_fence_resume'') =
      map_option orchestrator_effect_fence_json (psn_orchestrator_effect_fence_resume s)"
proof -
  obtain sj where sj: "state_summary_json (psn_state_summary s) = Some sj"
    using assms by (auto simp: snapshot_canonical_def split: bind_splits)
  define fj where "fj = Option.bind (psn_fan_out_resume s) (\<lambda>f. map_option (hashed_fan True) (fan_out_json f))"
  have fan: "case psn_fan_out_resume s of None \<Rightarrow> fj = None | Some f \<Rightarrow> \<exists>j. fan_out_json f = Some j \<and> fj = Some (hashed_fan True j)"
    using assms by (auto simp: snapshot_canonical_def fj_def split: option.splits bind_splits)
  define look where "look = (\<lambda>k. map_of (case fj of None \<Rightarrow> [] | Some j \<Rightarrow> [(lit ''fan_out_resume'', j)]) k)"
  have d: "d = [(lit ''workflow_id'', JStr (psn_workflow_id s)), (lit ''run_id'', JStr (psn_run_id s)),
              (lit ''step_index'', JInt (psn_step_index s)), (lit ''state_summary'', sj)]
             @ (case fj of None \<Rightarrow> [] | Some j \<Rightarrow> [(lit ''fan_out_resume'', j)])
             @ (case psn_peer_fan_out_resume s of None \<Rightarrow> [] | Some p \<Rightarrow>
                  [(lit ''peer_fan_out_resume'', strip_default_fanout_resume_fields (peer_fan_out_json p))])
             @ (case psn_handoff_resume s of None \<Rightarrow> [] | Some h \<Rightarrow> [(lit ''handoff_resume'', handoff_json h)])
             @ (case psn_evaluator_optimizer_resume s of None \<Rightarrow> [] | Some e \<Rightarrow>
                  [(lit ''evaluator_optimizer_resume'', evaluator_optimizer_json e)])
             @ (case psn_effect_fence_resume s of None \<Rightarrow> [] | Some e \<Rightarrow>
                  [(lit ''effect_fence_resume'', effect_fence_resume_json e)])
             @ (case psn_orchestrator_effect_fence_resume s of None \<Rightarrow> [] | Some e \<Rightarrow>
                  [(lit ''orchestrator_effect_fence_resume'', orchestrator_effect_fence_json e)])"
    using assms sj fan
    by (auto simp: snapshot_canonical_def fj_def hashed_fan_def split: option.split_asm bind_splits simp del: lit_Cons)
  show ?thesis
    by (intro exI [of _ sj] exI [of _ fj] conjI sj fan)
      (simp_all only: d map_of_append map_add_def map_of_optional map_of.simps list.case fst_conv snd_conv fun_upd_def,
        simp_all split: option.split)
qed

lemma canonical_same:
  assumes d: "snapshot_canonical s = Some d" and e: "snapshot_canonical t = Some e"
    and eq: "sort_keys (JObj d) = sort_keys (JObj e)" and dist: "distinct (map fst d)" "distinct (map fst e)"
  shows "same_hashed s t"
proof -
  note at = sort_keys_obj_eq [OF eq dist]
  obtain sj fj where s: "state_summary_json (psn_state_summary s) = Some sj"
      "case psn_fan_out_resume s of None \<Rightarrow> fj = None | Some f \<Rightarrow> \<exists>j. fan_out_json f = Some j \<and> fj = Some (hashed_fan True j)"
    and dl: "map_of d (lit ''workflow_id'') = Some (JStr (psn_workflow_id s))" "map_of d (lit ''run_id'') = Some (JStr (psn_run_id s))"
      "map_of d (lit ''step_index'') = Some (JInt (psn_step_index s))" "map_of d (lit ''state_summary'') = Some sj"
      "map_of d (lit ''fan_out_resume'') = fj"
      "map_of d (lit ''peer_fan_out_resume'') =
        map_option (\<lambda>p. strip_default_fanout_resume_fields (peer_fan_out_json p)) (psn_peer_fan_out_resume s)"
      "map_of d (lit ''handoff_resume'') = map_option handoff_json (psn_handoff_resume s)"
      "map_of d (lit ''evaluator_optimizer_resume'') = map_option evaluator_optimizer_json (psn_evaluator_optimizer_resume s)"
      "map_of d (lit ''effect_fence_resume'') = map_option effect_fence_resume_json (psn_effect_fence_resume s)"
      "map_of d (lit ''orchestrator_effect_fence_resume'') =
        map_option orchestrator_effect_fence_json (psn_orchestrator_effect_fence_resume s)"
    using canonical_lookup [OF d] by blast
  obtain tj gj where t: "state_summary_json (psn_state_summary t) = Some tj"
      "case psn_fan_out_resume t of None \<Rightarrow> gj = None | Some f \<Rightarrow> \<exists>j. fan_out_json f = Some j \<and> gj = Some (hashed_fan True j)"
    and el: "map_of e (lit ''workflow_id'') = Some (JStr (psn_workflow_id t))" "map_of e (lit ''run_id'') = Some (JStr (psn_run_id t))"
      "map_of e (lit ''step_index'') = Some (JInt (psn_step_index t))" "map_of e (lit ''state_summary'') = Some tj"
      "map_of e (lit ''fan_out_resume'') = gj"
      "map_of e (lit ''peer_fan_out_resume'') =
        map_option (\<lambda>p. strip_default_fanout_resume_fields (peer_fan_out_json p)) (psn_peer_fan_out_resume t)"
      "map_of e (lit ''handoff_resume'') = map_option handoff_json (psn_handoff_resume t)"
      "map_of e (lit ''evaluator_optimizer_resume'') = map_option evaluator_optimizer_json (psn_evaluator_optimizer_resume t)"
      "map_of e (lit ''effect_fence_resume'') = map_option effect_fence_resume_json (psn_effect_fence_resume t)"
      "map_of e (lit ''orchestrator_effect_fence_resume'') =
        map_option orchestrator_effect_fence_json (psn_orchestrator_effect_fence_resume t)"
    using canonical_lookup [OF e] by blast
  have "psn_workflow_id s = psn_workflow_id t" "psn_run_id s = psn_run_id t" "psn_step_index s = psn_step_index t"
    using at [of "lit ''workflow_id''", unfolded dl(1) el(1)] at [of "lit ''run_id''", unfolded dl(2) el(2)]
      at [of "lit ''step_index''", unfolded dl(3) el(3)] by simp_all
  moreover have "same_summary (psn_state_summary s) (psn_state_summary t)"
    using summary_same [OF s(1) t(1)] at [of "lit ''state_summary''", unfolded dl(4) el(4)] by simp
  moreover have "rel_option same_fan_out (psn_fan_out_resume s) (psn_fan_out_resume t)"
    using s(2) t(2) at [of "lit ''fan_out_resume''", unfolded dl(5) el(5)] same_dumps(2) [of _ _ _ _ True]
    by (auto split: option.splits)
  moreover have "rel_option same_peer (psn_peer_fan_out_resume s) (psn_peer_fan_out_resume t)"
    by (rule map_option_same [OF at [of "lit ''peer_fan_out_resume''", unfolded dl(6) el(6)]]) (rule peer_same)
  moreover have "rel_option same_handoff (psn_handoff_resume s) (psn_handoff_resume t)"
    by (rule map_option_same [OF at [of "lit ''handoff_resume''", unfolded dl(7) el(7)]]) (rule handoff_same)
  moreover have "rel_option same_evaluator (psn_evaluator_optimizer_resume s) (psn_evaluator_optimizer_resume t)"
    by (rule map_option_same [OF at [of "lit ''evaluator_optimizer_resume''", unfolded dl(8) el(8)]]) (rule evaluator_same)
  moreover have "psn_effect_fence_resume s = psn_effect_fence_resume t"
    unfolding option.rel_eq [symmetric]
    by (rule map_option_same [OF at [of "lit ''effect_fence_resume''", unfolded dl(9) el(9)]]) (rule effect_fence_same)
  moreover have "psn_orchestrator_effect_fence_resume s = psn_orchestrator_effect_fence_resume t"
    unfolding option.rel_eq [symmetric]
    by (rule map_option_same [OF at [of "lit ''orchestrator_effect_fence_resume''", unfolded dl(10) el(10)]]) (rule orchestrator_fence_same)
  ultimately show ?thesis by (simp add: same_hashed_def)
qed

lemma same_hash_covered:
  assumes "wf_snapshot fc s" "wf_snapshot fc t" "compute_snapshot_hash fc s = Some h" "compute_snapshot_hash fc t = Some h"
  shows "same_hashed s t \<or> snapshots_collide fc s t"
proof -
  obtain d e where d: "snapshot_canonical s = Some d" "wf_json fc (JObj d)"
    and e: "snapshot_canonical t = Some e" "wf_json fc (JObj e)"
    using assms(1,2) by (auto simp: wf_snapshot_def split: option.splits)
  obtain x y where x: "utf8_encode (dumps fc ascii_compact (sort_keys (JObj d))) = Some x" "sha256_hexdigest x = h"
    and y: "utf8_encode (dumps fc ascii_compact (sort_keys (JObj e))) = Some y" "sha256_hexdigest y = h"
    using assms(3,4) unfolding compute_snapshot_hash_def d(1) e(1) bind.simps by blast
  show ?thesis
  proof (cases "x = y")
    case False
    then have "snapshots_collide fc s t" unfolding snapshots_collide_def using d e x y by metis
    then show ?thesis ..
  next
    case True
    have "dumps fc ascii_compact (sort_keys (JObj d)) = dumps fc ascii_compact (sort_keys (JObj e))"
      using utf8_encode_inj [OF x(1)] y(1) True by metis
    then have eq: "sort_keys (JObj d) = sort_keys (JObj e)" by (rule dumps_sort_keys_inject [OF d(2) e(2)])
    have "distinct (map fst d)" "distinct (map fst e)" using d(2) e(2) by simp_all
    then have "same_hashed s t" by (rule canonical_same [OF d(1) e(1) eq])
    then show ?thesis ..
  qed
qed

section \<open>The properties\<close>

text \<open>
  Property C37. What a resume does with a snapshot \<open>t\<close>, beside a captured snapshot \<open>s\<close>: it refuses \<open>t\<close> as corrupted; or
  \<open>t\<close> agrees with \<open>s\<close> in the workflow, the run, the step index, the state summary and all six resume carriers, the whole
  snapshots of paused children inside, up to the order of keys in step outputs; or two texts with one SHA-256
  digest are at hand; or \<open>t\<close> bears another hash than \<open>s\<close>, which is that of its own fields. The hash has no key, so the
  last case is open to whoever rewrites the fields and the hash together. Both snapshots are of values that a dump can be
  read back to (\<open>wf_snapshot\<close>: texts of code points, floats with a text of their own).
\<close>

theorem snapshot_tamper_evidence:
  assumes "capture_pause_snapshot fc ctx w r i reason c = Some s" "wf_snapshot fc s" "wf_snapshot fc t"
    and "attempt_resume fc ctx' t policy = Some res"
  shows "rsr_fail_class res = Some CP_FAIL_PAUSE_SNAPSHOT_CORRUPTION \<or>
    same_hashed s t \<or> snapshots_collide fc s t \<or>
    (psn_snapshot_hash t \<noteq> psn_snapshot_hash s \<and> compute_snapshot_hash fc t = Some (psn_snapshot_hash t))"
proof -
  obtain h where h: "compute_snapshot_hash fc t = Some h" using assms(4) by (auto simp: attempt_resume_def split: option.splits)
  show ?thesis
  proof (cases "h = psn_snapshot_hash t")
    case False
    then show ?thesis using assms(4) h by (auto simp: attempt_resume_def)
  next
    case True
    then show ?thesis using same_hash_covered [OF assms(2,3) capture_hash(1) [OF assms(1)]] h by auto
  qed
qed

lemma sample_snapshot_wf: "wf_snapshot no_floats sample_snapshot"
proof -
  have "psn_fan_out_resume sample_snapshot = None \<and> psn_peer_fan_out_resume sample_snapshot = None \<and>
    psn_handoff_resume sample_snapshot = None \<and> psn_evaluator_optimizer_resume sample_snapshot = None \<and>
    psn_effect_fence_resume sample_snapshot = None \<and> psn_orchestrator_effect_fence_resume sample_snapshot = None \<and>
    psn_state_summary sample_snapshot = sample_summary \<and> psn_workflow_id sample_snapshot = lit ''w'' \<and>
    psn_run_id sample_snapshot = lit ''r''"
  proof -
    obtain h where e: "sample_snapshot = PauseSnapshot (lit ''w'') (lit ''r'') 2 EXPLICIT_OPERATOR sample_summary h 0
        (lit ''anchor'') None None None None None None"
      using sample_capture unfolding capture_pause_snapshot_def Let_def no_carriers_def sample_context_def
      by (simp only: map_option_eq_Some pause_context.simps resume_carriers.simps) metis
    show ?thesis unfolding e pause_snapshot.sel by simp
  qed
  then show ?thesis
    by (simp add: wf_snapshot_def snapshot_canonical_def state_summary_json_def sample_summary_def valid_cp_def)
qed

text \<open>The witness: the sample snapshot with another step index under the old hash.\<close>

definition forged_snapshot :: pause_snapshot where
  "forged_snapshot =
     PauseSnapshot (lit ''w'') (lit ''r'') 3 EXPLICIT_OPERATOR sample_summary (psn_snapshot_hash sample_snapshot) 0 (lit ''anchor'')
       None None None None None None"

lemma snapshot_tamper_evidence_witness:
  "\<exists>res. attempt_resume no_floats sample_context forged_snapshot POLICY_STRICT = Some res \<and>
     (rsr_fail_class res = Some CP_FAIL_PAUSE_SNAPSHOT_CORRUPTION \<or> snapshots_collide no_floats sample_snapshot forged_snapshot)"
proof -
  have wf: "wf_snapshot no_floats forged_snapshot"
    by (simp add: wf_snapshot_def snapshot_canonical_def state_summary_json_def sample_summary_def forged_snapshot_def valid_cp_def)
  have idx: "psn_step_index sample_snapshot = 2"
    using sample_capture unfolding capture_pause_snapshot_def Let_def map_option_eq_Some by (metis pause_snapshot.sel(3))
  obtain res where res: "attempt_resume no_floats sample_context forged_snapshot POLICY_STRICT = Some res"
    using attempt_resume_total [OF no_floats_ascii] wf_snapshot_hash [OF no_floats_ascii wf] by blast
  have "\<not> same_hashed sample_snapshot forged_snapshot" by (simp add: same_hashed_def idx forged_snapshot_def)
  moreover have "psn_snapshot_hash forged_snapshot = psn_snapshot_hash sample_snapshot" by (simp add: forged_snapshot_def)
  ultimately show ?thesis
    using snapshot_tamper_evidence [OF sample_capture sample_snapshot_wf wf res] res by blast
qed

text \<open>The uncovered fields, rewritten.\<close>

definition rewrite_uncovered :: "workflow_pause_reason \<Rightarrow> int \<Rightarrow> pystr \<Rightarrow> pause_snapshot \<Rightarrow> pause_snapshot" where
  "rewrite_uncovered reason created anchor s =
     PauseSnapshot (psn_workflow_id s) (psn_run_id s) (psn_step_index s) reason (psn_state_summary s)
       (psn_snapshot_hash s) created anchor (psn_fan_out_resume s) (psn_peer_fan_out_resume s) (psn_handoff_resume s)
       (psn_evaluator_optimizer_resume s) (psn_effect_fence_resume s) (psn_orchestrator_effect_fence_resume s)"

text \<open>
  The hash leaves out the pause reason, the creation time and the ledger anchor: rewriting the anchor of a
  captured snapshot to the current one makes a strict resume accept it without a difference, whatever the ledger holds
  since the pause.
\<close>

theorem snapshot_anchor_unprotected:
  assumes "capture_pause_snapshot fc ctx w r i reason c = Some s"
  shows "attempt_resume fc ctx' (rewrite_uncovered reason' created (pct_anchor ctx') s) POLICY_STRICT = Some clean_answer"
proof -
  have "compute_snapshot_hash fc (rewrite_uncovered reason' created (pct_anchor ctx') s) = compute_snapshot_hash fc s"
    by (simp add: compute_snapshot_hash_def snapshot_canonical_def rewrite_uncovered_def)
  then show ?thesis
    using capture_hash(1) [OF assms] by (simp add: attempt_resume_def is_material_diff_def clean_answer_def)
      (simp add: rewrite_uncovered_def)
qed

lemma snapshot_anchor_unprotected_witness:
  "attempt_resume no_floats (sample_context\<lparr>pct_anchor := lit ''moved''\<rparr>)
     (rewrite_uncovered HITL_PENDING 7 (lit ''moved'') sample_snapshot) POLICY_STRICT = Some clean_answer"
  using snapshot_anchor_unprotected [OF sample_capture, of "sample_context\<lparr>pct_anchor := lit ''moved''\<rparr>" HITL_PENDING 7]
  by simp

end
