(* ===== verification/Topology.thy ===== *)
theory Topology
  imports Engine_Classes Core_Types
begin

text \<open>
  \<open>topology_pattern.py\<close>, \<open>per_workload_class_topology.py\<close>, \<open>per_engine_class_topology_overlay.py\<close> and
  \<open>workload_engine_class_matrix.py\<close>: the topologies a workflow can have, which workloads permit them, what each engine
  class does about faults, and the cascade policy a persona gets. Last, the driver strategy a topology is run by
  (\<open>workflow_driver.py\<close>). The rationale texts are left out.
\<close>

section \<open>Topologies and workloads\<close>

datatype topology_pattern =
    SINGLE_THREADED_LINEAR | ORCHESTRATOR_WORKERS | DECENTRALIZED_HANDOFF | HIERARCHICAL_DELEGATION
  | EVALUATOR_OPTIMIZER | PARALLELIZATION

definition ALL_TOPOLOGIES :: "topology_pattern list" where
  "ALL_TOPOLOGIES = [SINGLE_THREADED_LINEAR, ORCHESTRATOR_WORKERS, DECENTRALIZED_HANDOFF, HIERARCHICAL_DELEGATION,
     EVALUATOR_OPTIMIZER, PARALLELIZATION]"

datatype cascade_policy = CASCADE_PAUSE | CASCADE_PROCEED | CASCADE_CANCEL

definition CROSS_PATTERN_ADMISSIBLE :: "(topology_pattern \<times> workload_class) list" where
  "CROSS_PATTERN_ADMISSIBLE =
     [(HIERARCHICAL_DELEGATION, SOFTWARE_ENGINEERING), (HIERARCHICAL_DELEGATION, RESEARCH),
      (DECENTRALIZED_HANDOFF, PIPELINE_AUTOMATION),
      (PARALLELIZATION, RESEARCH), (PARALLELIZATION, CONTENT_CREATION)]"

definition is_admissible :: "topology_pattern \<Rightarrow> workload_class \<Rightarrow> bool" where
  "is_admissible pattern workload \<longleftrightarrow> (pattern, workload) \<in> set CROSS_PATTERN_ADMISSIBLE"

record topology_commitment =
  tcm_default_pattern :: topology_pattern
  tcm_permitted_patterns :: "topology_pattern list"

definition permitted :: "workload_class \<Rightarrow> topology_pattern list \<Rightarrow> topology_pattern list" where
  "permitted workload primaries = primaries @ filter (\<lambda>p. is_admissible p workload) ALL_TOPOLOGIES"

fun commitment_for :: "workload_class \<Rightarrow> topology_commitment" where
  "commitment_for SOFTWARE_ENGINEERING =
     \<lparr>tcm_default_pattern = EVALUATOR_OPTIMIZER,
      tcm_permitted_patterns = permitted SOFTWARE_ENGINEERING [EVALUATOR_OPTIMIZER, ORCHESTRATOR_WORKERS]\<rparr>"
| "commitment_for CONTENT_CREATION =
     \<lparr>tcm_default_pattern = EVALUATOR_OPTIMIZER,
      tcm_permitted_patterns = permitted CONTENT_CREATION [EVALUATOR_OPTIMIZER]\<rparr>"
| "commitment_for PIPELINE_AUTOMATION =
     \<lparr>tcm_default_pattern = SINGLE_THREADED_LINEAR,
      tcm_permitted_patterns = permitted PIPELINE_AUTOMATION [SINGLE_THREADED_LINEAR, ORCHESTRATOR_WORKERS]\<rparr>"
| "commitment_for RESEARCH =
     \<lparr>tcm_default_pattern = ORCHESTRATOR_WORKERS,
      tcm_permitted_patterns = permitted RESEARCH [ORCHESTRATOR_WORKERS]\<rparr>"

definition is_topology_permitted_for_workload :: "topology_pattern \<Rightarrow> workload_class \<Rightarrow> bool" where
  "is_topology_permitted_for_workload topology workload \<longleftrightarrow> topology \<in> set (tcm_permitted_patterns (commitment_for workload))"

section \<open>Engine classes\<close>

datatype topology_fault_handling = ABOVE_ENGINE | BELOW_ENGINE | FAULT_RECONCILER

datatype cascade_enforcement_mechanism =
  HARNESS_CANCELLATION_PROPAGATION | ENGINE_NATIVE_CANCELLATION | CRD_RECONCILER_DRIVEN

datatype writer_serialization_mechanism =
  HARNESS_LEASE_ACQUISITION | ENGINE_NATIVE_WRITER_SERIAL | CRD_RESOURCE_VERSION

record engine_overlay =
  eov_t_perm_3_reading :: topology_fault_handling
  eov_cascade_enforcement :: cascade_enforcement_mechanism
  eov_writer_serialization :: writer_serialization_mechanism

fun overlay_for :: "engine_class \<Rightarrow> engine_overlay" where
  "overlay_for EVENT_SOURCED_REPLAY =
     \<lparr>eov_t_perm_3_reading = BELOW_ENGINE, eov_cascade_enforcement = ENGINE_NATIVE_CANCELLATION,
      eov_writer_serialization = ENGINE_NATIVE_WRITER_SERIAL\<rparr>"
| "overlay_for SAVE_POINT_CHECKPOINT =
     \<lparr>eov_t_perm_3_reading = ABOVE_ENGINE, eov_cascade_enforcement = HARNESS_CANCELLATION_PROPAGATION,
      eov_writer_serialization = HARNESS_LEASE_ACQUISITION\<rparr>"
| "overlay_for PURE_PATTERN_NO_ENGINE =
     \<lparr>eov_t_perm_3_reading = ABOVE_ENGINE, eov_cascade_enforcement = HARNESS_CANCELLATION_PROPAGATION,
      eov_writer_serialization = HARNESS_LEASE_ACQUISITION\<rparr>"
| "overlay_for RECONCILER_LOOP =
     \<lparr>eov_t_perm_3_reading = FAULT_RECONCILER, eov_cascade_enforcement = CRD_RECONCILER_DRIVEN,
      eov_writer_serialization = CRD_RESOURCE_VERSION\<rparr>"
| "overlay_for WAL_SEGMENT =
     \<lparr>eov_t_perm_3_reading = ABOVE_ENGINE, eov_cascade_enforcement = HARNESS_CANCELLATION_PROPAGATION,
      eov_writer_serialization = HARNESS_LEASE_ACQUISITION\<rparr>"

record workload_engine_cell =
  wec_workload_class :: workload_class
  wec_engine_class :: engine_class
  wec_topology_pattern :: topology_pattern
  wec_cascade_enforcement :: cascade_enforcement_mechanism
  wec_t_perm_3_reading :: topology_fault_handling
  wec_cell_admissible :: bool

text \<open>The cell of \<open>WORKLOAD_ENGINE_MATRIX\<close>; the table is built over the whole product, so no look-up fails.\<close>

definition workload_engine_cell_for :: "workload_class \<Rightarrow> engine_class \<Rightarrow> workload_engine_cell" where
  "workload_engine_cell_for wc ec =
     \<lparr>wec_workload_class = wc, wec_engine_class = ec,
      wec_topology_pattern = tcm_default_pattern (commitment_for wc),
      wec_cascade_enforcement = eov_cascade_enforcement (overlay_for ec),
      wec_t_perm_3_reading = eov_t_perm_3_reading (overlay_for ec),
      wec_cell_admissible = ((wc, ec) \<noteq> (PIPELINE_AUTOMATION, PURE_PATTERN_NO_ENGINE))\<rparr>"

record d4_tunable =
  d4t_topology_fault_handling :: topology_fault_handling
  d4t_workload_class :: workload_class
  d4t_topology_pattern :: topology_pattern
  d4t_cascade_policy :: cascade_policy

definition d4_tunable_for :: "workload_engine_cell \<Rightarrow> persona_tier \<Rightarrow> d4_tunable" where
  "d4_tunable_for cell persona =
     \<lparr>d4t_topology_fault_handling = wec_t_perm_3_reading cell, d4t_workload_class = wec_workload_class cell,
      d4t_topology_pattern = wec_topology_pattern cell,
      d4t_cascade_policy =
        (if persona = SOLO_DEVELOPER then CASCADE_PROCEED
         else if persona = TEAM_BINDING then CASCADE_PAUSE else CASCADE_CANCEL)\<rparr>"

section \<open>Strategies of the driver\<close>

datatype driver_strategy =
    LINEAR_INLINE | STRATEGY_PARALLELIZATION | STRATEGY_EVALUATOR_OPTIMIZER | STRATEGY_ORCHESTRATOR_WORKERS
  | STRATEGY_HIERARCHICAL_DELEGATION | STRATEGY_DECENTRALIZED_HANDOFF | NOT_YET_MATERIALIZED

fun DRIVER_STRATEGY_DISPATCH :: "topology_pattern \<Rightarrow> driver_strategy" where
  "DRIVER_STRATEGY_DISPATCH SINGLE_THREADED_LINEAR = LINEAR_INLINE"
| "DRIVER_STRATEGY_DISPATCH PARALLELIZATION = STRATEGY_PARALLELIZATION"
| "DRIVER_STRATEGY_DISPATCH ORCHESTRATOR_WORKERS = STRATEGY_ORCHESTRATOR_WORKERS"
| "DRIVER_STRATEGY_DISPATCH HIERARCHICAL_DELEGATION = STRATEGY_HIERARCHICAL_DELEGATION"
| "DRIVER_STRATEGY_DISPATCH DECENTRALIZED_HANDOFF = STRATEGY_DECENTRALIZED_HANDOFF"
| "DRIVER_STRATEGY_DISPATCH EVALUATOR_OPTIMIZER = STRATEGY_EVALUATOR_OPTIMIZER"

text \<open>\<open>None\<close> stands for \<open>TopologyPatternNotYetMaterializedError\<close>.\<close>

definition resolve_driver_strategy :: "topology_pattern \<Rightarrow> driver_strategy option" where
  "resolve_driver_strategy pattern =
     (let status = DRIVER_STRATEGY_DISPATCH pattern in if status = NOT_YET_MATERIALIZED then None else Some status)"

definition IN_SCOPE_ENGINE_CLASSES :: "engine_class list" where
  "IN_SCOPE_ENGINE_CLASSES =
     [PURE_PATTERN_NO_ENGINE, SAVE_POINT_CHECKPOINT, EVENT_SOURCED_REPLAY, WAL_SEGMENT, RECONCILER_LOOP]"

declare overlay_for.simps [data_simps] commitment_for.simps [data_simps] DRIVER_STRATEGY_DISPATCH.simps [data_simps]

text \<open>Every topology has a strategy of its own, and every engine class is in scope.\<close>

lemma resolve_driver_strategy_total: "resolve_driver_strategy p = Some (DRIVER_STRATEGY_DISPATCH p)"
  by (cases p) (simp_all add: resolve_driver_strategy_def)

lemma driver_strategy_inj: "inj DRIVER_STRATEGY_DISPATCH"
proof (rule injI)
  fix a b
  show "DRIVER_STRATEGY_DISPATCH a = DRIVER_STRATEGY_DISPATCH b \<Longrightarrow> a = b" by (cases a; cases b) simp_all
qed

lemma engine_class_in_scope: "ec \<in> set IN_SCOPE_ENGINE_CLASSES"
  by (cases ec) (simp_all add: IN_SCOPE_ENGINE_CLASSES_def)

text \<open>A workload permits its default; the linear topology is permitted for pipelines only.\<close>

lemma default_permitted: "is_topology_permitted_for_workload (tcm_default_pattern (commitment_for wc)) wc"
  by (cases wc) (simp_all add: is_topology_permitted_for_workload_def permitted_def)

lemma linear_for_pipelines:
  "is_topology_permitted_for_workload SINGLE_THREADED_LINEAR wc \<longleftrightarrow> wc = PIPELINE_AUTOMATION"
  by (cases wc) (simp_all add: is_topology_permitted_for_workload_def permitted_def ALL_TOPOLOGIES_def
    is_admissible_def CROSS_PATTERN_ADMISSIBLE_def)

end
