(* ===== verification/Workflow_Types.thy ===== *)
theory Workflow_Types
  imports Topology Pause_Resume Gate_Levels Routing Tool_Dispatch
begin

text \<open>
  The values the workflow driver works with: manifest entries (\<open>workflow_manifest_entry.py\<close>), placements of human gates
  (\<open>hitl_placement.py\<close>), steps, contexts and results (\<open>workflow_driver_types.py\<close>), the binding of a step after its
  override (\<open>per_step_override_evaluator.py\<close>) and the keys of a run and its steps (\<open>workflow_driver.py\<close>).
\<close>

section \<open>Human gates\<close>

datatype hitl_placement_kind = HITL_PRE_ACTION | HITL_SUB_AGENT_BOUNDARY | HITL_VALIDATOR_ESCALATION

fun hitl_placement_kind_value :: "hitl_placement_kind \<Rightarrow> pystr" where
  "hitl_placement_kind_value HITL_PRE_ACTION = lit ''pre-action''"
| "hitl_placement_kind_value HITL_SUB_AGENT_BOUNDARY = lit ''sub-agent-boundary''"
| "hitl_placement_kind_value HITL_VALIDATOR_ESCALATION = lit ''validator-escalation''"

datatype loosenable_placement_kind = LOOSEN_SUB_AGENT_BOUNDARY

record hitl_placement =
  hpl_position :: hitl_placement_kind
  hpl_tool_filter :: "pystr list option"
  hpl_cascade_policy :: "cascade_policy option"
  hpl_timeout :: "int option"

section \<open>Manifest entries\<close>

datatype fanout_timeout_disposition = FAIL_CLOSED | RECOVER_AS_TERMINAL | RE_DISPATCH

datatype output_schema_kind = SCHEMA_JSON | SCHEMA_FREE_TEXT | SCHEMA_STRUCTURED_RECORD

record sub_agent_brief =
  sab_objective :: pystr
  sab_schema_kind :: output_schema_kind
  sab_schema_body :: "pystr option"
  sab_guidance :: pystr
  sab_in_scope :: "pystr list"
  sab_out_of_scope :: "pystr list"
  sab_termination_criteria :: "pystr list"
  sab_summary_hash :: pystr

text \<open>The set of removed placements has at most its one member.\<close>

record step_override =
  sov_step_id :: pystr
  sov_model_binding :: "model_binding option"
  sov_engine_class :: "engine_class option"
  sov_hitl_placement :: "hitl_placement option"
  sov_prompt_version_sha :: "pystr option"
  sov_agent_role :: "pystr option"
  sov_removed_placements :: "loosenable_placement_kind list"

record workflow_manifest_entry =
  wme_workflow_id :: pystr
  wme_workload_class :: workload_class
  wme_persona_tier :: persona_tier
  wme_engine_class :: engine_class
  wme_topology_pattern :: topology_pattern
  wme_layer_budgets :: "layer_budget list"
  wme_fallback_chain :: fallback_chain
  wme_hitl_placements :: "hitl_placement list"
  wme_sub_agent_briefs :: "sub_agent_brief list option"
  wme_per_step_overrides :: "pystr \<rightharpoonup> step_override"
  wme_entry_version :: int
  wme_default_gate_level :: "gate_level option"
  wme_fanout_timeout_disposition :: fanout_timeout_disposition

section \<open>Steps, contexts and results\<close>

datatype run_status = RUN_SUCCESS | RUN_DRAINED | RUN_FAILED | RUN_PARTIAL | RUN_PAUSED

datatype step_kind =
    DECLARATIVE_STEP | INFERENCE_STEP | TOOL_STEP | HITL_STEP | SUB_AGENT_DISPATCH | MANAGED_AGENTS | POST_JOIN_SYNTHESIS

fun step_kind_value :: "step_kind \<Rightarrow> pystr" where
  "step_kind_value DECLARATIVE_STEP = lit ''declarative-step''"
| "step_kind_value INFERENCE_STEP = lit ''inference-step''"
| "step_kind_value TOOL_STEP = lit ''tool-step''"
| "step_kind_value HITL_STEP = lit ''HITL-step''"
| "step_kind_value SUB_AGENT_DISPATCH = lit ''sub-agent-dispatch''"
| "step_kind_value MANAGED_AGENTS = lit ''managed-agents''"
| "step_kind_value POST_JOIN_SYNTHESIS = lit ''post-join-synthesis''"

record workflow_step =
  wfs_step_id :: pystr
  wfs_step_kind :: step_kind
  wfs_step_payload :: json_object

record step_execution_context =
  sec_workflow_id :: pystr
  sec_parent_action_id :: pystr
  sec_parent_gate_level :: gate_level
  sec_parent_sandbox_tier :: sandbox_tier
  sec_parent_actor :: actor
  sec_parent_entry_hash :: pystr
  sec_parent_idempotency_key :: pystr
  sec_tenant_id :: "pystr option"
  sec_step_index :: int
  sec_branch_index :: "int option"
  sec_agent_role :: "pystr option"
  sec_hitl_placements :: "hitl_placement list"
  sec_child_resume_snapshot :: "pause_snapshot option"
  sec_run_engine_class :: "engine_class option"
  sec_effect_fence_resolution :: "fence_directive option"
  sec_sibling_outputs :: "(int \<times> json_object) list option"
  sec_is_orchestrator_dispatch :: bool
  sec_is_linear_sequential_dispatch :: bool

text \<open>\<open>compose_branch_child_context\<close>; \<open>None\<close> stands for \<open>ValueError\<close>, here and below.\<close>

definition compose_branch_child_context ::
  "step_execution_context \<Rightarrow> int \<Rightarrow> pystr \<Rightarrow> step_execution_context option" where
  "compose_branch_child_context c branch_index agent_role =
     (if branch_index < 0 then None
      else Some (c\<lparr>sec_branch_index := Some branch_index, sec_agent_role := Some agent_role,
                   sec_is_orchestrator_dispatch := False, sec_is_linear_sequential_dispatch := False\<rparr>))"

definition fold_step_hitl_placements :: "hitl_placement list \<Rightarrow> hitl_placement option \<Rightarrow> hitl_placement list" where
  "fold_step_hitl_placements placements override =
     (case override of
        None \<Rightarrow> placements
      | Some o' \<Rightarrow> if \<exists>p \<in> set placements. hpl_position p = hpl_position o' then placements else placements @ [o'])"

definition require_branch :: "step_execution_context \<Rightarrow> int option" where
  "require_branch c = sec_branch_index c"

definition compose_branch_step_action_id :: "step_execution_context \<Rightarrow> int \<Rightarrow> pystr option" where
  "compose_branch_step_action_id c local_step_index =
     map_option (\<lambda>b. sec_parent_action_id c @ lit '':branch:'' @ dec_int b @ lit '':step:'' @ dec_int local_step_index)
       (require_branch c)"

definition compose_branch_path :: "step_execution_context \<Rightarrow> pystr option" where
  "compose_branch_path c = map_option (\<lambda>b. sec_parent_action_id c @ lit '':'' @ dec_int b) (require_branch c)"

definition compose_branch_metadata :: "step_execution_context \<Rightarrow> terminal_status option \<Rightarrow> branch_metadata option" where
  "compose_branch_metadata c terminal =
     Option.bind (require_branch c) (\<lambda>b.
       if b < 0 then None
       else Some \<lparr>brm_parent_action_id = sec_parent_action_id c, brm_branch_index = nat b, brm_terminal_status = terminal\<rparr>)"

definition compose_branch_terminal_action_id :: "step_execution_context \<Rightarrow> pystr option" where
  "compose_branch_terminal_action_id c =
     map_option (\<lambda>b. sec_parent_action_id c @ lit '':branch:'' @ dec_int b @ lit '':terminal'') (require_branch c)"

definition compose_branch_terminal_path :: "step_execution_context \<Rightarrow> pystr option" where
  "compose_branch_terminal_path c =
     map_option (\<lambda>b. sec_parent_action_id c @ lit '':'' @ dec_int b @ lit '':terminal'') (require_branch c)"

section \<open>The binding of a step\<close>

record step_effective_binding =
  seb_step_id :: pystr
  seb_model_binding :: model_binding
  seb_model_binding_override :: "model_binding option"
  seb_engine_class :: engine_class
  seb_hitl_placement :: "hitl_placement option"
  seb_override_applied :: bool
  seb_override_audit_ref :: "ledger_entry_ref option"
  seb_persona_tier :: persona_tier
  seb_prompt_version_sha :: "pystr option"
  seb_agent_role :: "pystr option"
  seb_removed_placements :: "loosenable_placement_kind list"

text \<open>The reference an override leaves: the action id of its audit entry and the all-zero hash that entry holds.\<close>

definition override_audit_ref :: "pystr \<Rightarrow> pystr \<Rightarrow> ledger_entry_ref" where
  "override_audit_ref workflow_id step_id =
     \<lparr>ler_action_id = workflow_id @ lit ''||'' @ step_id, ler_entry_hash = replicate 64 48,
      ler_actor = lit ''control-plane''\<rparr>"

definition opt_or :: "'a option \<Rightarrow> 'a \<Rightarrow> 'a" where
  "opt_or x d = (case x of Some y \<Rightarrow> y | None \<Rightarrow> d)"

definition resolve_step_binding ::
  "workflow_manifest_entry \<Rightarrow> pystr \<Rightarrow> model_binding \<Rightarrow> persona_tier \<Rightarrow> step_effective_binding" where
  "resolve_step_binding m step_id default_binding persona =
     (case wme_per_step_overrides m step_id of
        None \<Rightarrow>
          \<lparr>seb_step_id = step_id, seb_model_binding = default_binding, seb_model_binding_override = None,
           seb_engine_class = wme_engine_class m, seb_hitl_placement = None, seb_override_applied = False,
           seb_override_audit_ref = None, seb_persona_tier = persona, seb_prompt_version_sha = None,
           seb_agent_role = None, seb_removed_placements = []\<rparr>
      | Some ov \<Rightarrow>
          \<lparr>seb_step_id = step_id, seb_model_binding = opt_or (sov_model_binding ov) default_binding,
           seb_model_binding_override = sov_model_binding ov,
           seb_engine_class = opt_or (sov_engine_class ov) (wme_engine_class m),
           seb_hitl_placement = sov_hitl_placement ov, seb_override_applied = True,
           seb_override_audit_ref = Some (override_audit_ref (wme_workflow_id m) step_id),
           seb_persona_tier = persona, seb_prompt_version_sha = sov_prompt_version_sha ov,
           seb_agent_role = sov_agent_role ov, seb_removed_placements = sov_removed_placements ov\<rparr>)"

fun engine_class_value :: "engine_class \<Rightarrow> pystr" where
  "engine_class_value EVENT_SOURCED_REPLAY = lit ''event-sourced-replay''"
| "engine_class_value SAVE_POINT_CHECKPOINT = lit ''save-point-checkpoint''"
| "engine_class_value PURE_PATTERN_NO_ENGINE = lit ''pure-pattern-no-engine''"
| "engine_class_value RECONCILER_LOOP = lit ''reconciler-loop''"
| "engine_class_value WAL_SEGMENT = lit ''WAL-segment''"

fun cascade_policy_value :: "cascade_policy \<Rightarrow> pystr" where
  "cascade_policy_value CASCADE_PAUSE = lit ''pause''"
| "cascade_policy_value CASCADE_PROCEED = lit ''proceed''"
| "cascade_policy_value CASCADE_CANCEL = lit ''cascade-cancel''"

definition model_binding_json :: "model_binding \<Rightarrow> json" where
  "model_binding_json b = JObj [(lit ''provider'', JStr (mb_provider b)), (lit ''model'', JStr (mb_model b))]"

definition hitl_placement_json :: "hitl_placement \<Rightarrow> json" where
  "hitl_placement_json p =
     JObj [(lit ''position'', JStr (hitl_placement_kind_value (hpl_position p))),
           (lit ''tool_filter'', json_opt (\<lambda>ts. JList (map JStr ts)) (hpl_tool_filter p)),
           (lit ''cascade_policy'', json_opt (\<lambda>c. JStr (cascade_policy_value c)) (hpl_cascade_policy p)),
           (lit ''timeout'', json_opt JInt (hpl_timeout p))]"

text \<open>\<open>binding.model_dump (mode="json")\<close>.\<close>

definition binding_json :: "step_effective_binding \<Rightarrow> json" where
  "binding_json b =
     JObj [(lit ''step_id'', JStr (seb_step_id b)), (lit ''model_binding'', model_binding_json (seb_model_binding b)),
           (lit ''model_binding_override'', json_opt model_binding_json (seb_model_binding_override b)),
           (lit ''engine_class'', JStr (engine_class_value (seb_engine_class b))),
           (lit ''hitl_placement'', json_opt hitl_placement_json (seb_hitl_placement b)),
           (lit ''override_applied'', JBool (seb_override_applied b)),
           (lit ''override_audit_ref'', json_opt ledger_entry_ref_json (seb_override_audit_ref b)),
           (lit ''persona_tier'', JStr (lit (persona_tier_value (seb_persona_tier b)))),
           (lit ''prompt_version_sha'', json_opt JStr (seb_prompt_version_sha b)),
           (lit ''agent_role'', json_opt JStr (seb_agent_role b)),
           (lit ''removed_placements'', JList (map (\<lambda>_. JStr (lit ''sub-agent-boundary'')) (seb_removed_placements b)))]"

definition override_idempotency_key :: "pystr \<Rightarrow> pystr \<Rightarrow> pystr \<Rightarrow> pystr option" where
  "override_idempotency_key workflow_id step_id outcome_hash = segments_key [workflow_id, step_id, outcome_hash]"

definition compose_override_entry_payload ::
  "float_codec \<Rightarrow> pystr \<Rightarrow> pystr \<Rightarrow> json \<Rightarrow> pystr \<Rightarrow> py_datetime \<Rightarrow> pystr option \<Rightarrow> entry_payload option" where
  "compose_override_entry_payload fc workflow_id step_id config actor_id now ref =
     Option.bind (canonicalize_outcome_bytes fc config) (\<lambda>bs.
       map_option (\<lambda>key. protocol_payload ''cp.per-step-override-application'' key actor_id now ref)
         (override_idempotency_key workflow_id step_id (sha256_hexdigest bs)))"

section \<open>Keys\<close>

text \<open>The parts of a key, each after the first preceded by a zero byte; \<open>None\<close>: a part has no UTF-8 form.\<close>

definition nul_joined :: "bytes list \<Rightarrow> bytes" where
  "nul_joined parts = (case parts of [] \<Rightarrow> [] | p # ps \<Rightarrow> p @ concat (map (\<lambda>q. 0 # q) ps))"

definition nul_key :: "pystr list \<Rightarrow> pystr option" where
  "nul_key parts = map_option (\<lambda>bs. sha256_hexdigest (nul_joined bs)) (those (map utf8_encode parts))"

definition compute_run_idempotency_key :: "pystr \<Rightarrow> pystr \<Rightarrow> pystr list \<Rightarrow> pystr option" where
  "compute_run_idempotency_key run_id workflow_id extras = nul_key ([run_id, workflow_id] @ extras)"

definition compute_step_idempotency_key :: "pystr \<Rightarrow> int \<Rightarrow> pystr option \<Rightarrow> pystr option" where
  "compute_step_idempotency_key run_key step_index branch_path =
     nul_key ([run_key, dec_int step_index] @ (case branch_path of None \<Rightarrow> [] | Some b \<Rightarrow> [b]))"

definition resolve_parent_gate_level :: "workflow_manifest_entry \<Rightarrow> gate_level" where
  "resolve_parent_gate_level m = opt_or (wme_default_gate_level m) AUTO"

section \<open>Lemmas\<close>

text \<open>Folding an override in never removes a placement and adds at most one.\<close>

lemma fold_placements_extends:
  "\<exists>extra. fold_step_hitl_placements ps ov = ps @ extra \<and> length extra \<le> 1 \<and> set extra \<subseteq> set_option ov"
  by (cases ov) (auto simp: fold_step_hitl_placements_def)


end
