(* ===== verification/Json_Prefix.thy ===== *)
theory Json_Prefix
  imports Json_Codec
begin

text \<open>
  What a reader makes of a text that was cut short: the parser reads a value the same way whatever follows it
  (\<open>parse_value_extend\<close>), so no proper prefix of a dumped dictionary is a JSON document
  (\<open>loads_torn\<close>). The journals rest on it: a torn line is never taken for a record.
\<close>

lemma skip_ws_extend: "skip_ws s = c # cs \<Longrightarrow> skip_ws (s @ q) = c # cs @ q"
  by (induction s) (auto simp: skip_ws_def split: if_splits)

lemma parse_hex4_extend: "parse_hex4 s = Some (u, r) \<Longrightarrow> parse_hex4 (s @ q) = Some (u, r @ q)"
  by (cases s rule: parse_hex4.cases) (auto split: option.splits)

text \<open>A surrogate pair is joined across what follows, so the rest must be able to close a string.\<close>

lemma parse_u_extend:
  assumes u: "parse_u s = Some (u, r)" and r: "parse_chars r = Some (t, r')"
  shows "parse_u (s @ q) = Some (u, r @ q)"
proof -
  obtain v r1 where h: "parse_hex4 s = Some (v, r1)" using u by (auto simp: parse_u_def split: option.splits)
  note h' = parse_hex4_extend [OF h, of q]
  show ?thesis
  proof (cases "55296 \<le> v \<and> v \<le> 56319 \<and> take 2 r1 = [92, 117]")
    case True
    then have t: "take 2 (r1 @ q) = [92, 117]" "drop 2 (r1 @ q) = drop 2 r1 @ q"
      by (cases r1; cases "tl r1"; simp)+
    obtain v2 r2 where h2: "parse_hex4 (drop 2 r1) = Some (v2, r2)"
      using u True h by (auto simp: parse_u_def split: option.splits)
    show ?thesis using u True t h h' h2 parse_hex4_extend [OF h2, of q]
      by (auto simp: parse_u_def split: if_splits)
  next
    case False
    then have "r = r1" using u h by (auto simp: parse_u_def split: if_splits)
    then have "\<not> (55296 \<le> v \<and> v \<le> 56319 \<and> take 2 (r1 @ q) = [92, 117])"
      using False r by (cases r1; cases "tl r1") (auto simp: parse_chars.simps [of "[]"] parse_chars.simps [of "[92]"])
    then show ?thesis using u False h h' by (auto simp: parse_u_def)
  qed
qed

lemma parse_chars_extend: "parse_chars s = Some (t, r) \<Longrightarrow> parse_chars (s @ q) = Some (t, r @ q)"
proof (induction s arbitrary: t r rule: parse_chars.induct)
  case (1 s)
  show ?case
  proof (cases s)
    case Nil
    with "1.prems" show ?thesis by (simp add: parse_chars.simps)
  next
    case (Cons c cs)
    consider "c = 34" | "c \<noteq> 34" "c < 32" | "c \<noteq> 34" "\<not> c < 32" "c \<noteq> 92" | "c = 92" by linarith
    then show ?thesis
    proof cases
      case 1
      with "1.prems" Cons show ?thesis by (simp add: parse_chars.simps [of "34 # _"])
    next
      case 2
      with "1.prems" Cons show ?thesis by (simp add: parse_chars.simps [of "c # cs"])
    next
      case 3
      with "1.prems" Cons obtain t' where t: "parse_chars cs = Some (t', r)" "t = c # t'"
        by (auto simp: parse_chars.simps [of "c # cs"])
      with "1.IH"(1) [OF Cons _ _ _ t(1)] 3 Cons show ?thesis by (simp add: parse_chars.simps [of "c # cs @ q"])
    next
      case 4
      with "1.prems" Cons obtain e es where es: "cs = e # es"
        by (cases cs) (simp_all add: parse_chars.simps [of "[92]"])
      show ?thesis
      proof (cases "e = 117")
        case True
        with "1.prems" Cons 4 es obtain u r1 t' where u: "parse_u es = Some (u, r1)" "parse_chars r1 = Some (t', r)" "t = u # t'"
          by (auto simp: parse_chars.simps [of "92 # 117 # es"] split: option.splits)
        with "1.IH"(2) [OF Cons _ _ _ es True u(1) _ u(2)] 4 parse_u_shorter [OF u(1)] Cons es True
        show ?thesis by (simp add: parse_chars.simps [of "92 # 117 # es @ q"] parse_u_extend [OF u(1,2)])
      next
        case False
        with "1.prems" Cons 4 es obtain u t' where u: "simple_escape e = Some u" "parse_chars es = Some (t', r)" "t = u # t'"
          by (auto simp: parse_chars.simps [of "92 # e # es"] split: option.splits)
        with "1.IH"(3) [OF Cons _ _ _ es False u(1) u(2)] 4 Cons es False
        show ?thesis by (simp add: parse_chars.simps [of "92 # e # es @ q"])
      qed
    qed
  qed
qed

section \<open>Numbers\<close>

lemma takeWhile_extend: "dropWhile P s \<noteq> [] \<Longrightarrow> takeWhile P (s @ q) = takeWhile P s"
  by (induction s) auto

text \<open>A rest that goes on, with a character that is no part of a number.\<close>

definition stops :: "pystr \<Rightarrow> bool" where
  "stops r \<longleftrightarrow> r \<noteq> [] \<and> num_delim r"

lemma stops_Cons: "stops (c # cs) \<longleftrightarrow> \<not> is_digit c \<and> c \<notin> {46, 69, 101}"
  by (simp add: stops_def num_delim_def)

lemma int_part_extend:
  assumes "drop (length (int_part s)) s \<noteq> []"
  shows "int_part (s @ q) = int_part s"
proof (cases s)
  case (Cons c cs)
  show ?thesis
  proof (cases "c = 48")
    case False
    then have "dropWhile is_digit s \<noteq> []" using assms Cons by (simp add: int_part_def dropWhile_eq_drop)
    then show ?thesis using Cons False takeWhile_extend [of is_digit s q] by (simp add: int_part_def)
  qed (simp add: Cons int_part_def)
qed (use assms in simp)

lemma frac_part_extend:
  assumes "drop (length (frac_part s)) s \<noteq> []" "frac_part s \<noteq> [] \<or> hd s \<noteq> 46"
  shows "frac_part (s @ q) = frac_part s"
proof (cases s)
  case (Cons c cs)
  show ?thesis
  proof (cases "c = 46")
    case True
    then have t: "takeWhile is_digit cs \<noteq> []" using assms Cons by (auto simp: frac_part_def split: if_splits)
    then have "dropWhile is_digit cs \<noteq> []" using assms Cons True by (simp add: frac_part_def dropWhile_eq_drop)
    then show ?thesis using Cons True t takeWhile_extend [of is_digit cs q] by (simp add: frac_part_def)
  qed (simp add: Cons frac_part_def)
qed (use assms in simp)

lemma exp_part_extend:
  assumes "drop (length (exp_part s)) s \<noteq> []" "exp_part s \<noteq> [] \<or> hd s \<notin> {69, 101}"
  shows "exp_part (s @ q) = exp_part s"
proof (cases s)
  case (Cons c cs)
  show ?thesis
  proof (cases "c = 101 \<or> c = 69")
    case True
    define sign where "sign = (case cs of d # _ \<Rightarrow> if d = 43 \<or> d = 45 then [d] else [] | [] \<Rightarrow> [])"
    define ds where "ds = takeWhile is_digit (drop (length sign) cs)"
    have e: "exp_part s = (if ds \<noteq> [] then c # sign @ ds else [])"
      using True Cons by (auto simp: exp_part_def sign_def ds_def Let_def)
    then have d: "ds \<noteq> []" using assms True Cons by (auto split: if_splits)
    then have le: "cs \<noteq> []" and sl: "length sign \<le> length cs" by (auto simp: ds_def sign_def split: list.splits)
    have "drop (length ds) (drop (length sign) cs) \<noteq> []" using assms(1) e d Cons by (simp add: add.commute)
    then have "dropWhile is_digit (drop (length sign) cs) \<noteq> []" by (simp add: ds_def dropWhile_eq_drop)
    then have "takeWhile is_digit (drop (length sign) cs @ q) = ds" by (simp add: ds_def takeWhile_extend)
    moreover have "(case cs @ q of d # _ \<Rightarrow> if d = 43 \<or> d = 45 then [d] else [] | [] \<Rightarrow> []) = sign"
      using le by (cases cs) (simp_all add: sign_def)
    ultimately show ?thesis using True Cons d e sl by (simp add: exp_part_def Let_def)
  qed (simp add: Cons exp_part_def)
qed (use assms in simp)

lemma parse_number_extend:
  assumes p: "parse_number fc s = Some (v, r)" and r: "stops r"
  shows "parse_number fc (s @ q) = Some (v, r @ q)"
proof -
  define neg where "neg = (case s of c # _ \<Rightarrow> c = 45 | [] \<Rightarrow> False)"
  define s1 where "s1 = (if neg then tl s else s)"
  define s2 where "s2 = drop (length (int_part s1)) s1"
  define s3 where "s3 = drop (length (frac_part s2)) s2"
  define s4 where "s4 = drop (length (exp_part s3)) s3"
  note defs = neg_def [symmetric] s1_def [symmetric] s2_def [symmetric] s3_def [symmetric] s4_def [symmetric]
  have rs: "r = s4" and ip: "int_part s1 \<noteq> []"
    using p unfolding parse_number_def Let_def defs by (auto split: if_splits)
  have ne: "s4 \<noteq> []" using r rs by (simp add: stops_def)
  then have ne3: "s3 \<noteq> []" by (auto simp: s4_def)
  then have ne2: "s2 \<noteq> []" by (auto simp: s3_def)
  have hd4: "\<not> is_digit (hd s4) \<and> hd s4 \<notin> {46, 69, 101}" using r rs ne by (cases s4) (simp_all add: stops_Cons)
  have "s1 \<noteq> []" using ip by (auto simp: int_part_def)
  then have s: "s \<noteq> []" by (auto simp: s1_def neg_def split: list.splits)
  have neg': "(case s @ q of c # _ \<Rightarrow> c = 45 | [] \<Rightarrow> False) = neg"
    and s1': "(if neg then tl (s @ q) else s @ q) = s1 @ q"
    using s by (auto simp: neg_def s1_def split: list.split)
  have i: "int_part (s1 @ q) = int_part s1" using ne2 by (intro int_part_extend) (simp add: s2_def)
  have l1: "drop (length (int_part s1)) (s1 @ q) = s2 @ q" using ne2 by (simp add: s2_def)
  have exp0: "exp_part s3 \<noteq> [] \<or> hd s3 \<notin> {69, 101}"
    using hd4 by (cases "exp_part s3 = []") (simp_all add: s4_def)
  have e: "exp_part (s3 @ q) = exp_part s3" using ne exp0 by (intro exp_part_extend) (simp_all add: s4_def)
  have "frac_part s2 \<noteq> [] \<or> hd s2 \<noteq> 46"
  proof (rule ccontr)
    assume "\<not> ?thesis"
    then have f: "frac_part s2 = []" "hd s2 = 46" by auto
    then have "s3 = s2" by (simp add: s3_def)
    then have "exp_part s3 = []" using f ne2 by (cases s2) (simp_all add: exp_part_def)
    then show False using hd4 f \<open>s3 = s2\<close> by (simp add: s4_def)
  qed
  then have f: "frac_part (s2 @ q) = frac_part s2" using ne3 by (intro frac_part_extend) (simp_all add: s3_def)
  have l2: "drop (length (frac_part s2)) (s2 @ q) = s3 @ q" using ne3 by (simp add: s3_def)
  have l3: "drop (length (exp_part s3)) (s3 @ q) = s4 @ q" using ne by (simp add: s4_def)
  show ?thesis
    using p unfolding parse_number_def Let_def neg' s1' i l1 f l2 e l3 unfolding defs rs by (auto split: if_splits)
qed

section \<open>Values\<close>

lemma parse_number_head: "parse_number fc s = Some (v, r) \<Longrightarrow> is_digit (hd s) \<or> hd s = 45"
  by (cases s) (auto simp: parse_number_def Let_def int_part_def is_digit_def split: if_splits)

lemma stops_skip_ws: "skip_ws r = c # cs \<Longrightarrow> c \<in> {93, 44, 125} \<Longrightarrow> stops r"
  by (cases r) (auto simp: skip_ws_def stops_Cons is_digit_def json_ws_def split: if_splits)

lemma take_lit_extend: "take (length l) s = l \<Longrightarrow> take (length l) (s @ q) = l \<and> drop (length l) (s @ q) = drop (length l) s @ q"
  by (metis append_eq_conv_conj append_take_drop_id append.assoc)

lemma parse_value_Nil: "parse_value fc n [] = None"
  by (cases n) simp_all

lemma parse_elems_Nil: "parse_elems fc n [] = None"
  by (cases n) (simp_all add: parse_value_Nil)

lemma parse_extend_all:
  "(\<forall>s v r. parse_value fc n s = Some (v, r) \<longrightarrow> hd s \<in> {34, 123, 91} \<or> stops r \<longrightarrow>
      parse_value fc n (s @ q) = Some (v, r @ q)) \<and>
   (\<forall>s vs r. parse_elems fc n s = Some (vs, r) \<longrightarrow> parse_elems fc n (s @ q) = Some (vs, r @ q)) \<and>
   (\<forall>s kvs r. parse_members fc n s = Some (kvs, r) \<longrightarrow> parse_members fc n (s @ q) = Some (kvs, r @ q))"
proof (induction n)
  case 0
  then show ?case by simp
next
  case (Suc n)
  have v: "parse_value fc n (s @ q) = Some (x, r @ q)" if "parse_value fc n s = Some (x, r)" "stops r" for s x r
    using Suc that by blast
  have e: "parse_elems fc n (s @ q) = Some (xs, r @ q)" if "parse_elems fc n s = Some (xs, r)" for s xs r
    using Suc that by blast
  have m: "parse_members fc n (s @ q) = Some (kvs, r @ q)" if "parse_members fc n s = Some (kvs, r)" for s kvs r
    using Suc that by blast
  have "parse_value fc (Suc n) (s @ q) = Some (x, r @ q)"
    if p: "parse_value fc (Suc n) s = Some (x, r)" and h: "hd s \<in> {34, 123, 91} \<or> stops r" for s x r
  proof (cases s)
    case Nil
    with p show ?thesis by simp
  next
    case (Cons c cs)
    consider "c = 34" | "c = 123" | "c = 91" | "c \<notin> {34, 123, 91}" by blast
    then show ?thesis
    proof cases
      case 1
      with p Cons show ?thesis by (auto dest: parse_chars_extend)
    next
      case 2
      with p Cons obtain d ds where ds: "skip_ws cs = d # ds" by (auto split: list.splits)
      with p Cons 2 show ?thesis
        by (auto simp: skip_ws_extend [OF ds] split: if_splits dest: m)
    next
      case 3
      with p Cons obtain d ds where ds: "skip_ws cs = d # ds" by (auto split: list.splits)
      with p Cons 3 show ?thesis
        by (auto simp: skip_ws_extend [OF ds] split: if_splits dest: e)
    next
      case 4
      then have st: "stops r" using h Cons by simp
      show ?thesis
      proof (cases "parse_number fc s = Some (x, r)")
        case True
        then have "is_digit c \<or> c = 45" using parse_number_head Cons by fastforce
        then show ?thesis using 4 Cons parse_number_extend [OF True st] by (auto simp: is_digit_def)
      next
        case False
        with p 4 Cons have "take 4 s = lit ''null'' \<and> x = JNull \<and> r = drop 4 s \<or>
            take 4 s = lit ''true'' \<and> x = JBool True \<and> r = drop 4 s \<or>
            take 5 s = lit ''false'' \<and> x = JBool False \<and> r = drop 5 s"
          by (simp del: lit_Cons split: if_splits)
        then show ?thesis
          using 4 Cons take_lit_extend [of "lit ''null''" s q] take_lit_extend [of "lit ''true''" s q]
            take_lit_extend [of "lit ''false''" s q]
          by auto
      qed
    qed
  qed
  moreover have "parse_elems fc (Suc n) (s @ q) = Some (xs, r @ q)" if p: "parse_elems fc (Suc n) s = Some (xs, r)" for s xs r
  proof -
    from p obtain x r1 where v1: "parse_value fc n s = Some (x, r1)" by (auto split: option.splits)
    with p obtain c cs where c: "skip_ws r1 = c # cs" by (auto split: list.splits)
    with p v1 have "c \<in> {93, 44, 125}" by (auto split: if_splits)
    note v2 = v [OF v1 stops_skip_ws [OF c this]]
    show ?thesis
    proof (cases "c = 44")
      case True
      with p v1 c obtain ys where ys: "parse_elems fc n (skip_ws cs) = Some (ys, r)" "xs = x # ys" by auto
      then have "skip_ws cs \<noteq> []" by (auto simp: parse_elems_Nil)
      then obtain b bs where b: "skip_ws cs = b # bs" by (cases "skip_ws cs") auto
      show ?thesis using e [OF ys(1)] ys(2) c True b v2
        by (simp add: skip_ws_extend [OF c] skip_ws_extend [OF b])
    next
      case False
      with p v1 c show ?thesis by (auto simp: v2 skip_ws_extend [OF c] split: if_splits)
    qed
  qed
  moreover have "parse_members fc (Suc n) (s @ q) = Some (kvs, r @ q)" if p: "parse_members fc (Suc n) s = Some (kvs, r)" for s kvs r
  proof -
    from p obtain cs where s: "s = 34 # cs" by (auto split: list.splits if_splits)
    with p obtain k r1 where k: "parse_chars cs = Some (k, r1)" by (auto split: option.splits)
    with p s obtain ds where ds: "skip_ws r1 = 58 # ds" by (auto split: list.splits if_splits)
    with p s k obtain x r2 where x: "parse_value fc n (skip_ws ds) = Some (x, r2)" by (auto split: option.splits)
    with p s k ds obtain b es where es: "skip_ws r2 = b # es" by (auto split: list.splits)
    with p s k ds x have "b \<in> {93, 44, 125}" by (auto split: if_splits)
    note x2 = v [OF x stops_skip_ws [OF es this]]
    have "skip_ws ds \<noteq> []" using x by (cases n) auto
    then obtain d' ds' where d: "skip_ws ds = d' # ds'" by (cases "skip_ws ds") auto
    note ext = parse_chars_extend [OF k, of q] skip_ws_extend [OF ds, of q] skip_ws_extend [OF d, of q] skip_ws_extend [OF es, of q]
    show ?thesis
    proof (cases "b = 44")
      case True
      with p s k ds x es obtain ys where ys: "parse_members fc n (skip_ws es) = Some (ys, r)" "kvs = (k, x) # ys" by auto
      then have "skip_ws es \<noteq> []" by (cases n) auto
      then obtain b' bs where b': "skip_ws es = b' # bs" by (cases "skip_ws es") auto
      show ?thesis using m [OF ys(1)] ys(2) s True x2 d b' by (simp add: ext skip_ws_extend [OF b'])
    next
      case False
      with p s k ds x es have "b = 125" "kvs = [(k, x)]" "r = es" by (auto split: if_splits)
      then show ?thesis using s x2 d by (simp add: ext)
    qed
  qed
  ultimately show ?case by blast
qed

lemma parse_value_extend:
  "parse_value fc n s = Some (v, r) \<Longrightarrow> hd s \<in> {34, 123, 91} \<Longrightarrow> parse_value fc n (s @ q) = Some (v, r @ q)"
  using parse_extend_all by blast

text \<open>A dictionary that was written in part is no document.\<close>

theorem loads_torn:
  assumes wf: "wf_json fc (JObj d)" and s: "p @ q = dumps fc opts (JObj d)" "q \<noteq> []"
  shows "loads fc p = None"
proof (cases p)
  case Nil
  then show ?thesis by (simp add: loads_def skip_ws_def numeral_eq_Suc)
next
  case (Cons c cs)
  then have c: "c = 123" using s(1) by simp
  let ?N = "2 * length (p @ q) + 2"
  have full: "parse_value fc ?N (p @ q) = Some (JObj d, [])"
    using parse_value_dumps [OF wf, of "[]" opts ?N] unfolding s(1) by (simp add: num_delim_def)
  have sw: "skip_ws p = p" using Cons c by (simp add: skip_ws_def json_ws_def)
  have fuel: "parse_value fc ?N p = parse_value fc (2 * length p + 2) p"
    using parse_fuel [of p ?N fc] by (simp only: sw length_append) simp
  show ?thesis
  proof (rule ccontr)
    assume "loads fc p \<noteq> None"
    then obtain v r where v: "parse_value fc (2 * length p + 2) p = Some (v, r)" "skip_ws r = []"
      by (auto simp only: loads_def sw split: option.splits if_splits)
    have "parse_value fc ?N (p @ q) = Some (v, r @ q)"
      using v(1) fuel Cons c by (intro parse_value_extend) (simp_all only: list.sel insert_iff simp_thms)
    with full s(2) show False by simp
  qed
qed

end
