(* ===== verification/Engine_Output_Store.thy ===== *)
theory Engine_Output_Store
  imports Json_Prefix Text_Lines Sha256 "HOL-Library.AList"
begin

text \<open>
  \<open>harness_runtime/lifecycle/engine_output_store.py\<close>: the journals that hold the outputs of the steps of a run.
  A journal is a file of JSON lines; the linear journal of a run is \<open><digest>.jsonl\<close>, the journals and markers of a
  fan-out lie in \<open><digest>.branches/\<close>. The state is the files of the journal directory in the order the file
  system lists them, a file its bytes; a directory exists with its files. Which reads fail with \<open>OSError\<close> and how a
  float is spelled are arguments. Writes go through \<open>append_path\<close>; \<open>torn_append\<close> is what a crash leaves of one.
  Outputs are JSON values: a value \<open>json.dumps\<close> refuses is not modelled.
\<close>

type_synonym output_path = "pystr option \<times> pystr"
type_synonym output_files = "(output_path \<times> bytes) list"
type_synonym dict = "(pystr \<times> json) list"

record output_env =
  oue_floats :: float_codec
  oue_unreadable :: "output_path \<Rightarrow> bool"

section \<open>Names\<close>

definition ENGINE_OUTPUT_SUBDIR :: pystr where
  "ENGINE_OUTPUT_SUBDIR = lit ''engine-output''"

definition ENGINE_OUTPUT_BRANCHES_SUFFIX :: pystr where
  "ENGINE_OUTPUT_BRANCHES_SUFFIX = lit ''.branches''"

definition engine_output_dir_for :: "pystr \<Rightarrow> pystr" where
  "engine_output_dir_for state_ledger_dir = state_ledger_dir @ lit ''/'' @ ENGINE_OUTPUT_SUBDIR"

text \<open>\<open>None\<close>: the key has no UTF-8 form.\<close>

definition run_digest :: "pystr \<Rightarrow> pystr option" where
  "run_digest run_key = map_option sha256_hexdigest (utf8_encode run_key)"

definition journal_file :: "pystr \<Rightarrow> output_path option" where
  "journal_file run_key = map_option (\<lambda>d. (None, d @ lit ''.jsonl'')) (run_digest run_key)"

definition branches_dir :: "pystr \<Rightarrow> pystr option" where
  "branches_dir run_key = map_option (\<lambda>d. d @ ENGINE_OUTPUT_BRANCHES_SUFFIX) (run_digest run_key)"

definition in_branches :: "pystr \<Rightarrow> pystr \<Rightarrow> output_path option" where
  "in_branches run_key name = map_option (\<lambda>d. (Some d, name)) (branches_dir run_key)"

definition branch_file :: "pystr \<Rightarrow> int \<Rightarrow> output_path option" where
  "branch_file run_key i = in_branches run_key (lit ''branch-'' @ dec_int i @ lit ''.jsonl'')"

definition orchestrator_file :: "pystr \<Rightarrow> output_path option" where
  "orchestrator_file run_key = in_branches run_key (lit ''orchestrator.jsonl'')"

definition cardinality_file :: "pystr \<Rightarrow> output_path option" where
  "cardinality_file run_key = in_branches run_key (lit ''cardinality.jsonl'')"

definition synthesis_file :: "pystr \<Rightarrow> output_path option" where
  "synthesis_file run_key = in_branches run_key (lit ''synthesis.jsonl'')"

definition reconciler_fanout_resume_finalized_file :: "pystr \<Rightarrow> output_path option" where
  "reconciler_fanout_resume_finalized_file run_key =
     in_branches run_key (lit ''reconciler-fanout-resume-finalized.marker'')"

definition branch_dispatched_file :: "pystr \<Rightarrow> int \<Rightarrow> output_path option" where
  "branch_dispatched_file run_key i = in_branches run_key (lit ''branch-'' @ dec_int i @ lit ''.dispatched'')"

definition dispatch_instrumented_file :: "pystr \<Rightarrow> output_path option" where
  "dispatch_instrumented_file run_key = in_branches run_key (lit ''dispatch-instrumented.marker'')"

definition orchestrator_dispatched_file :: "pystr \<Rightarrow> output_path option" where
  "orchestrator_dispatched_file run_key = in_branches run_key (lit ''orchestrator.dispatched'')"

text \<open>\<open>_branch_index_from_name\<close> and \<open>_dispatched_index_from_name\<close>, which differ in the suffix.\<close>

definition index_from_name :: "pystr \<Rightarrow> pystr \<Rightarrow> int option" where
  "index_from_name suffix name =
     (if \<not> (py_startswith name (lit ''branch-'') \<and> py_endswith name suffix) then None
      else py_int (drop (length (lit ''branch-'')) (take (length name - length suffix) name)))"

definition branch_index_from_name :: "pystr \<Rightarrow> int option" where
  "branch_index_from_name = index_from_name (lit ''.jsonl'')"

definition dispatched_index_from_name :: "pystr \<Rightarrow> int option" where
  "dispatched_index_from_name = index_from_name (lit ''.dispatched'')"

text \<open>\<open>glob ("branch-*" + suffix)\<close> in a directory, each name with the index it stands for.\<close>

definition glob_branches :: "pystr \<Rightarrow> (pystr \<Rightarrow> int option) \<Rightarrow> pystr \<Rightarrow> output_files \<Rightarrow> (int \<times> output_path) list" where
  "glob_branches suffix index dir files =
     List.map_filter (\<lambda>((d, name), _).
         if d = Some dir \<and> py_startswith name (lit ''branch-'') \<and> py_endswith name suffix
            \<and> length (lit ''branch-'') + length suffix \<le> length name
         then map_option (\<lambda>i. (i, (d, name))) (index name) else None) files"

section \<open>Writing\<close>

definition exists_path :: "output_files \<Rightarrow> output_path \<Rightarrow> bool" where
  "exists_path files path \<longleftrightarrow> map_of files path \<noteq> None"

definition contents :: "output_files \<Rightarrow> output_path \<Rightarrow> bytes" where
  "contents files path = (case map_of files path of None \<Rightarrow> [] | Some bs \<Rightarrow> bs)"

text \<open>\<open>_last_byte_is_not_newline\<close>: a read that fails counts as a torn line; \<open>seek (-1)\<close> fails on an empty file.\<close>

definition last_byte_is_not_newline :: "output_env \<Rightarrow> output_files \<Rightarrow> output_path \<Rightarrow> bool" where
  "last_byte_is_not_newline env files path \<longleftrightarrow>
     oue_unreadable env path \<or> contents files path = [] \<or> last (contents files path) \<noteq> 10"

definition needs_leading_newline :: "output_env \<Rightarrow> output_files \<Rightarrow> output_path \<Rightarrow> bool" where
  "needs_leading_newline env files path \<longleftrightarrow> exists_path files path \<and> last_byte_is_not_newline env files path"

definition appended_text :: "output_env \<Rightarrow> output_files \<Rightarrow> output_path \<Rightarrow> pystr \<Rightarrow> pystr" where
  "appended_text env files path line = (if needs_leading_newline env files path then [10] else []) @ line @ [10]"

text \<open>\<open>_append_path\<close>. Opening creates the file. The flag tells whether the text could be encoded, which
  \<open>json.dumps\<close> output always can.\<close>

definition append_path :: "output_env \<Rightarrow> output_path \<Rightarrow> pystr \<Rightarrow> output_files \<Rightarrow> output_files \<times> bool" where
  "append_path env path line files =
     (case utf8_encode (appended_text env files path line) of
        None \<Rightarrow> (AList.update path (contents files path) files, False)
      | Some bs \<Rightarrow> (AList.update path (contents files path @ bs) files, True))"

text \<open>What a crash leaves of an append: the first bytes of it.\<close>

definition torn_append :: "output_env \<Rightarrow> output_path \<Rightarrow> nat \<Rightarrow> pystr \<Rightarrow> output_files \<Rightarrow> output_files" where
  "torn_append env path k line files =
     (case utf8_encode (appended_text env files path line) of
        None \<Rightarrow> AList.update path (contents files path) files
      | Some bs \<Rightarrow> AList.update path (contents files path @ take k bs) files)"

definition spaced_ascii :: dumps_options where
  "spaced_ascii = \<lparr>do_spaced = True, do_ensure_ascii = True\<rparr>"

text \<open>\<open>json.dumps (record, sort_keys=True)\<close>.\<close>

definition record_line :: "output_env \<Rightarrow> dict \<Rightarrow> pystr" where
  "record_line env d = dumps (oue_floats env) spaced_ascii (sort_keys (JObj d))"

definition append_record :: "output_env \<Rightarrow> output_path option \<Rightarrow> dict \<Rightarrow> output_files \<Rightarrow> output_files \<times> bool" where
  "append_record env path d files =
     (case path of None \<Rightarrow> (files, False) | Some p \<Rightarrow> append_path env p (record_line env d) files)"

definition step_record :: "int \<Rightarrow> pystr \<Rightarrow> dict \<Rightarrow> dict" where
  "step_record step_index step_id outp =
     [(lit ''step_index'', JInt step_index), (lit ''step_id'', JStr step_id), (lit ''output'', JObj outp)]"

definition record_output :: "output_env \<Rightarrow> pystr \<Rightarrow> int \<Rightarrow> pystr \<Rightarrow> dict \<Rightarrow> output_files \<Rightarrow> output_files \<times> bool" where
  "record_output env run_key step_index step_id outp =
     append_record env (journal_file run_key) (step_record step_index step_id outp)"

fun opt_dict :: "dict option \<Rightarrow> json" where
  "opt_dict None = JNull"
| "opt_dict (Some d) = JObj d"

definition branch_record :: "pystr \<Rightarrow> pystr \<Rightarrow> dict option \<Rightarrow> dict" where
  "branch_record step_id terminal_status outp =
     [(lit ''step_id'', JStr step_id), (lit ''terminal_status'', JStr terminal_status), (lit ''output'', opt_dict outp)]"

definition record_branch ::
  "output_env \<Rightarrow> pystr \<Rightarrow> int \<Rightarrow> pystr \<Rightarrow> pystr \<Rightarrow> dict option \<Rightarrow> output_files \<Rightarrow> output_files \<times> bool" where
  "record_branch env run_key branch_index step_id terminal_status outp =
     append_record env (branch_file run_key branch_index) (branch_record step_id terminal_status outp)"

definition orchestrator_record :: "pystr \<Rightarrow> dict \<Rightarrow> dict" where
  "orchestrator_record step_id outp = [(lit ''step_id'', JStr step_id), (lit ''output'', JObj outp)]"

definition record_orchestrator :: "output_env \<Rightarrow> pystr \<Rightarrow> pystr \<Rightarrow> dict \<Rightarrow> output_files \<Rightarrow> output_files \<times> bool" where
  "record_orchestrator env run_key step_id outp =
     append_record env (orchestrator_file run_key) (orchestrator_record step_id outp)"

definition record_fanout_cardinality :: "output_env \<Rightarrow> pystr \<Rightarrow> int \<Rightarrow> output_files \<Rightarrow> output_files \<times> bool" where
  "record_fanout_cardinality env run_key branch_count =
     append_record env (cardinality_file run_key) [(lit ''branch_count'', JInt branch_count)]"

text \<open>The fields of a dispatch marker that are \<open>None\<close> are left out; the branch marker has no use for
  \<open>proceed_unstamped\<close>.\<close>

definition opt_member :: "string \<Rightarrow> ('a \<Rightarrow> json) \<Rightarrow> 'a option \<Rightarrow> dict" where
  "opt_member k f v = (case v of None \<Rightarrow> [] | Some x \<Rightarrow> [(lit k, f x)])"

definition dispatched_record :: "pystr \<Rightarrow> pystr \<Rightarrow> bool option \<Rightarrow> pystr option \<Rightarrow> dict" where
  "dispatched_record step_id step_kind child_recoverable child_engine_class =
     [(lit ''step_id'', JStr step_id), (lit ''step_kind'', JStr step_kind)]
     @ opt_member ''child_recoverable'' JBool child_recoverable
     @ opt_member ''child_engine_class'' JStr child_engine_class"

definition record_branch_dispatched ::
  "output_env \<Rightarrow> pystr \<Rightarrow> int \<Rightarrow> pystr \<Rightarrow> pystr \<Rightarrow> bool option \<Rightarrow> pystr option \<Rightarrow> bool option \<Rightarrow>
   output_files \<Rightarrow> output_files \<times> bool" where
  "record_branch_dispatched env run_key branch_index step_id step_kind child_recoverable child_engine_class
     proceed_unstamped =
     append_record env (branch_dispatched_file run_key branch_index)
       (dispatched_record step_id step_kind child_recoverable child_engine_class)"

definition record_dispatch_instrumented :: "output_env \<Rightarrow> pystr \<Rightarrow> output_files \<Rightarrow> output_files \<times> bool" where
  "record_dispatch_instrumented env run_key =
     append_record env (dispatch_instrumented_file run_key) [(lit ''instrumented'', JBool True)]"

definition record_orchestrator_dispatched ::
  "output_env \<Rightarrow> pystr \<Rightarrow> pystr \<Rightarrow> pystr \<Rightarrow> bool option \<Rightarrow> pystr option \<Rightarrow> bool option \<Rightarrow>
   output_files \<Rightarrow> output_files \<times> bool" where
  "record_orchestrator_dispatched env run_key step_id step_kind child_recoverable child_engine_class
     proceed_unstamped =
     append_record env (orchestrator_dispatched_file run_key)
       (dispatched_record step_id step_kind child_recoverable child_engine_class
        @ opt_member ''proceed_unstamped'' JBool proceed_unstamped)"

definition synthesis_record :: "pystr \<Rightarrow> dict \<Rightarrow> pystr \<Rightarrow> dict" where
  "synthesis_record step_id outp self_hash =
     [(lit ''step_id'', JStr step_id), (lit ''output'', JObj outp), (lit ''self_hash'', JStr self_hash)]"

definition record_synthesis :: "output_env \<Rightarrow> pystr \<Rightarrow> pystr \<Rightarrow> dict \<Rightarrow> pystr \<Rightarrow> output_files \<Rightarrow> output_files \<times> bool" where
  "record_synthesis env run_key step_id outp self_hash =
     append_record env (synthesis_file run_key) (synthesis_record step_id outp self_hash)"

definition record_reconciler_fanout_resume_finalized ::
  "output_env \<Rightarrow> pystr \<Rightarrow> output_files \<Rightarrow> output_files \<times> bool" where
  "record_reconciler_fanout_resume_finalized env run_key =
     append_record env (reconciler_fanout_resume_finalized_file run_key)
       [(lit ''reconciler_fanout_resume_finalized'', JBool True)]"

section \<open>Reading\<close>

text \<open>\<open>path.read_text (encoding="utf-8")\<close>; \<open>None\<close> is \<open>OSError\<close> or \<open>UnicodeDecodeError\<close>.\<close>

definition read_journal :: "output_env \<Rightarrow> output_files \<Rightarrow> output_path \<Rightarrow> pystr option" where
  "read_journal env files path =
     (case map_of files path of
        None \<Rightarrow> None
      | Some bs \<Rightarrow> if oue_unreadable env path then None else read_text bs)"

definition journal_lines :: "pystr \<Rightarrow> pystr list" where
  "journal_lines s = filter (\<lambda>line. \<not> py_blank line) (splitlines s)"

fun as_dict :: "json \<Rightarrow> dict option" where
  "as_dict (JObj d) = Some d"
| "as_dict _ = None"

definition load_dict :: "output_env \<Rightarrow> pystr \<Rightarrow> dict option" where
  "load_dict env line = Option.bind (loads (oue_floats env) line) as_dict"

definition str_member :: "dict \<Rightarrow> string \<Rightarrow> pystr option" where
  "str_member d k = (case map_of d (lit k) of Some (JStr s) \<Rightarrow> Some s | _ \<Rightarrow> None)"

definition dict_member :: "dict \<Rightarrow> string \<Rightarrow> dict option" where
  "dict_member d k = Option.bind (map_of d (lit k)) as_dict"

text \<open>What each reader takes from a dictionary, \<open>None\<close> when it skips the line. The first is
  \<open>_parse_record\<close>: a \<open>bool\<close> is no step index.\<close>

definition accept_step :: "dict \<Rightarrow> (int \<times> pystr \<times> dict) option" where
  "accept_step d =
     (case map_of d (lit ''step_index'') of
        Some (JInt i) \<Rightarrow>
          Option.bind (str_member d ''step_id'') (\<lambda>s. map_option (\<lambda>out. (i, s, out)) (dict_member d ''output''))
      | _ \<Rightarrow> None)"

text \<open>\<open>_parse_branch_record\<close>.\<close>

definition accept_output :: "dict \<Rightarrow> (pystr \<times> dict) option" where
  "accept_output d =
     Option.bind (str_member d ''step_id'') (\<lambda>s. map_option (\<lambda>out. (s, out)) (dict_member d ''output''))"

text \<open>The loop body of \<open>_read_last_branch_disposition\<close>.\<close>

definition accept_disposition :: "dict \<Rightarrow> (pystr \<times> pystr \<times> dict option) option" where
  "accept_disposition d =
     (let status = (case map_of d (lit ''terminal_status'') of None \<Rightarrow> JStr (lit ''completed'') | Some v \<Rightarrow> v);
          outp = (case map_of d (lit ''output'') of None \<Rightarrow> JNull | Some v \<Rightarrow> v)
      in case (map_of d (lit ''step_id''), status) of
           (Some (JStr s), JStr t) \<Rightarrow>
             if t \<notin> {lit ''completed'', lit ''timed_out'', lit ''scoped_aborted''} then None
             else if t = lit ''scoped_aborted'' \<and> outp \<noteq> JNull then None
             else (case outp of JNull \<Rightarrow> Some (s, t, None) | JObj out \<Rightarrow> Some (s, t, Some out) | _ \<Rightarrow> None)
         | _ \<Rightarrow> None)"

text \<open>The loop body of \<open>_read_last_synthesis_record\<close>.\<close>

definition accept_synthesis :: "dict \<Rightarrow> (pystr \<times> dict \<times> pystr) option" where
  "accept_synthesis d =
     Option.bind (str_member d ''step_id'') (\<lambda>s.
     Option.bind (dict_member d ''output'') (\<lambda>out.
     map_option (\<lambda>h. (s, out, h)) (str_member d ''self_hash'')))"

text \<open>The loop body of \<open>read_fanout_cardinality\<close>: a \<open>bool\<close> is an \<open>int\<close>.\<close>

definition accept_cardinality :: "dict \<Rightarrow> int option" where
  "accept_cardinality d =
     (case map_of d (lit ''branch_count'') of
        Some (JInt i) \<Rightarrow> Some i | Some (JBool b) \<Rightarrow> Some (if b then 1 else 0) | _ \<Rightarrow> None)"

text \<open>The loop every reader runs over the lines of a journal.\<close>

fun scan_lines :: "(pystr \<Rightarrow> 'r option) \<Rightarrow> ('r \<Rightarrow> 'a \<Rightarrow> 'a) \<Rightarrow> pystr list \<Rightarrow> 'a \<Rightarrow> 'a" where
  "scan_lines parse use [] acc = acc"
| "scan_lines parse use (line # lines) acc =
     scan_lines parse use lines (if py_blank line then acc else case parse line of None \<Rightarrow> acc | Some r \<Rightarrow> use r acc)"

definition last_record :: "output_env \<Rightarrow> (dict \<Rightarrow> 'r option) \<Rightarrow> output_files \<Rightarrow> output_path \<Rightarrow> 'r option" where
  "last_record env accept files path =
     (case read_journal env files path of
        None \<Rightarrow> None
      | Some s \<Rightarrow> scan_lines (\<lambda>line. Option.bind (load_dict env line) accept) (\<lambda>r _. Some r) (splitlines s) None)"

text \<open>\<open>read_outputs\<close>; the outer \<open>None\<close> is a key without UTF-8 form.\<close>

definition read_outputs :: "output_env \<Rightarrow> pystr \<Rightarrow> output_files \<Rightarrow> (int \<rightharpoonup> pystr \<times> dict) option" where
  "read_outputs env run_key files =
     map_option (\<lambda>path.
         case read_journal env files path of
           None \<Rightarrow> Map.empty
         | Some s \<Rightarrow>
             scan_lines (\<lambda>line. Option.bind (load_dict env line) accept_step) (\<lambda>(i, sid, out) m. m(i \<mapsto> (sid, out)))
               (splitlines s) Map.empty)
       (journal_file run_key)"

definition journal_exists :: "pystr \<Rightarrow> output_files \<Rightarrow> bool option" where
  "journal_exists run_key files = map_option (exists_path files) (journal_file run_key)"

definition read_branch_records ::
  "output_env \<Rightarrow> pystr \<Rightarrow> output_files \<Rightarrow> (int \<rightharpoonup> pystr \<times> pystr \<times> dict option) option" where
  "read_branch_records env run_key files =
     map_option (\<lambda>dir.
         fold (\<lambda>(i, path) m. case last_record env accept_disposition files path of None \<Rightarrow> m | Some r \<Rightarrow> m(i \<mapsto> r))
           (glob_branches (lit ''.jsonl'') branch_index_from_name dir files) Map.empty)
       (branches_dir run_key)"

definition present_branch_indexes :: "pystr \<Rightarrow> output_files \<Rightarrow> int set option" where
  "present_branch_indexes run_key files =
     map_option (\<lambda>dir. set (map fst (glob_branches (lit ''.jsonl'') branch_index_from_name dir files)))
       (branches_dir run_key)"

definition read_orchestrator_output :: "output_env \<Rightarrow> pystr \<Rightarrow> output_files \<Rightarrow> (pystr \<times> dict) option option" where
  "read_orchestrator_output env run_key files =
     map_option (last_record env accept_output files) (orchestrator_file run_key)"

definition orchestrator_present :: "pystr \<Rightarrow> output_files \<Rightarrow> bool option" where
  "orchestrator_present run_key files = map_option (exists_path files) (orchestrator_file run_key)"

definition fanout_cardinality_present :: "pystr \<Rightarrow> output_files \<Rightarrow> bool option" where
  "fanout_cardinality_present run_key files = map_option (exists_path files) (cardinality_file run_key)"

definition read_fanout_cardinality :: "output_env \<Rightarrow> pystr \<Rightarrow> output_files \<Rightarrow> int option option" where
  "read_fanout_cardinality env run_key files =
     map_option (last_record env accept_cardinality files) (cardinality_file run_key)"

text \<open>A marker is read from its last line only: \<open>json.loads (text.splitlines ()[-1]).get (...)\<close>.\<close>

definition marker_record :: "output_env \<Rightarrow> output_files \<Rightarrow> output_path \<Rightarrow> dict option" where
  "marker_record env files path =
     Option.bind (read_journal env files path) (\<lambda>s.
       if splitlines s = [] then None else load_dict env (last (splitlines s)))"

definition marker_str :: "output_env \<Rightarrow> string \<Rightarrow> output_files \<Rightarrow> output_path \<Rightarrow> pystr option" where
  "marker_str env k files path = Option.bind (marker_record env files path) (\<lambda>d. str_member d k)"

definition marker_true :: "output_env \<Rightarrow> string \<Rightarrow> output_files \<Rightarrow> output_path \<Rightarrow> bool" where
  "marker_true env k files path \<longleftrightarrow>
     (case marker_record env files path of None \<Rightarrow> False | Some d \<Rightarrow> map_of d (lit k) = Some (JBool True))"

definition dispatched_markers :: "pystr \<Rightarrow> output_files \<Rightarrow> (int \<times> output_path) list option" where
  "dispatched_markers run_key files =
     map_option (\<lambda>dir. glob_branches (lit ''.dispatched'') dispatched_index_from_name dir files) (branches_dir run_key)"

definition subagent_child_recoverable_indexes :: "output_env \<Rightarrow> pystr \<Rightarrow> output_files \<Rightarrow> int set option" where
  "subagent_child_recoverable_indexes env run_key files =
     map_option (\<lambda>ms. set (map fst (filter (\<lambda>(i, path). marker_true env ''child_recoverable'' files path) ms)))
       (dispatched_markers run_key files)"

definition present_dispatched_indexes :: "pystr \<Rightarrow> output_files \<Rightarrow> int set option" where
  "present_dispatched_indexes run_key files = map_option (\<lambda>ms. set (map fst ms)) (dispatched_markers run_key files)"

definition dispatched_strs :: "output_env \<Rightarrow> string \<Rightarrow> pystr \<Rightarrow> output_files \<Rightarrow> (int \<rightharpoonup> pystr option) option" where
  "dispatched_strs env k run_key files =
     map_option (\<lambda>ms. fold (\<lambda>(i, path) m. m(i \<mapsto> marker_str env k files path)) ms Map.empty)
       (dispatched_markers run_key files)"

definition dispatched_branch_kinds :: "output_env \<Rightarrow> pystr \<Rightarrow> output_files \<Rightarrow> (int \<rightharpoonup> pystr option) option" where
  "dispatched_branch_kinds env = dispatched_strs env ''step_kind''"

definition dispatched_branch_step_ids :: "output_env \<Rightarrow> pystr \<Rightarrow> output_files \<Rightarrow> (int \<rightharpoonup> pystr option) option" where
  "dispatched_branch_step_ids env = dispatched_strs env ''step_id''"

definition dispatched_branch_child_engine_classes ::
  "output_env \<Rightarrow> pystr \<Rightarrow> output_files \<Rightarrow> (int \<rightharpoonup> pystr option) option" where
  "dispatched_branch_child_engine_classes env = dispatched_strs env ''child_engine_class''"

definition dispatch_instrumented :: "pystr \<Rightarrow> output_files \<Rightarrow> bool option" where
  "dispatch_instrumented run_key files = map_option (exists_path files) (dispatch_instrumented_file run_key)"

definition orchestrator_dispatched :: "pystr \<Rightarrow> output_files \<Rightarrow> bool option" where
  "orchestrator_dispatched run_key files = map_option (exists_path files) (orchestrator_dispatched_file run_key)"

definition orchestrator_dispatched_kind :: "output_env \<Rightarrow> pystr \<Rightarrow> output_files \<Rightarrow> pystr option option" where
  "orchestrator_dispatched_kind env run_key files =
     map_option (marker_str env ''step_kind'' files) (orchestrator_dispatched_file run_key)"

definition orchestrator_dispatched_step_id :: "output_env \<Rightarrow> pystr \<Rightarrow> output_files \<Rightarrow> pystr option option" where
  "orchestrator_dispatched_step_id env run_key files =
     map_option (marker_str env ''step_id'' files) (orchestrator_dispatched_file run_key)"

definition orchestrator_dispatched_child_engine_class ::
  "output_env \<Rightarrow> pystr \<Rightarrow> output_files \<Rightarrow> pystr option option" where
  "orchestrator_dispatched_child_engine_class env run_key files =
     map_option (marker_str env ''child_engine_class'' files) (orchestrator_dispatched_file run_key)"

definition orchestrator_dispatched_proceed_unstamped :: "output_env \<Rightarrow> pystr \<Rightarrow> output_files \<Rightarrow> bool option" where
  "orchestrator_dispatched_proceed_unstamped env run_key files =
     map_option (marker_true env ''proceed_unstamped'' files) (orchestrator_dispatched_file run_key)"

definition orchestrator_subagent_child_recoverable :: "output_env \<Rightarrow> pystr \<Rightarrow> output_files \<Rightarrow> bool option" where
  "orchestrator_subagent_child_recoverable env run_key files =
     map_option (marker_true env ''child_recoverable'' files) (orchestrator_dispatched_file run_key)"

definition read_synthesis :: "output_env \<Rightarrow> pystr \<Rightarrow> output_files \<Rightarrow> (pystr \<times> dict \<times> pystr) option option" where
  "read_synthesis env run_key files =
     map_option (last_record env accept_synthesis files) (synthesis_file run_key)"

definition synthesis_present :: "pystr \<Rightarrow> output_files \<Rightarrow> bool option" where
  "synthesis_present run_key files = map_option (exists_path files) (synthesis_file run_key)"

definition reconciler_fanout_resume_finalized :: "pystr \<Rightarrow> output_files \<Rightarrow> bool option" where
  "reconciler_fanout_resume_finalized run_key files =
     map_option (exists_path files) (reconciler_fanout_resume_finalized_file run_key)"

end
