(* ===== verification/Driver_State.thy ===== *)
theory Driver_State
  imports Workflow_Types Ledger_Read Engine_Output_Store
begin

text \<open>
  What the workflow driver (\<open>harness_cp/workflow_driver.py\<close>) runs on: its durable state (the ledger file and the files
  of the engine output store), the channel of step outputs, a trace of what it did, and the world. The world is a type
  parameter; flags, clocks and everything the driver calls read it and change it. A computation ends with a value, with
  an early \<open>return\<close> of the function around it, or with an exception.
\<close>

section \<open>Exceptions and results\<close>

text \<open>What the driver looks at in an exception: the name of its type, its text, whether it is an \<open>Exception\<close> (and not only
  a \<open>BaseException\<close>), and two attributes.\<close>

record step_exception =
  pex_type_name :: pystr
  pex_text :: pystr
  pex_is_exception :: bool
  pex_rt_fail_class :: "pystr option"
  pex_idempotency_key :: "pystr option"

definition raised :: "string \<Rightarrow> step_exception" where
  "raised name =
     \<lparr>pex_type_name = lit name, pex_text = [], pex_is_exception = True, pex_rt_fail_class = None,
      pex_idempotency_key = None\<rparr>"

text \<open>The prefixes and arguments of the \<open>fail_class\<close> texts of the driver.\<close>

datatype run_fail_class =
    PROTOCOL_FAILURE pystr
  | STEP_FAILURE pystr pystr
  | VALIDATOR_FRAMEWORK_FAILURE pystr pystr
  | CP_FAIL_VALIDATOR_PERMANENT pystr
  | RT_FAIL_HITL_GATE_REJECTED pystr pystr
  | RT_FAIL_HITL_GATE_TIMEOUT pystr pystr
  | RT_FAIL_VALIDATOR_ESCALATION_GATE_COMPOSE pystr pystr
  | LEDGER_APPEND_FAILED write_error
  | REPLAY_UNREADABLE_STORE int
  | REPLAY_MISSING_OUTPUT int int
  | REPLAY_IDENTITY_MISMATCH int pystr pystr
  | SYNTHESIS_MISPLACED
  | RESUME_CARRIER_TOPOLOGY_MISMATCH pystr driver_strategy
  | SYNTHESIS_RESUME_MATERIAL_DIFF "pystr option" "pystr option" driver_strategy

type_synonym outputs_state = "(pystr \<times> json_object) list"

record run_result =
  rrs_workflow_id :: pystr
  rrs_run_id :: pystr
  rrs_status :: run_status
  rrs_terminal_step_index :: "int option"
  rrs_partial_state :: "outputs_state option"
  rrs_final_state :: "outputs_state option"
  rrs_fail_class :: "run_fail_class option"
  rrs_pause_snapshot :: "pause_snapshot option"

section \<open>State and computations\<close>

datatype driver_event = EMITTED workflow_event_class | DISPATCHED int | STORED int | COMMITTED int

record 'w driver_state =
  dst_ledger :: ledger_file
  dst_outputs :: output_files
  dst_channel :: "(pystr \<times> json_object) list"
  dst_trace :: "driver_event list"
  dst_world :: 'w

datatype ('r, 'a) flow = Raise step_exception | Return 'r | Go 'a

type_synonym ('w, 'r, 'a) driver = "'w driver_state \<Rightarrow> ('r, 'a) flow \<times> 'w driver_state"

type_synonym ('w, 'a) driver_call = "'w driver_state \<Rightarrow> (step_exception + 'a) \<times> 'w driver_state"

definition go :: "'a \<Rightarrow> ('w, 'r, 'a) driver" where
  "go x s = (Go x, s)"

definition leave :: "'r \<Rightarrow> ('w, 'r, 'a) driver" where
  "leave r s = (Return r, s)"

definition fail :: "step_exception \<Rightarrow> ('w, 'r, 'a) driver" where
  "fail e s = (Raise e, s)"

definition andthen :: "('w, 'r, 'a) driver \<Rightarrow> ('a \<Rightarrow> ('w, 'r, 'b) driver) \<Rightarrow> ('w, 'r, 'b) driver" where
  "andthen m f s =
     (case m s of
        (Go x, s') \<Rightarrow> f x s'
      | (Return r, s') \<Rightarrow> (Return r, s')
      | (Raise e, s') \<Rightarrow> (Raise e, s'))"

text \<open>A call whose exceptions are not caught, one whose exceptions are handled, and a step of the world.\<close>

definition invoke :: "('w, 'a) driver_call \<Rightarrow> ('w, 'r, 'a) driver" where
  "invoke c s = (case c s of (Inl e, s') \<Rightarrow> (Raise e, s') | (Inr x, s') \<Rightarrow> (Go x, s'))"

definition attempt :: "('w, 'a) driver_call \<Rightarrow> ('w, 'r, step_exception + 'a) driver" where
  "attempt c s = (case c s of (r, s') \<Rightarrow> (Go r, s'))"

definition world :: "('w \<Rightarrow> 'a \<times> 'w) \<Rightarrow> ('w, 'r, 'a) driver" where
  "world f s = (case f (dst_world s) of (x, w) \<Rightarrow> (Go x, s\<lparr>dst_world := w\<rparr>))"

definition note_event :: "driver_event \<Rightarrow> 'w driver_state \<Rightarrow> 'w driver_state" where
  "note_event e s = s\<lparr>dst_trace := dst_trace s @ [e]\<rparr>"

definition emit :: "workflow_event_class \<Rightarrow> ('w, 'r, unit) driver" where
  "emit e s = (Go (), note_event (EMITTED e) s)"

section \<open>The context of the driver\<close>

text \<open>The engine-layer pause store of the two engine classes that have one (\<open>ctx.engine_recovery_loop\<close>).\<close>

record 'w engine_loop =
  elp_has_pause_record :: "engine_class \<Rightarrow> pystr \<Rightarrow> pystr \<Rightarrow> ('w, bool) driver_call"
  elp_capture_pause :: "engine_class \<Rightarrow> pystr \<Rightarrow> pystr \<Rightarrow> pystr \<Rightarrow> ('w, unit) driver_call"
  elp_attempt_resume :: "engine_class \<Rightarrow> pystr \<Rightarrow> pystr \<Rightarrow> pystr \<Rightarrow> ('w, resume_outcome_kind) driver_call"

text \<open>What the driver reads of a validator's answer (\<open>validator_framework_types.py\<close>).\<close>

datatype validator_outcome =
  OUTCOME_PASS | OUTCOME_REVALIDATE | OUTCOME_ESCALATE | OUTCOME_PERMANENT_FAIL | OUTCOME_OPERATOR_BURDEN_EXCEEDED

datatype validator_fail_class =
  SCHEMA_VIOLATION | SEMANTIC_INCONSISTENCY | SAFETY_POLICY | RESOURCE_CONSTRAINT | EXTERNAL_REJECTION

datatype validator_next_action = NEXT_PROCEED | NEXT_RETRY | NEXT_ESCALATE_HITL | NEXT_ABORT

record hitl_escalation_brief =
  heb_parent_step_id :: pystr
  heb_parent_action_id :: pystr
  heb_fail_class :: "validator_fail_class option"
  heb_fail_detail_hash :: "pystr option"
  heb_escalation_reason :: pystr

record validator_result =
  vrs_outcome :: validator_outcome
  vrs_fail_class :: "validator_fail_class option"
  vrs_revalidation_payload :: "json_object option"
  vrs_escalation_brief :: "hitl_escalation_brief option"
  vrs_fail_detail_hash :: "pystr option"

record validator_evaluation =
  vev_result :: validator_result
  vev_span_attributes :: "(pystr \<times> json) list"
  vev_next_action :: validator_next_action
  vev_burden_count :: nat

text \<open>Optional collaborators are \<open>None\<close> when they are not bound. \<open>dcx_protocol\<close> is what the context reader of the pause
  protocol answers, \<open>dcx_wiring\<close> the snapshot resolver of the ledger wiring, \<open>dcx_snapshot_ref\<close> that of the context,
  \<open>dcx_resolution\<close> the operator's answer to an ambiguous effect.\<close>

record 'w driver_context =
  dcx_ledger_env :: ledger_env
  dcx_output_env :: output_env
  dcx_actor :: actor
  dcx_tenant_id :: "pystr option"
  dcx_entry_count :: int
  dcx_now :: "'w \<Rightarrow> py_datetime \<times> 'w"
  dcx_drained :: "'w \<Rightarrow> bool \<times> 'w"
  dcx_pause_requested :: "'w \<Rightarrow> bool \<times> 'w"
  dcx_output_store :: bool
  dcx_channel :: bool
  dcx_protocol :: "('w \<Rightarrow> pause_context \<times> 'w) option"
  dcx_wiring :: "('w \<Rightarrow> pystr \<times> 'w) option"
  dcx_snapshot_ref :: "('w \<Rightarrow> pystr \<times> 'w) option"
  dcx_recovery_loop :: "'w engine_loop option"
  dcx_resolution :: "fence_resolution option"
  dcx_validator ::
    "(workflow_step \<Rightarrow> json_object \<Rightarrow> step_execution_context \<Rightarrow> ('w, validator_evaluation) driver_call) option"
  dcx_escalation_gate :: "(hitl_escalation_brief \<Rightarrow> pystr \<Rightarrow> ('w, unit) driver_call) option"
  dcx_dispatch ::
    "step_kind \<Rightarrow> step_effective_binding \<Rightarrow> workflow_step \<Rightarrow> step_execution_context \<Rightarrow> ('w, json_object) driver_call"

text \<open>One run: the context and the arguments of \<open>execute_workflow\<close> that stay the same throughout.\<close>

record 'w driver_run =
  drn_ctx :: "'w driver_context"
  drn_manifest :: workflow_manifest_entry
  drn_steps :: "workflow_step list"
  drn_run_id :: pystr
  drn_run_key :: pystr
  drn_default_binding :: model_binding

definition answer ::
  "'w driver_run \<Rightarrow> run_status \<Rightarrow> int option \<Rightarrow> outputs_state option \<Rightarrow> outputs_state option \<Rightarrow> run_fail_class option \<Rightarrow>
     pause_snapshot option \<Rightarrow> run_result" where
  "answer r status terminal partial final fc snapshot =
     \<lparr>rrs_workflow_id = wme_workflow_id (drn_manifest r), rrs_run_id = drn_run_id r, rrs_status = status,
      rrs_terminal_step_index = terminal, rrs_partial_state = partial, rrs_final_state = final, rrs_fail_class = fc,
      rrs_pause_snapshot = snapshot\<rparr>"

abbreviation failed_at :: "'w driver_run \<Rightarrow> int \<Rightarrow> outputs_state option \<Rightarrow> run_fail_class \<Rightarrow> run_result" where
  "failed_at r i partial fc \<equiv> answer r RUN_FAILED (Some i) partial None (Some fc) None"

section \<open>Ledger and store\<close>

definition append_entry ::
  "'w driver_context \<Rightarrow> entry_payload \<Rightarrow> write_key \<Rightarrow> 'w driver_state \<Rightarrow> (write_error + write_result) \<times> 'w driver_state" where
  "append_entry dc p wk s =
     (case append_ledger_entry (dcx_ledger_env dc) (dst_ledger s) p wk of (fl, r) \<Rightarrow> (r, s\<lparr>dst_ledger := fl\<rparr>))"

fun write_error_name :: "write_error \<Rightarrow> string" where
  "write_error_name WRITE_KEY_MISMATCH = ''WriteKeyMismatchError''"
| "write_error_name NON_MONOTONIC_TIMESTAMP = ''NonMonotonicTimestampError''"
| "write_error_name LEDGER_UNREADABLE = ''ValueError''"
| "write_error_name TIMES_NOT_COMPARABLE = ''TypeError''"
| "write_error_name TEXT_NOT_ENCODABLE = ''UnicodeEncodeError''"

text \<open>The adapter of \<open>RuntimeCpIsWiring\<close>: an entry under the key of its payload; a failing write leaves the driver.\<close>

definition wiring_append :: "'w driver_context \<Rightarrow> pystr \<Rightarrow> pystr \<Rightarrow> entry_payload option \<Rightarrow> ('w, 'r, unit) driver" where
  "wiring_append dc thread_id step_id payload =
     (case payload of
        None \<Rightarrow> fail (raised ''UnicodeEncodeError'')
      | Some p \<Rightarrow>
          (\<lambda>s. case append_entry dc p \<lparr>wky_thread_id = thread_id, wky_step_id = step_id,
                                       wky_idempotency_key = epl_idempotency_key p\<rparr> s of
                 (Inl e, s') \<Rightarrow> (Raise (raised (write_error_name e)), s')
               | (Inr _, s') \<Rightarrow> (Go (), s')))"

definition emit_override_entry :: "'w driver_run \<Rightarrow> pystr \<Rightarrow> step_effective_binding \<Rightarrow> ('w, 'r, unit) driver" where
  "emit_override_entry r step_id b =
     (case dcx_wiring (drn_ctx r) of
        None \<Rightarrow> go ()
      | Some resolver \<Rightarrow>
          andthen (world resolver) (\<lambda>ref.
          andthen (world (dcx_now (drn_ctx r))) (\<lambda>now.
            wiring_append (drn_ctx r) (wme_workflow_id (drn_manifest r)) step_id
              (compose_override_entry_payload (lge_floats (dcx_ledger_env (drn_ctx r))) (wme_workflow_id (drn_manifest r))
                 step_id (binding_json b) (act_actor_id (dcx_actor (drn_ctx r))) now (Some ref)))))"

definition emit_protocol_entry ::
  "'w driver_run \<Rightarrow> pystr \<Rightarrow> pause_resume_protocol_event_kind \<Rightarrow> int \<Rightarrow> json option \<Rightarrow> ('w, 'r, unit) driver" where
  "emit_protocol_entry r step_id kind sequence_id state =
     (case dcx_wiring (drn_ctx r) of
        None \<Rightarrow> go ()
      | Some resolver \<Rightarrow>
          andthen (world (dcx_now (drn_ctx r))) (\<lambda>now.
          andthen (world resolver) (\<lambda>ref.
            wiring_append (drn_ctx r) (wme_workflow_id (drn_manifest r)) step_id
              (Option.bind state (\<lambda>j.
                 emit_pause_resume_state_ledger_entry (lge_floats (dcx_ledger_env (drn_ctx r)))
                   (wme_workflow_id (drn_manifest r)) step_id kind sequence_id j
                   (act_actor_id (dcx_actor (drn_ctx r))) now (Some ref))))))"

definition record_inter_step_output :: "'w driver_context \<Rightarrow> pystr \<Rightarrow> json_object \<Rightarrow> 'w driver_state \<Rightarrow> 'w driver_state" where
  "record_inter_step_output dc step_id outp s =
     (if dcx_channel dc then s\<lparr>dst_channel := dst_channel s @ [(step_id, outp)]\<rparr> else s)"

text \<open>\<open>most_recent_output\<close> and \<open>outputs_by_step_id\<close> of the channel.\<close>

definition most_recent_output :: "(pystr \<times> json_object) list \<Rightarrow> json_object option" where
  "most_recent_output records = (if records = [] then None else Some (snd (last records)))"

definition outputs_by_step_id :: "(pystr \<times> json_object) list \<Rightarrow> outputs_state" where
  "outputs_by_step_id records = foldl (\<lambda>m (k, v). AList.update k v m) [] records"

definition record_durable_step_output ::
  "'w driver_run \<Rightarrow> int \<Rightarrow> pystr \<Rightarrow> json_object \<Rightarrow> ('w, 'r, unit) driver" where
  "record_durable_step_output r step_index step_id outp s =
     (if \<not> dcx_output_store (drn_ctx r) then (Go (), s)
      else case record_output (dcx_output_env (drn_ctx r)) (drn_run_key r) step_index step_id outp (dst_outputs s) of
             (files, ok) \<Rightarrow>
               (if ok then Go () else Raise (raised ''UnicodeEncodeError''),
                (if ok then note_event (STORED step_index) else id) (s\<lparr>dst_outputs := files\<rparr>)))"

section \<open>Resuming from the ledger and the store\<close>

fun first_missing :: "(nat \<Rightarrow> bool option) \<Rightarrow> nat \<Rightarrow> nat \<Rightarrow> nat option" where
  "first_missing held i 0 = Some i"
| "first_missing held i (Suc n) =
     (case held i of None \<Rightarrow> None | Some False \<Rightarrow> Some i | Some True \<Rightarrow> first_missing held (Suc i) n)"

text \<open>\<open>_determine_resume_at\<close>, which the four engine classes share; \<open>None\<close>: the ledger cannot be read.\<close>

definition determine_resume_at :: "'w driver_run \<Rightarrow> ledger_file \<Rightarrow> nat option" where
  "determine_resume_at r file =
     (case read_ledger (dcx_ledger_env (drn_ctx r)) file of
        None \<Rightarrow> if drn_steps r = [] then Some 0 else None
      | Some ledger \<Rightarrow>
          first_missing (\<lambda>i.
            Option.bind (compute_step_idempotency_key (drn_run_key r) (int i) None) (\<lambda>k.
              map_option (\<lambda>res. lrr_entries res \<noteq> []) (read_by_idempotency_key ledger k (max 1 (dcx_entry_count (drn_ctx r))))))
            0 (length (drn_steps r)))"

definition resume_cursor :: "'w driver_run \<Rightarrow> ('w, 'r, int) driver" where
  "resume_cursor r s =
     (case determine_resume_at r (dst_ledger s) of
        None \<Rightarrow> (Raise (raised ''ValueError''), s)
      | Some i \<Rightarrow> (Go (int i), s))"

text \<open>The loop over the indexes below \<open>resume_at\<close>. A failure is returned by the driver's body; an index beyond the steps,
  which a snapshot can name, is an \<open>IndexError\<close>.\<close>

fun replay_prefix ::
  "'w driver_run \<Rightarrow> (int \<rightharpoonup> pystr \<times> json_object) \<Rightarrow> int \<Rightarrow> nat \<Rightarrow> nat \<Rightarrow> (pystr \<times> json_object) list \<Rightarrow>
     (run_result \<times> nat, (pystr \<times> json_object) list) flow" where
  "replay_prefix r stored resume_at i 0 acc = Go acc"
| "replay_prefix r stored resume_at i (Suc n) acc =
     (case stored (int i) of
        None \<Rightarrow> Return (failed_at r (int i) None (REPLAY_MISSING_OUTPUT (int i) resume_at), 0)
      | Some (sid, outp) \<Rightarrow>
          if length (drn_steps r) \<le> i then Raise (raised ''IndexError'')
          else if sid \<noteq> wfs_step_id (drn_steps r ! i)
          then Return (failed_at r (int i) None (REPLAY_IDENTITY_MISMATCH (int i) sid (wfs_step_id (drn_steps r ! i))), 0)
          else replay_prefix r stored resume_at (Suc i) n (acc @ [(sid, outp)]))"

text \<open>Whether the dictionary of \<open>read_outputs\<close> is empty, decided on the lines of the journal.\<close>

definition no_outputs :: "output_env \<Rightarrow> pystr \<Rightarrow> output_files \<Rightarrow> bool" where
  "no_outputs env run_key files =
     (case Option.bind (journal_file run_key) (read_journal env files) of
        None \<Rightarrow> True
      | Some s \<Rightarrow> scan_lines (\<lambda>line. Option.bind (load_dict env line) accept_step) (\<lambda>_ _. False) (splitlines s) True)"

lemma scan_flag: "scan_lines parse (\<lambda>_ _. False) ls b \<longleftrightarrow> b \<and> (\<forall>l \<in> set ls. py_blank l \<or> parse l = None)"
  by (induction ls arbitrary: b) (auto split: option.split)

lemma scan_map_empty:
  "scan_lines parse (\<lambda>(i, sid, out) m. m(i \<mapsto> (sid, out))) ls m = Map.empty \<longleftrightarrow>
   m = Map.empty \<and> (\<forall>l \<in> set ls. py_blank l \<or> parse l = None)"
proof (induction ls arbitrary: m)
  case (Cons l ls)
  have ne: "m(i \<mapsto> x) = Map.empty \<longleftrightarrow> False" for i x by (metis fun_upd_same option.distinct(1))
  show ?case
  proof (cases "py_blank l \<or> parse l = None")
    case True
    then have "scan_lines parse (\<lambda>(i, sid, out) m. m(i \<mapsto> (sid, out))) (l # ls) m =
      scan_lines parse (\<lambda>(i, sid, out) m. m(i \<mapsto> (sid, out))) ls m" by auto
    then show ?thesis using True by (simp only: Cons list.set ball_simps simp_thms)
  next
    case False
    then obtain i sid out where p: "parse l = Some (i, sid, out)" "\<not> py_blank l" by (cases "parse l") auto
    then have "scan_lines parse (\<lambda>(i, sid, out) m. m(i \<mapsto> (sid, out))) (l # ls) m =
      scan_lines parse (\<lambda>(i, sid, out) m. m(i \<mapsto> (sid, out))) ls (m(i \<mapsto> (sid, out)))" by simp
    then show ?thesis using p by (simp only: Cons ne list.set ball_simps simp_thms option.distinct)
  qed
qed simp

lemma no_outputs_iff:
  assumes "read_outputs env run_key files = Some m"
  shows "no_outputs env run_key files \<longleftrightarrow> m = Map.empty"
proof -
  obtain path where p: "journal_file run_key = Some path" using assms by (auto simp: read_outputs_def)
  show ?thesis
  proof (cases "read_journal env files path")
    case None
    then show ?thesis using assms p by (simp add: no_outputs_def read_outputs_def)
  next
    case (Some s)
    then have "m = scan_lines (\<lambda>line. Option.bind (load_dict env line) accept_step) (\<lambda>(i, sid, out) m. m(i \<mapsto> (sid, out)))
      (splitlines s) Map.empty" using assms p by (simp add: read_outputs_def)
    then show ?thesis using Some p by (simp only: no_outputs_def bind.bind_lunit option.case scan_flag scan_map_empty simp_thms)
  qed
qed

definition read_durable_replay_prefix ::
  "'w driver_run \<Rightarrow> int \<Rightarrow> ('w, run_result \<times> nat, (pystr \<times> json_object) list) driver" where
  "read_durable_replay_prefix r resume_at s =
     (if \<not> dcx_output_store (drn_ctx r) \<or> resume_at \<le> 0 then (Go [], s)
      else case read_outputs (dcx_output_env (drn_ctx r)) (drn_run_key r) (dst_outputs s) of
        None \<Rightarrow> (Raise (raised ''UnicodeEncodeError''), s)
      | Some stored \<Rightarrow>
          if no_outputs (dcx_output_env (drn_ctx r)) (drn_run_key r) (dst_outputs s) then
            (if journal_exists (drn_run_key r) (dst_outputs s) = Some True
             then (Return (failed_at r 0 None (REPLAY_UNREADABLE_STORE resume_at), 0), s)
             else (Go [], s))
          else (replay_prefix r stored resume_at 0 (nat resume_at) [], s))"

text \<open>\<open>_rehydrate_inter_step_channel_on_replay\<close>\<close>

definition rehydrate_channel :: "'w driver_run \<Rightarrow> int \<Rightarrow> ('w, run_result \<times> nat, unit) driver" where
  "rehydrate_channel r resume_at =
     (if \<not> dcx_channel (drn_ctx r) then go ()
      else andthen (read_durable_replay_prefix r resume_at) (\<lambda>outs s.
        (Go (), s\<lparr>dst_channel := dst_channel s @ outs\<rparr>)))"

end
