(* ===== verification/Workflow_Driver.thy ===== *)
theory Workflow_Driver
  imports Driver_State
begin

text \<open>
  \<open>execute_workflow\<close> and \<open>_execute_workflow_body\<close> (\<open>workflow_driver.py\<close>) for the linear topology: resume, then the loop
  over the steps. A step is bound, dispatched, validated, its output stored, its ledger entry written and only then
  counted; the first problem ends the run with a result that names it. The other topologies are an argument. Spans,
  the skill telemetry at the start and log texts are not modelled.
\<close>

section \<open>Pausing\<close>

definition prev_index :: "int \<Rightarrow> int option" where
  "prev_index step_index = (if 0 < step_index then Some (step_index - 1) else None)"

text \<open>Captures a snapshot at a step and returns the paused result; \<open>low\<close> fills the low two bits of the sequence id.\<close>

definition pause_here ::
  "'w driver_run \<Rightarrow> ('w \<Rightarrow> pause_context \<times> 'w) \<Rightarrow> int \<Rightarrow> workflow_pause_reason \<Rightarrow> resume_carriers \<Rightarrow> int \<Rightarrow> outputs_state \<Rightarrow>
     nat \<Rightarrow> ('w, run_result \<times> nat, 'a) driver" where
  "pause_here r protocol step_index reason carriers low acc executed =
     andthen (world protocol) (\<lambda>pctx.
       case capture_pause_snapshot (lge_floats (dcx_ledger_env (drn_ctx r))) pctx (wme_workflow_id (drn_manifest r))
              (drn_run_id r) step_index reason carriers of
         None \<Rightarrow> fail (raised ''UnicodeEncodeError'')
       | Some snapshot \<Rightarrow>
           andthen (emit_protocol_entry r (dec_int step_index) PAUSE_CAPTURED (4 * step_index + low)
                      (pause_snapshot_json snapshot)) (\<lambda>_.
             leave (answer r RUN_PAUSED (prev_index step_index) (Some acc) None None (Some snapshot), executed)))"

text \<open>The engine-native pause of the two engine classes with a pause store.\<close>

definition engine_pause ::
  "'w driver_run \<Rightarrow> int \<Rightarrow> outputs_state \<Rightarrow> nat \<Rightarrow> ('w, run_result \<times> nat, unit) driver" where
  "engine_pause r step_index acc executed =
     (if wme_engine_class (drn_manifest r) \<in> {WAL_SEGMENT, RECONCILER_LOOP} then
        (case dcx_recovery_loop (drn_ctx r) of
           None \<Rightarrow> go ()
         | Some loop \<Rightarrow>
             andthen (world (dcx_pause_requested (drn_ctx r))) (\<lambda>pause.
               if \<not> pause then go ()
               else andthen (invoke (elp_capture_pause loop (wme_engine_class (drn_manifest r))
                      (wme_workflow_id (drn_manifest r)) (drn_run_id r) (dec_int step_index))) (\<lambda>_.
                 leave (answer r RUN_PAUSED (prev_index step_index) (Some acc) None None None, executed))))
      else go ())"

definition protocol_pause ::
  "'w driver_run \<Rightarrow> int \<Rightarrow> outputs_state \<Rightarrow> nat \<Rightarrow> ('w, run_result \<times> nat, unit) driver" where
  "protocol_pause r step_index acc executed =
     (case dcx_protocol (drn_ctx r) of
        None \<Rightarrow> go ()
      | Some protocol \<Rightarrow>
          andthen (world (dcx_pause_requested (drn_ctx r))) (\<lambda>pause.
            if pause then pause_here r protocol step_index EXPLICIT_OPERATOR no_carriers 1 acc executed else go ()))"

definition drain_check ::
  "'w driver_run \<Rightarrow> int option \<Rightarrow> outputs_state \<Rightarrow> nat \<Rightarrow> ('w, run_result \<times> nat, unit) driver" where
  "drain_check r terminal acc executed =
     andthen (world (dcx_drained (drn_ctx r))) (\<lambda>drained.
       if drained then leave (answer r RUN_DRAINED terminal (Some acc) None None None, executed) else go ())"

section \<open>One step\<close>

definition bind_step :: "'w driver_run \<Rightarrow> workflow_step \<Rightarrow> ('w, 'r, step_effective_binding) driver" where
  "bind_step r step =
     (let b = resolve_step_binding (drn_manifest r) (wfs_step_id step) (drn_default_binding r)
                (wme_persona_tier (drn_manifest r))
      in if seb_override_applied b then andthen (emit_override_entry r (wfs_step_id step) b) (\<lambda>_. go b) else go b)"

definition step_action_id :: "'w driver_run \<Rightarrow> int \<Rightarrow> pystr" where
  "step_action_id r step_index =
     lit ''workflow:'' @ wme_workflow_id (drn_manifest r) @ lit '':step:'' @ dec_int step_index"

definition step_context_for ::
  "'w driver_run \<Rightarrow> step_effective_binding \<Rightarrow> fence_directive option \<Rightarrow> pystr \<Rightarrow> int \<Rightarrow> step_execution_context" where
  "step_context_for r b directive step_key step_index =
     \<lparr>sec_workflow_id = wme_workflow_id (drn_manifest r), sec_parent_action_id = step_action_id r step_index,
      sec_parent_gate_level = resolve_parent_gate_level (drn_manifest r), sec_parent_sandbox_tier = TIER_1_PROCESS,
      sec_parent_actor = dcx_actor (drn_ctx r), sec_parent_entry_hash = [], sec_parent_idempotency_key = step_key,
      sec_tenant_id = dcx_tenant_id (drn_ctx r), sec_step_index = step_index, sec_branch_index = None,
      sec_agent_role = seb_agent_role b,
      sec_hitl_placements = fold_step_hitl_placements (wme_hitl_placements (drn_manifest r)) (seb_hitl_placement b),
      sec_child_resume_snapshot = None, sec_run_engine_class = Some (wme_engine_class (drn_manifest r)),
      sec_effect_fence_resolution = directive, sec_sibling_outputs = None, sec_is_orchestrator_dispatch = False,
      sec_is_linear_sequential_dispatch = True\<rparr>"

definition step_fail_class :: "step_exception \<Rightarrow> run_fail_class" where
  "step_fail_class exc =
     STEP_FAILURE
       (case pex_rt_fail_class exc of Some c \<Rightarrow> if c = [] then pex_type_name exc else c | None \<Rightarrow> pex_type_name exc)
       (pex_text exc)"

text \<open>The handlers around the dispatch, in their order.\<close>

definition dispatch_failed ::
  "'w driver_run \<Rightarrow> int \<Rightarrow> outputs_state \<Rightarrow> nat \<Rightarrow> step_exception \<Rightarrow> ('w, run_result \<times> nat, 'a) driver" where
  "dispatch_failed r step_index acc executed exc =
     (let failed = (\<lambda>fc. leave (failed_at r step_index (Some acc) fc, executed));
          named = (\<lambda>n. pex_type_name exc = lit n);
          classified =
            (if \<not> pex_is_exception exc then fail exc
             else if named ''StepDispatchTimeoutError''
               then failed (STEP_FAILURE (lit ''RT-FAIL-STEP-DISPATCH-TIMEOUT'') (pex_text exc))
             else if named ''ManagedAgentsSessionError''
               then failed (STEP_FAILURE (lit ''RT-FAIL-MANAGED-AGENTS-SESSION'') (pex_text exc))
             else failed (step_fail_class exc))
      in if named ''StepKindDispatcherNotBoundError''
           then failed (STEP_FAILURE (lit ''RT-FAIL-STEP-KIND-DISPATCHER-NOT-BOUND'') (pex_text exc))
         else case dcx_protocol (drn_ctx r) of
           None \<Rightarrow> classified
         | Some protocol \<Rightarrow>
             if named ''HITLPauseRequestedSignal'' then
               andthen (world (dcx_pause_requested (drn_ctx r))) (\<lambda>pause.
                 if pause then pause_here r protocol step_index HITL_PENDING no_carriers 2 acc executed else classified)
             else if named ''EffectFenceAmbiguousUncommittedError'' then
               pause_here r protocol step_index EFFECT_FENCE_AMBIGUOUS
                 (no_carriers\<lparr>rca_effect_fence_resume := map_option (\<lambda>k. \<lparr>efr_idempotency_key = k\<rparr>) (pex_idempotency_key exc)\<rparr>)
                 3 acc executed
             else classified)"

definition dispatch_step ::
  "'w driver_run \<Rightarrow> step_effective_binding \<Rightarrow> workflow_step \<Rightarrow> step_execution_context \<Rightarrow> ('w, json_object) driver_call" where
  "dispatch_step r b step ctx s =
     dcx_dispatch (drn_ctx r) (wfs_step_kind step) b step ctx (note_event (DISPATCHED (sec_step_index ctx)) s)"

text \<open>The validator and, for an escalation, the human gate. An answer to retry is accepted as it is.\<close>

definition validate_step ::
  "'w driver_run \<Rightarrow> workflow_step \<Rightarrow> step_execution_context \<Rightarrow> json_object \<Rightarrow> outputs_state \<Rightarrow> nat \<Rightarrow>
     ('w, run_result \<times> nat, unit) driver" where
  "validate_step r step ctx outp acc executed =
     (case dcx_validator (drn_ctx r) of
        None \<Rightarrow> go ()
      | Some validator \<Rightarrow>
          let failed = (\<lambda>fc. leave (failed_at r (sec_step_index ctx) (Some acc) fc, executed)) in
          andthen (attempt (validator step outp ctx)) (\<lambda>res.
            case res of
              Inl exc \<Rightarrow>
                if pex_is_exception exc then failed (VALIDATOR_FRAMEWORK_FAILURE (pex_type_name exc) (pex_text exc))
                else fail exc
            | Inr ev \<Rightarrow>
                if vev_next_action ev = NEXT_ABORT then failed (CP_FAIL_VALIDATOR_PERMANENT (wfs_step_id step))
                else if vev_next_action ev = NEXT_ESCALATE_HITL then
                  (case (dcx_escalation_gate (drn_ctx r), vrs_escalation_brief (vev_result ev)) of
                     (Some gate, Some brief) \<Rightarrow>
                       andthen (attempt (gate brief (sec_parent_action_id ctx))) (\<lambda>res.
                         case res of
                           Inr _ \<Rightarrow> go ()
                         | Inl exc \<Rightarrow>
                             if pex_type_name exc = lit ''ValidatorEscalationGateRejectedError''
                               then failed (RT_FAIL_HITL_GATE_REJECTED (wfs_step_id step) (pex_text exc))
                             else if pex_type_name exc = lit ''ValidatorEscalationGateTimeoutError''
                               then failed (RT_FAIL_HITL_GATE_TIMEOUT (wfs_step_id step) (pex_text exc))
                             else if pex_type_name exc = lit ''ValidatorEscalationGateAuditComposeError''
                               then failed (RT_FAIL_VALIDATOR_ESCALATION_GATE_COMPOSE (wfs_step_id step) (pex_text exc))
                             else fail exc)
                   | _ \<Rightarrow> go ())
                else go ()))"

definition step_payload :: "'w driver_run \<Rightarrow> int \<Rightarrow> pystr \<Rightarrow> py_datetime \<Rightarrow> pystr option \<Rightarrow> entry_payload" where
  "step_payload r step_index step_key now ref =
     \<lparr>epl_action_id = step_action_id r step_index, epl_idempotency_key = step_key, epl_actor = dcx_actor (drn_ctx r),
      epl_timestamp = now, epl_procedural_tier_snapshot_ref = ref, epl_branch_metadata = None\<rparr>"

definition append_step_ledger_entry ::
  "'w driver_run \<Rightarrow> int \<Rightarrow> pystr \<Rightarrow> ('w, 'r, write_error + write_result) driver" where
  "append_step_ledger_entry r step_index step_key =
     andthen (case dcx_snapshot_ref (drn_ctx r) of
                None \<Rightarrow> go None
              | Some resolver \<Rightarrow> andthen (world resolver) (\<lambda>ref. go (Some ref))) (\<lambda>ref.
     andthen (world (dcx_now (drn_ctx r))) (\<lambda>now s.
       case append_entry (drn_ctx r) (step_payload r step_index step_key now ref)
              \<lparr>wky_thread_id = wme_workflow_id (drn_manifest r), wky_step_id = dec_int step_index,
               wky_idempotency_key = step_key\<rparr> s of
         (res, s') \<Rightarrow> (Go res, if res = Inr APPENDED then note_event (COMMITTED step_index) s' else s')))"

definition FINAL_STATE_RECONSTRUCT_ENGINE_CLASSES :: "engine_class list" where
  "FINAL_STATE_RECONSTRUCT_ENGINE_CLASSES =
     [EVENT_SOURCED_REPLAY, WAL_SEGMENT, SAVE_POINT_CHECKPOINT, RECONCILER_LOOP]"

text \<open>The durable output comes before the ledger entry, so an entry never lacks its output.\<close>

definition commit_step ::
  "'w driver_run \<Rightarrow> int \<Rightarrow> pystr \<Rightarrow> workflow_step \<Rightarrow> json_object \<Rightarrow> outputs_state \<Rightarrow> nat \<Rightarrow>
     ('w, run_result \<times> nat, unit) driver" where
  "commit_step r step_index step_key step outp acc executed =
     andthen (if wme_engine_class (drn_manifest r) \<in> set FINAL_STATE_RECONSTRUCT_ENGINE_CLASSES
              then record_durable_step_output r step_index (wfs_step_id step) outp else go ()) (\<lambda>_.
     andthen (append_step_ledger_entry r step_index step_key) (\<lambda>res.
       case res of
         Inl e \<Rightarrow> leave (failed_at r step_index (Some acc) (LEDGER_APPEND_FAILED e), executed)
       | Inr _ \<Rightarrow> go ()))"

definition linear_step ::
  "'w driver_run \<Rightarrow> fence_directive option \<Rightarrow> workflow_step \<Rightarrow> int \<Rightarrow> outputs_state \<Rightarrow> nat \<Rightarrow>
     ('w, run_result \<times> nat, outputs_state) driver" where
  "linear_step r directive step step_index acc executed =
     andthen (drain_check r (prev_index step_index) acc executed) (\<lambda>_.
     andthen (engine_pause r step_index acc executed) (\<lambda>_.
     andthen (protocol_pause r step_index acc executed) (\<lambda>_.
     andthen (bind_step r step) (\<lambda>b.
       case compute_step_idempotency_key (drn_run_key r) step_index None of
         None \<Rightarrow> fail (raised ''UnicodeEncodeError'')
       | Some step_key \<Rightarrow>
           let ctx = step_context_for r b directive step_key step_index in
           andthen (attempt (dispatch_step r b step ctx)) (\<lambda>res.
             case res of
               Inl exc \<Rightarrow> dispatch_failed r step_index acc executed exc
             | Inr outp \<Rightarrow>
                 andthen (emit STEP_BOUNDARY) (\<lambda>_.
                 andthen (validate_step r step ctx outp acc executed) (\<lambda>_.
                 andthen (commit_step r step_index step_key step outp acc executed) (\<lambda>_.
                 andthen (\<lambda>s. (Go (), record_inter_step_output (drn_ctx r) (wfs_step_id step) outp s)) (\<lambda>_.
                 andthen (drain_check r (Some step_index) (AList.update (wfs_step_id step) outp acc) (Suc executed)) (\<lambda>_.
                   go (AList.update (wfs_step_id step) outp acc)))))))))))"

text \<open>The operator's answer is for the step the run resumes at, and for no other.\<close>

fun linear_loop ::
  "'w driver_run \<Rightarrow> fence_directive option \<Rightarrow> workflow_step list \<Rightarrow> int \<Rightarrow> outputs_state \<Rightarrow> nat \<Rightarrow>
     ('w, run_result \<times> nat, outputs_state \<times> nat) driver" where
  "linear_loop r directive [] step_index acc executed = go (acc, executed)"
| "linear_loop r directive (step # rest) step_index acc executed =
     andthen (linear_step r directive step step_index acc executed) (\<lambda>acc'.
       linear_loop r None rest (step_index + 1) acc' (Suc executed))"

section \<open>Where a run resumes\<close>

definition abort_fail_class :: "resume_outcome_kind \<Rightarrow> pystr option" where
  "abort_fail_class k =
     (case k of
        ABORT_SNAPSHOT_CORRUPTED \<Rightarrow> Some CP_FAIL_PAUSE_SNAPSHOT_CORRUPTION
      | ABORT_REVALIDATION_FAILED \<Rightarrow> Some CP_FAIL_RESUME_MATERIAL_DIFF_DETECTED
      | _ \<Rightarrow> None)"

definition engine_resume ::
  "'w driver_run \<Rightarrow> 'w engine_loop \<Rightarrow> int \<Rightarrow> ('w, run_result \<times> nat, unit) driver" where
  "engine_resume r loop resume_at =
     andthen (invoke (elp_attempt_resume loop (wme_engine_class (drn_manifest r)) (wme_workflow_id (drn_manifest r))
                (drn_run_id r) (dec_int resume_at))) (\<lambda>kind.
       case abort_fail_class kind of
         None \<Rightarrow> go ()
       | Some fc \<Rightarrow> leave (answer r RUN_FAILED None None None (Some (PROTOCOL_FAILURE fc)) None, 0))"

definition emit_if :: "bool \<Rightarrow> workflow_event_class \<Rightarrow> ('w, 'r, unit) driver" where
  "emit_if b e = (if b then emit e else go ())"

definition has_engine_pause :: "'w driver_run \<Rightarrow> 'w engine_loop \<Rightarrow> ('w, 'r, bool) driver" where
  "has_engine_pause r loop =
     invoke (elp_has_pause_record loop (wme_engine_class (drn_manifest r)) (wme_workflow_id (drn_manifest r)) (drn_run_id r))"

definition linear_resume :: "'w driver_run \<Rightarrow> int option \<Rightarrow> ('w, run_result \<times> nat, int) driver" where
  "linear_resume r override =
     (case override of
        Some i \<Rightarrow> andthen (emit_if (0 < i) RESUMPTION) (\<lambda>_. go i)
      | None \<Rightarrow>
          (case wme_engine_class (drn_manifest r) of
             PURE_PATTERN_NO_ENGINE \<Rightarrow> go 0
           | SAVE_POINT_CHECKPOINT \<Rightarrow>
               andthen (resume_cursor r) (\<lambda>i. andthen (emit_if (0 < i) RESUMPTION) (\<lambda>_. go i))
           | EVENT_SOURCED_REPLAY \<Rightarrow>
               andthen (resume_cursor r) (\<lambda>i.
                 andthen (emit_if (0 < i) RESUMPTION) (\<lambda>_.
                 andthen (if 0 < i then rehydrate_channel r i else go ()) (\<lambda>_. go i)))
           | RECONCILER_LOOP \<Rightarrow>
               andthen (resume_cursor r) (\<lambda>i.
                 case dcx_recovery_loop (drn_ctx r) of
                   None \<Rightarrow> andthen (emit_if (0 < i) RESUMPTION) (\<lambda>_. go i)
                 | Some loop \<Rightarrow>
                     andthen (if i < int (length (drn_steps r)) then has_engine_pause r loop else go False) (\<lambda>paused.
                     andthen (emit_if (0 < i \<or> paused) RESUMPTION) (\<lambda>_.
                     andthen (if paused then engine_resume r loop i else go ()) (\<lambda>_. go i))))
           | WAL_SEGMENT \<Rightarrow>
               andthen (resume_cursor r) (\<lambda>i.
                 case dcx_recovery_loop (drn_ctx r) of
                   None \<Rightarrow>
                     andthen (emit_if (0 < i) RESUMPTION) (\<lambda>_.
                     andthen (if 0 < i then rehydrate_channel r i else go ()) (\<lambda>_. go i))
                 | Some loop \<Rightarrow>
                     andthen (has_engine_pause r loop) (\<lambda>paused.
                     andthen (emit_if (0 < i \<or> paused) RESUMPTION) (\<lambda>_.
                     andthen (if 0 < i then rehydrate_channel r i else go ()) (\<lambda>_.
                     andthen (if paused then engine_resume r loop i else go ()) (\<lambda>_. go i)))))))"

section \<open>The linear body\<close>

text \<open>\<open>steps[i:]\<close>\<close>

definition steps_from :: "int \<Rightarrow> 'a list \<Rightarrow> 'a list" where
  "steps_from i xs = drop (nat (if i < 0 then int (length xs) + i else i)) xs"

definition seed_final_state :: "'w driver_run \<Rightarrow> bool \<Rightarrow> int \<Rightarrow> ('w, run_result \<times> nat, outputs_state) driver" where
  "seed_final_state r reconstruct resume_at =
     (if reconstruct \<and> 0 < resume_at \<and> wme_engine_class (drn_manifest r) \<in> set FINAL_STATE_RECONSTRUCT_ENGINE_CLASSES
      then andthen (read_durable_replay_prefix r resume_at) (\<lambda>outs. go (outputs_by_step_id outs))
      else go [])"

definition fence_directive_for :: "'w driver_run \<Rightarrow> pause_snapshot option \<Rightarrow> fence_directive option" where
  "fence_directive_for r snapshot =
     (case (Option.bind snapshot psn_effect_fence_resume, dcx_resolution (drn_ctx r)) of
        (Some fence, Some resolution) \<Rightarrow>
          Some \<lparr>efd_resolution = resolution, efd_idempotency_key = efr_idempotency_key fence\<rparr>
      | _ \<Rightarrow> None)"

definition linear_body ::
  "'w driver_run \<Rightarrow> int option \<Rightarrow> pause_snapshot option \<Rightarrow> bool \<Rightarrow> ('w, run_result \<times> nat, run_result \<times> nat) driver" where
  "linear_body r override snapshot reconstruct =
     andthen (linear_resume r override) (\<lambda>resume_at.
     andthen (emit WORKFLOW_START) (\<lambda>_.
     andthen (seed_final_state r reconstruct resume_at) (\<lambda>acc.
     andthen (linear_loop r (fence_directive_for r snapshot) (steps_from resume_at (drn_steps r)) resume_at acc 0)
       (\<lambda>(final, executed). go (answer r RUN_SUCCESS None None (Some final) None None, executed)))))"

section \<open>The body and the entry point\<close>

text \<open>The resume carriers with the strategies that read them.\<close>

definition resume_carrier_strategies :: "(string \<times> (pause_snapshot \<Rightarrow> bool) \<times> driver_strategy list) list" where
  "resume_carrier_strategies =
     [(''fan_out_resume'', \<lambda>s. psn_fan_out_resume s \<noteq> None,
         [STRATEGY_ORCHESTRATOR_WORKERS, STRATEGY_HIERARCHICAL_DELEGATION]),
      (''peer_fan_out_resume'', \<lambda>s. psn_peer_fan_out_resume s \<noteq> None, [STRATEGY_PARALLELIZATION]),
      (''handoff_resume'', \<lambda>s. psn_handoff_resume s \<noteq> None, [STRATEGY_DECENTRALIZED_HANDOFF]),
      (''evaluator_optimizer_resume'', \<lambda>s. psn_evaluator_optimizer_resume s \<noteq> None, [STRATEGY_EVALUATOR_OPTIMIZER]),
      (''effect_fence_resume'', \<lambda>s. psn_effect_fence_resume s \<noteq> None, [LINEAR_INLINE]),
      (''orchestrator_effect_fence_resume'', \<lambda>s. psn_orchestrator_effect_fence_resume s \<noteq> None,
         [STRATEGY_ORCHESTRATOR_WORKERS, STRATEGY_HIERARCHICAL_DELEGATION])]"

definition resume_carrier_topology_mismatch :: "pause_snapshot \<Rightarrow> driver_strategy \<Rightarrow> run_fail_class option" where
  "resume_carrier_topology_mismatch snapshot strategy =
     map_option (\<lambda>(name, _). RESUME_CARRIER_TOPOLOGY_MISMATCH (lit name) strategy)
       (List.find (\<lambda>(name, populated, allowed). populated snapshot \<and> strategy \<notin> set allowed) resume_carrier_strategies)"

definition last_step :: "workflow_step list \<Rightarrow> workflow_step option" where
  "last_step steps = (if steps = [] then None else Some (last steps))"

definition split_synthesis :: "workflow_step list \<Rightarrow> workflow_step list \<times> workflow_step option" where
  "split_synthesis steps =
     (case last_step steps of
        None \<Rightarrow> (steps, None)
      | Some s \<Rightarrow> if wfs_step_kind s = POST_JOIN_SYNTHESIS then (butlast steps, Some s) else (steps, None))"

definition synthesis_resume_material_diff ::
  "pause_snapshot \<Rightarrow> workflow_step list \<Rightarrow> driver_strategy \<Rightarrow> run_fail_class option" where
  "synthesis_resume_material_diff snapshot steps strategy =
     (if psn_orchestrator_effect_fence_resume snapshot \<noteq> None then None
      else
        let captured =
              (if strategy \<in> {STRATEGY_ORCHESTRATOR_WORKERS, STRATEGY_HIERARCHICAL_DELEGATION}
                 then Option.bind (psn_fan_out_resume snapshot) for_synthesis_step_id
               else if strategy = STRATEGY_PARALLELIZATION
                 then Option.bind (psn_peer_fan_out_resume snapshot) pfr_synthesis_step_id
               else None);
            resumed = map_option wfs_step_id (snd (split_synthesis steps))
        in if captured = resumed then None else Some (SYNTHESIS_RESUME_MATERIAL_DIFF resumed captured strategy))"

definition synthesis_positions :: "workflow_step list \<Rightarrow> nat list" where
  "synthesis_positions steps = filter (\<lambda>i. wfs_step_kind (steps ! i) = POST_JOIN_SYNTHESIS) [0..<length steps]"

text \<open>The guards of \<open>_execute_workflow_body\<close>: the result a run ends with before it starts.\<close>

definition body_guard :: "'w driver_run \<Rightarrow> driver_strategy \<Rightarrow> pause_snapshot option \<Rightarrow> run_result option" where
  "body_guard r strategy snapshot =
     (let steps = drn_steps r; positions = synthesis_positions steps;
          diff = Option.bind snapshot (\<lambda>s.
            case resume_carrier_topology_mismatch s strategy of
              Some fc \<Rightarrow> Some fc
            | None \<Rightarrow> synthesis_resume_material_diff s steps strategy)
      in case diff of
           Some fc \<Rightarrow>
             Some (failed_at r (case positions of [] \<Rightarrow> max 0 (int (length steps) - 1) | p # _ \<Rightarrow> int p) None fc)
         | None \<Rightarrow>
             (case positions of
                [] \<Rightarrow> None
              | p # ps \<Rightarrow>
                  if ps \<noteq> [] \<or> int p \<noteq> int (length steps) - 1 \<or>
                     strategy \<notin> {STRATEGY_PARALLELIZATION, STRATEGY_ORCHESTRATOR_WORKERS, STRATEGY_HIERARCHICAL_DELEGATION} \<or>
                     length steps < 2
                  then Some (failed_at r (int p) None SYNTHESIS_MISPLACED) else None))"

text \<open>How the strategies other than the linear one run: an argument.\<close>

type_synonym 'w strategies =
  "driver_strategy \<Rightarrow> 'w driver_run \<Rightarrow> pause_snapshot option \<Rightarrow> ('w, run_result \<times> nat, run_result \<times> nat) driver"

definition execute_workflow_body ::
  "'w strategies \<Rightarrow> 'w driver_run \<Rightarrow> int option \<Rightarrow> pause_snapshot option \<Rightarrow> bool \<Rightarrow>
     ('w, run_result \<times> nat, run_result \<times> nat) driver" where
  "execute_workflow_body strategies r override snapshot reconstruct =
     (case resolve_driver_strategy (wme_topology_pattern (drn_manifest r)) of
        None \<Rightarrow> fail (raised ''TopologyPatternNotYetMaterializedError'')
      | Some strategy \<Rightarrow>
          if wme_engine_class (drn_manifest r) \<notin> set IN_SCOPE_ENGINE_CLASSES
          then fail (raised ''EngineClassNotYetMaterializedError'')
          else case body_guard r strategy snapshot of
            Some result \<Rightarrow> leave (result, 0)
          | None \<Rightarrow>
              if strategy = LINEAR_INLINE then linear_body r override snapshot reconstruct
              else strategies strategy r snapshot)"

definition resume_result_json :: "resume_result \<Rightarrow> json" where
  "resume_result_json res =
     JObj [(lit ''resumed'', JBool (rsr_resumed res)), (lit ''diff_detected'', JBool (rsr_diff_detected res)),
           (lit ''diff_summary_hash'', json_opt JStr (rsr_diff_summary_hash res)), (lit ''new_run_id'', JNull),
           (lit ''fail_class'', json_opt JStr (rsr_fail_class res))]"

text \<open>The resume of a paused run: the index to go on at, if a snapshot is given and the protocol is bound.\<close>

definition resume_paused :: "'w driver_run \<Rightarrow> pause_snapshot option \<Rightarrow> ('w, run_result \<times> nat, int option) driver" where
  "resume_paused r snapshot =
     (case (snapshot, dcx_protocol (drn_ctx r)) of
        (Some s, Some protocol) \<Rightarrow>
          andthen (world protocol) (\<lambda>pctx.
            case attempt_resume (lge_floats (dcx_ledger_env (drn_ctx r))) pctx s POLICY_STRICT of
              None \<Rightarrow> fail (raised ''UnicodeEncodeError'')
            | Some res \<Rightarrow>
                let sequence =
                  (case psn_evaluator_optimizer_resume s of
                     Some eo \<Rightarrow> int (length (eor_completed_steps eo))
                   | None \<Rightarrow> psn_step_index s)
                in andthen (emit_protocol_entry r (dec_int sequence) RESUME_ATTEMPTED (4 * sequence)
                     (Some (resume_result_json res))) (\<lambda>_.
                   if rsr_resumed res then go (Some (psn_step_index s))
                   else leave (answer r RUN_FAILED (Some (psn_step_index s)) None None
                                 (map_option PROTOCOL_FAILURE (rsr_fail_class res)) None, 0)))
      | _ \<Rightarrow> go None)"

text \<open>The key of the run is computed here; the one in the argument is ignored.\<close>

definition execute_workflow ::
  "'w strategies \<Rightarrow> 'w driver_run \<Rightarrow> pause_snapshot option \<Rightarrow> bool \<Rightarrow> ('w, run_result) driver_call" where
  "execute_workflow strategies r snapshot reconstruct s =
     (case
        andthen (world (dcx_drained (drn_ctx r))) (\<lambda>drained.
          if drained then leave (answer r RUN_DRAINED None None None None None, 0)
          else andthen (resume_paused r snapshot) (\<lambda>cursor.
            case compute_run_idempotency_key (drn_run_id r) (wme_workflow_id (drn_manifest r))
                   [dec_int (wme_entry_version (drn_manifest r))] of
              None \<Rightarrow> fail (raised ''UnicodeEncodeError'')
            | Some key \<Rightarrow>
                execute_workflow_body strategies (r\<lparr>drn_run_key := key\<rparr>) cursor
                  (if cursor = None then None else snapshot) reconstruct)) s
      of
        (Raise e, s') \<Rightarrow> (Inl e, s')
      | (Return res, s') \<Rightarrow> (Inr (fst res), s')
      | (Go res, s') \<Rightarrow> (Inr (fst res), s'))"

end
