(* ===== verification/Engine_Output_Journal.thy ===== *)
theory Engine_Output_Journal
  imports Engine_Output_Store
begin

text \<open>
  Crash consistency of the journals of \<open>Engine_Output_Store\<close>. A journal is written by appends of which a crash may
  leave any first part; what a reader finds in it is the records whose line was written whole, in order
  (\<open>documents_played\<close>), so the last complete record of a step, a branch or a synthesis is the one that is read.
\<close>

section \<open>The documents of a text\<close>

definition documents :: "output_env \<Rightarrow> pystr \<Rightarrow> dict list" where
  "documents env s = List.map_filter (load_dict env) (journal_lines s)"

lemma map_filter_append [simp]: "List.map_filter f (xs @ ys) = List.map_filter f xs @ List.map_filter f ys"
  by (simp add: List.map_filter_def)

lemma scan_lines_fold:
  "scan_lines (\<lambda>line. Option.bind (load_dict env line) accept) use ls acc =
   fold use (List.map_filter accept (List.map_filter (load_dict env) (filter (\<lambda>line. \<not> py_blank line) ls))) acc"
  by (induction ls arbitrary: acc) (auto simp: List.map_filter_def split: option.split)

lemma scan_documents:
  "scan_lines (\<lambda>line. Option.bind (load_dict env line) accept) use (splitlines s) acc =
   fold use (List.map_filter accept (documents env s)) acc"
  by (simp add: scan_lines_fold documents_def journal_lines_def)

lemma documents_append:
  "lf_text s \<Longrightarrow> s = [] \<or> last s = 10 \<Longrightarrow> documents env (s @ t) = documents env s @ documents env t"
  by (simp add: documents_def journal_lines_def splitlines_append)

lemma documents_Nil [simp]: "documents env [] = []"
  by (simp add: documents_def journal_lines_def List.map_filter_def)

lemma load_dict_Nil [simp]: "load_dict env [] = None"
  by (simp add: load_dict_def loads_def skip_ws_def numeral_eq_Suc)

lemma documents_line:
  "\<forall>c \<in> set l. \<not> line_break c \<Longrightarrow> documents env (l @ 10 # r) = (case load_dict env l of
     Some d \<Rightarrow> if py_blank l then [] else [d] | None \<Rightarrow> []) @ documents env r"
  by (simp add: documents_def journal_lines_def splitlines_line List.map_filter_def split: option.split)

lemma documents_single:
  "\<forall>c \<in> set l. \<not> line_break c \<Longrightarrow> documents env l = (case load_dict env l of
     Some d \<Rightarrow> if py_blank l then [] else [d] | None \<Rightarrow> [])"
  by (cases "l = []") (simp_all add: documents_def journal_lines_def splitlines_single List.map_filter_def split: option.split)

text \<open>A line end after an unfinished line changes nothing.\<close>

lemma documents_newline:
  assumes "lf_text s" "s = [] \<or> last s \<noteq> 10"
  shows "documents env (s @ [10]) = documents env s"
  using assms
proof (induction "length s" arbitrary: s rule: less_induct)
  case less
  show ?case
  proof (cases "\<forall>c \<in> set s. \<not> line_break c")
    case True
    then show ?thesis using documents_line [OF True, of env "[]"] by (simp add: documents_single)
  next
    case False
    then obtain a r where s: "s = a @ 10 # r" "\<forall>c \<in> set a. \<not> line_break c"
      using lf_text_cut [OF less.prems(1)] by blast
    then have "r \<noteq> [] \<and> last r \<noteq> 10" using less.prems(2) by (cases "r = []") simp_all
    then have "r \<noteq> []" "last r \<noteq> 10" by blast+
    moreover have "lf_text r" using less.prems(1) by (simp add: s lf_text_def)
    ultimately have "documents env (r @ [10]) = documents env r" by (intro less.hyps) (simp_all add: s)
    then show ?thesis using s(2) documents_line [OF s(2)] by (simp add: s)
  qed
qed

section \<open>One append\<close>

definition printable :: "pystr \<Rightarrow> bool" where
  "printable s \<longleftrightarrow> (\<forall>c \<in> set s. 32 \<le> c \<and> c < 127)"

lemma printable_no_break: "printable s \<Longrightarrow> \<forall>c \<in> set s. \<not> line_break c"
  by (fastforce simp: printable_def line_break_def)

text \<open>Lines that read as a dictionary when they are whole and as nothing when they are cut.\<close>

definition good_line :: "output_env \<Rightarrow> pystr \<Rightarrow> dict \<Rightarrow> bool" where
  "good_line env l d \<longleftrightarrow> printable l \<and> l \<noteq> [] \<and> hd l = 123 \<and> load_dict env l = Some d \<and>
     (\<forall>k < length l. load_dict env (take k l) = None)"

lemma good_line_not_blank: "good_line env l d \<Longrightarrow> \<not> py_blank l"
  by (cases l) (auto simp: good_line_def py_blank_def py_isspace_def)

lemma documents_cut_line:
  assumes l: "good_line env l d"
  shows "documents env (take k (l @ [10])) = (if length l \<le> k then [d] else [])"
proof -
  have nb: "\<forall>c \<in> set l. \<not> line_break c" using l printable_no_break by (auto simp: good_line_def)
  then have nbk: "\<forall>c \<in> set (take k l). \<not> line_break c" by (meson in_set_takeD)
  have d: "load_dict env l = Some d" "\<not> py_blank l" using l good_line_not_blank by (auto simp: good_line_def)
  consider "k < length l" | "k = length l" | "length l < k" by linarith
  then show ?thesis
  proof cases
    case 1
    then have "load_dict env (take k l) = None" using l by (simp add: good_line_def)
    then show ?thesis using 1 documents_single [OF nbk] by simp
  next
    case 2
    then show ?thesis using documents_single [OF nb] d by simp
  next
    case 3
    then show ?thesis using documents_line [OF nb, of env "[]"] d by simp
  qed
qed

lemma documents_cut_append:
  assumes s: "lf_text s" and l: "good_line env l d"
    and lead: "lead = (if s = [] \<or> last s = 10 then [] else [10]) \<or> s = [] \<and> lead = [10]"
  shows "documents env (s @ take k (lead @ l @ [10])) =
         documents env s @ (if length lead + length l \<le> k then [d] else [])"
proof -
  have lpos: "l \<noteq> []" using l by (simp add: good_line_def)
  consider (plain) "lead = []" "s = [] \<or> last s = 10" | (cut) "lead = [10]" "s = [] \<or> last s \<noteq> 10"
    using lead by (auto split: if_splits)
  then show ?thesis
  proof cases
    case plain
    then show ?thesis using documents_append [OF s plain(2)] documents_cut_line [OF l, of k] by simp
  next
    case cut
    show ?thesis
    proof (cases k)
      case 0
      then show ?thesis using lpos cut by simp
    next
      case (Suc j)
      have lf: "lf_text (s @ [10])" using s by (simp add: lf_text_def)
      have e: "s @ take k (lead @ l @ [10]) = (s @ [10]) @ take j (l @ [10])" using cut(1) Suc by simp
      have "documents env ((s @ [10]) @ take j (l @ [10])) =
          documents env (s @ [10]) @ documents env (take j (l @ [10]))"
        by (rule documents_append [OF lf]) simp
      then show ?thesis unfolding e documents_newline [OF s cut(2)] documents_cut_line [OF l] using cut(1) Suc by simp
    qed
  qed
qed

section \<open>Writes and crashes\<close>

text \<open>A write that ran to its end, and one of which a crash left the first \<open>k\<close> bytes.\<close>

datatype journal_write = Whole dict | Torn nat dict

fun written :: "journal_write \<Rightarrow> dict" where
  "written (Whole d) = d"
| "written (Torn k d) = d"

fun play :: "output_env \<Rightarrow> output_path \<Rightarrow> journal_write \<Rightarrow> output_files \<Rightarrow> output_files" where
  "play env path (Whole d) files = fst (append_path env path (record_line env d) files)"
| "play env path (Torn k d) files = torn_append env path k (record_line env d) files"

text \<open>Whether all of the line reached the file; the line end may be missing.\<close>

fun landed :: "output_env \<Rightarrow> output_path \<Rightarrow> output_files \<Rightarrow> journal_write \<Rightarrow> bool" where
  "landed env path files (Whole d) \<longleftrightarrow> True"
| "landed env path files (Torn k d) \<longleftrightarrow> length (appended_text env files path (record_line env d)) \<le> Suc k"

definition sorted_dict :: "dict \<Rightarrow> dict" where
  "sorted_dict d = sort_key fst (map (\<lambda>kv. (fst kv, sort_keys (snd kv))) d)"

lemma sort_keys_dict: "sort_keys (JObj d) = JObj (sorted_dict d)"
  by (simp add: sorted_dict_def)

declare sort_keys.simps(2) [simp del]

lemma record_line_good:
  assumes "wf_json (oue_floats env) (JObj d)" "printable_floats (oue_floats env)"
  shows "good_line env (record_line env d) (sorted_dict d)"
proof -
  have wf: "wf_json (oue_floats env) (JObj (sorted_dict d))"
    using wf_sort_keys [OF assms(1)] by (simp only: sort_keys_dict)
  let ?l = "record_line env d"
  have l: "?l = dumps (oue_floats env) spaced_ascii (JObj (sorted_dict d))" by (simp only: record_line_def sort_keys_dict)
  have "printable ?l"
    unfolding printable_def l using dumps_ascii_printable [OF assms(2), of spaced_ascii]
    by (auto simp: spaced_ascii_def simp del: dumps.simps)
  moreover have "load_dict env ?l = Some (sorted_dict d)"
    using loads_dumps [OF wf] by (simp add: load_dict_def l)
  moreover have "load_dict env (take k ?l) = None" if "k < length ?l" for k
    using loads_torn [OF wf, of "take k ?l" "drop k ?l" spaced_ascii] that by (simp add: load_dict_def l)
  moreover have "hd ?l = 123" "?l \<noteq> []" by (simp_all add: l)
  ultimately show ?thesis by (simp add: good_line_def)
qed

text \<open>A journal in the making: text of printable lines, kept as its bytes.\<close>

definition journal_text :: "pystr \<Rightarrow> bool" where
  "journal_text s \<longleftrightarrow> (\<forall>c \<in> set s. c = 10 \<or> 32 \<le> c \<and> c < 127)"

definition clean_journal :: "output_env \<Rightarrow> output_files \<Rightarrow> output_path \<Rightarrow> bool" where
  "clean_journal env files path \<longleftrightarrow>
     \<not> oue_unreadable env path \<and> (\<exists>s. journal_text s \<and> contents files path = map of_nat s)"

definition documents_at :: "output_env \<Rightarrow> output_files \<Rightarrow> output_path \<Rightarrow> dict list" where
  "documents_at env files path = (case read_journal env files path of None \<Rightarrow> [] | Some s \<Rightarrow> documents env s)"

lemma journal_text_lf: "journal_text s \<Longrightarrow> lf_text s"
  by (fastforce simp: journal_text_def lf_text_def line_break_def)

lemma journal_text_read:
  assumes "journal_text s"
  shows "read_text (map of_nat s) = Some s"
proof -
  have a: "\<forall>c \<in> set s. c < 128" using assms by (auto simp: journal_text_def)
  then have "map unat (map of_nat s :: bytes) = s" by (intro map_unat_of_nat) auto
  moreover have "utf8_decode False s = Some s" by (rule utf8_decode_codes [OF utf8_codes_ascii [OF a]])
  moreover have "13 \<notin> set s" using assms by (auto simp: journal_text_def)
  ultimately show ?thesis by (simp add: read_text_def universal_newlines_id del: map_map)
qed

lemma documents_at_text:
  assumes "\<not> oue_unreadable env path" "journal_text s" "contents files path = map of_nat s"
  shows "documents_at env files path = documents env s"
proof (cases "map_of files path")
  case None
  then have "s = []" using assms(3) by (simp add: contents_def)
  then show ?thesis using None by (simp add: documents_at_def read_journal_def)
next
  case (Some bs)
  then show ?thesis using assms journal_text_read [OF assms(2)]
    by (simp add: documents_at_def read_journal_def contents_def)
qed

lemma contents_update: "contents (AList.update path bs files) q = (if q = path then bs else contents files q)"
  by (simp add: contents_def update_conv')

lemma exists_update: "exists_path (AList.update path bs files) q \<longleftrightarrow> q = path \<or> exists_path files q"
  by (auto simp: exists_path_def update_conv')

lemma play_other: "q \<noteq> path \<Longrightarrow> map_of (play env path w files) q = map_of files q"
  by (cases w) (auto simp: append_path_def torn_append_def update_conv' split: option.split)

lemma play_exists: "exists_path (play env path w files) q \<longleftrightarrow> q = path \<or> exists_path files q"
  by (cases w) (auto simp: append_path_def torn_append_def exists_update split: option.split)

text \<open>The text a write leaves: the old text, a line end if the old text needs one, and the first characters of the
  new line.\<close>

lemma play_contents:
  assumes c: "clean_journal env files path"
    and wf: "wf_json (oue_floats env) (JObj (written w))" "printable_floats (oue_floats env)"
  obtains s lead k where "journal_text s" "contents files path = map of_nat s"
    "lead = (if s = [] \<or> last s = 10 then [] else [10]) \<or> s = [] \<and> lead = [10]"
    "journal_text (s @ take k (lead @ record_line env (written w) @ [10]))"
    "contents (play env path w files) path = map of_nat (s @ take k (lead @ record_line env (written w) @ [10]))"
    "length lead + length (record_line env (written w)) \<le> k \<longleftrightarrow> landed env path files w"
    "w = Whole (written w) \<longrightarrow> k = length lead + length (record_line env (written w)) + 1"
proof -
  obtain s where s: "journal_text s" "contents files path = map of_nat s" and r: "\<not> oue_unreadable env path"
    using c by (auto simp: clean_journal_def)
  let ?l = "record_line env (written w)" and ?a = "appended_text env files path (record_line env (written w))"
  define lead where "lead = (if needs_leading_newline env files path then [10] else [] :: pystr)"
  have a: "?a = lead @ ?l @ [10]" by (simp add: appended_text_def lead_def)
  have lp: "\<forall>c \<in> set ?l. 32 \<le> c \<and> c < 127" using record_line_good [OF wf] by (auto simp: good_line_def printable_def)
  then have ja: "journal_text ?a" by (auto simp: journal_text_def a lead_def)
  then have "\<forall>c \<in> set ?a. c < 128" by (auto simp: journal_text_def)
  then have enc: "utf8_encode ?a = Some (map of_nat ?a)" by (rule utf8_encode_ascii)
  define k where "k = (case w of Whole d \<Rightarrow> length ?a | Torn k d \<Rightarrow> k)"
  have files': "play env path w files = AList.update path (map of_nat (s @ take k ?a)) files"
    using enc s(2) by (cases w) (simp_all add: append_path_def torn_append_def k_def take_map)
  have js: "journal_text (s @ take k ?a)" using s(1) ja by (auto simp: journal_text_def dest: in_set_takeD)
  have cont: "contents (play env path w files) path = map of_nat (s @ take k ?a)"
    by (simp add: files' contents_update)
  have lastb: "last (map of_nat s :: bytes) = 10 \<longleftrightarrow> last s = 10" if "s \<noteq> []"
  proof -
    have "last s < 256" using s(1) last_in_set [OF that] by (auto simp: journal_text_def)
    then have u: "unat (of_nat (last s) :: 8 word) = last s" by (simp add: unat_of_nat take_bit_eq_mod)
    have "of_nat (last s) = (10 :: 8 word) \<longleftrightarrow> unat (of_nat (last s) :: 8 word) = unat (10 :: 8 word)"
      by (rule word_unat_eq_iff)
    then show ?thesis using that u by (simp add: last_map)
  qed
  have lead: "lead = (if s = [] \<or> last s = 10 then [] else [10]) \<or> s = [] \<and> lead = [10]"
  proof (cases "s = []")
    case False
    then have "exists_path files path" using s(2) by (auto simp: exists_path_def contents_def split: option.splits)
    then show ?thesis using False lastb r s(2)
      by (simp add: lead_def needs_leading_newline_def last_byte_is_not_newline_def)
  qed (simp add: lead_def)
  have k: "length lead + length ?l \<le> k \<longleftrightarrow> landed env path files w"
    using a by (cases w) (simp_all add: k_def)
  have "k = length lead + length ?l + 1" if "w = Whole (written w)"
    using that a by (cases w) (simp_all add: k_def)
  then show thesis using that [OF s lead, of k] js cont k unfolding a by blast
qed

lemma play_step:
  assumes c: "clean_journal env files path"
    and wf: "wf_json (oue_floats env) (JObj (written w))" "printable_floats (oue_floats env)"
  shows "clean_journal env (play env path w files) path"
    and "documents_at env (play env path w files) path =
         documents_at env files path @ (if landed env path files w then [sorted_dict (written w)] else [])"
proof -
  obtain s lead k where
    s: "journal_text s" "contents files path = map of_nat s"
    and lead: "lead = (if s = [] \<or> last s = 10 then [] else [10]) \<or> s = [] \<and> lead = [10]"
    and js: "journal_text (s @ take k (lead @ record_line env (written w) @ [10]))"
    and cont: "contents (play env path w files) path = map of_nat (s @ take k (lead @ record_line env (written w) @ [10]))"
    and k: "length lead + length (record_line env (written w)) \<le> k \<longleftrightarrow> landed env path files w"
    and "w = Whole (written w) \<longrightarrow> k = length lead + length (record_line env (written w)) + 1"
    by (rule play_contents [OF assms])
  have r: "\<not> oue_unreadable env path" using c by (simp add: clean_journal_def)
  show "clean_journal env (play env path w files) path"
    unfolding clean_journal_def using r js cont by blast
  show "documents_at env (play env path w files) path =
      documents_at env files path @ (if landed env path files w then [sorted_dict (written w)] else [])"
    using documents_cut_append [OF journal_text_lf [OF s(1)] record_line_good [OF wf] lead, of k]
    by (simp only: documents_at_text [OF r js cont] documents_at_text [OF r s] k)
qed

text \<open>After a whole write the last line of the journal is the record.\<close>

lemma marker_whole:
  assumes c: "clean_journal env files path"
    and wf: "wf_json (oue_floats env) (JObj d)" "printable_floats (oue_floats env)"
  shows "marker_record env (play env path (Whole d) files) path = Some (sorted_dict d)"
proof -
  let ?l = "record_line env d"
  obtain s lead k where
    s: "journal_text s" "contents files path = map of_nat s"
    and lead: "lead = (if s = [] \<or> last s = 10 then [] else [10]) \<or> s = [] \<and> lead = [10]"
    and js: "journal_text (s @ take k (lead @ ?l @ [10]))"
    and cont: "contents (play env path (Whole d) files) path = map of_nat (s @ take k (lead @ ?l @ [10]))"
    and "length lead + length ?l \<le> k \<longleftrightarrow> landed env path files (Whole d)"
    and k: "Whole d = Whole d \<longrightarrow> k = length lead + length ?l + 1"
    by (rule play_contents [OF c, of "Whole d", unfolded written.simps, OF wf])
  note g = record_line_good [OF wf]
  have t: "s @ take k (lead @ ?l @ [10]) = (s @ lead) @ ?l @ [10]" using k by simp
  have "lf_text (s @ lead)" using journal_text_lf [OF s(1)] lead by (auto simp: lf_text_def split: if_splits)
  moreover have "s @ lead = [] \<or> last (s @ lead) = 10" using lead by (auto split: if_splits)
  moreover have "\<forall>c \<in> set ?l. \<not> line_break c" using g printable_no_break by (auto simp: good_line_def)
  ultimately have sp: "splitlines ((s @ lead) @ ?l @ [10]) = splitlines (s @ lead) @ [?l]"
    using splitlines_line [of ?l "[]"] by (simp add: splitlines_append del: append_assoc)
  obtain bs where bs: "map_of (play env path (Whole d) files) path = Some bs"
    using play_exists [of env path "Whole d" files path] by (auto simp: exists_path_def)
  then have "bs = map of_nat ((s @ lead) @ ?l @ [10])" using cont unfolding t by (simp add: contents_def)
  then have "read_journal env (play env path (Whole d) files) path = Some ((s @ lead) @ ?l @ [10])"
    using bs c journal_text_read [OF js] unfolding t read_journal_def clean_journal_def by (simp del: map_append)
  then show ?thesis using sp g by (simp add: marker_record_def good_line_def del: append_assoc)
qed

end
