(* ===== verification/Engine_Output_Correctness.thy ===== *)
theory Engine_Output_Correctness
  imports Engine_Output_Journal
begin

text \<open>
  What the journals of a run answer after any history of writes and crashes. \<open>run_store\<close> plays the operations of
  \<open>EngineOutputStore\<close> for one run, each whole or cut by a crash; \<open>survivors\<close> are the writes whose line reached the
  disk. Readers are an interface: \<open>journal_reader\<close> says what a reader takes from the dictionary a writer made, and
  its lemmas give the answer of a last-record-wins journal.
\<close>

section \<open>Histories\<close>

datatype store_write =
    STEP_OUTPUT int pystr dict
  | BRANCH_END int pystr pystr "dict option"
  | ORCHESTRATOR_OUTPUT pystr dict
  | CARDINALITY int
  | BRANCH_DISPATCHED int pystr pystr "bool option" "pystr option"
  | INSTRUMENTED
  | ORCHESTRATOR_DISPATCHED pystr pystr "bool option" "pystr option" "bool option"
  | SYNTHESIS pystr dict pystr
  | FINALIZED

fun perform :: "output_env \<Rightarrow> pystr \<Rightarrow> store_write \<Rightarrow> output_files \<Rightarrow> output_files \<times> bool" where
  "perform env rk (STEP_OUTPUT i sid out) = record_output env rk i sid out"
| "perform env rk (BRANCH_END i sid st out) = record_branch env rk i sid st out"
| "perform env rk (ORCHESTRATOR_OUTPUT sid out) = record_orchestrator env rk sid out"
| "perform env rk (CARDINALITY n) = record_fanout_cardinality env rk n"
| "perform env rk (BRANCH_DISPATCHED i sid kind rec eng) = record_branch_dispatched env rk i sid kind rec eng None"
| "perform env rk INSTRUMENTED = record_dispatch_instrumented env rk"
| "perform env rk (ORCHESTRATOR_DISPATCHED sid kind rec eng pu) =
     record_orchestrator_dispatched env rk sid kind rec eng pu"
| "perform env rk (SYNTHESIS sid out h) = record_synthesis env rk sid out h"
| "perform env rk FINALIZED = record_reconciler_fanout_resume_finalized env rk"

fun write_dict :: "store_write \<Rightarrow> dict" where
  "write_dict (STEP_OUTPUT i sid out) = step_record i sid out"
| "write_dict (BRANCH_END i sid st out) = branch_record sid st out"
| "write_dict (ORCHESTRATOR_OUTPUT sid out) = orchestrator_record sid out"
| "write_dict (CARDINALITY n) = [(lit ''branch_count'', JInt n)]"
| "write_dict (BRANCH_DISPATCHED i sid kind rec eng) = dispatched_record sid kind rec eng"
| "write_dict INSTRUMENTED = [(lit ''instrumented'', JBool True)]"
| "write_dict (ORCHESTRATOR_DISPATCHED sid kind rec eng pu) =
     dispatched_record sid kind rec eng @ opt_member ''proceed_unstamped'' JBool pu"
| "write_dict (SYNTHESIS sid out h) = synthesis_record sid out h"
| "write_dict FINALIZED = [(lit ''reconciler_fanout_resume_finalized'', JBool True)]"

fun write_name :: "store_write \<Rightarrow> pystr option" where
  "write_name (STEP_OUTPUT i sid out) = None"
| "write_name (BRANCH_END i sid st out) = Some (lit ''branch-'' @ dec_int i @ lit ''.jsonl'')"
| "write_name (ORCHESTRATOR_OUTPUT sid out) = Some (lit ''orchestrator.jsonl'')"
| "write_name (CARDINALITY n) = Some (lit ''cardinality.jsonl'')"
| "write_name (BRANCH_DISPATCHED i sid kind rec eng) = Some (lit ''branch-'' @ dec_int i @ lit ''.dispatched'')"
| "write_name INSTRUMENTED = Some (lit ''dispatch-instrumented.marker'')"
| "write_name (ORCHESTRATOR_DISPATCHED sid kind rec eng pu) = Some (lit ''orchestrator.dispatched'')"
| "write_name (SYNTHESIS sid out h) = Some (lit ''synthesis.jsonl'')"
| "write_name FINALIZED = Some (lit ''reconciler-fanout-resume-finalized.marker'')"

text \<open>The file of a run with a given digest that a name stands for; no name is the linear journal.\<close>

definition run_path :: "pystr \<Rightarrow> pystr option \<Rightarrow> output_path" where
  "run_path dg name =
     (case name of None \<Rightarrow> (None, dg @ lit ''.jsonl'') | Some n \<Rightarrow> (Some (dg @ ENGINE_OUTPUT_BRANCHES_SUFFIX), n))"

lemma perform_append:
  assumes "run_digest rk = Some dg"
  shows "perform env rk w files = append_path env (run_path dg (write_name w)) (record_line env (write_dict w)) files"
  using assms
  by (cases w) (simp_all add: record_output_def record_branch_def record_orchestrator_def record_fanout_cardinality_def
    record_branch_dispatched_def record_dispatch_instrumented_def record_orchestrator_dispatched_def record_synthesis_def
    record_reconciler_fanout_resume_finalized_def append_record_def journal_file_def branch_file_def
    orchestrator_file_def cardinality_file_def branch_dispatched_file_def dispatch_instrumented_file_def
    orchestrator_dispatched_file_def synthesis_file_def reconciler_fanout_resume_finalized_file_def
    in_branches_def branches_dir_def run_path_def del: lit_Cons)

text \<open>One event: a write that ran to its end, or of which a crash left the first bytes.\<close>

definition journal_write_of :: "store_write \<times> nat option \<Rightarrow> journal_write" where
  "journal_write_of e = (case snd e of None \<Rightarrow> Whole (write_dict (fst e)) | Some k \<Rightarrow> Torn k (write_dict (fst e)))"

definition store_step :: "output_env \<Rightarrow> pystr \<Rightarrow> store_write \<times> nat option \<Rightarrow> output_files \<Rightarrow> output_files" where
  "store_step env rk e files =
     (case snd e of
        None \<Rightarrow> fst (perform env rk (fst e) files)
      | Some k \<Rightarrow>
          (case run_digest rk of
             None \<Rightarrow> files
           | Some dg \<Rightarrow> torn_append env (run_path dg (write_name (fst e))) k (record_line env (write_dict (fst e))) files))"

fun run_store :: "output_env \<Rightarrow> pystr \<Rightarrow> (store_write \<times> nat option) list \<Rightarrow> output_files \<Rightarrow> output_files" where
  "run_store env rk [] files = files"
| "run_store env rk (e # es) files = run_store env rk es (store_step env rk e files)"

definition survives :: "output_env \<Rightarrow> pystr \<Rightarrow> store_write \<times> nat option \<Rightarrow> output_files \<Rightarrow> bool" where
  "survives env rk e files \<longleftrightarrow>
     (case (snd e, run_digest rk) of
        (Some k, Some dg) \<Rightarrow>
          length (appended_text env files (run_path dg (write_name (fst e))) (record_line env (write_dict (fst e)))) \<le> Suc k
      | _ \<Rightarrow> True)"

fun survivors :: "output_env \<Rightarrow> pystr \<Rightarrow> (store_write \<times> nat option) list \<Rightarrow> output_files \<Rightarrow> store_write list" where
  "survivors env rk [] files = []"
| "survivors env rk (e # es) files =
     (if survives env rk e files then [fst e] else []) @ survivors env rk es (store_step env rk e files)"

text \<open>Reads succeed, floats print in ASCII, and every record is a JSON document.\<close>

definition history_ok :: "output_env \<Rightarrow> (store_write \<times> nat option) list \<Rightarrow> bool" where
  "history_ok env es \<longleftrightarrow>
     (\<forall>p. \<not> oue_unreadable env p) \<and> printable_floats (oue_floats env) \<and>
     (\<forall>e \<in> set es. wf_json (oue_floats env) (JObj (write_dict (fst e))))"

text \<open>None of the files of the run exists yet.\<close>

definition fresh_run :: "pystr \<Rightarrow> output_files \<Rightarrow> bool" where
  "fresh_run dg files \<longleftrightarrow>
     (\<forall>(p, bs) \<in> set files. p \<noteq> run_path dg None \<and> fst p \<noteq> Some (dg @ ENGINE_OUTPUT_BRANCHES_SUFFIX))"

lemma store_step_play:
  assumes "run_digest rk = Some dg"
  shows "store_step env rk e files = play env (run_path dg (write_name (fst e))) (journal_write_of e) files"
    and "survives env rk e files = landed env (run_path dg (write_name (fst e))) files (journal_write_of e)"
  using assms
  by (cases "snd e"; simp add: store_step_def survives_def journal_write_of_def perform_append [OF assms])+

lemma written_event [simp]: "written (journal_write_of e) = write_dict (fst e)"
  by (simp add: journal_write_of_def split: option.split)

lemma history_ok_Cons: "history_ok env (e # es) \<Longrightarrow> history_ok env es"
  by (simp add: history_ok_def)

lemma store_step_clean:
  assumes dg: "run_digest rk = Some dg" and h: "history_ok env (e # es)" and c: "\<forall>n. clean_journal env files (run_path dg n)"
  shows "clean_journal env (store_step env rk e files) (run_path dg n)"
proof (cases "run_path dg n = run_path dg (write_name (fst e))")
  case True
  with play_step(1) [of env files "run_path dg n" "journal_write_of e"] h c show ?thesis
    by (simp add: store_step_play(1) [OF dg] history_ok_def)
next
  case False
  then show ?thesis using c play_other [OF False, of env "journal_write_of e" files]
    by (simp add: store_step_play(1) [OF dg] clean_journal_def contents_def)
qed

lemma run_path_inj: "run_path dg m = run_path dg n \<longleftrightarrow> m = n"
  by (auto simp: run_path_def split: option.splits)

text \<open>What a journal of the run holds: what it held, and the surviving writes to it in order.\<close>

lemma documents_run:
  assumes dg: "run_digest rk = Some dg" and h: "history_ok env es" and c: "\<forall>n. clean_journal env files (run_path dg n)"
  shows "documents_at env (run_store env rk es files) (run_path dg n) =
         documents_at env files (run_path dg n)
         @ map (\<lambda>w. sorted_dict (write_dict w)) (filter (\<lambda>w. write_name w = n) (survivors env rk es files))"
  using h c
proof (induction es arbitrary: files)
  case (Cons e es)
  let ?f = "store_step env rk e files"
  have IH: "documents_at env (run_store env rk es ?f) (run_path dg n) = documents_at env ?f (run_path dg n)
         @ map (\<lambda>w. sorted_dict (write_dict w)) (filter (\<lambda>w. write_name w = n) (survivors env rk es ?f))"
    using Cons.prems by (intro Cons.IH history_ok_Cons [OF Cons.prems(1)]) (blast intro: store_step_clean [OF dg])
  have "documents_at env ?f (run_path dg n) = documents_at env files (run_path dg n)
      @ (if write_name (fst e) = n \<and> survives env rk e files then [sorted_dict (write_dict (fst e))] else [])"
  proof (cases "write_name (fst e) = n")
    case True
    with play_step(2) [of env files "run_path dg n" "journal_write_of e"] Cons.prems show ?thesis
      by (simp add: store_step_play [OF dg] history_ok_def)
  next
    case False
    then have "run_path dg n \<noteq> run_path dg (write_name (fst e))" by (simp add: run_path_inj)
    from play_other [OF this, of env "journal_write_of e" files] False show ?thesis
      by (simp add: store_step_play(1) [OF dg] documents_at_def read_journal_def)
  qed
  with IH show ?case by simp
qed simp

lemma exists_run:
  assumes "run_digest rk = Some dg"
  shows "exists_path (run_store env rk es files) (run_path dg n) \<longleftrightarrow>
         exists_path files (run_path dg n) \<or> (\<exists>e \<in> set es. write_name (fst e) = n)"
proof (induction es arbitrary: files)
  case (Cons e es)
  then show ?case
    by (auto simp: store_step_play(1) [OF assms] play_exists run_path_inj)
qed simp

lemma fresh_path:
  assumes "fresh_run dg files"
  shows "map_of files (run_path dg n) = None"
proof (rule ccontr)
  assume "map_of files (run_path dg n) \<noteq> None"
  then obtain bs where "(run_path dg n, bs) \<in> set files" by (metis map_of_SomeD not_None_eq)
  then show False using assms by (cases n) (fastforce simp: fresh_run_def run_path_def)+
qed

lemma fresh_clean: "fresh_run dg files \<Longrightarrow> history_ok env es \<Longrightarrow> clean_journal env files (run_path dg n)"
  using fresh_path [of dg files n]
  by (simp add: clean_journal_def contents_def history_ok_def journal_text_def del: split_paired_All)

lemma fresh_documents: "fresh_run dg files \<Longrightarrow> documents_at env files (run_path dg n) = []"
  using fresh_path [of dg files n] by (simp add: documents_at_def read_journal_def)

lemma fresh_run_documents:
  assumes "run_digest rk = Some dg" "history_ok env es" "fresh_run dg files"
  shows "documents_at env (run_store env rk es files) (run_path dg n) =
         map (\<lambda>w. sorted_dict (write_dict w)) (filter (\<lambda>w. write_name w = n) (survivors env rk es files))"
  using documents_run [OF assms(1,2), of files n] fresh_clean [OF assms(3,2)] fresh_documents [OF assms(3)] by simp

section \<open>Readers\<close>

text \<open>The interface of a reader: it takes from the dictionary of a write what the write said.\<close>

locale journal_reader =
  fixes accept :: "dict \<Rightarrow> 'r option"
    and render :: "'w \<Rightarrow> dict"
    and view :: "'w \<Rightarrow> 'r"
    and valid :: "'w \<Rightarrow> bool"
  assumes accepts: "valid w \<Longrightarrow> accept (sorted_dict (render w)) = Some (view w)"
begin

lemma accepted: "\<forall>w \<in> set ws. valid w \<Longrightarrow> List.map_filter accept (map (\<lambda>w. sorted_dict (render w)) ws) = map view ws"
  by (induction ws) (simp_all add: List.map_filter_def accepts)

lemma last_accepted:
  assumes "\<forall>w \<in> set ws. valid w"
  shows "fold (\<lambda>r _. Some r) (List.map_filter accept (map (\<lambda>w. sorted_dict (render w)) ws)) None =
         (if ws = [] then None else Some (view (last ws)))"
  unfolding accepted [OF assms] by (cases ws rule: rev_cases) simp_all

end

lemma map_of_sorted: "distinct (map fst d) \<Longrightarrow> map_of (sorted_dict d) k = map_option sort_keys (map_of d k)"
proof -
  assume d: "distinct (map fst d)"
  let ?d = "map (\<lambda>kv. (fst kv, sort_keys (snd kv))) d"
  have "map_of ?d k = map_option sort_keys (map_of d k)" by (induction d) auto
  moreover have "distinct (map fst ?d)" using d by (simp add: comp_def)
  ultimately show ?thesis unfolding sorted_dict_def by (simp add: map_of_sort_key)
qed

interpretation step_reader: journal_reader accept_step "\<lambda>(i, sid, out). step_record i sid out"
    "\<lambda>(i, sid, out). (i, sid, sorted_dict out)" "\<lambda>_. True"
  by unfold_locales
    (auto simp: accept_step_def str_member_def dict_member_def map_of_sorted step_record_def sort_keys_dict)

interpretation output_reader: journal_reader accept_output "\<lambda>(sid, out). orchestrator_record sid out"
    "\<lambda>(sid, out). (sid, sorted_dict out)" "\<lambda>_. True"
  by unfold_locales
    (auto simp: accept_output_def str_member_def dict_member_def map_of_sorted orchestrator_record_def sort_keys_dict)

interpretation synthesis_reader: journal_reader accept_synthesis "\<lambda>(sid, out, h). synthesis_record sid out h"
    "\<lambda>(sid, out, h). (sid, sorted_dict out, h)" "\<lambda>_. True"
  by unfold_locales
    (auto simp: accept_synthesis_def str_member_def dict_member_def map_of_sorted synthesis_record_def sort_keys_dict)

interpretation cardinality_reader: journal_reader accept_cardinality "\<lambda>n. [(lit ''branch_count'', JInt n)]" id "\<lambda>_. True"
  by unfold_locales (simp add: accept_cardinality_def map_of_sorted)

text \<open>The dispositions the driver records: a scoped abort has no output.\<close>

definition known_disposition :: "pystr \<Rightarrow> dict option \<Rightarrow> bool" where
  "known_disposition st out \<longleftrightarrow>
     st \<in> {lit ''completed'', lit ''timed_out''} \<or> st = lit ''scoped_aborted'' \<and> out = None"

interpretation disposition_reader: journal_reader accept_disposition "\<lambda>(sid, st, out). branch_record sid st out"
    "\<lambda>(sid, st, out). (sid, st, map_option sorted_dict out)" "\<lambda>(sid, st, out). known_disposition st out"
proof (unfold_locales, clarify)
  fix sid st and out :: "dict option"
  assume "known_disposition st out"
  then show "accept_disposition (sorted_dict (branch_record sid st out)) = Some (sid, st, map_option sorted_dict out)"
    by (cases out) (auto simp: accept_disposition_def known_disposition_def map_of_sorted branch_record_def sort_keys_dict)
qed

section \<open>The linear journal\<close>

fun step_of :: "store_write \<Rightarrow> (int \<times> pystr \<times> dict) option" where
  "step_of (STEP_OUTPUT i sid out) = Some (i, sid, out)"
| "step_of _ = None"

lemma step_of_name: "step_of w = None \<longleftrightarrow> write_name w \<noteq> None"
  by (cases w) simp_all

lemma filter_steps:
  "map (\<lambda>w. sorted_dict (write_dict w)) (filter (\<lambda>w. write_name w = None) ws) =
   map (\<lambda>x. sorted_dict (case x of (i, sid, out) \<Rightarrow> step_record i sid out)) (List.map_filter step_of ws)"
proof (induction ws)
  case (Cons w ws)
  then show ?case by (cases w) (simp_all add: List.map_filter_def)
qed (simp add: List.map_filter_def)

text \<open>The last record of every step among some writes.\<close>

definition last_outputs :: "store_write list \<Rightarrow> int \<rightharpoonup> pystr \<times> dict" where
  "last_outputs ws =
     fold (\<lambda>w m. case step_of w of None \<Rightarrow> m | Some (i, sid, out) \<Rightarrow> m(i \<mapsto> (sid, sorted_dict out))) ws Map.empty"

lemma read_outputs_documents:
  assumes "run_digest rk = Some dg"
  shows "read_outputs env rk files =
         Some (fold (\<lambda>(i, sid, out) m. m(i \<mapsto> (sid, out))) (List.map_filter accept_step (documents_at env files (run_path dg None))) Map.empty)"
  using assms
  by (cases "read_journal env files (run_path dg None)")
    (simp_all add: read_outputs_def journal_file_def run_path_def documents_at_def scan_documents List.map_filter_def)

lemma fold_steps:
  "fold (\<lambda>(i, sid, out) m. m(i \<mapsto> (sid, out))) (map (\<lambda>(i, sid, out). (i, sid, sorted_dict out)) (List.map_filter step_of ws)) m =
   fold (\<lambda>w m. case step_of w of None \<Rightarrow> m | Some (i, sid, out) \<Rightarrow> m(i \<mapsto> (sid, sorted_dict out))) ws m"
  by (induction ws arbitrary: m) (auto simp: List.map_filter_def split: option.split prod.split)

text \<open>
  Property C38. After any history of writes and crashes in a run whose journals did not exist, the linear journal
  answers with the last record of every step whose line reached the disk whole, and with nothing else: a torn line
  is skipped, is never joined with the next record, and never hides an earlier record.
\<close>

theorem read_outputs_crash_consistent:
  assumes "run_digest rk = Some dg" "history_ok env es" "fresh_run dg files"
  shows "read_outputs env rk (run_store env rk es files) = Some (last_outputs (survivors env rk es files))"
  using fresh_run_documents [OF assms, of None] step_reader.accepted [of "List.map_filter step_of (survivors env rk es files)"]
  by (simp add: read_outputs_documents [OF assms(1)] filter_steps last_outputs_def fold_steps)

section \<open>Branches of a fan-out\<close>

lemma int_digits_append:
  "list_all is_digit ds \<Longrightarrow> ds \<noteq> [] \<or> b \<Longrightarrow> int_digits b acc ds = Some (foldl (\<lambda>n d. n * 10 + (d - 48)) acc ds)"
  by (induction ds arbitrary: b acc) (auto simp: is_digit_def)

lemma int_digits_dec_nat: "int_digits False 0 (dec_nat n) = Some n"
  using int_digits_append [of "dec_nat n" False 0] dec_nat_digits [of n] digits_val_dec_nat [of n]
  by (simp add: digits_val_def)

lemma strip_no_space: "s \<noteq> [] \<Longrightarrow> \<not> py_isspace (hd s) \<Longrightarrow> \<not> py_isspace (last s) \<Longrightarrow> py_strip s = s"
proof -
  assume "s \<noteq> []" "\<not> py_isspace (hd s)" "\<not> py_isspace (last s)"
  then have "dropWhile py_isspace s = s" "dropWhile py_isspace (rev s) = rev s"
    by (simp_all add: dropWhile_eq_self_iff hd_rev)
  then show ?thesis by (simp only: py_strip_def rev_rev_ident)
qed

lemma py_int_dec_int: "py_int (dec_int i) = Some i"
proof -
  have d: "list_all is_digit (dec_nat n)" "dec_nat n \<noteq> []" for n using dec_nat_digits by auto
  then have h: "is_digit (hd (dec_nat n))" "is_digit (last (dec_nat n))" for n
    using hd_in_set [OF d(2)] last_in_set [OF d(2)] d(1) unfolding list_all_iff by blast+
  have sp: "\<not> py_isspace c" if "is_digit c \<or> c = 45" for c using that by (auto simp: is_digit_def py_isspace_def)
  have "py_strip (dec_int i) = dec_int i"
    using h d by (intro strip_no_space sp) (auto simp: dec_int_def)
  moreover obtain c cs where c: "dec_nat (nat i) = c # cs" "is_digit c"
    using d(2) [of "nat i"] h(1) [of "nat i"] by (cases "dec_nat (nat i)") auto
  ultimately show ?thesis
    using int_digits_dec_nat [of "nat i"] int_digits_dec_nat [of "nat (- i)"]
    by (auto simp: py_int_def dec_int_def is_digit_def)
qed

lemma dec_int_inject: "dec_int i = dec_int j \<longleftrightarrow> i = j"
  by (metis option.inject py_int_dec_int)

definition branch_name :: "pystr \<Rightarrow> int \<Rightarrow> pystr" where
  "branch_name suffix i = lit ''branch-'' @ dec_int i @ suffix"

lemma index_from_branch_name: "index_from_name suffix (branch_name suffix i) = Some i"
  by (simp add: index_from_name_def branch_name_def py_startswith_def py_endswith_def py_int_dec_int del: lit_Cons)

lemma in_keys_exists: "p \<in> fst ` set files \<longleftrightarrow> exists_path files p"
  by (metis exists_path_def map_of_eq_None_iff)

lemma glob_branches_iff:
  "(i, p) \<in> set (glob_branches suffix index dir files) \<longleftrightarrow>
   (\<exists>name. p = (Some dir, name) \<and> exists_path files p \<and> py_startswith name (lit ''branch-'') \<and>
      py_endswith name suffix \<and> length (lit ''branch-'') + length suffix \<le> length name \<and> index name = Some i)"
proof -
  have "(i, p) \<in> set (glob_branches suffix index dir files) \<longleftrightarrow>
    (\<exists>q \<in> fst ` set files. case q of (d, name) \<Rightarrow> d = Some dir \<and> py_startswith name (lit ''branch-'') \<and> py_endswith name suffix
       \<and> length (lit ''branch-'') + length suffix \<le> length name \<and> index name = Some i \<and> p = (d, name))"
    by (force simp: glob_branches_def List.map_filter_def split: if_splits simp del: lit_Cons)
  also have "\<dots> \<longleftrightarrow> (\<exists>name. p = (Some dir, name) \<and> p \<in> fst ` set files \<and> py_startswith name (lit ''branch-'') \<and>
      py_endswith name suffix \<and> length (lit ''branch-'') + length suffix \<le> length name \<and> index name = Some i)"
    by (force simp del: lit_Cons)
  finally show ?thesis by (simp only: in_keys_exists)
qed

lemma fold_glob:
  assumes "\<forall>(i, p) \<in> set xs. p = g i"
  shows "fold (\<lambda>(i, p) m. case f p of None \<Rightarrow> m | Some r \<Rightarrow> m(i \<mapsto> r)) xs m =
         (\<lambda>i. if i \<in> fst ` set xs \<and> f (g i) \<noteq> None then f (g i) else m i)"
  using assms
proof (induction xs arbitrary: m)
  case (Cons x xs)
  obtain i p where x: "x = (i, p)" by fastforce
  with Cons.prems have "p = g i" by simp
  with Cons.IH Cons.prems x show ?case by (auto simp: fun_eq_iff split: option.split)
qed simp

lemma py_endswith_last: "py_endswith s p \<Longrightarrow> p \<noteq> [] \<Longrightarrow> last s = last p"
  by (metis append_take_drop_id last_appendR py_endswith_def)

lemma branch_end_name:
  assumes "write_name w = Some n" "py_startswith n (lit ''branch-'')" "py_endswith n (lit ''.jsonl'')"
  shows "\<exists>i sid st out. w = BRANCH_END i sid st out"
  using assms py_endswith_last [OF assms(3)] by (cases w) (auto simp: py_startswith_def)

lemma branch_dispatched_name:
  assumes "write_name w = Some n" "py_startswith n (lit ''branch-'')" "py_endswith n (lit ''.dispatched'')"
  shows "\<exists>i sid kind rec eng. w = BRANCH_DISPATCHED i sid kind rec eng"
  using assms py_endswith_last [OF assms(3)] by (cases w) (auto simp: py_startswith_def)

lemma branch_name_eq: "lit ''branch-'' @ dec_int i @ suffix = branch_name suffix i"
  by (simp add: branch_name_def)

lemma branch_name_inject: "branch_name suffix i = branch_name suffix j \<longleftrightarrow> i = j"
  by (simp add: branch_name_def dec_int_inject del: lit_Cons)

lemma branch_name_matches:
  "py_startswith (branch_name suffix i) (lit ''branch-'')" "py_endswith (branch_name suffix i) suffix"
  "length (lit ''branch-'') + length suffix \<le> length (branch_name suffix i)"
  by (simp_all add: branch_name_def py_startswith_def py_endswith_def del: lit_Cons)

text \<open>The branch files a history leaves, for a kind of write that names its file after a branch.\<close>

lemma glob_run:
  assumes dg: "run_digest rk = Some dg" and f: "fresh_run dg files"
    and names: "\<And>w n. write_name w = Some n \<Longrightarrow> py_startswith n (lit ''branch-'') \<Longrightarrow> py_endswith n suffix \<Longrightarrow>
        \<exists>i. kind i w \<and> n = branch_name suffix i"
    and kind: "\<And>i w. kind i w \<Longrightarrow> write_name w = Some (branch_name suffix i)"
  shows "(i, p) \<in> set (glob_branches suffix (index_from_name suffix) (dg @ ENGINE_OUTPUT_BRANCHES_SUFFIX) (run_store env rk es files)) \<longleftrightarrow>
         p = run_path dg (Some (branch_name suffix i)) \<and> (\<exists>e \<in> set es. kind i (fst e))"
proof -
  have ex: "exists_path (run_store env rk es files) (run_path dg (Some n)) \<longleftrightarrow> (\<exists>e \<in> set es. write_name (fst e) = Some n)" for n
    using exists_run [OF dg, of env es files "Some n"] fresh_path [OF f, of "Some n"] by (simp add: exists_path_def)
  have rp: "(Some (dg @ ENGINE_OUTPUT_BRANCHES_SUFFIX), n) = run_path dg (Some n)" for n by (simp add: run_path_def)
  show ?thesis
    unfolding glob_branches_iff rp
  proof safe
    fix n
    assume e: "exists_path (run_store env rk es files) (run_path dg (Some n))" and n: "py_startswith n (lit ''branch-'')"
      "py_endswith n suffix" and i: "index_from_name suffix n = Some i"
    then obtain e where e: "e \<in> set es" "write_name (fst e) = Some n" using ex by blast
    obtain j where j: "kind j (fst e)" "n = branch_name suffix j" using names [OF e(2) n] by blast
    then have "j = i" using i by (simp add: index_from_branch_name)
    with j e show "run_path dg (Some n) = run_path dg (Some (branch_name suffix i))" "\<exists>e \<in> set es. kind i (fst e)" by auto
  next
    fix e
    assume "e \<in> set es" "kind i (fst e)"
    then have "exists_path (run_store env rk es files) (run_path dg (Some (branch_name suffix i)))"
      using ex kind by blast
    then show "\<exists>n. run_path dg (Some (branch_name suffix i)) = run_path dg (Some n) \<and>
        exists_path (run_store env rk es files) (run_path dg (Some (branch_name suffix i))) \<and> py_startswith n (lit ''branch-'') \<and>
        py_endswith n suffix \<and> length (lit ''branch-'') + length suffix \<le> length n \<and> index_from_name suffix n = Some i"
      using branch_name_matches index_from_branch_name by blast
  qed
qed

fun end_of :: "int \<Rightarrow> store_write \<Rightarrow> (pystr \<times> pystr \<times> dict option) option" where
  "end_of i (BRANCH_END j sid st out) = (if i = j then Some (sid, st, out) else None)"
| "end_of i _ = None"

fun dispatch_of :: "int \<Rightarrow> store_write \<Rightarrow> dict option" where
  "dispatch_of i (BRANCH_DISPATCHED j sid kind rec eng) = (if i = j then Some (dispatched_record sid kind rec eng) else None)"
| "dispatch_of i _ = None"

definition last_of :: "'a list \<Rightarrow> 'a option" where
  "last_of xs = (if xs = [] then None else Some (last xs))"

lemma end_of_name: "end_of i w \<noteq> None \<longleftrightarrow> write_name w = Some (branch_name (lit ''.jsonl'') i)"
proof
  assume "write_name w = Some (branch_name (lit ''.jsonl'') i)"
  then obtain j sid st out where "w = BRANCH_END j sid st out" using branch_end_name branch_name_matches by blast
  with \<open>write_name w = _\<close> show "end_of i w \<noteq> None" by (simp add: branch_name_eq branch_name_inject del: lit_Cons)
qed (cases w; simp add: branch_name_eq split: if_splits del: lit_Cons)

lemma dispatch_of_name: "dispatch_of i w \<noteq> None \<longleftrightarrow> write_name w = Some (branch_name (lit ''.dispatched'') i)"
proof
  assume "write_name w = Some (branch_name (lit ''.dispatched'') i)"
  then obtain j sid kind rec eng where "w = BRANCH_DISPATCHED j sid kind rec eng"
    using branch_dispatched_name branch_name_matches by blast
  with \<open>write_name w = _\<close> show "dispatch_of i w \<noteq> None" by (simp add: branch_name_eq branch_name_inject del: lit_Cons)
qed (cases w; simp add: branch_name_eq split: if_splits del: lit_Cons)

lemma last_record_documents:
  "last_record env accept files path = fold (\<lambda>r _. Some r) (List.map_filter accept (documents_at env files path)) None"
  by (simp add: last_record_def documents_at_def scan_documents List.map_filter_def split: option.split)

lemma filter_ends:
  "map (\<lambda>w. sorted_dict (write_dict w)) (filter (\<lambda>w. write_name w = Some (branch_name (lit ''.jsonl'') i)) ws) =
   map (\<lambda>x. sorted_dict (case x of (sid, st, out) \<Rightarrow> branch_record sid st out)) (List.map_filter (end_of i) ws)"
proof (induction ws)
  case (Cons w ws)
  show ?case
  proof (cases "end_of i w")
    case None
    then show ?thesis using Cons end_of_name [of i w] by (simp add: List.map_filter_def)
  next
    case (Some r)
    then have "write_dict w = (case r of (sid, st, out) \<Rightarrow> branch_record sid st out)"
      by (cases w; cases r) (simp_all split: if_splits)
    then show ?thesis using Cons Some end_of_name [of i w] by (cases r) (simp add: List.map_filter_def)
  qed
qed (simp add: List.map_filter_def)

lemma survivors_subset: "set (survivors env rk es files) \<subseteq> fst ` set es"
  by (induction es arbitrary: files) (auto split: if_splits)

lemma in_fst_image: "i \<in> fst ` S \<longleftrightarrow> (\<exists>p. (i, p) \<in> S)"
  by force

definition known_history :: "(store_write \<times> nat option) list \<Rightarrow> bool" where
  "known_history es \<longleftrightarrow> (\<forall>e \<in> set es. case fst e of BRANCH_END i sid st out \<Rightarrow> known_disposition st out | _ \<Rightarrow> True)"

lemma known_ends:
  assumes "known_history es" "(sid, st, out) \<in> set (List.map_filter (end_of i) (survivors env rk es files))"
  shows "known_disposition st out"
proof -
  obtain w where w: "w \<in> set (survivors env rk es files)" "end_of i w = Some (sid, st, out)"
    using assms(2) by (auto simp: List.map_filter_def)
  then obtain e where e: "e \<in> set es" "fst e = w" using survivors_subset by blast
  have "w = BRANCH_END i sid st out" using w(2) by (cases w) (simp_all split: if_splits)
  then show ?thesis using assms(1) e by (force simp: known_history_def)
qed

lemma branch_glob_run:
  assumes "run_digest rk = Some dg" "fresh_run dg files"
  shows "(i, p) \<in> set (glob_branches (lit ''.jsonl'') branch_index_from_name (dg @ ENGINE_OUTPUT_BRANCHES_SUFFIX)
      (run_store env rk es files)) \<longleftrightarrow>
     p = run_path dg (Some (branch_name (lit ''.jsonl'') i)) \<and> (\<exists>e \<in> set es. end_of i (fst e) \<noteq> None)"
  unfolding branch_index_from_name_def
  by (rule glob_run [OF assms]) (use branch_end_name end_of_name branch_name_eq in fastforce)+

lemma dispatched_glob_run:
  assumes "run_digest rk = Some dg" "fresh_run dg files"
  shows "(i, p) \<in> set (glob_branches (lit ''.dispatched'') dispatched_index_from_name (dg @ ENGINE_OUTPUT_BRANCHES_SUFFIX)
      (run_store env rk es files)) \<longleftrightarrow>
     p = run_path dg (Some (branch_name (lit ''.dispatched'') i)) \<and> (\<exists>e \<in> set es. dispatch_of i (fst e) \<noteq> None)"
  unfolding dispatched_index_from_name_def
  by (rule glob_run [OF assms]) (use branch_dispatched_name dispatch_of_name branch_name_eq in fastforce)+

text \<open>
  Property C39. After any history of writes and crashes, a branch has a journal exactly when a write to it was begun,
  and it reads as the last disposition that reached the disk whole. A branch in the first set and not in the second
  was cut by a crash, which the resume fails closed on.
\<close>

theorem branch_journals_crash_consistent:
  assumes dg: "run_digest rk = Some dg" and h: "history_ok env es" and f: "fresh_run dg files" and k: "known_history es"
  shows "present_branch_indexes rk (run_store env rk es files) = Some {i. \<exists>e \<in> set es. end_of i (fst e) \<noteq> None} \<and>
     read_branch_records env rk (run_store env rk es files) =
       Some (\<lambda>i. map_option (\<lambda>(sid, st, out). (sid, st, map_option sorted_dict out))
                  (last_of (List.map_filter (end_of i) (survivors env rk es files))))"
proof -
  let ?F = "run_store env rk es files" and ?p = "\<lambda>i. run_path dg (Some (branch_name (lit ''.jsonl'') i))"
  let ?g = "glob_branches (lit ''.jsonl'') branch_index_from_name (dg @ ENGINE_OUTPUT_BRANCHES_SUFFIX) ?F"
  have dir: "branches_dir rk = Some (dg @ ENGINE_OUTPUT_BRANCHES_SUFFIX)" using dg by (simp add: branches_dir_def)
  have g: "fst ` set ?g = {i. \<exists>e \<in> set es. end_of i (fst e) \<noteq> None}"
    unfolding set_eq_iff in_fst_image branch_glob_run [OF dg f] mem_Collect_eq by blast
  have read: "last_record env accept_disposition ?F (?p i) =
      map_option (\<lambda>(sid, st, out). (sid, st, map_option sorted_dict out))
        (last_of (List.map_filter (end_of i) (survivors env rk es files)))" for i
  proof -
    let ?ends = "List.map_filter (end_of i) (survivors env rk es files)"
    have valid: "\<forall>x \<in> set ?ends. case x of (sid, st, out) \<Rightarrow> known_disposition st out" using known_ends [OF k] by blast
    show ?thesis
      unfolding last_record_documents fresh_run_documents [OF dg h f] filter_ends disposition_reader.last_accepted [OF valid]
        last_of_def
      by (simp del: lit_Cons)
  qed
  have none: "last_record env accept_disposition ?F (?p i) = None" if "i \<notin> fst ` set ?g" for i
  proof -
    have "end_of i w = None" if "w \<in> set (survivors env rk es files)" for w
      using \<open>i \<notin> _\<close> that survivors_subset [of env rk es files] unfolding g by blast
    then have "List.map_filter (end_of i) (survivors env rk es files) = []"
      by (auto simp: List.map_filter_def filter_empty_conv)
    then show ?thesis by (simp add: read last_of_def del: lit_Cons)
  qed
  have "\<forall>(i, p) \<in> set ?g. p = ?p i" unfolding Ball_def split_paired_All prod.case branch_glob_run [OF dg f] by blast
  then have "fold (\<lambda>(i, p) m. case last_record env accept_disposition ?F p of None \<Rightarrow> m | Some r \<Rightarrow> m(i \<mapsto> r)) ?g Map.empty =
      (\<lambda>i. if i \<in> fst ` set ?g \<and> last_record env accept_disposition ?F (?p i) \<noteq> None
           then last_record env accept_disposition ?F (?p i) else None)"
    using fold_glob [of ?g ?p "last_record env accept_disposition ?F" Map.empty] by (simp del: lit_Cons)
  also have "\<dots> = (\<lambda>i. last_record env accept_disposition ?F (?p i))"
    unfolding fun_eq_iff using none by metis
  finally show ?thesis
    using g by (simp add: read_branch_records_def present_branch_indexes_def dir read del: lit_Cons)
qed

section \<open>Dispatch markers\<close>

lemma filter_dispatches:
  "map (\<lambda>w. sorted_dict (write_dict w)) (filter (\<lambda>w. write_name w = Some (branch_name (lit ''.dispatched'') i)) ws) =
   map sorted_dict (List.map_filter (dispatch_of i) ws)"
proof (induction ws)
  case (Cons w ws)
  show ?case
  proof (cases "dispatch_of i w")
    case None
    then show ?thesis using Cons dispatch_of_name [of i w] by (simp add: List.map_filter_def del: lit_Cons)
  next
    case (Some d)
    then have "write_dict w = d" by (cases w) (simp_all split: if_splits del: lit_Cons)
    then show ?thesis using Cons Some dispatch_of_name [of i w] by (simp add: List.map_filter_def del: lit_Cons)
  qed
qed (simp add: List.map_filter_def)

lemma parse_number_no_dict: "parse_number fc s \<noteq> Some (JObj d, r)"
  by (auto simp: parse_number_def Let_def split: if_splits)

lemma load_dict_brace:
  assumes "load_dict env l = Some d"
  shows "123 \<in> set l"
proof -
  obtain v r where v: "parse_value (oue_floats env) (Suc (2 * length l + 1)) (skip_ws l) = Some (v, r)" "as_dict v = Some d"
    using assms by (auto simp: load_dict_def loads_def bind_eq_Some_conv split: option.splits if_splits simp del: parse_value.simps)
  then have j: "v = JObj d" by (cases v) simp_all
  then obtain c cs where c: "skip_ws l = c # cs" using v(1) by (cases "skip_ws l") auto
  have "c = 123"
    using v(1) by (auto simp: c j parse_number_no_dict simp del: lit_Cons split: if_splits list.splits)
  then have "123 \<in> set (skip_ws l)" by (simp add: c)
  then show ?thesis unfolding skip_ws_def by (rule set_dropWhileD)
qed

text \<open>The last line of a journal is a document only if it is its last document.\<close>

lemma marker_in_documents:
  assumes "marker_record env files path = Some d"
  shows "documents_at env files path \<noteq> []" "last (documents_at env files path) = d"
proof -
  obtain s where s: "read_journal env files path = Some s" "splitlines s \<noteq> []" "load_dict env (last (splitlines s)) = Some d"
    using assms by (auto simp: marker_record_def bind_eq_Some_conv split: if_splits)
  have nb: "\<not> py_blank (last (splitlines s))"
  proof
    assume b: "py_blank (last (splitlines s))"
    then have "123 \<notin> set (last (splitlines s))" by (auto simp: py_blank_def py_isspace_def)
    then show False using load_dict_brace [OF s(3)] by blast
  qed
  obtain ls l where l: "splitlines s = ls @ [l]" using s(2) by (metis rev_exhaust)
  have "documents env s = List.map_filter (load_dict env) (filter (\<lambda>l. \<not> py_blank l) ls) @ [d]"
    using s(3) nb by (simp add: documents_def journal_lines_def l List.map_filter_def)
  then show "documents_at env files path \<noteq> []" "last (documents_at env files path) = d"
    by (simp_all add: documents_at_def s(1))
qed

lemma run_store_append: "run_store env rk (es @ [e]) files = store_step env rk e (run_store env rk es files)"
  by (induction es arbitrary: files) simp_all

lemma run_store_clean:
  "run_digest rk = Some dg \<Longrightarrow> history_ok env es \<Longrightarrow> \<forall>n. clean_journal env files (run_path dg n) \<Longrightarrow>
   clean_journal env (run_store env rk es files) (run_path dg n)"
proof (induction es arbitrary: files)
  case (Cons e es)
  have "\<forall>n. clean_journal env (store_step env rk e files) (run_path dg n)"
    using store_step_clean [OF Cons.prems(1,2,3)] by blast
  then show ?case using Cons.IH [OF Cons.prems(1) history_ok_Cons [OF Cons.prems(2)]] by simp
qed simp

lemma fold_glob_total:
  assumes "\<forall>(i, p) \<in> set xs. p = g i"
  shows "fold (\<lambda>(i, p) m. m(i \<mapsto> f p)) xs m = (\<lambda>i. if i \<in> fst ` set xs then Some (f (g i)) else m i)"
  using assms
proof (induction xs arbitrary: m)
  case (Cons x xs)
  obtain i p where x: "x = (i, p)" by fastforce
  with Cons.prems have "p = g i" by simp
  with Cons.IH Cons.prems x show ?case by (auto simp: fun_eq_iff)
qed simp

definition dispatched_path :: "pystr \<Rightarrow> int \<Rightarrow> output_path" where
  "dispatched_path dg i = run_path dg (Some (branch_name (lit ''.dispatched'') i))"

lemma dispatched_strs_run:
  assumes dg: "run_digest rk = Some dg" and f: "fresh_run dg files"
  shows "dispatched_strs env k rk (run_store env rk es files) =
     Some (\<lambda>i. if \<exists>e \<in> set es. dispatch_of i (fst e) \<noteq> None
                then Some (marker_str env k (run_store env rk es files) (dispatched_path dg i)) else None)"
proof -
  let ?g = "glob_branches (lit ''.dispatched'') dispatched_index_from_name (dg @ ENGINE_OUTPUT_BRANCHES_SUFFIX)
      (run_store env rk es files)"
  have g: "fst ` set ?g = {i. \<exists>e \<in> set es. dispatch_of i (fst e) \<noteq> None}"
    unfolding set_eq_iff in_fst_image dispatched_glob_run [OF dg f] mem_Collect_eq by blast
  have "\<forall>(i, p) \<in> set ?g. p = dispatched_path dg i"
    unfolding Ball_def split_paired_All prod.case dispatched_glob_run [OF dg f] dispatched_path_def by blast
  from fold_glob_total [OF this, of "marker_str env k (run_store env rk es files)" Map.empty] show ?thesis
    unfolding g using dg by (simp add: dispatched_strs_def dispatched_markers_def branches_dir_def del: lit_Cons)
qed

lemma marker_run:
  assumes dg: "run_digest rk = Some dg" and h: "history_ok env es" and f: "fresh_run dg files"
    and m: "marker_record env (run_store env rk es files) (dispatched_path dg i) = Some d"
  shows "\<exists>r. last_of (List.map_filter (dispatch_of i) (survivors env rk es files)) = Some r \<and> d = sorted_dict r"
proof -
  let ?ds = "List.map_filter (dispatch_of i) (survivors env rk es files)"
  have "documents_at env (run_store env rk es files) (dispatched_path dg i) = map sorted_dict ?ds"
    unfolding dispatched_path_def fresh_run_documents [OF dg h f] filter_dispatches ..
  with marker_in_documents [OF m] have "?ds \<noteq> []" "last (map sorted_dict ?ds) = d" by auto
  then show ?thesis by (auto simp: last_of_def last_map)
qed

lemma dispatch_record_fields:
  assumes "distinct (map fst r)"
  shows "str_member (sorted_dict r) k = str_member r k"
  unfolding str_member_def map_of_sorted [OF assms]
  by (cases "map_of r (lit k)"; cases "the (map_of r (lit k))") (auto simp: sort_keys_dict simp del: lit_Cons)

lemma dispatched_record_distinct: "distinct (map fst (dispatched_record sid kind rec eng))"
  by (auto simp: dispatched_record_def opt_member_def split: option.split)

text \<open>
  Property C40. After any history of writes and crashes the branches with a dispatch marker are exactly those a marker
  was begun for. What the marker of a branch says of the step kind, the step and the engine of a child is nothing or
  what the last marker that reached the disk whole says, and it is said when the last write to it was whole.
\<close>

theorem dispatch_markers_crash_consistent:
  assumes dg: "run_digest rk = Some dg" and h: "history_ok env es" and f: "fresh_run dg files"
  shows "present_dispatched_indexes rk (run_store env rk es files) = Some {i. \<exists>e \<in> set es. dispatch_of i (fst e) \<noteq> None} \<and>
     (\<exists>m. dispatched_strs env k rk (run_store env rk es files) = Some m \<and>
        dom m = {i. \<exists>e \<in> set es. dispatch_of i (fst e) \<noteq> None} \<and>
        (\<forall>i v. m i = Some (Some v) \<longrightarrow>
           Option.bind (last_of (List.map_filter (dispatch_of i) (survivors env rk es files))) (\<lambda>r. str_member r k) = Some v) \<and>
        (\<forall>es' i sid kind rec eng. es = es' @ [(BRANCH_DISPATCHED i sid kind rec eng, None)] \<longrightarrow>
           m i = Some (str_member (dispatched_record sid kind rec eng) k)))"
proof -
  let ?F = "run_store env rk es files" and ?D = "{i. \<exists>e \<in> set es. dispatch_of i (fst e) \<noteq> None}"
  let ?m = "\<lambda>i. if \<exists>e \<in> set es. dispatch_of i (fst e) \<noteq> None then Some (marker_str env k ?F (dispatched_path dg i)) else None"
  let ?g = "glob_branches (lit ''.dispatched'') dispatched_index_from_name (dg @ ENGINE_OUTPUT_BRANCHES_SUFFIX) ?F"
  have g: "fst ` set ?g = ?D"
    unfolding set_eq_iff in_fst_image dispatched_glob_run [OF dg f] mem_Collect_eq by blast
  have "present_dispatched_indexes rk ?F = Some ?D"
    using g dg by (simp add: present_dispatched_indexes_def dispatched_markers_def branches_dir_def del: lit_Cons)
  moreover have "Option.bind (last_of (List.map_filter (dispatch_of i) (survivors env rk es files))) (\<lambda>r. str_member r k) = Some v"
    if "?m i = Some (Some v)" for i v
  proof -
    from that obtain d where d: "marker_record env ?F (dispatched_path dg i) = Some d" "str_member d k = Some v"
      by (auto simp: marker_str_def bind_eq_Some_conv split: if_splits)
    from marker_run [OF dg h f d(1)] obtain r where
      r: "last_of (List.map_filter (dispatch_of i) (survivors env rk es files)) = Some r" "d = sorted_dict r" by blast
    have "r \<in> set (List.map_filter (dispatch_of i) (survivors env rk es files))"
      using r(1) by (auto simp: last_of_def split: if_splits)
    then obtain w where "dispatch_of i w = Some r" by (auto simp: List.map_filter_def)
    then have "distinct (map fst r)" by (cases w) (auto simp: dispatched_record_distinct split: if_splits)
    then show ?thesis using r d(2) dispatch_record_fields by simp
  qed
  moreover have "?m i = Some (str_member (dispatched_record sid kind rec eng) k)"
    if es: "es = es' @ [(BRANCH_DISPATCHED i sid kind rec eng, None)]" for es' i sid kind rec eng
  proof -
    let ?w = "BRANCH_DISPATCHED i sid kind rec eng" and ?F' = "run_store env rk es' files"
    have p: "run_path dg (write_name ?w) = dispatched_path dg i"
      by (simp add: dispatched_path_def branch_name_def del: lit_Cons)
    have h': "history_ok env es'" using h es by (simp add: history_ok_def)
    have c: "clean_journal env ?F' (dispatched_path dg i)"
      unfolding dispatched_path_def using fresh_clean [OF f h] by (intro run_store_clean [OF dg h']) blast
    have wf: "wf_json (oue_floats env) (JObj (dispatched_record sid kind rec eng))" "printable_floats (oue_floats env)"
      using h by (simp_all add: history_ok_def es)
    have "?F = play env (dispatched_path dg i) (Whole (dispatched_record sid kind rec eng)) ?F'"
      unfolding es run_store_append store_step_play(1) [OF dg] fst_conv p
      by (simp add: journal_write_of_def)
    then have "marker_record env ?F (dispatched_path dg i) = Some (sorted_dict (dispatched_record sid kind rec eng))"
      using marker_whole [OF c wf] by simp
    then show ?thesis
      using dispatch_record_fields [OF dispatched_record_distinct] by (simp add: marker_str_def es)
  qed
  ultimately show ?thesis
    using dispatched_strs_run [OF dg f, of env k es] by (intro conjI exI [of _ ?m]) (auto simp: dom_def)
qed

section \<open>The journals of one record\<close>

fun orchestrator_of :: "store_write \<Rightarrow> (pystr \<times> dict) option" where
  "orchestrator_of (ORCHESTRATOR_OUTPUT sid out) = Some (sid, out)"
| "orchestrator_of _ = None"

fun synthesis_of :: "store_write \<Rightarrow> (pystr \<times> dict \<times> pystr) option" where
  "synthesis_of (SYNTHESIS sid out h) = Some (sid, out, h)"
| "synthesis_of _ = None"

fun cardinality_of :: "store_write \<Rightarrow> int option" where
  "cardinality_of (CARDINALITY n) = Some n"
| "cardinality_of _ = None"

lemma filter_single:
  assumes "\<And>w. sel w \<noteq> None \<longleftrightarrow> write_name w = Some n" "\<And>w r. sel w = Some r \<Longrightarrow> write_dict w = render r"
  shows "map (\<lambda>w. sorted_dict (write_dict w)) (filter (\<lambda>w. write_name w = Some n) ws) =
         map (\<lambda>r. sorted_dict (render r)) (List.map_filter sel ws)"
proof (induction ws)
  case (Cons w ws)
  then show ?case using assms [of w] by (cases "sel w") (auto simp: List.map_filter_def)
qed (simp add: List.map_filter_def)

lemma single_names:
  "orchestrator_of w \<noteq> None \<longleftrightarrow> write_name w = Some (lit ''orchestrator.jsonl'')"
  "synthesis_of w \<noteq> None \<longleftrightarrow> write_name w = Some (lit ''synthesis.jsonl'')"
  "cardinality_of w \<noteq> None \<longleftrightarrow> write_name w = Some (lit ''cardinality.jsonl'')"
  by (cases w; simp)+

lemma single_dicts:
  "orchestrator_of w = Some r \<Longrightarrow> write_dict w = (case r of (sid, out) \<Rightarrow> orchestrator_record sid out)"
  "synthesis_of w = Some q \<Longrightarrow> write_dict w = (case q of (sid, out, h) \<Rightarrow> synthesis_record sid out h)"
  "cardinality_of w = Some n \<Longrightarrow> write_dict w = [(lit ''branch_count'', JInt n)]"
  by (cases w; auto)+

lemma filter_orchestrators:
  "map (\<lambda>w. sorted_dict (write_dict w)) (filter (\<lambda>w. write_name w = Some (lit ''orchestrator.jsonl'')) ws) =
   map (\<lambda>r. sorted_dict (case r of (sid, out) \<Rightarrow> orchestrator_record sid out)) (List.map_filter orchestrator_of ws)"
  by (rule filter_single) (fact single_names(1), erule single_dicts(1))

lemma filter_syntheses:
  "map (\<lambda>w. sorted_dict (write_dict w)) (filter (\<lambda>w. write_name w = Some (lit ''synthesis.jsonl'')) ws) =
   map (\<lambda>r. sorted_dict (case r of (sid, out, h) \<Rightarrow> synthesis_record sid out h)) (List.map_filter synthesis_of ws)"
  by (rule filter_single) (fact single_names(2), erule single_dicts(2))

lemma filter_cardinalities:
  "map (\<lambda>w. sorted_dict (write_dict w)) (filter (\<lambda>w. write_name w = Some (lit ''cardinality.jsonl'')) ws) =
   map (\<lambda>r. sorted_dict [(lit ''branch_count'', JInt r)]) (List.map_filter cardinality_of ws)"
  by (rule filter_single) (fact single_names(3), erule single_dicts(3))

text \<open>
  The orchestrator output, the synthesis and the number of branches read as the last of their records
  that reached the disk whole, and each of the three files is there as soon as a write to it was begun.
\<close>

theorem single_journals_crash_consistent:
  assumes dg: "run_digest rk = Some dg" and h: "history_ok env es" and f: "fresh_run dg files"
  shows "read_orchestrator_output env rk (run_store env rk es files) =
       Some (map_option (\<lambda>(sid, out). (sid, sorted_dict out)) (last_of (List.map_filter orchestrator_of (survivors env rk es files)))) \<and>
     read_synthesis env rk (run_store env rk es files) =
       Some (map_option (\<lambda>(sid, out, h). (sid, sorted_dict out, h)) (last_of (List.map_filter synthesis_of (survivors env rk es files)))) \<and>
     read_fanout_cardinality env rk (run_store env rk es files) =
       Some (last_of (List.map_filter cardinality_of (survivors env rk es files))) \<and>
     orchestrator_present rk (run_store env rk es files) = Some (\<exists>e \<in> set es. orchestrator_of (fst e) \<noteq> None) \<and>
     synthesis_present rk (run_store env rk es files) = Some (\<exists>e \<in> set es. synthesis_of (fst e) \<noteq> None) \<and>
     fanout_cardinality_present rk (run_store env rk es files) = Some (\<exists>e \<in> set es. cardinality_of (fst e) \<noteq> None)"
proof -
  let ?F = "run_store env rk es files" and ?S = "survivors env rk es files"
  note docs = fresh_run_documents [OF dg h f]
  have o: "last_record env accept_output ?F (run_path dg (Some (lit ''orchestrator.jsonl''))) =
      map_option (\<lambda>(sid, out). (sid, sorted_dict out)) (last_of (List.map_filter orchestrator_of ?S))"
    unfolding last_record_documents docs filter_orchestrators
    by (subst output_reader.last_accepted) (simp_all add: last_of_def del: lit_Cons)
  have s: "last_record env accept_synthesis ?F (run_path dg (Some (lit ''synthesis.jsonl''))) =
      map_option (\<lambda>(sid, out, h). (sid, sorted_dict out, h)) (last_of (List.map_filter synthesis_of ?S))"
    unfolding last_record_documents docs filter_syntheses
    by (subst synthesis_reader.last_accepted) (simp_all add: last_of_def del: lit_Cons)
  have c: "last_record env accept_cardinality ?F (run_path dg (Some (lit ''cardinality.jsonl''))) =
      last_of (List.map_filter cardinality_of ?S)"
    unfolding last_record_documents docs filter_cardinalities
    by (subst cardinality_reader.last_accepted) (simp_all add: last_of_def del: lit_Cons)
  have ex: "exists_path ?F (run_path dg (Some n)) \<longleftrightarrow> (\<exists>e \<in> set es. write_name (fst e) = Some n)" for n
    using exists_run [OF dg, of env es files "Some n"] fresh_path [OF f, of "Some n"] by (simp add: exists_path_def)
  have p: "in_branches rk n = Some (run_path dg (Some n))" for n
    using dg by (simp add: in_branches_def branches_dir_def run_path_def)
  show ?thesis
    unfolding read_orchestrator_output_def read_synthesis_def read_fanout_cardinality_def orchestrator_present_def
      synthesis_present_def fanout_cardinality_present_def orchestrator_file_def synthesis_file_def cardinality_file_def
      p option.map o s c ex single_names
    by (intro conjI refl)
qed

section \<open>A concrete history\<close>

definition sample_output_env :: output_env where
  "sample_output_env = \<lparr>oue_floats = \<lparr>fl_repr = (\<lambda>_. lit ''0.0''), fl_parse = (\<lambda>_. 0)\<rparr>, oue_unreadable = (\<lambda>_. False)\<rparr>"

text \<open>A torn step record between two whole ones, a branch that is cut, one that ends, and a torn synthesis.\<close>

definition sample_history :: "(store_write \<times> nat option) list" where
  "sample_history =
     [(STEP_OUTPUT 0 (lit ''a'') [], None), (STEP_OUTPUT 1 (lit ''b'') [(lit ''x'', JInt 1)], Some 9),
      (STEP_OUTPUT 1 (lit ''b'') [(lit ''x'', JInt 2)], None),
      (BRANCH_DISPATCHED 0 (lit ''w'') (lit ''tool'') None None, Some 3),
      (BRANCH_END 3 (lit ''v'') (lit ''completed'') (Some []), None),
      (SYNTHESIS (lit ''s'') [] (lit ''h''), Some 4),
      (BRANCH_DISPATCHED 3 (lit ''v'') (lit ''tool'') (Some True) None, None)]"

lemma sample_digest: "run_digest (lit ''r'') = Some (sha256_hexdigest [114])"
  by (simp add: run_digest_def utf8_encode_ascii)

lemma sample_history_ok: "history_ok sample_output_env sample_history" "known_history sample_history"
  by (auto simp: history_ok_def sample_history_def sample_output_env_def printable_floats_def step_record_def branch_record_def
    dispatched_record_def opt_member_def synthesis_record_def valid_cp_def known_history_def known_disposition_def)

lemma sample_fresh: "fresh_run dg []"
  by (simp add: fresh_run_def)

theorem read_outputs_crash_consistent_witness:
  "read_outputs sample_output_env (lit ''r'') (run_store sample_output_env (lit ''r'') sample_history []) =
     Some (last_outputs (survivors sample_output_env (lit ''r'') sample_history []))"
  by (rule read_outputs_crash_consistent [OF sample_digest sample_history_ok(1) sample_fresh])

theorem branch_journals_crash_consistent_witness:
  "present_branch_indexes (lit ''r'') (run_store sample_output_env (lit ''r'') sample_history []) =
     Some {i. \<exists>e \<in> set sample_history. end_of i (fst e) \<noteq> None}"
  using branch_journals_crash_consistent [OF sample_digest sample_history_ok(1) sample_fresh sample_history_ok(2)] by blast

theorem dispatch_markers_crash_consistent_witness:
  "\<exists>m. dispatched_branch_kinds sample_output_env (lit ''r'') (run_store sample_output_env (lit ''r'') sample_history []) = Some m \<and>
     m 3 = Some (Some (lit ''tool''))"
proof -
  have "sample_history = butlast sample_history @ [(BRANCH_DISPATCHED 3 (lit ''v'') (lit ''tool'') (Some True) None, None)]"
    by (simp add: sample_history_def)
  moreover have "str_member (dispatched_record (lit ''v'') (lit ''tool'') (Some True) None) ''step_kind'' = Some (lit ''tool'')"
    by (simp add: str_member_def dispatched_record_def)
  moreover obtain m where "dispatched_branch_kinds sample_output_env (lit ''r'')
        (run_store sample_output_env (lit ''r'') sample_history []) = Some m"
      "\<forall>es' i sid kind rec eng. sample_history = es' @ [(BRANCH_DISPATCHED i sid kind rec eng, None)] \<longrightarrow>
         m i = Some (str_member (dispatched_record sid kind rec eng) ''step_kind'')"
    using dispatch_markers_crash_consistent [OF sample_digest sample_history_ok(1) sample_fresh, of "''step_kind''"]
    unfolding dispatched_branch_kinds_def by blast
  ultimately show ?thesis by metis
qed

theorem single_journals_crash_consistent_witness:
  "synthesis_present (lit ''r'') (run_store sample_output_env (lit ''r'') sample_history []) = Some True"
proof -
  have "\<exists>e \<in> set sample_history. synthesis_of (fst e) \<noteq> None" by (simp add: sample_history_def)
  with single_journals_crash_consistent [OF sample_digest sample_history_ok(1) sample_fresh] show ?thesis by simp
qed

end
