(* ===== verification/Linear_Invariant.thy ===== *)
theory Linear_Invariant
  imports Workflow_Driver Engine_Output_Correctness
begin

text \<open>
  What every piece of the linear driver keeps. The specification is an automaton over the trace: steps are dispatched,
  stored and committed one at a time in the order of the workflow, and a commit ends a step for good. The invariant ties
  the automaton's state to the ledger and the store; a triple calculus over the three ways a computation can end
  carries it through the pieces.
\<close>

section \<open>The protocol of a linear run\<close>

text \<open>How far the current step got since it was last dispatched. A run that keeps outputs must store before it commits.\<close>

datatype step_phase = IDLE | RAN | KEPT

fun protocol_step :: "bool \<Rightarrow> nat \<times> step_phase \<Rightarrow> driver_event \<Rightarrow> (nat \<times> step_phase) option" where
  "protocol_step stores (k, ph) (EMITTED e) = Some (k, ph)"
| "protocol_step stores (k, ph) (DISPATCHED i) = (if i = int k then Some (k, RAN) else None)"
| "protocol_step stores (k, ph) (STORED i) = (if i = int k \<and> ph = RAN then Some (k, KEPT) else None)"
| "protocol_step stores (k, ph) (COMMITTED i) =
     (if i = int k \<and> ph = (if stores then KEPT else RAN) then Some (Suc k, IDLE) else None)"

fun protocol_run :: "bool \<Rightarrow> nat \<times> step_phase \<Rightarrow> driver_event list \<Rightarrow> (nat \<times> step_phase) option" where
  "protocol_run stores q [] = Some q"
| "protocol_run stores q (e # es) = Option.bind (protocol_step stores q e) (\<lambda>q'. protocol_run stores q' es)"

lemma protocol_run_append:
  "protocol_run stores q (xs @ ys) = Option.bind (protocol_run stores q xs) (\<lambda>q'. protocol_run stores q' ys)"
  by (induction xs arbitrary: q) (simp_all split: bind_split)

text \<open>What acceptance means: commits come in order, and what is committed is never dispatched or committed again.\<close>

lemma protocol_step_mono: "protocol_step stores (k, ph) e = Some (k', ph') \<Longrightarrow> k \<le> k'"
  by (cases e) (auto split: if_splits)

lemma protocol_run_mono: "protocol_run stores (k, ph) es = Some (k', ph') \<Longrightarrow> k \<le> k'"
proof (induction es arbitrary: k ph)
  case (Cons e es)
  then obtain k1 ph1 where "protocol_step stores (k, ph) e = Some (k1, ph1)" "protocol_run stores (k1, ph1) es = Some (k', ph')"
    by (auto split: bind_splits)
  with Cons.IH protocol_step_mono show ?case by fastforce
qed simp

lemma protocol_run_above:
  "protocol_run stores (k, ph) es = Some q \<Longrightarrow> e \<in> set es \<Longrightarrow> e = DISPATCHED i \<or> e = STORED i \<or> e = COMMITTED i \<Longrightarrow> int k \<le> i"
proof (induction es arbitrary: k ph)
  case (Cons a es)
  then obtain k1 ph1 where s: "protocol_step stores (k, ph) a = Some (k1, ph1)" "protocol_run stores (k1, ph1) es = Some q"
    by (cases "protocol_step stores (k, ph) a") auto
  show ?case
  proof (cases "e = a")
    case True
    then show ?thesis using s(1) Cons.prems(3) by (auto split: if_splits)
  next
    case False
    then have "int k1 \<le> i" using Cons.IH [OF s(2)] Cons.prems by simp
    then show ?thesis using protocol_step_mono [OF s(1)] by simp
  qed
qed simp

definition at_most_once :: "driver_event list \<Rightarrow> bool" where
  "at_most_once tr \<longleftrightarrow>
     (\<forall>xs i ys. tr = xs @ COMMITTED i # ys \<longrightarrow> DISPATCHED i \<notin> set ys \<and> STORED i \<notin> set ys \<and> COMMITTED i \<notin> set ys)"

lemma protocol_at_most_once:
  assumes "protocol_run stores (0, IDLE) tr = Some (k, ph)"
  shows "at_most_once tr"
  unfolding at_most_once_def
proof (intro allI impI)
  fix xs i ys
  assume "tr = xs @ COMMITTED i # ys"
  then obtain k1 ph1 where r: "protocol_run stores (0, IDLE) xs = Some (k1, ph1)"
      "protocol_run stores (k1, ph1) (COMMITTED i # ys) = Some (k, ph)"
    using assms by (auto simp: protocol_run_append split: bind_splits)
  then have "i = int k1" "protocol_run stores (Suc k1, IDLE) ys = Some (k, ph)" by (auto split: if_splits)
  then show "DISPATCHED i \<notin> set ys \<and> STORED i \<notin> set ys \<and> COMMITTED i \<notin> set ys"
    using protocol_run_above [of stores "Suc k1" IDLE ys "(k, ph)"] by fastforce
qed

definition commits :: "driver_event list \<Rightarrow> int list" where
  "commits tr = List.map_filter (\<lambda>e. case e of COMMITTED i \<Rightarrow> Some i | _ \<Rightarrow> None) tr"

lemma protocol_commits: "protocol_run stores (k, ph) tr = Some (k', ph') \<Longrightarrow> commits tr = map int [k..<k']"
proof (induction tr arbitrary: k ph)
  case Nil
  then show ?case by (simp add: commits_def List.map_filter_def)
next
  case (Cons e tr)
  then obtain k1 ph1 where s: "protocol_step stores (k, ph) e = Some (k1, ph1)" "protocol_run stores (k1, ph1) tr = Some (k', ph')"
    by (auto split: bind_splits)
  have "commits tr = map int [k1..<k']" by (rule Cons.IH [OF s(2)])
  moreover have "k1 \<le> k'" by (rule protocol_run_mono [OF s(2)])
  ultimately show ?case using s(1) by (cases e) (auto simp: commits_def List.map_filter_def upt_conv_Cons split: if_splits)
qed

section \<open>Triples\<close>

text \<open>From \<open>P\<close>, a computation ends in \<open>Q\<close> with a value, in \<open>R\<close> with an early return, in \<open>E\<close> with an exception.\<close>

definition triple ::
  "('w driver_state \<Rightarrow> bool) \<Rightarrow> ('w, 'r, 'a) driver \<Rightarrow> ('a \<Rightarrow> 'w driver_state \<Rightarrow> bool) \<Rightarrow>
     ('r \<Rightarrow> 'w driver_state \<Rightarrow> bool) \<Rightarrow> ('w driver_state \<Rightarrow> bool) \<Rightarrow> bool" where
  "triple P m Q R E \<longleftrightarrow>
     (\<forall>s. P s \<longrightarrow> (case m s of (Go x, s') \<Rightarrow> Q x s' | (Return y, s') \<Rightarrow> R y s' | (Raise e, s') \<Rightarrow> E s'))"

lemma triple_andthen:
  "triple P m Q R E \<Longrightarrow> (\<And>x. triple (Q x) (f x) Q' R E) \<Longrightarrow> triple P (andthen m f) Q' R E"
  unfolding triple_def andthen_def by (fastforce split: flow.splits prod.splits)

lemma triple_go: "(\<And>s. P s \<Longrightarrow> Q x s) \<Longrightarrow> triple P (go x) Q R E"
  by (simp add: triple_def go_def)

lemma triple_leave: "(\<And>s. P s \<Longrightarrow> R y s) \<Longrightarrow> triple P (leave y) Q R E"
  by (simp add: triple_def leave_def)

lemma triple_fail: "(\<And>s. P s \<Longrightarrow> E s) \<Longrightarrow> triple P (fail e) Q R E"
  by (simp add: triple_def fail_def)

lemma triple_world:
  "(\<And>s w x. P s \<Longrightarrow> f (dst_world s) = (x, w) \<Longrightarrow> Q x (s\<lparr>dst_world := w\<rparr>)) \<Longrightarrow> triple P (world f) Q R E"
  by (simp add: triple_def world_def split: prod.split)

lemma triple_invoke:
  "(\<And>s s' x. P s \<Longrightarrow> c s = (Inr x, s') \<Longrightarrow> Q x s') \<Longrightarrow> (\<And>s s' e. P s \<Longrightarrow> c s = (Inl e, s') \<Longrightarrow> E s') \<Longrightarrow>
   triple P (invoke c) Q R E"
  by (simp add: triple_def invoke_def split: prod.split sum.split)

lemma triple_attempt: "(\<And>s s' x. P s \<Longrightarrow> c s = (x, s') \<Longrightarrow> Q x s') \<Longrightarrow> triple P (attempt c) Q R E"
  by (simp add: triple_def attempt_def split: prod.split)

lemma triple_weaken:
  "triple P m Q R E \<Longrightarrow> (\<And>s. P' s \<Longrightarrow> P s) \<Longrightarrow> (\<And>x s. Q x s \<Longrightarrow> Q' x s) \<Longrightarrow> triple P' m Q' R E"
  unfolding triple_def by (fastforce split: flow.splits prod.splits)

lemma triple_if: "(b \<Longrightarrow> triple P m Q R E) \<Longrightarrow> (\<not> b \<Longrightarrow> triple P m' Q R E) \<Longrightarrow> triple P (if b then m else m') Q R E"
  by simp

lemma triple_pure: "(b \<Longrightarrow> triple P m Q R E) \<Longrightarrow> triple (\<lambda>s. P s \<and> b) m Q R E"
  by (cases b) (simp_all add: triple_def)

section \<open>Requirements\<close>

text \<open>The key of a step, and the steps a ledger has an entry for.\<close>

definition step_key :: "'w driver_run \<Rightarrow> nat \<Rightarrow> pystr" where
  "step_key r i = the (compute_step_idempotency_key (drn_run_key r) (int i) None)"

definition in_log :: "'w driver_run \<Rightarrow> ledger_entry list \<Rightarrow> nat \<Rightarrow> bool" where
  "in_log r es i \<longleftrightarrow> (\<exists>e \<in> set es. len_idempotency_key e = step_key r i)"

text \<open>No entry but that of a step carries the step's key; otherwise two texts have the same SHA-256 digest.\<close>

definition owned :: "'w driver_run \<Rightarrow> ledger_entry list \<Rightarrow> bool" where
  "owned r es \<longleftrightarrow>
     (\<forall>e \<in> set es. \<forall>i < length (drn_steps r). len_idempotency_key e = step_key r i \<longrightarrow> len_action_id e = step_action_id r (int i))"

definition stores :: "'w driver_run \<Rightarrow> bool" where
  "stores r \<longleftrightarrow>
     wme_engine_class (drn_manifest r) \<in> set FINAL_STATE_RECONSTRUCT_ENGINE_CLASSES \<and> dcx_output_store (drn_ctx r)"

definition ledger_at :: "'w driver_run \<Rightarrow> 'w driver_state \<Rightarrow> ledger_entry list \<Rightarrow> bool" where
  "ledger_at r s es \<longleftrightarrow>
     file_holds (dcx_ledger_env (drn_ctx r)) (dst_ledger s) es \<and> ledger_ok (dcx_ledger_env (drn_ctx r)) es"

definition journal_path :: "'w driver_run \<Rightarrow> output_path" where
  "journal_path r = run_path (the (run_digest (drn_run_key r))) None"

text \<open>What a collaborator of the driver may do: write entries that are no steps of this run, and other files.\<close>

definition quiet :: "'w driver_run \<Rightarrow> 'w driver_state \<Rightarrow> 'w driver_state \<Rightarrow> bool" where
  "quiet r s s' \<longleftrightarrow>
     dst_trace s' = dst_trace s \<and> map_of (dst_outputs s') (journal_path r) = map_of (dst_outputs s) (journal_path r) \<and>
     (\<forall>es. ledger_at r s es \<longrightarrow>
        (\<exists>es'. ledger_at r s' (es @ es') \<and> (\<forall>e \<in> set es'. \<forall>i. len_action_id e \<noteq> step_action_id r i)))"

definition quiet_call :: "'w driver_run \<Rightarrow> ('w, 'a) driver_call \<Rightarrow> bool" where
  "quiet_call r c \<longleftrightarrow> (\<forall>s. quiet r s (snd (c s)))"

text \<open>Dispatchers return JSON objects.\<close>

definition collaborators_ok :: "'w driver_run \<Rightarrow> bool" where
  "collaborators_ok r \<longleftrightarrow>
     (\<forall>kind b step ctx. quiet_call r (dcx_dispatch (drn_ctx r) kind b step ctx)) \<and>
     (\<forall>kind b step ctx s outp. fst (dcx_dispatch (drn_ctx r) kind b step ctx s) = Inr outp \<longrightarrow>
        wf_json (oue_floats (dcx_output_env (drn_ctx r))) (JObj outp)) \<and>
     (\<forall>v step outp ctx. dcx_validator (drn_ctx r) = Some v \<longrightarrow> quiet_call r (v step outp ctx)) \<and>
     (\<forall>g brief a. dcx_escalation_gate (drn_ctx r) = Some g \<longrightarrow> quiet_call r (g brief a)) \<and>
     (\<forall>l ec w i k. dcx_recovery_loop (drn_ctx r) = Some l \<longrightarrow>
        quiet_call r (elp_has_pause_record l ec w i) \<and> quiet_call r (elp_capture_pause l ec w i k) \<and>
        quiet_call r (elp_attempt_resume l ec w i k))"

definition plain_text :: "pystr \<Rightarrow> bool" where
  "plain_text s \<longleftrightarrow> (\<forall>c \<in> set s. valid_cp c \<and> c \<notin> {133, 8232, 8233})"

text \<open>Texts that can be written on one line, a clock that gives dates, floats that print in ASCII.\<close>

definition texts_ok :: "'w driver_run \<Rightarrow> bool" where
  "texts_ok r \<longleftrightarrow>
     env_ok (dcx_ledger_env (drn_ctx r)) \<and> printable_floats (oue_floats (dcx_output_env (drn_ctx r))) \<and>
     plain_text (wme_workflow_id (drn_manifest r)) \<and> plain_text (act_actor_id (dcx_actor (drn_ctx r))) \<and>
     list_all valid_cp (drn_run_key r) \<and> (\<forall>step \<in> set (drn_steps r). list_all valid_cp (wfs_step_id step)) \<and>
     (\<forall>w. valid_datetime (fst (dcx_now (drn_ctx r) w))) \<and>
     (\<forall>f w. dcx_snapshot_ref (drn_ctx r) = Some f \<or> dcx_wiring (drn_ctx r) = Some f \<longrightarrow> plain_text (fst (f w)))"

definition run_ok :: "'w driver_run \<Rightarrow> bool" where
  "run_ok r \<longleftrightarrow> texts_ok r \<and> collaborators_ok r"

section \<open>The invariant\<close>

definition sorted_outputs :: "outputs_state \<Rightarrow> outputs_state" where
  "sorted_outputs = map (\<lambda>(k, d). (k, sorted_dict d))"

definition stored :: "'w driver_run \<Rightarrow> 'w driver_state \<Rightarrow> int \<rightharpoonup> pystr \<times> dict" where
  "stored r s = the (read_outputs (dcx_output_env (drn_ctx r)) (drn_run_key r) (dst_outputs s))"

text \<open>The outputs a store has for the first steps.\<close>

definition outputs_prefix :: "'w driver_run \<Rightarrow> nat \<Rightarrow> (int \<rightharpoonup> pystr \<times> dict) \<Rightarrow> (pystr \<times> dict) list" where
  "outputs_prefix r k m = map (\<lambda>i. (wfs_step_id (drn_steps r ! i), snd (the (m (int i))))) [0..<k]"

definition has_output :: "'w driver_run \<Rightarrow> nat \<Rightarrow> dict \<Rightarrow> (int \<rightharpoonup> pystr \<times> dict) \<Rightarrow> bool" where
  "has_output r i outp m \<longleftrightarrow> (stores r \<longrightarrow> m (int i) = Some (wfs_step_id (drn_steps r ! i), outp) \<and> sorted_dict outp = outp)"

definition store_covers :: "'w driver_run \<Rightarrow> nat \<Rightarrow> (int \<rightharpoonup> pystr \<times> dict) \<Rightarrow> bool" where
  "store_covers r k m \<longleftrightarrow> (\<forall>i < k. \<exists>outp. has_output r i outp m)"

text \<open>With \<open>b\<close>, the accumulated outputs are those of the store.\<close>

definition acc_is :: "'w driver_run \<Rightarrow> bool \<Rightarrow> nat \<Rightarrow> outputs_state \<Rightarrow> (int \<rightharpoonup> pystr \<times> dict) \<Rightarrow> bool" where
  "acc_is r b k acc m \<longleftrightarrow> (b \<longrightarrow> sorted_outputs acc = outputs_by_step_id (outputs_prefix r k m))"

text \<open>The first \<open>k\<close> steps are committed and no others, the store has their outputs, and \<open>X\<close> holds of the store.\<close>

definition on_track ::
  "'w driver_run \<Rightarrow> ((int \<rightharpoonup> pystr \<times> dict) \<Rightarrow> bool) \<Rightarrow> nat \<Rightarrow> step_phase \<Rightarrow> ledger_entry list \<Rightarrow> 'w driver_state \<Rightarrow> bool" where
  "on_track r X k ph es s \<longleftrightarrow>
     k \<le> length (drn_steps r) \<and> (\<forall>i < length (drn_steps r). in_log r es i \<longleftrightarrow> i < k) \<and>
     protocol_run (stores r) (0, IDLE) (dst_trace s) = Some (k, ph) \<and> store_covers r k (stored r s) \<and> X (stored r s)"

definition linear_inv ::
  "'w driver_run \<Rightarrow> ((int \<rightharpoonup> pystr \<times> dict) \<Rightarrow> bool) \<Rightarrow> nat \<Rightarrow> step_phase \<Rightarrow> 'w driver_state \<Rightarrow> bool" where
  "linear_inv r X k ph s \<longleftrightarrow>
     (\<exists>es. ledger_at r s es \<and> (owned r es \<longrightarrow> on_track r X k ph es s)) \<and>
     clean_journal (dcx_output_env (drn_ctx r)) (dst_outputs s) (journal_path r)"

text \<open>The same without a position.\<close>

definition some_inv :: "'w driver_run \<Rightarrow> 'w driver_state \<Rightarrow> bool" where
  "some_inv r s \<longleftrightarrow> (\<exists>k ph. linear_inv r (\<lambda>_. True) k ph s)"

lemma linear_inv_mono: "linear_inv r X k ph s \<Longrightarrow> (\<And>m. X m \<Longrightarrow> Y m) \<Longrightarrow> linear_inv r Y k ph s"
  unfolding linear_inv_def on_track_def by blast

lemma linear_inv_some: "linear_inv r X k ph s \<Longrightarrow> some_inv r s"
  unfolding some_inv_def by (intro exI) (erule linear_inv_mono, rule TrueI)

section \<open>What keeps the invariant\<close>

lemma linear_inv_cong:
  assumes "dst_ledger s' = dst_ledger s" "dst_trace s' = dst_trace s" "dst_outputs s' = dst_outputs s"
  shows "linear_inv r X k ph s' = linear_inv r X k ph s"
  using assms
  by (simp add: linear_inv_def ledger_at_def on_track_def stored_def)

lemma linear_inv_world [simp]: "linear_inv r X k ph (s\<lparr>dst_world := w\<rparr>) = linear_inv r X k ph s"
  by (rule linear_inv_cong) simp_all

lemma linear_inv_channel [simp]: "linear_inv r X k ph (s\<lparr>dst_channel := c\<rparr>) = linear_inv r X k ph s"
  by (rule linear_inv_cong) simp_all

lemma linear_inv_emitted [simp]: "linear_inv r X k ph (note_event (EMITTED e) s) = linear_inv r X k ph s"
proof -
  have "protocol_run t (0, IDLE) (dst_trace s @ [EMITTED e]) = Some (k, ph) \<longleftrightarrow>
        protocol_run t (0, IDLE) (dst_trace s) = Some (k, ph)" for t
    by (cases "protocol_run t (0, IDLE) (dst_trace s)") (auto simp: protocol_run_append)
  then show ?thesis
    by (simp add: linear_inv_def note_event_def ledger_at_def on_track_def stored_def)
qed

lemma journal_file_path:
  "list_all valid_cp (drn_run_key r) \<Longrightarrow> run_digest (drn_run_key r) = Some (the (run_digest (drn_run_key r)))"
  using utf8_encode_valid [of "drn_run_key r"] by (auto simp: run_digest_def list_all_iff)

lemma stored_cong:
  assumes "list_all valid_cp (drn_run_key r)" "map_of (dst_outputs s') (journal_path r) = map_of (dst_outputs s) (journal_path r)"
  shows "stored r s' = stored r s"
  using assms journal_file_path [OF assms(1)]
  by (simp add: stored_def read_outputs_documents journal_path_def documents_at_def read_journal_def)

text \<open>The action ids of steps name the step.\<close>

lemma step_action_id_inj: "step_action_id r i = step_action_id r j \<Longrightarrow> i = j"
  by (simp add: step_action_id_def dec_int_inject)

lemma owned_append: "owned r (es @ es') \<longleftrightarrow> owned r es \<and> owned r es'"
  by (auto simp: owned_def)

lemma in_log_append: "in_log r (es @ es') i \<longleftrightarrow> in_log r es i \<or> in_log r es' i"
  by (auto simp: in_log_def)

lemma foreign_not_in_log:
  "owned r es \<Longrightarrow> \<forall>e \<in> set es. \<forall>i. len_action_id e \<noteq> step_action_id r i \<Longrightarrow> i < length (drn_steps r) \<Longrightarrow> \<not> in_log r es i"
  by (auto simp: owned_def in_log_def)

lemma quiet_ledger:
  "quiet r s s' \<Longrightarrow> ledger_at r s es \<Longrightarrow>
   \<exists>es'. ledger_at r s' (es @ es') \<and> (\<forall>e \<in> set es'. \<forall>i. len_action_id e \<noteq> step_action_id r i)"
  by (simp only: quiet_def)

lemma quiet_outputs: "quiet r s s' \<Longrightarrow> map_of (dst_outputs s') (journal_path r) = map_of (dst_outputs s) (journal_path r)"
  by (simp only: quiet_def)

lemma quiet_events: "quiet r s s' \<Longrightarrow> dst_trace s' = dst_trace s"
  by (simp only: quiet_def)

lemma quiet_linear_inv:
  assumes q: "quiet r s s'" and i: "linear_inv r X k ph s" and v: "list_all valid_cp (drn_run_key r)"
  shows "linear_inv r X k ph s'"
proof -
  obtain es where es: "ledger_at r s es" "owned r es \<longrightarrow> on_track r X k ph es s"
    and c: "clean_journal (dcx_output_env (drn_ctx r)) (dst_outputs s) (journal_path r)"
    using i unfolding linear_inv_def by blast
  obtain es' where es': "ledger_at r s' (es @ es')" "\<forall>e \<in> set es'. \<forall>i. len_action_id e \<noteq> step_action_id r i"
    using quiet_ledger [OF q es(1)] by (elim exE conjE)
  have st: "stored r s' = stored r s" by (rule stored_cong [OF v quiet_outputs [OF q]])
  note tr = quiet_events [OF q]
  have "owned r (es @ es') \<longrightarrow> on_track r X k ph (es @ es') s'"
  proof
    assume o: "owned r (es @ es')"
    then have t: "on_track r X k ph es s" and o': "owned r es'" using es(2) by (simp_all add: owned_append)
    have "in_log r (es @ es') i \<longleftrightarrow> in_log r es i" if "i < length (drn_steps r)" for i
      using foreign_not_in_log [OF o' es'(2) that] by (simp add: in_log_append)
    then show "on_track r X k ph (es @ es') s'"
      using t by (simp add: on_track_def st tr)
  qed
  moreover have "clean_journal (dcx_output_env (drn_ctx r)) (dst_outputs s') (journal_path r)"
    using c quiet_outputs [OF q] by (simp add: clean_journal_def contents_def)
  ultimately show ?thesis using es'(1) by (auto simp: linear_inv_def)
qed

section \<open>Ledger entries\<close>

definition plain_payload :: "entry_payload \<Rightarrow> bool" where
  "plain_payload p \<longleftrightarrow>
     plain_text (epl_action_id p) \<and> plain_text (epl_idempotency_key p) \<and> plain_text (act_actor_id (epl_actor p)) \<and>
     (\<forall>ref \<in> set_option (epl_procedural_tier_snapshot_ref p). plain_text ref) \<and> valid_datetime (epl_timestamp p) \<and>
     epl_branch_metadata p = None"

lemma plain_payload_ok:
  assumes "plain_payload p"
  shows "payload_ok p"
proof -
  let ?d = "draft_entry p ALL_ZEROS_SENTINEL"
  have "\<forall>s \<in> set (raw_texts ?d). plain_text s"
    using assms by (simp add: plain_payload_def raw_texts_def draft_entry_def split: option.split)
  then have "\<forall>s \<in> set (raw_texts ?d). list_all valid_cp s" "one_line ?d"
    unfolding plain_text_def one_line_def list_all_iff by blast+
  moreover have "valid_datetime (len_timestamp ?d)" using assms by (simp add: plain_payload_def draft_entry_def)
  ultimately show ?thesis
    unfolding payload_ok_def payload_encodable_def encodable_def by (simp add: draft_entry_def ALL_ZEROS_SENTINEL_def)
qed

lemma plain_append [simp]: "plain_text (s @ t) \<longleftrightarrow> plain_text s \<and> plain_text t"
  by (auto simp: plain_text_def)

lemma ascii_plain: "\<forall>c \<in> set s. c < 127 \<Longrightarrow> plain_text s"
  by (fastforce simp: plain_text_def valid_cp_def)

lemma digest_plain: "plain_text (sha256_hexdigest bs)"
proof (rule ascii_plain)
  show "\<forall>c \<in> set (sha256_hexdigest bs). c < 127" using sha256_hexdigest_chars [of _ bs] by fastforce
qed

lemma dec_int_plain: "plain_text (dec_int i)"
proof (rule ascii_plain)
  show "\<forall>c \<in> set (dec_int i). c < 127" by (auto simp: dec_int_def dest: dec_nat_printable split: if_splits)
qed

lemma segments_key_plain: "segments_key segs = Some k \<Longrightarrow> plain_text k"
  by (auto simp: segments_key_def digest_plain)

lemma nul_key_plain: "nul_key parts = Some k \<Longrightarrow> plain_text k"
  by (auto simp: nul_key_def digest_plain)

text \<open>What an append does to the ledger of the driver.\<close>

lemma append_entry_cases:
  assumes env: "env_ok (dcx_ledger_env (drn_ctx r))" and l: "ledger_at r s es" and p: "plain_payload p"
    and a: "append_entry (drn_ctx r) p wk s = (res, s')"
  obtains (appended) e where "res = Inr APPENDED" "len_action_id e = epl_action_id p"
      "len_idempotency_key e = epl_idempotency_key p" "ledger_at r s' (es @ [e])"
  | (noop) "res = Inr IDEMPOTENT_NOOP" "ledger_at r s' es" "\<exists>e \<in> set es. len_idempotency_key e = epl_idempotency_key p"
  | (failed) err where "res = Inl err" "ledger_at r s' es"
proof -
  obtain fl where fl: "append_ledger_entry (dcx_ledger_env (drn_ctx r)) (dst_ledger s) p wk = (fl, res)"
      "s' = s\<lparr>dst_ledger := fl\<rparr>"
    using a by (auto simp: append_entry_def split: prod.splits)
  have "write_outcome (dcx_ledger_env (drn_ctx r)) (dst_ledger s) es p wk (fl, res)"
    using append_outcome [OF env, of "dst_ledger s" es p wk] l plain_payload_ok [OF p] fl(1) by (simp add: ledger_at_def)
  note o = this [unfolded write_outcome_def, simplified]
  show ?thesis
  proof (cases res)
    case (Inl err)
    then have "fl = dst_ledger s" using o by (cases err) auto
    then show ?thesis using failed [of err] Inl l fl(2) by (simp add: ledger_at_def)
  next
    case (Inr ok)
    show ?thesis
    proof (cases ok)
      case APPENDED
      then obtain e where e: "entry_of p e" "ledger_ok (dcx_ledger_env (drn_ctx r)) (es @ [e])"
          "file_holds (dcx_ledger_env (drn_ctx r)) fl (es @ [e])" using o Inr by auto
      have "len_action_id e = epl_action_id p" "len_idempotency_key e = epl_idempotency_key p"
        using e(1) by (cases e; simp add: entry_of_def draft_entry_def)+
      then show ?thesis using appended [of e] APPENDED Inr e fl(2) by (simp add: ledger_at_def)
    next
      case IDEMPOTENT_NOOP
      then show ?thesis using noop o Inr l fl(2) by (simp add: ledger_at_def)
    qed
  qed
qed

lemma append_entry_other:
  "append_entry (drn_ctx r) p wk s = (res, s') \<Longrightarrow>
   dst_trace s' = dst_trace s \<and> dst_outputs s' = dst_outputs s \<and> stored r s' = stored r s"
  by (auto simp: append_entry_def stored_def split: prod.splits)

lemma append_entry_quiet:
  assumes "env_ok (dcx_ledger_env (drn_ctx r))" "plain_payload p" "\<forall>i. epl_action_id p \<noteq> step_action_id r i"
    and a: "append_entry (drn_ctx r) p wk s = (res, s')"
  shows "quiet r s s'"
  unfolding quiet_def
proof (intro conjI allI impI)
  fix es
  assume l: "ledger_at r s es"
  show "\<exists>es'. ledger_at r s' (es @ es') \<and> (\<forall>e \<in> set es'. \<forall>i. len_action_id e \<noteq> step_action_id r i)"
    using assms(1) l assms(2) a
  proof (cases rule: append_entry_cases)
    case (appended e)
    then show ?thesis using assms(3) by (intro exI [of _ "[e]"]) simp
  next
    case noop
    then show ?thesis by (intro exI [of _ "[]"]) simp
  next
    case (failed err)
    then show ?thesis by (intro exI [of _ "[]"]) simp
  qed
qed (use append_entry_other [OF a] in simp_all)

section \<open>Computations that keep the invariant\<close>

definition keeps :: "'w driver_run \<Rightarrow> ('w, 'r, 'a) driver \<Rightarrow> bool" where
  "keeps r m \<longleftrightarrow>
     (\<forall>X k ph. triple (linear_inv r X k ph) m (\<lambda>_. linear_inv r X k ph) (\<lambda>_ _. False) (some_inv r))"

lemma keeps_triple:
  assumes k: "keeps r m" and q: "\<And>x s. linear_inv r X k ph s \<Longrightarrow> Q x s"
  shows "triple (linear_inv r X k ph) m Q R (some_inv r)"
  unfolding triple_def
proof (intro allI impI)
  fix s
  assume i: "linear_inv r X k ph s"
  have "triple (linear_inv r X k ph) m (\<lambda>_. linear_inv r X k ph) (\<lambda>_ _. False) (some_inv r)"
    using k by (simp only: keeps_def)
  then have "case m s of (Go x, s') \<Rightarrow> linear_inv r X k ph s' | (Return y, s') \<Rightarrow> False | (Raise e, s') \<Rightarrow> some_inv r s'"
    using i by (simp only: triple_def)
  then show "case m s of (Go x, s') \<Rightarrow> Q x s' | (Return y, s') \<Rightarrow> R y s' | (Raise e, s') \<Rightarrow> some_inv r s'"
    using q by (auto split: prod.splits flow.splits)
qed

lemma keeps_andthen: "keeps r m \<Longrightarrow> (\<And>x. keeps r (f x)) \<Longrightarrow> keeps r (andthen m f)"
  unfolding keeps_def by (intro allI triple_andthen) blast+

lemma keeps_go: "keeps r (go x)"
  by (simp add: keeps_def triple_go)

lemma keeps_fail: "keeps r (fail e)"
  by (auto simp: keeps_def intro!: triple_fail linear_inv_some)

lemma keeps_world: "keeps r (world f)"
  by (simp add: keeps_def triple_world)

lemma keeps_emit: "keeps r (emit e)"
  by (simp add: keeps_def triple_def emit_def)

lemma keeps_if: "(b \<Longrightarrow> keeps r m) \<Longrightarrow> (\<not> b \<Longrightarrow> keeps r m') \<Longrightarrow> keeps r (if b then m else m')"
  by simp

lemma run_key_valid: "run_ok r \<Longrightarrow> list_all valid_cp (drn_run_key r)"
  by (simp add: run_ok_def texts_ok_def)

lemma keeps_quiet_attempt:
  assumes "run_ok r" "quiet_call r c"
  shows "keeps r (attempt c)"
  unfolding keeps_def
proof (intro allI triple_attempt)
  fix X k ph s s' x
  assume "linear_inv r X k ph s" "c s = (x, s')"
  moreover have "quiet r s (snd (c s))" using assms(2) by (simp only: quiet_call_def)
  ultimately show "linear_inv r X k ph s'" using quiet_linear_inv [OF _ _ run_key_valid [OF assms(1)]] by simp
qed

lemma keeps_quiet_invoke:
  assumes "run_ok r" "quiet_call r c"
  shows "keeps r (invoke c)"
  unfolding keeps_def
proof (intro allI triple_invoke)
  fix X k ph s s' x e
  assume i: "linear_inv r X k ph s"
  have "quiet r s (snd (c s))" using assms(2) by (simp only: quiet_call_def)
  then have j: "linear_inv r X k ph (snd (c s))" using quiet_linear_inv [OF _ i run_key_valid [OF assms(1)]] by simp
  show "c s = (Inr x, s') \<Longrightarrow> linear_inv r X k ph s'" using j by simp
  show "c s = (Inl e, s') \<Longrightarrow> some_inv r s'" using j linear_inv_some by fastforce
qed

text \<open>Entries of the ledger wiring: their action ids are no steps.\<close>

definition wiring_payload :: "'w driver_run \<Rightarrow> entry_payload \<Rightarrow> bool" where
  "wiring_payload r p \<longleftrightarrow> plain_payload p \<and> take 3 (epl_action_id p) = lit ''cp.''"

lemma cp_action_foreign: "take 3 a = lit ''cp.'' \<Longrightarrow> a \<noteq> step_action_id r i"
  by (auto simp: step_action_id_def numeral_3_eq_3)

lemma keeps_wiring_append:
  assumes "run_ok r" "\<And>p. payload = Some p \<Longrightarrow> wiring_payload r p"
  shows "keeps r (wiring_append (drn_ctx r) t st payload)"
proof (cases payload)
  case None
  then show ?thesis by (simp add: wiring_append_def keeps_fail)
next
  case (Some p)
  let ?wk = "\<lparr>wky_thread_id = t, wky_step_id = st, wky_idempotency_key = epl_idempotency_key p\<rparr>"
  have p: "plain_payload p" "\<forall>i. epl_action_id p \<noteq> step_action_id r i"
    using assms(2) [OF Some] cp_action_foreign by (auto simp: wiring_payload_def)
  have env: "env_ok (dcx_ledger_env (drn_ctx r))" using assms(1) by (simp add: run_ok_def texts_ok_def)
  have "triple (linear_inv r X k ph) (wiring_append (drn_ctx r) t st payload) (\<lambda>_. linear_inv r X k ph) (\<lambda>_ _. False) (some_inv r)"
    for X k ph
    unfolding triple_def
  proof (intro allI impI)
    fix s
    assume i: "linear_inv r X k ph s"
    obtain res s' where a: "append_entry (drn_ctx r) p ?wk s = (res, s')" by fastforce
    have j: "linear_inv r X k ph s'"
      by (rule quiet_linear_inv [OF append_entry_quiet [OF env p a] i run_key_valid [OF assms(1)]])
    then show "case wiring_append (drn_ctx r) t st payload s of (Go x, s') \<Rightarrow> linear_inv r X k ph s'
      | (Return y, s') \<Rightarrow> False | (Raise e, s') \<Rightarrow> some_inv r s'"
      using linear_inv_some [OF j] by (simp add: wiring_append_def Some a split: sum.split)
  qed
  then show ?thesis by (simp only: keeps_def) blast
qed

lemma triple_world_andthen:
  assumes "\<And>w. triple P (f (fst (g w))) Q R E" "\<And>s w. P s \<Longrightarrow> P (s\<lparr>dst_world := w\<rparr>)"
  shows "triple P (andthen (world g) f) Q R E"
  unfolding triple_def
proof (intro allI impI)
  fix s
  assume p: "P s"
  obtain x w where g: "g (dst_world s) = (x, w)" by fastforce
  have "triple P (f x) Q R E" using assms(1) [of "dst_world s"] g by simp
  then show "case andthen (world g) f s of (Go x, s') \<Rightarrow> Q x s' | (Return y, s') \<Rightarrow> R y s' | (Raise e, s') \<Rightarrow> E s'"
    using assms(2) [OF p, of w] by (simp add: triple_def andthen_def world_def g)
qed

lemma keeps_world_andthen: "(\<And>w. keeps r (f (fst (g w)))) \<Longrightarrow> keeps r (andthen (world g) f)"
  unfolding keeps_def by (intro allI triple_world_andthen) (blast, simp)

lemma protocol_payload_wiring:
  assumes "run_ok r" "plain_text key" "plain_text ref" "take 3 a = ''cp.''" "\<forall>c \<in> set a. of_char c < (127 :: nat)"
  shows "wiring_payload r (protocol_payload a key (act_actor_id (dcx_actor (drn_ctx r))) (fst (dcx_now (drn_ctx r) w)) (Some ref))"
proof -
  have "plain_text (lit a)" using assms(5) by (intro ascii_plain) (auto simp: lit_def)
  moreover have "take 3 (lit a) = lit ''cp.''" using assms(4) by (simp add: lit_def take_map)
  ultimately show ?thesis
    using assms by (simp add: wiring_payload_def plain_payload_def protocol_payload_def run_ok_def texts_ok_def del: lit_Cons)
qed

lemma wiring_ref_plain: "run_ok r \<Longrightarrow> dcx_wiring (drn_ctx r) = Some f \<Longrightarrow> plain_text (fst (f w))"
  by (auto simp: run_ok_def texts_ok_def)

lemma keeps_emit_protocol_entry:
  assumes r: "run_ok r"
  shows "keeps r (emit_protocol_entry r step_id kind sequence_id state)"
proof (cases "dcx_wiring (drn_ctx r)")
  case None
  then show ?thesis by (simp add: emit_protocol_entry_def keeps_go)
next
  case (Some resolver)
  show ?thesis
    unfolding emit_protocol_entry_def Some option.case
  proof (intro keeps_world_andthen keeps_wiring_append [OF r])
    fix w w' p
    assume "Option.bind state (\<lambda>j. emit_pause_resume_state_ledger_entry (lge_floats (dcx_ledger_env (drn_ctx r)))
        (wme_workflow_id (drn_manifest r)) step_id kind sequence_id j (act_actor_id (dcx_actor (drn_ctx r)))
        (fst (dcx_now (drn_ctx r) w)) (Some (fst (resolver w')))) = Some p"
    then obtain key where "plain_text key" and p: "p = protocol_payload ''cp.pause-resume-protocol'' key
        (act_actor_id (dcx_actor (drn_ctx r))) (fst (dcx_now (drn_ctx r) w)) (Some (fst (resolver w')))"
      by (auto simp: emit_pause_resume_state_ledger_entry_def pause_resume_idempotency_key_def
          split: bind_splits dest: segments_key_plain)
    then show "wiring_payload r p"
      unfolding p by (intro protocol_payload_wiring [OF r] wiring_ref_plain [OF r Some]) simp_all
  qed
qed

lemma keeps_emit_override_entry:
  assumes r: "run_ok r"
  shows "keeps r (emit_override_entry r step_id b)"
proof (cases "dcx_wiring (drn_ctx r)")
  case None
  then show ?thesis by (simp add: emit_override_entry_def keeps_go)
next
  case (Some resolver)
  show ?thesis
    unfolding emit_override_entry_def Some option.case
  proof (intro keeps_world_andthen keeps_wiring_append [OF r])
    fix w w' p
    assume "compose_override_entry_payload (lge_floats (dcx_ledger_env (drn_ctx r))) (wme_workflow_id (drn_manifest r))
        step_id (binding_json b) (act_actor_id (dcx_actor (drn_ctx r))) (fst (dcx_now (drn_ctx r) w'))
        (Some (fst (resolver w))) = Some p"
    then obtain key where "plain_text key" and p: "p = protocol_payload ''cp.per-step-override-application'' key
        (act_actor_id (dcx_actor (drn_ctx r))) (fst (dcx_now (drn_ctx r) w')) (Some (fst (resolver w)))"
      by (auto simp: compose_override_entry_payload_def override_idempotency_key_def
          split: bind_splits dest: segments_key_plain)
    then show "wiring_payload r p"
      unfolding p by (intro protocol_payload_wiring [OF r] wiring_ref_plain [OF r Some]) simp_all
  qed
qed

lemma keeps_bind_step: "run_ok r \<Longrightarrow> keeps r (bind_step r step)"
  by (simp add: bind_step_def Let_def keeps_go keeps_andthen keeps_emit_override_entry)

section \<open>Results\<close>

definition replay_failure :: "run_fail_class option \<Rightarrow> bool" where
  "replay_failure fc \<longleftrightarrow>
     (case fc of
        Some (REPLAY_UNREADABLE_STORE _) \<Rightarrow> True
      | Some (REPLAY_MISSING_OUTPUT _ _) \<Rightarrow> True
      | Some (REPLAY_IDENTITY_MISMATCH _ _ _) \<Rightarrow> True
      | _ \<Rightarrow> False)"

lemma replay_failure_None [simp]: "\<not> replay_failure None"
  by (simp add: replay_failure_def)

text \<open>What a result says of a run with \<open>k\<close> committed steps and the outputs \<open>acc\<close>.\<close>

definition result_fits :: "'w driver_run \<Rightarrow> nat \<Rightarrow> outputs_state \<Rightarrow> run_result \<Rightarrow> bool" where
  "result_fits r k acc res \<longleftrightarrow>
     (case rrs_status res of
        RUN_SUCCESS \<Rightarrow>
          k = length (drn_steps r) \<and> rrs_final_state res = Some acc \<and> rrs_partial_state res = None \<and>
          rrs_fail_class res = None \<and> rrs_terminal_step_index res = None
      | RUN_PARTIAL \<Rightarrow> False
      | RUN_FAILED \<Rightarrow>
          rrs_final_state res = None \<and>
          (case rrs_partial_state res of
             None \<Rightarrow> True
           | Some acc' \<Rightarrow> acc' = acc \<and> rrs_terminal_step_index res = Some (int k) \<and> k < length (drn_steps r))
      | _ \<Rightarrow>
          rrs_final_state res = None \<and> rrs_fail_class res = None \<and>
          (case rrs_partial_state res of
             None \<Rightarrow> rrs_terminal_step_index res = None
           | Some acc' \<Rightarrow> acc' = acc \<and> rrs_terminal_step_index res = prev_index (int k))) \<and>
     (\<forall>snapshot. rrs_pause_snapshot res = Some snapshot \<longrightarrow>
        rrs_status res = RUN_PAUSED \<and> psn_step_index snapshot = int k \<and> k < length (drn_steps r) \<and>
        psn_run_id snapshot = drn_run_id r \<and> psn_workflow_id snapshot = wme_workflow_id (drn_manifest r))"

text \<open>A return leaves the invariant at a position its result fits; no resume fails for want of outputs.\<close>

definition ret_ok :: "'w driver_run \<Rightarrow> bool \<Rightarrow> run_result \<times> nat \<Rightarrow> 'w driver_state \<Rightarrow> bool" where
  "ret_ok r b res s \<longleftrightarrow>
     (\<exists>k ph acc. result_fits r k acc (fst res) \<and>
        linear_inv r (\<lambda>m. acc_is r b k acc m \<and> \<not> replay_failure (rrs_fail_class (fst res))) k ph s)"

lemma ret_okI:
  "linear_inv r (acc_is r b k acc) k ph s \<Longrightarrow> result_fits r k acc res \<Longrightarrow> \<not> replay_failure (rrs_fail_class res) \<Longrightarrow>
   ret_ok r b (res, n) s"
  unfolding ret_ok_def by (intro exI conjI) (simp, erule linear_inv_mono, simp)

abbreviation piece :: "'w driver_run \<Rightarrow> bool \<Rightarrow> ('w driver_state \<Rightarrow> bool) \<Rightarrow> ('w, run_result \<times> nat, 'a) driver \<Rightarrow>
    ('a \<Rightarrow> 'w driver_state \<Rightarrow> bool) \<Rightarrow> bool" where
  "piece r b P m Q \<equiv> triple P m Q (ret_ok r b) (some_inv r)"

lemma keeps_piece: "keeps r m \<Longrightarrow> piece r b (linear_inv r X k ph) m (\<lambda>_. linear_inv r X k ph)"
  by (erule keeps_triple)

lemma piece_leave:
  "result_fits r k acc res \<Longrightarrow> \<not> replay_failure (rrs_fail_class res) \<Longrightarrow>
   piece r b (linear_inv r (acc_is r b k acc) k ph) (leave (res, n)) Q"
  by (rule triple_leave) (erule ret_okI)

lemma piece_pause_here:
  assumes r: "run_ok r" and k: "k < length (drn_steps r)"
  shows "piece r b (linear_inv r (acc_is r b k acc) k ph) (pause_here r protocol (int k) reason carriers low acc n) Q"
  unfolding pause_here_def
proof (rule triple_andthen [OF keeps_piece [OF keeps_world]])
  fix pctx
  show "piece r b (linear_inv r (acc_is r b k acc) k ph)
    (case capture_pause_snapshot (lge_floats (dcx_ledger_env (drn_ctx r))) pctx (wme_workflow_id (drn_manifest r))
            (drn_run_id r) (int k) reason carriers of
       None \<Rightarrow> fail (raised ''UnicodeEncodeError'')
     | Some snapshot \<Rightarrow>
         andthen (emit_protocol_entry r (dec_int (int k)) PAUSE_CAPTURED (4 * int k + low) (pause_snapshot_json snapshot))
           (\<lambda>_. leave (answer r RUN_PAUSED (prev_index (int k)) (Some acc) None None (Some snapshot), n))) Q"
  proof (cases "capture_pause_snapshot (lge_floats (dcx_ledger_env (drn_ctx r))) pctx (wme_workflow_id (drn_manifest r))
            (drn_run_id r) (int k) reason carriers")
    case None
    show ?thesis unfolding None option.case by (rule triple_fail) (erule linear_inv_some)
  next
    case (Some snapshot)
    then have "result_fits r k acc (answer r RUN_PAUSED (prev_index (int k)) (Some acc) None None (Some snapshot))"
      using k by (auto simp: result_fits_def answer_def capture_pause_snapshot_def Let_def)
    moreover have "\<not> replay_failure (rrs_fail_class (answer r RUN_PAUSED (prev_index (int k)) (Some acc) None None (Some snapshot)))"
      by (simp add: answer_def)
    ultimately show ?thesis
      unfolding Some option.case
      by (intro triple_andthen [OF keeps_piece [OF keeps_emit_protocol_entry [OF r]]] piece_leave)
  qed
qed

lemma piece_drain_check:
  assumes "terminal = prev_index (int k)"
  shows "piece r b (linear_inv r (acc_is r b k acc) k ph) (drain_check r terminal acc n) (\<lambda>_. linear_inv r (acc_is r b k acc) k ph)"
  unfolding drain_check_def
  by (intro triple_andthen [OF keeps_piece [OF keeps_world]] triple_if piece_leave keeps_piece [OF keeps_go])
    (simp_all add: result_fits_def answer_def assms)

lemma piece_engine_pause:
  assumes r: "run_ok r"
  shows "piece r b (linear_inv r (acc_is r b k acc) k ph) (engine_pause r (int k) acc n) (\<lambda>_. linear_inv r (acc_is r b k acc) k ph)"
proof (cases "dcx_recovery_loop (drn_ctx r)")
  case None
  then show ?thesis by (simp add: engine_pause_def keeps_piece [OF keeps_go])
next
  case (Some loop)
  have "quiet_call r (elp_capture_pause loop ec w i st)" for ec w i st
    using r Some unfolding run_ok_def collaborators_ok_def by blast
  then show ?thesis
    unfolding engine_pause_def Some option.case
    by (intro triple_if triple_andthen [OF keeps_piece [OF keeps_world]] keeps_piece [OF keeps_go]
        triple_andthen [OF keeps_piece [OF keeps_quiet_invoke [OF r]]] piece_leave)
      (simp_all add: result_fits_def answer_def)
qed

lemma piece_protocol_pause:
  assumes r: "run_ok r" and k: "k < length (drn_steps r)"
  shows "piece r b (linear_inv r (acc_is r b k acc) k ph) (protocol_pause r (int k) acc n) (\<lambda>_. linear_inv r (acc_is r b k acc) k ph)"
  unfolding protocol_pause_def
  by (auto split: option.split intro!: keeps_piece [OF keeps_go] triple_andthen [OF keeps_piece [OF keeps_world]]
      piece_pause_here [OF r k])

section \<open>Dispatch and validation\<close>

lemma linear_inv_dispatched:
  "linear_inv r X k ph s \<Longrightarrow> linear_inv r X k RAN (note_event (DISPATCHED (int k)) s)"
  unfolding linear_inv_def on_track_def ledger_at_def stored_def note_event_def
  by (auto simp: protocol_run_append)

lemma dispatch_quiet: "run_ok r \<Longrightarrow> quiet_call r (dcx_dispatch (drn_ctx r) kind b step ctx)"
  by (simp only: run_ok_def collaborators_ok_def)

lemma dispatch_wf:
  "run_ok r \<Longrightarrow> fst (dcx_dispatch (drn_ctx r) kind b step ctx s) = Inr outp \<Longrightarrow>
   wf_json (oue_floats (dcx_output_env (drn_ctx r))) (JObj outp)"
  unfolding run_ok_def collaborators_ok_def by blast

lemma validator_quiet: "run_ok r \<Longrightarrow> dcx_validator (drn_ctx r) = Some v \<Longrightarrow> quiet_call r (v step outp ctx)"
  by (simp only: run_ok_def collaborators_ok_def)

lemma gate_quiet: "run_ok r \<Longrightarrow> dcx_escalation_gate (drn_ctx r) = Some g \<Longrightarrow> quiet_call r (g brief a)"
  by (simp only: run_ok_def collaborators_ok_def)

lemma triple_dispatch_step:
  fixes r :: "'w driver_run"
  assumes r: "run_ok r" and i: "sec_step_index ctx = int k"
  shows "triple (linear_inv r X k ph) (attempt (dispatch_step r b step ctx))
    (\<lambda>res s. linear_inv r X k RAN s \<and> (\<forall>outp. res = Inr outp \<longrightarrow> wf_json (oue_floats (dcx_output_env (drn_ctx r))) (JObj outp)))
    R E"
proof (rule triple_attempt)
  fix s s' :: "'w driver_state" and res
  let ?s = "note_event (DISPATCHED (int k)) s" and ?c = "dcx_dispatch (drn_ctx r) (wfs_step_kind step) b step ctx"
  assume inv: "linear_inv r X k ph s" and c: "dispatch_step r b step ctx s = (res, s')"
  have "quiet r ?s (snd (?c ?s))" using dispatch_quiet [OF r] by (simp only: quiet_call_def)
  moreover have "\<forall>outp. fst (?c ?s) = Inr outp \<longrightarrow> wf_json (oue_floats (dcx_output_env (drn_ctx r))) (JObj outp)"
    using dispatch_wf [OF r] by blast
  moreover have "?c ?s = (res, s')" using c by (simp add: dispatch_step_def i)
  ultimately show "linear_inv r X k RAN s' \<and>
      (\<forall>outp. res = Inr outp \<longrightarrow> wf_json (oue_floats (dcx_output_env (drn_ctx r))) (JObj outp))"
    using quiet_linear_inv [OF _ linear_inv_dispatched [OF inv] run_key_valid [OF r]] by simp
qed

lemma result_fits_failed:
  "k < length (drn_steps r) \<Longrightarrow> result_fits r k acc (failed_at r (int k) (Some acc) fc)"
  by (simp add: result_fits_def answer_def)

lemma piece_failed:
  "k < length (drn_steps r) \<Longrightarrow> \<not> replay_failure (Some fc) \<Longrightarrow>
   piece r b (linear_inv r (acc_is r b k acc) k ph) (leave (failed_at r (int k) (Some acc) fc, n)) Q"
  by (intro piece_leave result_fits_failed) (simp_all add: answer_def)

lemma piece_fail: "piece r b (linear_inv r X k ph) (fail e) Q"
  by (rule triple_fail) (erule linear_inv_some)

lemma step_fail_class_not_replay: "\<not> replay_failure (Some (step_fail_class exc))"
  by (simp add: step_fail_class_def replay_failure_def)

lemma piece_dispatch_failed:
  assumes r: "run_ok r" and k: "k < length (drn_steps r)"
  shows "piece r b (linear_inv r (acc_is r b k acc) k ph) (dispatch_failed r (int k) acc n exc) Q"
proof -
  have f: "piece r b (linear_inv r (acc_is r b k acc) k ph) (leave (failed_at r (int k) (Some acc) (STEP_FAILURE c t), n)) Q"
    for c t and Q :: "'b \<Rightarrow> 'a driver_state \<Rightarrow> bool" by (rule piece_failed [OF k]) (simp add: replay_failure_def)
  show ?thesis
    unfolding dispatch_failed_def Let_def
    by (cases "dcx_protocol (drn_ctx r)")
      (auto intro!: triple_if f piece_fail piece_failed [OF k step_fail_class_not_replay] piece_pause_here [OF r k]
        triple_andthen [OF keeps_piece [OF keeps_world]])
qed

lemma piece_validate_step:
  assumes r: "run_ok r" and k: "k < length (drn_steps r)" and i: "sec_step_index ctx = int k"
  shows "piece r b (linear_inv r (acc_is r b k acc) k ph) (validate_step r step ctx outp acc n)
           (\<lambda>_. linear_inv r (acc_is r b k acc) k ph)"
proof (cases "dcx_validator (drn_ctx r)")
  case None
  then show ?thesis by (simp add: validate_step_def keeps_piece [OF keeps_go])
next
  case (Some v)
  let ?P = "linear_inv r (acc_is r b k acc) k ph"
  have f: "piece r b ?P (leave (failed_at r (int k) (Some acc) fc, n)) (\<lambda>_. ?P)" if "\<not> replay_failure (Some fc)" for fc
    by (rule piece_failed [OF k that])
  show ?thesis
    unfolding validate_step_def Some option.case Let_def i
  proof (rule triple_andthen [OF keeps_piece [OF keeps_quiet_attempt [OF r validator_quiet [OF r Some]]]])
    fix res :: "step_exception + validator_evaluation"
    show "piece r b ?P
      (case res of
         Inl exc \<Rightarrow> if pex_is_exception exc
           then leave (failed_at r (int k) (Some acc) (VALIDATOR_FRAMEWORK_FAILURE (pex_type_name exc) (pex_text exc)), n)
           else fail exc
       | Inr ev \<Rightarrow> if vev_next_action ev = NEXT_ABORT
           then leave (failed_at r (int k) (Some acc) (CP_FAIL_VALIDATOR_PERMANENT (wfs_step_id step)), n)
           else if vev_next_action ev = NEXT_ESCALATE_HITL then
             case (dcx_escalation_gate (drn_ctx r), vrs_escalation_brief (vev_result ev)) of
               (None, _) \<Rightarrow> go ()
             | (Some gate, None) \<Rightarrow> go ()
             | (Some gate, Some brief) \<Rightarrow> andthen (attempt (gate brief (sec_parent_action_id ctx))) (\<lambda>res.
                 case res of
                   Inl exc \<Rightarrow> if pex_type_name exc = lit ''ValidatorEscalationGateRejectedError''
                     then leave (failed_at r (int k) (Some acc) (RT_FAIL_HITL_GATE_REJECTED (wfs_step_id step) (pex_text exc)), n)
                     else if pex_type_name exc = lit ''ValidatorEscalationGateTimeoutError''
                     then leave (failed_at r (int k) (Some acc) (RT_FAIL_HITL_GATE_TIMEOUT (wfs_step_id step) (pex_text exc)), n)
                     else if pex_type_name exc = lit ''ValidatorEscalationGateAuditComposeError''
                     then leave (failed_at r (int k) (Some acc)
                       (RT_FAIL_VALIDATOR_ESCALATION_GATE_COMPOSE (wfs_step_id step) (pex_text exc)), n)
                     else fail exc
                 | Inr x \<Rightarrow> go ())
           else go ()) (\<lambda>_. ?P)"
      by (auto split: sum.split option.split intro!: f piece_fail keeps_piece [OF keeps_go]
          triple_andthen [OF keeps_piece [OF keeps_quiet_attempt [OF r gate_quiet [OF r]]]] simp: replay_failure_def simp del: lit_Cons)
  qed
qed

section \<open>Sorted outputs\<close>

lemma insort_key_map: "(\<And>x. f (g x) = f x) \<Longrightarrow> insort_key f (g x) (map g xs) = map g (insort_key f x xs)"
  by (induction xs) simp_all

lemma sort_key_map: "(\<And>x. f (g x) = f x) \<Longrightarrow> sort_key f (map g xs) = map g (sort_key f xs)"
  by (induction xs) (simp_all add: insort_key_map)

lemma sorted_dict_alt: "sorted_dict d = map (\<lambda>kv. (fst kv, sort_keys (snd kv))) (sort_key fst d)"
  unfolding sorted_dict_def by (rule sort_key_map) simp

lemma sort_keys_idem: "sort_keys (sort_keys v) = sort_keys v"
proof (induction v)
  case (JObj kvs)
  have "sorted_dict (sorted_dict kvs) = sorted_dict kvs"
  proof -
    have "sorted (map fst (sort_key fst kvs))" by simp
    then have "sort_key fst (sorted_dict kvs) = sorted_dict kvs"
      unfolding sorted_dict_alt by (simp add: sort_key_map sort_key_id_if_sorted)
    then have "sorted_dict (sorted_dict kvs) = map (\<lambda>kv. (fst kv, sort_keys (snd kv))) (sorted_dict kvs)"
      by (simp add: sorted_dict_alt [of "sorted_dict kvs"])
    also have "\<dots> = sorted_dict kvs"
      unfolding sorted_dict_alt map_map
    proof (rule map_cong [OF refl])
      fix kv
      assume "kv \<in> set (sort_key fst kvs)"
      then have "sort_keys (sort_keys (snd kv)) = sort_keys (snd kv)"
        by (intro JObj.IH [of kv]) (auto simp: snds.simps)
      then show "((\<lambda>kv. (fst kv, sort_keys (snd kv))) \<circ> (\<lambda>kv. (fst kv, sort_keys (snd kv)))) kv = (fst kv, sort_keys (snd kv))"
        by simp
    qed
    finally show ?thesis .
  qed
  then show ?case by (simp only: sort_keys_dict)
qed (simp_all add: sort_keys.simps)

lemma sorted_dict_idem: "sorted_dict (sorted_dict d) = sorted_dict d"
  using sort_keys_idem [of "JObj d"] by (simp only: sort_keys_dict json.inject)

lemma sorted_outputs_update: "sorted_outputs (AList.update k d acc) = AList.update k (sorted_dict d) (sorted_outputs acc)"
  by (induction acc) (auto simp: sorted_outputs_def)

lemma sorted_outputs_by_step_id: "sorted_outputs (outputs_by_step_id xs) = outputs_by_step_id (sorted_outputs xs)"
proof -
  have "sorted_outputs (foldl (\<lambda>m (k, v). AList.update k v m) m xs) =
        foldl (\<lambda>m (k, v). AList.update k v m) (sorted_outputs m) (sorted_outputs xs)" for m
    by (induction xs arbitrary: m) (auto simp: sorted_outputs_update, simp_all add: sorted_outputs_def)
  from this [of "[]"] show ?thesis by (simp add: outputs_by_step_id_def sorted_outputs_def)
qed

lemma outputs_by_step_id_snoc: "outputs_by_step_id (xs @ [(k, v)]) = AList.update k v (outputs_by_step_id xs)"
  by (simp add: outputs_by_step_id_def)

lemma outputs_prefix_Suc:
  "outputs_prefix r (Suc k) m = outputs_prefix r k m @ [(wfs_step_id (drn_steps r ! k), snd (the (m (int k))))]"
  by (simp add: outputs_prefix_def)

lemma outputs_prefix_cong: "(\<And>i. i < k \<Longrightarrow> m (int i) = m' (int i)) \<Longrightarrow> outputs_prefix r k m = outputs_prefix r k m'"
  by (simp add: outputs_prefix_def)

lemma acc_is_Suc:
  assumes "acc_is r b k acc m" "has_output r k (sorted_dict outp) m" "b \<longrightarrow> stores r"
  shows "acc_is r b (Suc k) (AList.update (wfs_step_id (drn_steps r ! k)) outp acc) m"
  using assms by (simp add: acc_is_def has_output_def sorted_outputs_update outputs_prefix_Suc outputs_by_step_id_snoc)

section \<open>Storing and committing a step\<close>

lemma step_record_wf:
  "wf_json fc (JObj outp) \<Longrightarrow> list_all valid_cp sid \<Longrightarrow> wf_json fc (JObj (step_record i sid outp))"
  by (auto simp: step_record_def valid_cp_def simp del: lit_Cons) (auto simp: lit_def valid_cp_def)

lemma record_output_stored:
  assumes v: "list_all valid_cp (drn_run_key r)"
    and c: "clean_journal (dcx_output_env (drn_ctx r)) (dst_outputs s) (journal_path r)"
    and wf: "wf_json (oue_floats (dcx_output_env (drn_ctx r))) (JObj outp)" "list_all valid_cp sid"
    and p: "printable_floats (oue_floats (dcx_output_env (drn_ctx r)))"
  shows "\<exists>files. record_output (dcx_output_env (drn_ctx r)) (drn_run_key r) i sid outp (dst_outputs s) = (files, True) \<and>
     clean_journal (dcx_output_env (drn_ctx r)) files (journal_path r) \<and>
     the (read_outputs (dcx_output_env (drn_ctx r)) (drn_run_key r) files) = (stored r s)(i \<mapsto> (sid, sorted_dict outp))"
proof -
  let ?env = "dcx_output_env (drn_ctx r)" and ?d = "step_record i sid outp"
  note dg = journal_file_path [OF v]
  have wfd: "wf_json (oue_floats ?env) (JObj ?d)" by (rule step_record_wf [OF wf])
  let ?a = "append_path ?env (journal_path r) (record_line ?env ?d) (dst_outputs s)"
  have rec: "record_output ?env (drn_run_key r) i sid outp (dst_outputs s) = ?a"
    using perform_append [OF dg, of ?env "STEP_OUTPUT i sid outp"] by (simp add: journal_path_def)
  have "printable (record_line ?env ?d)"
    using record_line_good [OF wfd p] unfolding good_line_def by (elim conjE)
  then have "\<forall>c \<in> set (appended_text ?env (dst_outputs s) (journal_path r) (record_line ?env ?d)). c < 128"
    by (fastforce simp: appended_text_def printable_def)
  then have ok: "snd ?a" by (simp add: append_path_def utf8_encode_ascii)
  have cl: "clean_journal ?env (fst ?a) (journal_path r)"
    using play_step(1) [OF c, of "Whole ?d"] by (simp only: written.simps play.simps wfd p)
  have d: "documents_at ?env (fst ?a) (journal_path r) =
      documents_at ?env (dst_outputs s) (journal_path r) @ [sorted_dict ?d]"
    using play_step(2) [OF c, of "Whole ?d"] by (simp only: written.simps play.simps landed.simps wfd p if_True simp_thms)
  have acc: "accept_step (sorted_dict ?d) = Some (i, sid, sorted_dict outp)"
    using step_reader.accepts [of "(i, sid, outp)"] by simp
  have read: "read_outputs ?env (drn_run_key r) f = Some (fold (\<lambda>(i, sid, out) m. m(i \<mapsto> (sid, out)))
      (List.map_filter accept_step (documents_at ?env f (journal_path r))) Map.empty)" for f
    using read_outputs_documents [OF dg] by (simp add: journal_path_def)
  have "the (read_outputs ?env (drn_run_key r) (fst ?a)) = (stored r s)(i \<mapsto> (sid, sorted_dict outp))"
    by (simp add: stored_def read d acc List.map_filter_def)
  then show ?thesis
    using rec ok cl by (intro exI [of _ "fst ?a"] conjI) (simp_all add: prod_eq_iff)
qed

definition kept_phase :: "'w driver_run \<Rightarrow> step_phase" where
  "kept_phase r = (if stores r then KEPT else RAN)"

lemma piece_store:
  fixes r :: "'w driver_run"
  assumes r: "run_ok r" and k: "k < length (drn_steps r)" and b: "b \<longrightarrow> stores r"
    and wf: "wf_json (oue_floats (dcx_output_env (drn_ctx r))) (JObj outp)"
  shows "piece r b (linear_inv r (acc_is r b k acc) k RAN)
     (if wme_engine_class (drn_manifest r) \<in> set FINAL_STATE_RECONSTRUCT_ENGINE_CLASSES
      then record_durable_step_output r (int k) (wfs_step_id (drn_steps r ! k)) outp else go ())
     (\<lambda>_. linear_inv r (\<lambda>m. acc_is r b k acc m \<and> has_output r k (sorted_dict outp) m) k (kept_phase r))"
proof (cases "stores r")
  case False
  then have "linear_inv r (acc_is r b k acc) k RAN s \<Longrightarrow>
      linear_inv r (\<lambda>m. acc_is r b k acc m \<and> has_output r k (sorted_dict outp) m) k (kept_phase r) s" for s
    by (simp add: has_output_def kept_phase_def)
  with False show ?thesis
    by (auto simp: triple_def go_def record_durable_step_output_def stores_def)
next
  case True
  let ?sid = "wfs_step_id (drn_steps r ! k)"
  have t: "texts_ok r" using r by (simp add: run_ok_def)
  have "\<exists>s'. (record_durable_step_output r (int k) ?sid outp :: ('w, run_result \<times> nat, unit) driver) s = (Go (), s') \<and>
      linear_inv r (\<lambda>m. acc_is r b k acc m \<and> has_output r k (sorted_dict outp) m) k (kept_phase r) s'"
    if i: "linear_inv r (acc_is r b k acc) k RAN s" for s
  proof -
    obtain es where es: "ledger_at r s es" "owned r es \<longrightarrow> on_track r (acc_is r b k acc) k RAN es s"
      and c: "clean_journal (dcx_output_env (drn_ctx r)) (dst_outputs s) (journal_path r)"
      using i unfolding linear_inv_def by blast
    have sid: "list_all valid_cp ?sid" using t k by (simp add: texts_ok_def)
    have pf: "printable_floats (oue_floats (dcx_output_env (drn_ctx r)))" using t by (simp add: texts_ok_def)
    obtain files where f: "record_output (dcx_output_env (drn_ctx r)) (drn_run_key r) (int k) ?sid outp (dst_outputs s) = (files, True)"
      "clean_journal (dcx_output_env (drn_ctx r)) files (journal_path r)"
      "the (read_outputs (dcx_output_env (drn_ctx r)) (drn_run_key r) files) = (stored r s)(int k \<mapsto> (?sid, sorted_dict outp))"
      using record_output_stored [OF run_key_valid [OF r] c wf sid pf] by blast
    let ?s = "note_event (STORED (int k)) (s\<lparr>dst_outputs := files\<rparr>)"
    have st: "stored r ?s = (stored r s)(int k \<mapsto> (?sid, sorted_dict outp))"
      by (simp add: stored_def note_event_def f(3))
    have tr: "dst_trace ?s = dst_trace s @ [STORED (int k)]" by (simp add: note_event_def)
    have pre: "outputs_prefix r k ((stored r s)(int k \<mapsto> (?sid, sorted_dict outp))) = outputs_prefix r k (stored r s)"
      by (rule outputs_prefix_cong) simp
    have "on_track r (\<lambda>m. acc_is r b k acc m \<and> has_output r k (sorted_dict outp) m) k KEPT es ?s"
      if "on_track r (acc_is r b k acc) k RAN es s"
      using that True
      by (simp add: on_track_def st pre tr acc_is_def store_covers_def has_output_def sorted_dict_idem protocol_run_append)
    then have "linear_inv r (\<lambda>m. acc_is r b k acc m \<and> has_output r k (sorted_dict outp) m) k KEPT ?s"
      using es f(2) unfolding linear_inv_def by (intro conjI exI [of _ es]) (auto simp: ledger_at_def note_event_def)
    then show ?thesis
      using True f(1) by (simp add: record_durable_step_output_def kept_phase_def stores_def)
  qed
  note main = this
  have e: "wme_engine_class (drn_manifest r) \<in> set FINAL_STATE_RECONSTRUCT_ENGINE_CLASSES" using True by (simp add: stores_def)
  show ?thesis
    unfolding triple_def
  proof (intro allI impI)
    fix s
    assume "linear_inv r (acc_is r b k acc) k RAN s"
    from main [OF this] obtain s' where "(record_durable_step_output r (int k) ?sid outp :: ('w, run_result \<times> nat, unit) driver) s = (Go (), s')"
      "linear_inv r (\<lambda>m. acc_is r b k acc m \<and> has_output r k (sorted_dict outp) m) k (kept_phase r) s'" by (elim exE conjE)
    then show "case (if wme_engine_class (drn_manifest r) \<in> set FINAL_STATE_RECONSTRUCT_ENGINE_CLASSES
        then record_durable_step_output r (int k) ?sid outp else go ()) s of
        (Raise e, s') \<Rightarrow> some_inv r s' | (Return y, s') \<Rightarrow> ret_ok r b y s'
      | (Go x, s') \<Rightarrow> linear_inv r (\<lambda>m. acc_is r b k acc m \<and> has_output r k (sorted_dict outp) m) k (kept_phase r) s'"
      using e by (simp only: if_True prod.case flow.case)
  qed
qed

definition committed_or_not ::
  "'w driver_run \<Rightarrow> bool \<Rightarrow> nat \<Rightarrow> outputs_state \<Rightarrow> json_object \<Rightarrow> write_error + write_result \<Rightarrow> 'w driver_state \<Rightarrow> bool" where
  "committed_or_not r b k acc outp res s =
     (case res of
        Inl _ \<Rightarrow> linear_inv r (acc_is r b k acc) k (kept_phase r) s
      | Inr _ \<Rightarrow> linear_inv r (acc_is r b (Suc k) (AList.update (wfs_step_id (drn_steps r ! k)) outp acc)) (Suc k) IDLE s)"

lemma step_payload_plain:
  assumes "run_ok r" "plain_text key" "\<forall>x \<in> set_option ref. plain_text x"
  shows "plain_payload (step_payload r i key (fst (dcx_now (drn_ctx r) w)) ref)"
proof -
  have "plain_text (lit ''workflow:'')" "plain_text (lit '':step:'')" by (auto intro!: ascii_plain)
  then show ?thesis
    using assms by (auto simp: plain_payload_def step_payload_def step_action_id_def run_ok_def texts_ok_def dec_int_plain
      simp del: lit_Cons)
qed

lemma append_step_entry_commits:
  assumes r: "run_ok r" and k: "k < length (drn_steps r)" and b: "b \<longrightarrow> stores r" and key: "key = step_key r k"
    and p: "p = step_payload r (int k) key now ref" "plain_payload p"
    and i: "linear_inv r (\<lambda>m. acc_is r b k acc m \<and> has_output r k (sorted_dict outp) m) k (kept_phase r) s"
    and a: "append_entry (drn_ctx r) p wk s = (res, s')"
  shows "committed_or_not r b k acc outp res (if res = Inr APPENDED then note_event (COMMITTED (int k)) s' else s')"
proof -
  let ?X = "\<lambda>m. acc_is r b k acc m \<and> has_output r k (sorted_dict outp) m"
    and ?Y = "acc_is r b (Suc k) (AList.update (wfs_step_id (drn_steps r ! k)) outp acc)"
  obtain es where es: "ledger_at r s es" "owned r es \<longrightarrow> on_track r ?X k (kept_phase r) es s"
    and c: "clean_journal (dcx_output_env (drn_ctx r)) (dst_outputs s) (journal_path r)"
    using i unfolding linear_inv_def by blast
  have env: "env_ok (dcx_ledger_env (drn_ctx r))" using r by (simp add: run_ok_def texts_ok_def)
  note o = append_entry_other [OF a]
  have keys: "epl_idempotency_key p = step_key r k" "epl_action_id p = step_action_id r (int k)"
    by (simp_all add: p(1) key step_payload_def)
  show ?thesis
    using env es(1) p(2) a
  proof (cases rule: append_entry_cases)
    case (appended e)
    let ?s = "note_event (COMMITTED (int k)) s'"
    have "on_track r ?Y (Suc k) IDLE (es @ [e]) ?s" if ow: "owned r (es @ [e])"
    proof -
      have t: "on_track r ?X k (kept_phase r) es s" using es(2) ow by (simp add: owned_append)
      have st: "stored r ?s = stored r s" using o by (simp add: stored_def note_event_def)
      have tr: "dst_trace ?s = dst_trace s @ [COMMITTED (int k)]" using o by (simp add: note_event_def)
      have "in_log r [e] j \<longleftrightarrow> j = k" if j: "j < length (drn_steps r)" for j
      proof
        assume "in_log r [e] j"
        then have "len_action_id e = step_action_id r (int j)" using ow j by (auto simp: owned_def in_log_def)
        then show "j = k" using appended(2) keys(2) step_action_id_inj [of r "int j" "int k"] by simp
      qed (simp add: in_log_def appended(3) keys(1))
      then have log: "\<forall>j < length (drn_steps r). in_log r (es @ [e]) j \<longleftrightarrow> j < Suc k"
        using t by (auto simp: on_track_def in_log_append)
      have X: "?X (stored r s)" and cov: "store_covers r k (stored r s)"
        and pr: "protocol_run (stores r) (0, IDLE) (dst_trace s) = Some (k, kept_phase r)"
        using t unfolding on_track_def by blast+
      have "store_covers r (Suc k) (stored r s)"
        using X cov unfolding store_covers_def less_Suc_eq by blast
      moreover have "?Y (stored r s)" using X acc_is_Suc b by blast
      moreover have "protocol_run (stores r) (0, IDLE) (dst_trace ?s) = Some (Suc k, IDLE)"
        by (simp add: tr protocol_run_append pr kept_phase_def)
      ultimately show ?thesis using log k unfolding on_track_def st by simp
    qed
    moreover have "ledger_at r ?s (es @ [e])" using appended(4) by (simp add: ledger_at_def note_event_def)
    moreover have "clean_journal (dcx_output_env (drn_ctx r)) (dst_outputs ?s) (journal_path r)"
      using c o by (simp add: note_event_def)
    ultimately have "linear_inv r ?Y (Suc k) IDLE ?s" unfolding linear_inv_def by blast
    then show ?thesis by (simp add: committed_or_not_def appended(1))
  next
    case noop
    have "\<not> owned r es"
    proof
      assume "owned r es"
      then have "\<not> in_log r es k" using es(2) k by (simp add: on_track_def)
      then show False using noop(3) keys(1) by (auto simp: in_log_def)
    qed
    then have "linear_inv r ?Y (Suc k) IDLE s'" using noop(2) c o unfolding linear_inv_def by auto
    then show ?thesis by (simp add: committed_or_not_def noop(1))
  next
    case (failed err)
    have "on_track r ?X k (kept_phase r) es s' = on_track r ?X k (kept_phase r) es s" using o by (simp add: on_track_def)
    then have "linear_inv r ?X k (kept_phase r) s'" using failed(2) es(2) c o unfolding linear_inv_def by auto
    then have "linear_inv r (acc_is r b k acc) k (kept_phase r) s'" by (rule linear_inv_mono) simp
    then show ?thesis by (simp add: committed_or_not_def failed(1))
  qed
qed

lemma triple_append_step:
  assumes r: "run_ok r" and k: "k < length (drn_steps r)" and b: "b \<longrightarrow> stores r" and key: "key = step_key r k" "plain_text key"
  shows "piece r b (linear_inv r (\<lambda>m. acc_is r b k acc m \<and> has_output r k (sorted_dict outp) m) k (kept_phase r))
    (append_step_ledger_entry r (int k) key) (committed_or_not r b k acc outp)"
proof -
  let ?P = "linear_inv r (\<lambda>m. acc_is r b k acc m \<and> has_output r k (sorted_dict outp) m) k (kept_phase r)"
  let ?wk = "\<lparr>wky_thread_id = wme_workflow_id (drn_manifest r), wky_step_id = dec_int (int k), wky_idempotency_key = key\<rparr>"
  have main: "piece r b ?P (andthen (world (dcx_now (drn_ctx r))) (\<lambda>now s.
       case append_entry (drn_ctx r) (step_payload r (int k) key now ref) ?wk s of
         (res, s') \<Rightarrow> (Go res, if res = Inr APPENDED then note_event (COMMITTED (int k)) s' else s')))
      (committed_or_not r b k acc outp)" if ref: "\<forall>x \<in> set_option ref. plain_text x" for ref
  proof (rule triple_world_andthen)
    fix w
    show "piece r b ?P (\<lambda>s. case append_entry (drn_ctx r) (step_payload r (int k) key (fst (dcx_now (drn_ctx r) w)) ref) ?wk s of
         (res, s') \<Rightarrow> (Go res, if res = Inr APPENDED then note_event (COMMITTED (int k)) s' else s'))
      (committed_or_not r b k acc outp)"
      unfolding triple_def
    proof (intro allI impI)
      fix s
      assume i: "?P s"
      obtain res s' where a: "append_entry (drn_ctx r) (step_payload r (int k) key (fst (dcx_now (drn_ctx r) w)) ref) ?wk s = (res, s')"
        by fastforce
      from append_step_entry_commits [OF r k b key(1) refl step_payload_plain [OF r key(2) ref] i a]
      show "case (case append_entry (drn_ctx r) (step_payload r (int k) key (fst (dcx_now (drn_ctx r) w)) ref) ?wk s of
          (res, s') \<Rightarrow> (Go res, if res = Inr APPENDED then note_event (COMMITTED (int k)) s' else s')) of
          (Raise e, s') \<Rightarrow> some_inv r s' | (Return y, s') \<Rightarrow> ret_ok r b y s'
        | (Go x, s') \<Rightarrow> committed_or_not r b k acc outp x s'" by (simp add: a)
    qed
  qed simp
  show ?thesis
  proof (cases "dcx_snapshot_ref (drn_ctx r)")
    case None
    show ?thesis unfolding append_step_ledger_entry_def None option.case
      by (rule triple_andthen [where Q = "\<lambda>ref s. ?P s \<and> ref = None"], rule triple_go, simp, rule triple_pure)
        (use main [of None] in simp)
  next
    case (Some resolver)
    have pl: "plain_text (fst (resolver w))" for w using r Some by (auto simp: run_ok_def texts_ok_def)
    have "piece r b ?P (andthen (world resolver) (\<lambda>ref. go (Some ref)))
        (\<lambda>ref s. ?P s \<and> (\<exists>w. ref = Some (fst (resolver w))))"
      by (intro triple_world_andthen triple_go) auto
    then show ?thesis unfolding append_step_ledger_entry_def Some option.case
    proof (rule triple_andthen, intro triple_pure, elim exE)
      fix ref w
      assume "ref = Some (fst (resolver w))"
      then show "piece r b ?P (andthen (world (dcx_now (drn_ctx r))) (\<lambda>now s.
           case append_entry (drn_ctx r) (step_payload r (int k) key now ref) ?wk s of
             (res, s') \<Rightarrow> (Go res, if res = Inr APPENDED then note_event (COMMITTED (int k)) s' else s')))
          (committed_or_not r b k acc outp)" by (intro main) (simp add: pl)
    qed
  qed
qed

lemma piece_commit_step:
  assumes r: "run_ok r" and k: "k < length (drn_steps r)" and b: "b \<longrightarrow> stores r" and key: "key = step_key r k" "plain_text key"
    and wf: "wf_json (oue_floats (dcx_output_env (drn_ctx r))) (JObj outp)"
  shows "piece r b (linear_inv r (acc_is r b k acc) k RAN) (commit_step r (int k) key (drn_steps r ! k) outp acc n)
    (\<lambda>_. linear_inv r (acc_is r b (Suc k) (AList.update (wfs_step_id (drn_steps r ! k)) outp acc)) (Suc k) IDLE)"
  unfolding commit_step_def
proof (intro triple_andthen [OF piece_store [OF r k b wf]] triple_andthen [OF triple_append_step [OF r k b key]])
  fix res :: "write_error + write_result"
  show "piece r b (committed_or_not r b k acc outp res)
    (case res of
       Inl e \<Rightarrow> leave (failed_at r (int k) (Some acc) (LEDGER_APPEND_FAILED e), n)
     | Inr x \<Rightarrow> go ())
    (\<lambda>_. linear_inv r (acc_is r b (Suc k) (AList.update (wfs_step_id (drn_steps r ! k)) outp acc)) (Suc k) IDLE)"
  proof (cases res)
    case (Inl e)
    have "committed_or_not r b k acc outp res = linear_inv r (acc_is r b k acc) k (kept_phase r)"
      by (rule ext) (simp add: committed_or_not_def Inl)
    then show ?thesis unfolding Inl sum.case by (simp only: Inl) (rule piece_failed [OF k], simp add: replay_failure_def)
  next
    case (Inr x)
    then show ?thesis by (auto simp: committed_or_not_def intro: triple_go)
  qed
qed

end
