(* ===== verification/Linear_Correctness.thy ===== *)
theory Linear_Correctness
  imports Linear_Invariant
begin

text \<open>
  The linear driver as a whole: resuming finds the first step that is not committed, the loop commits the steps from
  there on one by one, and every way out leaves a state from which the next attempt goes on. Over any number of
  attempts a committed step is never dispatched again, and the final state is that of the store.
\<close>

section \<open>The loop\<close>

lemma step_key_some:
  assumes "compute_step_idempotency_key (drn_run_key r) (int k) None = Some key"
  shows "key = step_key r k" "plain_text key"
  using assms nul_key_plain by (auto simp: step_key_def compute_step_idempotency_key_def)

lemma piece_emit: "piece r b (linear_inv r X k ph) (emit e) (\<lambda>_. linear_inv r X k ph)"
  by (rule keeps_piece [OF keeps_emit])

lemma piece_linear_step:
  assumes r: "run_ok r" and k: "k < length (drn_steps r)" and b: "b \<longrightarrow> stores r"
  shows "piece r b (linear_inv r (acc_is r b k acc) k ph) (linear_step r directive (drn_steps r ! k) (int k) acc n)
    (\<lambda>acc'. linear_inv r (acc_is r b (Suc k) acc') (Suc k) IDLE)"
  unfolding linear_step_def
proof (intro triple_andthen [OF piece_drain_check [OF refl]] triple_andthen [OF piece_engine_pause [OF r]]
    triple_andthen [OF piece_protocol_pause [OF r k]] triple_andthen [OF keeps_piece [OF keeps_bind_step [OF r]]])
  fix bd :: step_effective_binding
  let ?step = "drn_steps r ! k"
  show "piece r b (linear_inv r (acc_is r b k acc) k ph)
    (case compute_step_idempotency_key (drn_run_key r) (int k) None of
       None \<Rightarrow> fail (raised ''UnicodeEncodeError'')
     | Some key \<Rightarrow>
         let ctx = step_context_for r bd directive key (int k) in
         andthen (attempt (dispatch_step r bd ?step ctx)) (\<lambda>res.
           case res of
             Inl exc \<Rightarrow> dispatch_failed r (int k) acc n exc
           | Inr outp \<Rightarrow>
               andthen (emit STEP_BOUNDARY) (\<lambda>_.
               andthen (validate_step r ?step ctx outp acc n) (\<lambda>_.
               andthen (commit_step r (int k) key ?step outp acc n) (\<lambda>_.
               andthen (\<lambda>s. (Go (), record_inter_step_output (drn_ctx r) (wfs_step_id ?step) outp s)) (\<lambda>_.
               andthen (drain_check r (Some (int k)) (AList.update (wfs_step_id ?step) outp acc) (Suc n)) (\<lambda>_.
                 go (AList.update (wfs_step_id ?step) outp acc))))))))
    (\<lambda>acc'. linear_inv r (acc_is r b (Suc k) acc') (Suc k) IDLE)"
  proof (cases "compute_step_idempotency_key (drn_run_key r) (int k) None")
    case None
    then show ?thesis by (simp add: piece_fail)
  next
    case (Some key)
    note key = step_key_some [OF Some]
    let ?ctx = "step_context_for r bd directive key (int k)"
    have i: "sec_step_index ?ctx = int k" by (simp add: step_context_for_def)
    show ?thesis
      unfolding Some option.case Let_def
    proof (rule triple_andthen [OF triple_dispatch_step [OF r i]])
      fix res :: "step_exception + json_object"
      let ?wf = "\<lambda>outp. wf_json (oue_floats (dcx_output_env (drn_ctx r))) (JObj outp)"
      show "piece r b (\<lambda>s. linear_inv r (acc_is r b k acc) k RAN s \<and> (\<forall>outp. res = Inr outp \<longrightarrow> ?wf outp))
        (case res of
           Inl exc \<Rightarrow> dispatch_failed r (int k) acc n exc
         | Inr outp \<Rightarrow>
             andthen (emit STEP_BOUNDARY) (\<lambda>_.
             andthen (validate_step r ?step ?ctx outp acc n) (\<lambda>_.
             andthen (commit_step r (int k) key ?step outp acc n) (\<lambda>_.
             andthen (\<lambda>s. (Go (), record_inter_step_output (drn_ctx r) (wfs_step_id ?step) outp s)) (\<lambda>_.
             andthen (drain_check r (Some (int k)) (AList.update (wfs_step_id ?step) outp acc) (Suc n)) (\<lambda>_.
               go (AList.update (wfs_step_id ?step) outp acc)))))))
        (\<lambda>acc'. linear_inv r (acc_is r b (Suc k) acc') (Suc k) IDLE)"
      proof (rule triple_pure)
        assume wf: "\<forall>outp. res = Inr outp \<longrightarrow> ?wf outp"
        show "piece r b (linear_inv r (acc_is r b k acc) k RAN)
          (case res of
             Inl exc \<Rightarrow> dispatch_failed r (int k) acc n exc
           | Inr outp \<Rightarrow>
               andthen (emit STEP_BOUNDARY) (\<lambda>_.
               andthen (validate_step r ?step ?ctx outp acc n) (\<lambda>_.
               andthen (commit_step r (int k) key ?step outp acc n) (\<lambda>_.
               andthen (\<lambda>s. (Go (), record_inter_step_output (drn_ctx r) (wfs_step_id ?step) outp s)) (\<lambda>_.
               andthen (drain_check r (Some (int k)) (AList.update (wfs_step_id ?step) outp acc) (Suc n)) (\<lambda>_.
                 go (AList.update (wfs_step_id ?step) outp acc)))))))
          (\<lambda>acc'. linear_inv r (acc_is r b (Suc k) acc') (Suc k) IDLE)"
        proof (cases res)
          case (Inl exc)
          then show ?thesis by (simp add: piece_dispatch_failed [OF r k])
        next
          case (Inr outp)
          then have wf: "?wf outp" using wf by blast
          let ?acc = "AList.update (wfs_step_id ?step) outp acc"
          let ?I = "linear_inv r (acc_is r b (Suc k) ?acc) (Suc k) IDLE"
          have rec: "piece r b ?I (\<lambda>s. (Go (), record_inter_step_output (drn_ctx r) (wfs_step_id ?step) outp s)) (\<lambda>_. ?I)"
            by (simp add: triple_def record_inter_step_output_def)
          have drain: "piece r b ?I (drain_check r (Some (int k)) ?acc (Suc n)) (\<lambda>_. ?I)"
            by (rule piece_drain_check) (simp add: prev_index_def)
          show ?thesis
            unfolding Inr sum.case
            by (intro triple_andthen [OF piece_emit] triple_andthen [OF piece_validate_step [OF r k i]]
                triple_andthen [OF piece_commit_step [OF r k b key wf]] triple_andthen [OF rec] triple_andthen [OF drain]
                triple_go)
        qed
      qed
    qed
  qed
qed

lemma piece_linear_loop:
  assumes r: "run_ok r" and b: "b \<longrightarrow> stores r"
  shows "steps = drop k (drn_steps r) \<Longrightarrow> k \<le> length (drn_steps r) \<Longrightarrow>
    piece r b (linear_inv r (acc_is r b k acc) k ph) (linear_loop r directive steps (int k) acc n)
      (\<lambda>(acc', m) s. \<exists>ph. linear_inv r (acc_is r b (length (drn_steps r)) acc') (length (drn_steps r)) ph s)"
proof (induction steps arbitrary: k ph directive acc n)
  case Nil
  then have "k = length (drn_steps r)" by simp
  then show ?case by (auto intro: triple_go)
next
  case (Cons step rest)
  then have k: "k < length (drn_steps r)" by (metis drop_all list.distinct(1) not_less)
  then have step: "step = drn_steps r ! k" and rest: "rest = drop (Suc k) (drn_steps r)"
    using Cons.prems(1) by (simp_all add: Cons_nth_drop_Suc [symmetric])
  have idx: "int k + 1 = int (Suc k)" by simp
  show ?case
    unfolding linear_loop.simps step idx
    by (intro triple_andthen [OF piece_linear_step [OF r k b]] Cons.IH [OF rest]) (use k in simp)
qed

section \<open>Resuming\<close>

lemma first_missing_Some:
  "first_missing f i n = Some j \<Longrightarrow> i \<le> j \<and> j \<le> i + n \<and> (\<forall>l. i \<le> l \<and> l < j \<longrightarrow> f l = Some True) \<and> (j < i + n \<longrightarrow> f j = Some False)"
proof (induction n arbitrary: i)
  case (Suc n)
  show ?case
  proof (cases "f i")
    case None
    then show ?thesis using Suc.prems by simp
  next
    case (Some v)
    then show ?thesis
    proof (cases v)
      case True
      then have "first_missing f (Suc i) n = Some j" using Suc.prems Some by simp
      from Suc.IH [OF this] have h: "Suc i \<le> j \<and> j \<le> Suc i + n \<and> (\<forall>l. Suc i \<le> l \<and> l < j \<longrightarrow> f l = Some True) \<and>
        (j < Suc i + n \<longrightarrow> f j = Some False)" .
      have "f l = Some True" if "i \<le> l" "l < j" for l
        using h Some True that by (cases "l = i") auto
      then show ?thesis using h by simp
    next
      case False
      then show ?thesis using Suc.prems Some by auto
    qed
  qed
qed auto

text \<open>A window of at least one entry shows whether there is one.\<close>

lemma read_by_key:
  assumes "1 \<le> m"
  shows "map_option (\<lambda>res. lrr_entries res \<noteq> []) (read_by_idempotency_key es key m) =
         Some (\<exists>e \<in> set es. len_idempotency_key e = key)"
proof -
  let ?sel = "filter (\<lambda>(p, e). len_idempotency_key e = key) (positions es)"
  have "map snd (positions es) = es" by (simp add: list_eq_iff_nth_eq positions_nth)
  then have "set es = snd ` set (positions es)" by (metis set_map)
  then have "?sel \<noteq> [] \<longleftrightarrow> (\<exists>e \<in> set es. len_idempotency_key e = key)" by (force simp: filter_empty_conv)
  moreover have "map snd (take (nat m) ?sel) \<noteq> [] \<longleftrightarrow> ?sel \<noteq> []" using assms by simp
  ultimately show ?thesis
    using assms by (simp add: read_by_idempotency_key_def navigation_read_nonneg select_entries_def no_query_def)
qed

lemma determine_resume_at_counts:
  assumes r: "run_ok r" and l: "ledger_at r s es" and d: "determine_resume_at r (dst_ledger s) = Some i"
  shows "i \<le> length (drn_steps r)" "\<forall>j < i. in_log r es j" "i < length (drn_steps r) \<Longrightarrow> \<not> in_log r es i"
proof -
  have read: "read_ledger (dcx_ledger_env (drn_ctx r)) (dst_ledger s) = Some es"
    using r l by (auto intro: ledger_ok_read simp: run_ok_def texts_ok_def ledger_at_def)
  let ?f = "\<lambda>i. Option.bind (compute_step_idempotency_key (drn_run_key r) (int i) None) (\<lambda>k.
     map_option (\<lambda>res. lrr_entries res \<noteq> []) (read_by_idempotency_key es k (max 1 (dcx_entry_count (drn_ctx r)))))"
  have "?f j = Some (in_log r es j)" for j
  proof -
    have "\<exists>bs. utf8_encode (drn_run_key r) = Some bs"
      using run_key_valid [OF r] by (intro utf8_encode_valid) (simp add: list_all_iff)
    moreover have "\<exists>bs. utf8_encode (dec_int (int j)) = Some bs"
      using dec_int_plain [of "int j"] by (intro utf8_encode_valid) (simp add: plain_text_def)
    ultimately have "\<exists>k. compute_step_idempotency_key (drn_run_key r) (int j) None = Some k"
      by (auto simp: compute_step_idempotency_key_def nul_key_def)
    then obtain k where k: "compute_step_idempotency_key (drn_run_key r) (int j) None = Some k" by blast
    then have "k = step_key r j" by (simp add: step_key_def)
    then show ?thesis using k read_by_key [of "max 1 (dcx_entry_count (drn_ctx r))" es k] by (simp add: in_log_def)
  qed
  then have f: "?f = (\<lambda>j. Some (in_log r es j))" by (rule ext)
  have "first_missing ?f 0 (length (drn_steps r)) = Some i" using d by (simp only: determine_resume_at_def read option.case)
  then have "first_missing (\<lambda>j. Some (in_log r es j)) 0 (length (drn_steps r)) = Some i" by (simp only: f)
  from first_missing_Some [OF this] show "i \<le> length (drn_steps r)" "\<forall>j < i. in_log r es j"
    "i < length (drn_steps r) \<Longrightarrow> \<not> in_log r es i" by auto
qed

lemma some_inv_at:
  assumes r: "run_ok r" and i: "some_inv r s" and d: "determine_resume_at r (dst_ledger s) = Some i"
  shows "\<exists>ph. linear_inv r (\<lambda>_. True) i ph s" "i \<le> length (drn_steps r)"
proof -
  obtain k ph es where es: "ledger_at r s es" "owned r es \<longrightarrow> on_track r (\<lambda>_. True) k ph es s"
    and c: "clean_journal (dcx_output_env (drn_ctx r)) (dst_outputs s) (journal_path r)"
    using i unfolding some_inv_def linear_inv_def by blast
  note cnt = determine_resume_at_counts [OF r es(1) d]
  show "i \<le> length (drn_steps r)" by (rule cnt(1))
  have "k = i" if t: "on_track r (\<lambda>_. True) k ph es s"
  proof (rule ccontr)
    have log: "\<And>j. j < length (drn_steps r) \<Longrightarrow> in_log r es j \<longleftrightarrow> j < k" and kn: "k \<le> length (drn_steps r)"
      using t by (simp_all add: on_track_def)
    assume "k \<noteq> i"
    then consider "k < i" | "i < k" by linarith
    then show False
    proof cases
      case 1
      then have "in_log r es k" using cnt(2) by blast
      then show False using log [of k] 1 cnt(1) by simp
    next
      case 2
      then have "\<not> in_log r es i" using cnt(3) kn by simp
      then show False using log [of i] 2 kn by simp
    qed
  qed
  then have "owned r es \<longrightarrow> on_track r (\<lambda>_. True) i ph es s" using es(2) by blast
  then show "\<exists>ph. linear_inv r (\<lambda>_. True) i ph s" using es(1) c unfolding linear_inv_def by blast
qed

section \<open>The replayed prefix\<close>

lemma linear_inv_vacuous:
  assumes "linear_inv r X k ph s" "\<And>es. owned r es \<Longrightarrow> on_track r X k ph es s \<Longrightarrow> False"
  shows "linear_inv r Y k' ph' s"
  using assms unfolding linear_inv_def by blast

lemma replay_prefix_covered:
  "\<forall>i < j + n. \<exists>outp. m (int i) = Some (wfs_step_id (drn_steps r ! i), outp) \<Longrightarrow> j + n \<le> length (drn_steps r) \<Longrightarrow>
   replay_prefix r m ra j n acc = Go (acc @ map (\<lambda>i. (wfs_step_id (drn_steps r ! i), snd (the (m (int i))))) [j..<j + n])"
proof (induction n arbitrary: j acc)
  case (Suc n)
  obtain outp where o: "m (int j) = Some (wfs_step_id (drn_steps r ! j), outp)" using Suc.prems(1) [rule_format, of j] by auto
  have u: "[j..<Suc (j + n)] = j # [Suc j..<Suc (j + n)]" by (simp add: upt_conv_Cons)
  show ?case using Suc.IH [of "Suc j"] Suc.prems o by (simp add: u del: upt_Suc)
qed simp

text \<open>The results with which reading the prefix fails have no outputs.\<close>

lemma failed_none_fits: "result_fits r k acc (failed_at r i None fc)"
  by (simp add: result_fits_def answer_def)

lemma replay_prefix_fails: "replay_prefix r m ra i n acc = Return y \<Longrightarrow> \<exists>i fc. fst y = failed_at r i None fc"
  by (induction r m ra i n acc rule: replay_prefix.induct) (auto split: option.splits if_splits, blast+)

lemma read_prefix_fails: "read_durable_replay_prefix r ra s = (Return y, s') \<Longrightarrow> \<exists>i fc. fst y = failed_at r i None fc"
  by (auto simp: read_durable_replay_prefix_def split: if_splits option.splits dest: replay_prefix_fails, blast)

lemma read_outputs_total:
  assumes "run_ok r"
  shows "read_outputs (dcx_output_env (drn_ctx r)) (drn_run_key r) (dst_outputs s) = Some (stored r s)"
  using read_outputs_documents [OF journal_file_path [OF run_key_valid [OF assms]]] by (simp add: stored_def)

lemma piece_read_prefix:
  assumes r: "run_ok r" and e: "wme_engine_class (drn_manifest r) \<in> set FINAL_STATE_RECONSTRUCT_ENGINE_CLASSES"
  shows "piece r b (linear_inv r X k ph) (read_durable_replay_prefix r (int k))
    (\<lambda>outs. linear_inv r (\<lambda>m. X m \<and> (stores r \<longrightarrow> outs = outputs_prefix r k m)) k ph)"
  unfolding triple_def
proof (intro allI impI)
  fix s
  assume i: "linear_inv r X k ph s"
  let ?goal = "case read_durable_replay_prefix r (int k) s of
      (Raise e, s') \<Rightarrow> some_inv r s' | (Return y, s') \<Rightarrow> ret_ok r b y s'
    | (Go outs, s') \<Rightarrow> linear_inv r (\<lambda>m. X m \<and> (stores r \<longrightarrow> outs = outputs_prefix r k m)) k ph s'"
  show ?goal
  proof (cases "\<not> dcx_output_store (drn_ctx r) \<or> k = 0")
    case True
    then have "stores r \<longrightarrow> k = 0" by (auto simp: stores_def)
    then have "linear_inv r (\<lambda>m. X m \<and> (stores r \<longrightarrow> [] = outputs_prefix r k m)) k ph s"
      using i by (auto intro: linear_inv_mono simp: outputs_prefix_def)
    then show ?thesis using True by (auto simp: read_durable_replay_prefix_def)
  next
    case store: False
    then have st: "stores r" using e by (simp add: stores_def)
    have cov: "\<forall>i < k. \<exists>outp. stored r s (int i) = Some (wfs_step_id (drn_steps r ! i), outp)" "k \<le> length (drn_steps r)"
      if "on_track r X k ph es s" for es
      using that st by (auto simp: on_track_def store_covers_def has_output_def)
    show ?thesis
    proof (cases "\<exists>es. owned r es \<and> on_track r X k ph es s")
      case True
      then have c: "\<forall>i < k. \<exists>outp. stored r s (int i) = Some (wfs_step_id (drn_steps r ! i), outp)" "k \<le> length (drn_steps r)"
        using cov by blast+
      have "stored r s \<noteq> Map.empty" using c(1) store by (metis option.distinct(1) neq0_conv)
      then have "\<not> no_outputs (dcx_output_env (drn_ctx r)) (drn_run_key r) (dst_outputs s)"
        using no_outputs_iff [OF read_outputs_total [OF r]] by simp
      then have "read_durable_replay_prefix r (int k) s = (Go (outputs_prefix r k (stored r s)), s)"
        using store replay_prefix_covered [of 0 k "stored r s" r "int k" "[]"] c
        by (simp add: read_durable_replay_prefix_def read_outputs_total [OF r] outputs_prefix_def)
      moreover have "linear_inv r (\<lambda>m. X m \<and> (stores r \<longrightarrow> outputs_prefix r k (stored r s) = outputs_prefix r k m)) k ph s"
        using i unfolding linear_inv_def on_track_def by blast
      ultimately show ?thesis by simp
    next
      case False
      have v: "linear_inv r Y k ph s" for Y using linear_inv_vacuous [OF i] False by blast
      have "ret_ok r b y s" if "read_durable_replay_prefix r (int k) s = (Return y, s')" for y s'
        unfolding ret_ok_def using v read_prefix_fails [OF that] failed_none_fits by metis
      moreover have "snd (read_durable_replay_prefix r (int k) s) = s"
        by (simp add: read_durable_replay_prefix_def split: option.split)
      ultimately show ?thesis using v linear_inv_some [OF i] by (auto split: prod.split flow.split)
    qed
  qed
qed

lemma piece_rehydrate:
  assumes r: "run_ok r" and e: "wme_engine_class (drn_manifest r) \<in> set FINAL_STATE_RECONSTRUCT_ENGINE_CLASSES"
  shows "piece r b (linear_inv r X k ph) (rehydrate_channel r (int k)) (\<lambda>_. linear_inv r X k ph)"
proof (cases "dcx_channel (drn_ctx r)")
  case False
  then show ?thesis by (simp add: rehydrate_channel_def keeps_piece [OF keeps_go])
next
  case True
  have "piece r b (linear_inv r (\<lambda>m. X m \<and> (stores r \<longrightarrow> outs = outputs_prefix r k m)) k ph)
      (\<lambda>s. (Go (), s\<lparr>dst_channel := dst_channel s @ outs\<rparr>)) (\<lambda>_. linear_inv r X k ph)" for outs
    by (auto simp: triple_def intro: linear_inv_mono)
  then show ?thesis using True by (simp add: rehydrate_channel_def triple_andthen [OF piece_read_prefix [OF r e]])
qed

text \<open>The outputs of the store are sorted, so seeding with them gives the state of the store.\<close>

lemma piece_seed:
  assumes r: "run_ok r" and b: "b \<longrightarrow> stores r \<and> reconstruct"
  shows "piece r b (linear_inv r (\<lambda>_. True) k ph) (seed_final_state r reconstruct (int k)) (\<lambda>acc. linear_inv r (acc_is r b k acc) k ph)"
proof (cases "reconstruct \<and> 0 < k \<and> wme_engine_class (drn_manifest r) \<in> set FINAL_STATE_RECONSTRUCT_ENGINE_CLASSES")
  case False
  then have "b \<longrightarrow> k = 0" using b by (auto simp: stores_def)
  then have "acc_is r b k [] m" for m by (auto simp: acc_is_def sorted_outputs_def outputs_prefix_def outputs_by_step_id_def)
  then show ?thesis using False by (auto simp: seed_final_state_def intro!: triple_go elim: linear_inv_mono)
next
  case True
  have sorted: "acc_is r b k (outputs_by_step_id outs) m" if "stores r \<longrightarrow> outs = outputs_prefix r k m" "store_covers r k m" for outs m
  proof -
    have "sorted_outputs (outputs_prefix r k m) = outputs_prefix r k m" if "stores r"
      using that \<open>store_covers r k m\<close> by (auto simp: sorted_outputs_def outputs_prefix_def store_covers_def has_output_def)
    then show ?thesis using that b by (auto simp: acc_is_def sorted_outputs_by_step_id)
  qed
  have "linear_inv r (acc_is r b k (outputs_by_step_id outs)) k ph s"
    if "linear_inv r (\<lambda>m. True \<and> (stores r \<longrightarrow> outs = outputs_prefix r k m)) k ph s" for outs s
    using that sorted unfolding linear_inv_def on_track_def by blast
  then have "piece r b (linear_inv r (\<lambda>_. True) k ph)
      (andthen (read_durable_replay_prefix r (int k)) (\<lambda>outs. go (outputs_by_step_id outs)))
      (\<lambda>acc. linear_inv r (acc_is r b k acc) k ph)"
    using True by (intro triple_andthen [OF piece_read_prefix [OF r]] triple_go) auto
  then show ?thesis using True by (simp add: seed_final_state_def)
qed

section \<open>A whole attempt\<close>

lemma triple_use:
  "triple P m Q R E \<Longrightarrow> P s \<Longrightarrow>
   case m s of (Go x, s') \<Rightarrow> Q x s' | (Return y, s') \<Rightarrow> R y s' | (Raise e, s') \<Rightarrow> E s'"
  by (simp only: triple_def)

lemma triple_pre: "triple P m Q R E \<Longrightarrow> (\<And>s. P' s \<Longrightarrow> P s) \<Longrightarrow> triple P' m Q R E"
  by (erule triple_weaken) simp_all

text \<open>Where an attempt may go on: at the first step that is not committed, or at the index it is given, if that is the same.\<close>

definition start_inv :: "'w driver_run \<Rightarrow> int option \<Rightarrow> 'w driver_state \<Rightarrow> bool" where
  "start_inv r override s \<longleftrightarrow>
     (case override of
        None \<Rightarrow> some_inv r s
      | Some i \<Rightarrow> \<exists>k ph. i = int k \<and> k \<le> length (drn_steps r) \<and> linear_inv r (\<lambda>_. True) k ph s)"

lemma start_inv_some: "start_inv r override s \<Longrightarrow> some_inv r s"
  by (auto simp: start_inv_def linear_inv_some split: option.splits)

lemma start_inv_world [simp]: "start_inv r override (s\<lparr>dst_world := w\<rparr>) = start_inv r override s"
  by (simp add: start_inv_def some_inv_def split: option.split)

text \<open>Going on at \<open>i\<close>, which is the first step that is not committed.\<close>

definition going_on :: "'w driver_run \<Rightarrow> int \<Rightarrow> 'w driver_state \<Rightarrow> bool" where
  "going_on r i s \<longleftrightarrow> (\<exists>k ph. i = int k \<and> k \<le> length (drn_steps r) \<and> linear_inv r (\<lambda>_. True) k ph s)"

lemma going_on_start: "start_inv r (Some i) = going_on r i"
  by (rule ext) (simp add: start_inv_def going_on_def)

lemma going_on_some: "going_on r i s \<Longrightarrow> some_inv r s"
  by (auto simp: going_on_def linear_inv_some)

lemma going_on_piece:
  assumes "\<And>k ph. i = int k \<Longrightarrow> k \<le> length (drn_steps r) \<Longrightarrow> piece r b (linear_inv r (\<lambda>_. True) k ph) m Q"
  shows "piece r b (going_on r i) m Q"
  unfolding triple_def going_on_def
proof (intro allI impI, elim exE conjE)
  fix s k ph
  assume "i = int k" "k \<le> length (drn_steps r)" "linear_inv r (\<lambda>_. True) k ph s"
  then show "case m s of (Go x, s') \<Rightarrow> Q x s' | (Return y, s') \<Rightarrow> ret_ok r b y s' | (Raise e, s') \<Rightarrow> some_inv r s'"
    by (intro triple_use [OF assms])
qed

lemma going_on_keeps:
  assumes "keeps r m"
  shows "piece r b (going_on r i) m (\<lambda>_. going_on r i)"
proof (rule going_on_piece)
  fix k ph
  assume "i = int k" "k \<le> length (drn_steps r)"
  then show "piece r b (linear_inv r (\<lambda>_. True) k ph) m (\<lambda>_. going_on r i)"
    by (intro keeps_triple [OF assms]) (auto simp: going_on_def)
qed

lemma going_on_go: "piece r b (going_on r i) (go i) (\<lambda>j. going_on r j)"
  by (rule triple_go)

lemma acc_is_prefix:
  assumes "store_covers r k m" "b \<longrightarrow> stores r"
  shows "acc_is r b k (outputs_by_step_id (outputs_prefix r k m)) m"
proof -
  have "sorted_outputs (outputs_prefix r k m) = outputs_prefix r k m" if "stores r"
    using that assms(1) by (auto simp: sorted_outputs_def outputs_prefix_def store_covers_def has_output_def)
  then show ?thesis using assms(2) by (auto simp: acc_is_def sorted_outputs_by_step_id)
qed

text \<open>A result without outputs fits any outputs.\<close>

lemma ret_ok_none:
  assumes b: "b \<longrightarrow> stores r" and i: "some_inv r s" and fits: "\<And>k acc. result_fits r k acc res"
    and n: "\<not> replay_failure (rrs_fail_class res)"
  shows "ret_ok r b (res, n) s"
proof -
  obtain k ph where l: "linear_inv r (\<lambda>_. True) k ph s" using i unfolding some_inv_def by blast
  let ?acc = "outputs_by_step_id (outputs_prefix r k (stored r s))"
  have "on_track r (acc_is r b k ?acc) k ph es s" if "on_track r (\<lambda>_. True) k ph es s" for es
    using that acc_is_prefix [OF _ b] by (simp add: on_track_def)
  then have "linear_inv r (acc_is r b k ?acc) k ph s" using l unfolding linear_inv_def by blast
  then show ?thesis using fits n by (rule ret_okI)
qed

lemma piece_leave_none:
  assumes "b \<longrightarrow> stores r" "\<And>s. P s \<Longrightarrow> some_inv r s" "\<And>k acc. result_fits r k acc res"
    "\<not> replay_failure (rrs_fail_class res)"
  shows "piece r b P (leave (res, n)) Q"
  by (rule triple_leave) (intro ret_ok_none assms; assumption)

lemma piece_resume_cursor:
  assumes "run_ok r"
  shows "piece r b (some_inv r) (resume_cursor r) (going_on r)"
  using some_inv_at [OF assms] by (fastforce simp: triple_def resume_cursor_def going_on_def split: option.split)

lemma keeps_emit_if: "keeps r (emit_if c e)"
  by (simp add: emit_if_def keeps_emit keeps_go)

lemma piece_engine_resume:
  assumes r: "run_ok r" and l: "dcx_recovery_loop (drn_ctx r) = Some loop" and b: "b \<longrightarrow> stores r"
  shows "piece r b (going_on r i) (engine_resume r loop i) (\<lambda>_. going_on r i)"
proof -
  have "quiet_call r (elp_attempt_resume loop ec w i st)" for ec w i st
    using r l unfolding run_ok_def collaborators_ok_def by blast
  then show ?thesis
    unfolding engine_resume_def
  proof (intro triple_andthen [OF going_on_keeps [OF keeps_quiet_invoke [OF r]]])
    fix kind
    have "piece r b (going_on r i) (leave (answer r RUN_FAILED None None None (Some (PROTOCOL_FAILURE fc)) None, 0)) (\<lambda>_ :: unit. going_on r i)"
      for fc by (rule piece_leave_none [OF b going_on_some]) (simp_all add: result_fits_def answer_def replay_failure_def)
    then show "piece r b (going_on r i)
      (case abort_fail_class kind of
         None \<Rightarrow> go ()
       | Some fc \<Rightarrow> leave (answer r RUN_FAILED None None None (Some (PROTOCOL_FAILURE fc)) None, 0))
      (\<lambda>_. going_on r i)" by (simp add: triple_go split: option.split)
  qed
qed

lemma keeps_has_engine_pause:
  assumes r: "run_ok r" and l: "dcx_recovery_loop (drn_ctx r) = Some loop"
  shows "keeps r (has_engine_pause r loop)"
proof -
  have "quiet_call r (elp_has_pause_record loop ec w i)" for ec w i
    using r l unfolding run_ok_def collaborators_ok_def by blast
  then show ?thesis unfolding has_engine_pause_def by (rule keeps_quiet_invoke [OF r])
qed

lemma piece_rehydrate_if:
  assumes r: "run_ok r" and e: "wme_engine_class (drn_manifest r) \<in> set FINAL_STATE_RECONSTRUCT_ENGINE_CLASSES"
  shows "piece r b (going_on r i) (if 0 < i then rehydrate_channel r i else go ()) (\<lambda>_. going_on r i)"
proof (rule going_on_piece)
  fix k ph
  assume k: "i = int k" "k \<le> length (drn_steps r)"
  then show "piece r b (linear_inv r (\<lambda>_. True) k ph) (if 0 < i then rehydrate_channel r i else go ()) (\<lambda>_. going_on r i)"
    by (intro triple_if) (auto simp: going_on_def intro!: triple_go triple_weaken [OF piece_rehydrate [OF r e]])
qed

definition durable_engine :: "'w driver_run \<Rightarrow> bool" where
  "durable_engine r \<longleftrightarrow> wme_engine_class (drn_manifest r) \<in> set FINAL_STATE_RECONSTRUCT_ENGINE_CLASSES"

lemma piece_linear_resume:
  assumes r: "run_ok r" and e: "durable_engine r" and b: "b \<longrightarrow> stores r"
  shows "piece r b (start_inv r override) (linear_resume r override) (going_on r)"
proof (cases override)
  case (Some i)
  show ?thesis
    unfolding linear_resume_def Some option.case going_on_start
    by (intro triple_andthen [OF going_on_keeps [OF keeps_emit_if]] going_on_go)
next
  case None
  have s: "start_inv r None = some_inv r" by (rule ext) (simp add: start_inv_def)
  note e' = e [unfolded durable_engine_def]
  note steps = triple_andthen [OF going_on_keeps [OF keeps_emit_if]] triple_andthen [OF piece_rehydrate_if [OF r e']] going_on_go
  note cursor = triple_andthen [OF piece_resume_cursor [OF r]]
  note unf = s linear_resume_def None option.case
  have loops: "piece r b (going_on r i)
      (case dcx_recovery_loop (drn_ctx r) of None \<Rightarrow> m i | Some loop \<Rightarrow> f loop i) (going_on r)"
    if "piece r b (going_on r i) (m i) (going_on r)"
      "\<And>loop. dcx_recovery_loop (drn_ctx r) = Some loop \<Longrightarrow> piece r b (going_on r i) (f loop i) (going_on r)" for m f i
    using that by (cases "dcx_recovery_loop (drn_ctx r)") simp_all
  have p: "piece r b (going_on r i) (if c then has_engine_pause r loop else go False) (\<lambda>_. going_on r i)"
    "piece r b (going_on r i) (has_engine_pause r loop) (\<lambda>_. going_on r i)"
    "piece r b (going_on r i) (if c then engine_resume r loop i else go ()) (\<lambda>_. going_on r i)"
    if "dcx_recovery_loop (drn_ctx r) = Some loop" for c i loop
    using going_on_keeps [OF keeps_has_engine_pause [OF r that]] piece_engine_resume [OF r that b]
    by (simp_all add: triple_go)
  note more = triple_andthen [OF p(1)] triple_andthen [OF p(2)] triple_andthen [OF p(3)]
  show ?thesis
  proof (cases "wme_engine_class (drn_manifest r)")
    case EVENT_SOURCED_REPLAY
    show ?thesis unfolding unf EVENT_SOURCED_REPLAY engine_class.case by (intro cursor steps)
  next
    case SAVE_POINT_CHECKPOINT
    show ?thesis unfolding unf SAVE_POINT_CHECKPOINT engine_class.case by (intro cursor steps)
  next
    case RECONCILER_LOOP
    show ?thesis unfolding unf RECONCILER_LOOP engine_class.case by (intro cursor loops) (intro steps, intro more steps)
  next
    case WAL_SEGMENT
    show ?thesis unfolding unf WAL_SEGMENT engine_class.case by (intro cursor loops) (intro steps, intro more steps)
  qed (use e' in \<open>simp add: FINAL_STATE_RECONSTRUCT_ENGINE_CLASSES_def\<close>)
qed

lemma steps_from_nat: "steps_from (int k) xs = drop k xs"
  by (simp add: steps_from_def)

definition ends_ok :: "'w driver_run \<Rightarrow> bool \<Rightarrow> ('w driver_state \<Rightarrow> bool) \<Rightarrow>
    ('w, run_result \<times> nat, run_result \<times> nat) driver \<Rightarrow> bool" where
  "ends_ok r b P m \<longleftrightarrow> triple P m (ret_ok r b) (ret_ok r b) (some_inv r)"

lemma ends_linear_body:
  assumes r: "run_ok r" and e: "durable_engine r" and b: "b \<longrightarrow> stores r \<and> reconstruct"
  shows "ends_ok r b (start_inv r override) (linear_body r override snapshot reconstruct)"
  unfolding ends_ok_def linear_body_def
proof (intro triple_andthen [OF piece_linear_resume [OF r e]] triple_andthen [OF going_on_keeps [OF keeps_emit]])
  fix i
  let ?rest = "\<lambda>i. andthen (seed_final_state r reconstruct i) (\<lambda>acc.
    andthen (linear_loop r (fence_directive_for r snapshot) (steps_from i (drn_steps r)) i acc 0)
      (\<lambda>(final, executed). go (answer r RUN_SUCCESS None None (Some final) None None, executed)))"
  show "piece r b (going_on r i) (?rest i) (ret_ok r b)"
  proof (rule going_on_piece)
    fix k ph
    assume i: "i = int k" and k: "k \<le> length (drn_steps r)"
    have b': "b \<longrightarrow> stores r" using b by simp
    show "piece r b (linear_inv r (\<lambda>_. True) k ph) (?rest i) (ret_ok r b)"
      unfolding i steps_from_nat
    proof (intro triple_andthen [OF piece_seed [OF r b]] triple_andthen [OF piece_linear_loop [OF r b' refl k]])
      fix x :: "outputs_state \<times> nat"
      show "piece r b
        ((case x of (acc', m) \<Rightarrow> \<lambda>s. \<exists>ph. linear_inv r (acc_is r b (length (drn_steps r)) acc') (length (drn_steps r)) ph s))
        (case x of (final, executed) \<Rightarrow> go (answer r RUN_SUCCESS None None (Some final) None None, executed)) (ret_ok r b)"
        by (cases x) (auto intro!: triple_go ret_okI simp: result_fits_def answer_def)
    qed
  qed
qed (use b in simp)

section \<open>The entry point\<close>

text \<open>A linear run under its own key.\<close>

definition linear_run :: "'w driver_run \<Rightarrow> bool" where
  "linear_run r \<longleftrightarrow>
     run_ok r \<and> durable_engine r \<and> resolve_driver_strategy (wme_topology_pattern (drn_manifest r)) = Some LINEAR_INLINE \<and>
     compute_run_idempotency_key (drn_run_id r) (wme_workflow_id (drn_manifest r)) [dec_int (wme_entry_version (drn_manifest r))] =
       Some (drn_run_key r)"

lemma linear_runD:
  assumes "linear_run r"
  shows "run_ok r" "durable_engine r" "resolve_driver_strategy (wme_topology_pattern (drn_manifest r)) = Some LINEAR_INLINE"
    "compute_run_idempotency_key (drn_run_id r) (wme_workflow_id (drn_manifest r)) [dec_int (wme_entry_version (drn_manifest r))] =
       Some (drn_run_key r)"
  using assms by (simp_all add: linear_run_def)

lemma resume_guards_not_replay:
  "resume_carrier_topology_mismatch snapshot strategy = Some fc \<Longrightarrow> \<not> replay_failure (Some fc)"
  "synthesis_resume_material_diff snapshot steps strategy = Some fc' \<Longrightarrow> \<not> replay_failure (Some fc')"
  by (auto simp: resume_carrier_topology_mismatch_def synthesis_resume_material_diff_def Let_def replay_failure_def
      split: if_splits)

lemma body_guard_fits:
  assumes "body_guard r strategy snapshot = Some res"
  shows "result_fits r k acc res" "\<not> replay_failure (rrs_fail_class res)"
proof -
  let ?diff = "Option.bind snapshot (\<lambda>s.
    case resume_carrier_topology_mismatch s strategy of
      Some fc \<Rightarrow> Some fc
    | None \<Rightarrow> synthesis_resume_material_diff s (drn_steps r) strategy)"
  have "\<exists>i fc. res = failed_at r i None fc \<and> \<not> replay_failure (Some fc)"
  proof (cases ?diff)
    case None
    then have "\<exists>i. res = failed_at r i None SYNTHESIS_MISPLACED" using assms
      by (cases "synthesis_positions (drn_steps r)")
        (auto simp: body_guard_def Let_def simp del: bind_eq_None_conv split: if_splits)
    moreover have "\<not> replay_failure (Some SYNTHESIS_MISPLACED)" by (simp add: replay_failure_def)
    ultimately show ?thesis by blast
  next
    case (Some fc)
    then have "\<not> replay_failure (Some fc)" using resume_guards_not_replay by (auto split: bind_splits option.splits)
    then show ?thesis using assms Some by (auto simp: body_guard_def Let_def)
  qed
  then obtain i fc where fc: "res = failed_at r i None fc" "\<not> replay_failure (Some fc)" by blast
  show "result_fits r k acc res" unfolding fc(1) by (rule failed_none_fits)
  show "\<not> replay_failure (rrs_fail_class res)" using fc by (simp add: answer_def)
qed

lemma ends_body:
  assumes l: "linear_run r" and b: "b \<longrightarrow> stores r \<and> reconstruct"
  shows "ends_ok r b (start_inv r override) (execute_workflow_body strategies r override snapshot reconstruct)"
proof (cases "wme_engine_class (drn_manifest r) \<in> set IN_SCOPE_ENGINE_CLASSES")
  case False
  then show ?thesis
    by (auto simp: ends_ok_def execute_workflow_body_def linear_runD(3) [OF l] intro: triple_fail start_inv_some)
next
  case True
  then show ?thesis
  proof (cases "body_guard r LINEAR_INLINE snapshot")
    case None
    then show ?thesis
      using True ends_linear_body [OF linear_runD(1,2) [OF l] b]
      by (simp add: execute_workflow_body_def linear_runD(3) [OF l])
  next
    case (Some res)
    have "triple (start_inv r override) (leave (res, 0)) (ret_ok r b) (ret_ok r b) (some_inv r)"
      using b by (intro piece_leave_none start_inv_some body_guard_fits [OF Some]) auto
    then show ?thesis
      using True Some by (simp add: ends_ok_def execute_workflow_body_def linear_runD(3) [OF l])
  qed
qed

lemma ends_leave_none:
  "b \<longrightarrow> stores r \<Longrightarrow> (\<And>s. P s \<Longrightarrow> some_inv r s) \<Longrightarrow> (\<And>k acc. result_fits r k acc res) \<Longrightarrow>
   \<not> replay_failure (rrs_fail_class res) \<Longrightarrow> triple P (leave (res, n)) Q (ret_ok r b) (some_inv r)"
  by (rule piece_leave_none)

text \<open>Attempting a resume writes at most a protocol entry; a snapshot that is refused ends the run.\<close>

lemma piece_resume_paused:
  assumes r: "run_ok r" and b: "b \<longrightarrow> stores r"
  shows "piece r b (start_inv r (map_option psn_step_index snapshot)) (resume_paused r snapshot)
    (\<lambda>cursor s. start_inv r cursor s)"
proof (cases "\<exists>sn protocol. snapshot = Some sn \<and> dcx_protocol (drn_ctx r) = Some protocol")
  case False
  have "start_inv r None s" if "start_inv r (map_option psn_step_index snapshot) s" for s
    using start_inv_some [OF that] by (simp add: start_inv_def)
  then show ?thesis using False by (auto simp: resume_paused_def intro!: triple_go split: option.splits)
next
  case True
  then obtain sn protocol where sn: "snapshot = Some sn" and p: "dcx_protocol (drn_ctx r) = Some protocol" by blast
  let ?i = "psn_step_index sn"
  show ?thesis
    unfolding resume_paused_def sn p option.case prod.case option.map going_on_start
  proof (rule triple_andthen [OF going_on_keeps [OF keeps_world]])
    fix pctx
    let ?seq = "case psn_evaluator_optimizer_resume sn of
      Some eo \<Rightarrow> int (length (eor_completed_steps eo)) | None \<Rightarrow> psn_step_index sn"
    have refused: "piece r b (going_on r ?i) (leave (answer r RUN_FAILED (Some ?i) None None (map_option PROTOCOL_FAILURE fc) None, 0))
        (\<lambda>cursor s. start_inv r cursor s)" for fc
      by (rule piece_leave_none [OF b going_on_some])
        (simp_all add: result_fits_def answer_def replay_failure_def split: option.split)
    have resumed: "piece r b (going_on r ?i) (go (Some ?i)) (\<lambda>cursor s. start_inv r cursor s)"
      by (rule triple_go) (simp add: going_on_start)
    show "piece r b (going_on r ?i)
      (case attempt_resume (lge_floats (dcx_ledger_env (drn_ctx r))) pctx sn POLICY_STRICT of
         None \<Rightarrow> fail (raised ''UnicodeEncodeError'')
       | Some res \<Rightarrow>
           let sequence = ?seq
           in andthen (emit_protocol_entry r (dec_int sequence) RESUME_ATTEMPTED (4 * sequence) (Some (resume_result_json res)))
             (\<lambda>_. if rsr_resumed res then go (Some ?i)
                  else leave (answer r RUN_FAILED (Some ?i) None None (map_option PROTOCOL_FAILURE (rsr_fail_class res)) None, 0)))
      (\<lambda>cursor s. start_inv r cursor s)"
    proof (cases "attempt_resume (lge_floats (dcx_ledger_env (drn_ctx r))) pctx sn POLICY_STRICT")
      case None
      show ?thesis unfolding None option.case by (rule triple_fail) (rule going_on_some)
    next
      case (Some res)
      show ?thesis
        unfolding Some option.case Let_def
        by (intro triple_andthen [OF going_on_keeps [OF keeps_emit_protocol_entry [OF r]]] triple_if resumed refused)
    qed
  qed
qed

text \<open>What an attempt of a linear run ends with: a result that fits, or an exception.\<close>

definition attempt_ok :: "'w driver_run \<Rightarrow> bool \<Rightarrow> (step_exception + run_result) \<times> 'w driver_state \<Rightarrow> bool" where
  "attempt_ok r b out \<longleftrightarrow>
     (case out of (Inr res, s) \<Rightarrow> ret_ok r b (res, 0) s | (Inl e, s) \<Rightarrow> some_inv r s)"

lemma ret_ok_count: "ret_ok r b (res, n) s = ret_ok r b (res, m) s"
  by (simp add: ret_ok_def)

lemma execute_workflow_ok:
  assumes l: "linear_run r" and b: "b \<longrightarrow> stores r \<and> reconstruct"
    and s: "start_inv r (map_option psn_step_index snapshot) s"
  shows "attempt_ok r b (execute_workflow strategies r snapshot reconstruct s)"
proof -
  note r = linear_runD(1) [OF l] and key = linear_runD(4) [OF l]
  have b': "b \<longrightarrow> stores r" using b by simp
  let ?P = "start_inv r (map_option psn_step_index snapshot)"
  let ?m = "andthen (world (dcx_drained (drn_ctx r))) (\<lambda>drained.
      if drained then leave (answer r RUN_DRAINED None None None None None, 0)
      else andthen (resume_paused r snapshot) (\<lambda>cursor.
        case compute_run_idempotency_key (drn_run_id r) (wme_workflow_id (drn_manifest r))
               [dec_int (wme_entry_version (drn_manifest r))] of
          None \<Rightarrow> fail (raised ''UnicodeEncodeError'')
        | Some key \<Rightarrow>
            execute_workflow_body strategies (r\<lparr>drn_run_key := key\<rparr>) cursor
              (if cursor = None then None else snapshot) reconstruct))"
  have w: "triple ?P (world (dcx_drained (drn_ctx r))) (\<lambda>_. ?P) (ret_ok r b) (some_inv r)"
    by (rule triple_world) simp
  have id: "r\<lparr>drn_run_key := drn_run_key r\<rparr> = r" by simp
  have "triple ?P ?m (ret_ok r b) (ret_ok r b) (some_inv r)"
    unfolding key option.case id
    by (intro triple_andthen [OF w] triple_if triple_andthen [OF piece_resume_paused [OF r b']]
        ends_leave_none [OF b' start_inv_some] ends_body [OF l b, unfolded ends_ok_def])
      (assumption, simp_all add: result_fits_def answer_def)
  from triple_use [OF this s] show ?thesis
    unfolding execute_workflow_def attempt_ok_def
    by (auto split: prod.split flow.split sum.split simp: ret_ok_def)
qed

section \<open>Any number of attempts\<close>

text \<open>Runs that do the same work: what they call, and the operator's answer, may differ from attempt to attempt.\<close>

definition same_work :: "'w driver_run \<Rightarrow> 'w driver_run \<Rightarrow> bool" where
  "same_work r r' \<longleftrightarrow>
     drn_manifest r' = drn_manifest r \<and> drn_steps r' = drn_steps r \<and> drn_run_id r' = drn_run_id r \<and>
     drn_run_key r' = drn_run_key r \<and> dcx_ledger_env (drn_ctx r') = dcx_ledger_env (drn_ctx r) \<and>
     dcx_output_env (drn_ctx r') = dcx_output_env (drn_ctx r) \<and>
     dcx_output_store (drn_ctx r') = dcx_output_store (drn_ctx r)"

lemma same_work_inv:
  assumes "same_work r r'"
  shows "linear_inv r' X k ph s = linear_inv r X k ph s" "stores r' = stores r"
    "acc_is r' b k acc m = acc_is r b k acc m" "result_fits r' k acc res = result_fits r k acc res"
    "drn_steps r' = drn_steps r"
proof -
  note w = assms [unfolded same_work_def]
  have st: "stores r' = stores r" using w by (simp add: stores_def)
  have key: "step_key r' = step_key r" "step_action_id r' = step_action_id r" "journal_path r' = journal_path r"
    using w by (simp_all add: fun_eq_iff step_key_def step_action_id_def journal_path_def)
  have log: "in_log r' = in_log r" "owned r' = owned r"
    using w by (simp_all add: fun_eq_iff in_log_def owned_def key)
  have out: "stored r' = stored r" "has_output r' = has_output r" "outputs_prefix r' = outputs_prefix r"
    using w by (simp_all add: fun_eq_iff stored_def has_output_def outputs_prefix_def st)
  have cov: "store_covers r' = store_covers r" by (simp add: fun_eq_iff store_covers_def out)
  show "linear_inv r' X k ph s = linear_inv r X k ph s"
    using w by (simp add: linear_inv_def ledger_at_def on_track_def key log out cov st)
  show "stores r' = stores r" by (rule st)
  show "acc_is r' b k acc m = acc_is r b k acc m" by (simp add: acc_is_def out)
  show "result_fits r' k acc res = result_fits r k acc res"
    using w by (simp add: result_fits_def cong del: run_status.case_cong_weak option.case_cong_weak)
  show "drn_steps r' = drn_steps r" using w by simp
qed

lemma same_work_start: "same_work r r' \<Longrightarrow> start_inv r' override s = start_inv r override s"
  by (simp add: start_inv_def some_inv_def same_work_inv split: option.split)

lemma same_work_ret: "same_work r r' \<Longrightarrow> ret_ok r' b res s = ret_ok r b res s"
  by (simp add: ret_ok_def same_work_inv)

text \<open>Nothing has been done: no entry of a step, a journal in order.\<close>

definition fresh :: "'w driver_run \<Rightarrow> 'w driver_state \<Rightarrow> bool" where
  "fresh r s \<longleftrightarrow>
     dst_trace s = [] \<and> (\<exists>es. ledger_at r s es \<and> (\<forall>i < length (drn_steps r). \<not> in_log r es i)) \<and>
     clean_journal (dcx_output_env (drn_ctx r)) (dst_outputs s) (journal_path r)"

text \<open>A process that dies while it writes the output of the first step that is not committed leaves part of the line.\<close>

definition torn_store :: "'w driver_run \<Rightarrow> nat \<Rightarrow> pystr \<Rightarrow> dict \<Rightarrow> 'w driver_state \<Rightarrow> 'w driver_state" where
  "torn_store r n sid outp s =
     s\<lparr>dst_outputs := play (dcx_output_env (drn_ctx r)) (journal_path r)
         (Torn n (step_record (int (length (commits (dst_trace s)))) sid outp)) (dst_outputs s)\<rparr>"

text \<open>
  Attempts one after the other: each starts afresh or with the snapshot the attempt before it returned. In between,
  others write to the ledger and to other files, the process and its memory may be new, a write may be torn.
\<close>

inductive history :: "'w strategies \<Rightarrow> 'w driver_run \<Rightarrow> 'w driver_state \<Rightarrow> pause_snapshot option \<Rightarrow> 'w driver_state \<Rightarrow> bool"
  for strategies r s0 where
  history_start: "history strategies r s0 None s0"
| history_attempt:
    "history strategies r s0 prev s \<Longrightarrow> same_work r r' \<Longrightarrow> linear_run r' \<Longrightarrow> snapshot = None \<or> snapshot = prev \<Longrightarrow>
     execute_workflow strategies r' snapshot reconstruct s = (out, s') \<Longrightarrow>
     history strategies r s0 (case out of Inl e \<Rightarrow> None | Inr res \<Rightarrow> rrs_pause_snapshot res) s'"
| history_others: "history strategies r s0 prev s \<Longrightarrow> quiet r s s' \<Longrightarrow> history strategies r s0 prev s'"
| history_torn:
    "history strategies r s0 prev s \<Longrightarrow> wf_json (oue_floats (dcx_output_env (drn_ctx r))) (JObj outp) \<Longrightarrow>
     list_all valid_cp sid \<Longrightarrow> history strategies r s0 prev (torn_store r n sid outp s)"

definition history_inv :: "'w driver_run \<Rightarrow> pause_snapshot option \<Rightarrow> 'w driver_state \<Rightarrow> bool" where
  "history_inv r prev s \<longleftrightarrow> start_inv r (map_option psn_step_index prev) s"

lemma history_inv_weak: "history_inv r prev s \<Longrightarrow> snapshot = None \<or> snapshot = prev \<Longrightarrow> history_inv r snapshot s"
  using start_inv_some [of r "map_option psn_step_index prev" s] by (auto simp: history_inv_def start_inv_def)

lemma history_inv_lift:
  "history_inv r prev s \<Longrightarrow> (\<And>k ph. linear_inv r (\<lambda>_. True) k ph s \<Longrightarrow> linear_inv r (\<lambda>_. True) k ph s') \<Longrightarrow> history_inv r prev s'"
  by (fastforce simp: history_inv_def start_inv_def some_inv_def split: option.splits)

lemma fresh_inv: "fresh r s \<Longrightarrow> history_inv r None s"
proof -
  assume f: "fresh r s"
  then obtain es where es: "ledger_at r s es" "\<forall>i < length (drn_steps r). \<not> in_log r es i"
    unfolding fresh_def by blast
  have "on_track r (\<lambda>_. True) 0 IDLE es s" using f es(2) by (simp add: fresh_def on_track_def store_covers_def)
  then have "linear_inv r (\<lambda>_. True) 0 IDLE s" using es(1) f unfolding linear_inv_def fresh_def by blast
  then show ?thesis by (auto simp: history_inv_def start_inv_def some_inv_def)
qed

lemma protocol_commits_count: "protocol_run t (0, IDLE) tr = Some (k, ph) \<Longrightarrow> length (commits tr) = k"
  using protocol_commits [of t 0 IDLE tr k ph] by simp

lemma torn_inv:
  assumes r: "run_ok r" and wf: "wf_json (oue_floats (dcx_output_env (drn_ctx r))) (JObj outp)" "list_all valid_cp sid"
    and i: "linear_inv r (\<lambda>_. True) k ph s"
  shows "linear_inv r (\<lambda>_. True) k ph (torn_store r n sid outp s)"
proof -
  let ?env = "dcx_output_env (drn_ctx r)" and ?j = "int (length (commits (dst_trace s)))"
  let ?w = "Torn n (step_record ?j sid outp)" and ?s = "torn_store r n sid outp s"
  obtain es where es: "ledger_at r s es" "owned r es \<longrightarrow> on_track r (\<lambda>_. True) k ph es s"
    and c: "clean_journal ?env (dst_outputs s) (journal_path r)"
    using i unfolding linear_inv_def by blast
  have wfd: "wf_json (oue_floats ?env) (JObj (step_record ?j sid outp))" by (rule step_record_wf [OF wf])
  have p: "printable_floats (oue_floats ?env)" using r by (simp add: run_ok_def texts_ok_def)
  note dg = journal_file_path [OF run_key_valid [OF r]]
  have c': "clean_journal ?env (dst_outputs ?s) (journal_path r)"
    using play_step(1) [OF c, of ?w] wfd p by (simp add: torn_store_def)
  have d: "documents_at ?env (dst_outputs ?s) (journal_path r) = documents_at ?env (dst_outputs s) (journal_path r) @
      (if landed ?env (journal_path r) (dst_outputs s) ?w then [sorted_dict (step_record ?j sid outp)] else [])"
    using play_step(2) [OF c, of ?w] wfd p by (simp add: torn_store_def del: landed.simps)
  have acc: "accept_step (sorted_dict (step_record ?j sid outp)) = Some (?j, sid, sorted_dict outp)"
    using step_reader.accepts [of "(?j, sid, outp)"] by simp
  have read: "stored r t = fold (\<lambda>(i, sid, out) m. m(i \<mapsto> (sid, out)))
      (List.map_filter accept_step (documents_at ?env (dst_outputs t) (journal_path r))) Map.empty" for t
    using read_outputs_documents [OF dg] by (simp add: stored_def journal_path_def)
  have st: "stored r ?s i = stored r s i" if "i \<noteq> ?j" for i
    using that by (simp add: read d acc List.map_filter_def del: landed.simps)
  have "on_track r (\<lambda>_. True) k ph es ?s" if t: "on_track r (\<lambda>_. True) k ph es s"
  proof -
    have "protocol_run (stores r) (0, IDLE) (dst_trace s) = Some (k, ph)" using t by (simp only: on_track_def)
    from protocol_commits_count [OF this] have j: "?j = int k" by simp
    have cov: "store_covers r k (stored r s)" using t by (simp only: on_track_def)
    have "store_covers r k (stored r ?s)" unfolding store_covers_def
    proof (intro allI impI)
      fix i
      assume "i < k"
      then have "stored r ?s (int i) = stored r s (int i)" by (intro st) (simp add: j)
      moreover obtain outp where "has_output r i outp (stored r s)" using cov \<open>i < k\<close> unfolding store_covers_def by blast
      ultimately show "\<exists>outp. has_output r i outp (stored r ?s)" unfolding has_output_def by metis
    qed
    moreover have "dst_trace ?s = dst_trace s" by (simp add: torn_store_def)
    ultimately show ?thesis using t by (simp add: on_track_def)
  qed
  moreover have "ledger_at r ?s es" using es(1) by (simp add: ledger_at_def torn_store_def)
  ultimately show ?thesis using es(2) c' unfolding linear_inv_def by blast
qed

lemma attempt_history:
  assumes h: "history_inv r prev s" and w: "same_work r r'" and l: "linear_run r'" and b: "b \<longrightarrow> stores r \<and> reconstruct"
    and sn: "snapshot = None \<or> snapshot = prev"
  shows "attempt_ok r b (execute_workflow strategies r' snapshot reconstruct s)"
proof -
  have "start_inv r' (map_option psn_step_index snapshot) s"
    using history_inv_weak [OF h sn] by (simp only: history_inv_def same_work_start [OF w])
  then have "attempt_ok r' b (execute_workflow strategies r' snapshot reconstruct s)"
    using b by (intro execute_workflow_ok [OF l]) (simp_all add: same_work_inv [OF w])
  then show ?thesis
    by (auto simp: attempt_ok_def same_work_ret [OF w] some_inv_def same_work_inv [OF w] split: prod.splits sum.splits)
qed

lemma attempt_ok_history:
  assumes "attempt_ok r b (out, s)"
  shows "history_inv r (case out of Inl e \<Rightarrow> None | Inr res \<Rightarrow> rrs_pause_snapshot res) s"
proof (cases out)
  case (Inl e)
  then show ?thesis using assms by (simp add: attempt_ok_def history_inv_def start_inv_def)
next
  case (Inr res)
  then obtain k ph acc where f: "result_fits r k acc res"
    and i: "linear_inv r (\<lambda>m. acc_is r b k acc m \<and> \<not> replay_failure (rrs_fail_class res)) k ph s"
    using assms by (auto simp: attempt_ok_def ret_ok_def)
  have j: "linear_inv r (\<lambda>_. True) k ph s" by (rule linear_inv_mono [OF i]) simp
  show ?thesis
  proof (cases "rrs_pause_snapshot res")
    case None
    then show ?thesis using linear_inv_some [OF j] by (simp add: Inr history_inv_def start_inv_def)
  next
    case (Some sn)
    then have "psn_step_index sn = int k" "k < length (drn_steps r)" using f by (simp_all add: result_fits_def)
    then have "start_inv r (Some (psn_step_index sn)) s" unfolding start_inv_def option.case using j by (intro exI [of _ k] exI [of _ ph]) simp
    then show ?thesis by (simp add: Inr Some history_inv_def)
  qed
qed

lemma history_keeps:
  assumes r: "linear_run r" and f: "fresh r s0" and h: "history strategies r s0 prev s"
  shows "history_inv r prev s"
  using h
proof induction
  case history_start
  show ?case by (rule fresh_inv [OF f])
next
  case (history_attempt prev s r' snapshot reconstruct out s')
  have "attempt_ok r False (execute_workflow strategies r' snapshot reconstruct s)"
    by (rule attempt_history) (use history_attempt in simp_all)
  then show ?case unfolding history_attempt.hyps(5) by (rule attempt_ok_history)
next
  case (history_others prev s s')
  note v = run_key_valid [OF linear_runD(1) [OF r]]
  show ?case by (rule history_inv_lift [OF history_others.IH]) (rule quiet_linear_inv [OF history_others.hyps(2) _ v])
next
  case (history_torn prev s outp sid n)
  show ?case
    by (rule history_inv_lift [OF history_torn.IH]) (rule torn_inv [OF linear_runD(1) [OF r] history_torn.hyps(2,3)])
qed

end
