(* ===== verification/Linear_Progress.thy ===== *)
theory Linear_Progress
  imports Linear_Correctness
begin

text \<open>
  An attempt that nothing disturbs comes to an end with success, from any state earlier attempts left: no flag asks it
  to stop, every step is answered, and the clock does not go back.
\<close>

section \<open>An undisturbed attempt\<close>

definition clock :: "'w driver_run \<Rightarrow> 'w \<Rightarrow> int" where
  "clock r w = datetime_micros (fst (dcx_now (drn_ctx r) w))"

definition calm :: "'w driver_run \<Rightarrow> bool" where
  "calm r \<longleftrightarrow>
     (\<forall>w. \<not> fst (dcx_drained (drn_ctx r) w) \<and> \<not> fst (dcx_pause_requested (drn_ctx r) w)) \<and>
     (\<forall>w. clock r w \<le> clock r (snd (dcx_drained (drn_ctx r) w)) \<and> clock r w \<le> clock r (snd (dcx_pause_requested (drn_ctx r) w)) \<and>
        clock r w \<le> clock r (snd (dcx_now (drn_ctx r) w))) \<and>
     (\<forall>f w. dcx_snapshot_ref (drn_ctx r) = Some f \<longrightarrow> clock r w \<le> clock r (snd (f w))) \<and>
     (\<forall>w. dtm_offset (fst (dcx_now (drn_ctx r) w)) \<noteq> None) \<and>
     (\<forall>kind b step ctx s. \<exists>outp s'. dcx_dispatch (drn_ctx r) kind b step ctx s = (Inr outp, s') \<and>
        dst_ledger s' = dst_ledger s \<and> clock r (dst_world s) \<le> clock r (dst_world s')) \<and>
     dcx_validator (drn_ctx r) = None \<and> dcx_wiring (drn_ctx r) = None \<and> dcx_recovery_loop (drn_ctx r) = None \<and>
     (\<forall>step \<in> set (drn_steps r). wfs_step_kind step \<noteq> POST_JOIN_SYNTHESIS)"

lemma calmD:
  assumes "calm r"
  shows "\<not> fst (dcx_drained (drn_ctx r) w)" "\<not> fst (dcx_pause_requested (drn_ctx r) w)"
    "clock r w \<le> clock r (snd (dcx_drained (drn_ctx r) w))" "clock r w \<le> clock r (snd (dcx_pause_requested (drn_ctx r) w))"
    "clock r w \<le> clock r (snd (dcx_now (drn_ctx r) w))"
    "dcx_snapshot_ref (drn_ctx r) = Some f \<Longrightarrow> clock r w \<le> clock r (snd (f w))"
    "dtm_offset (fst (dcx_now (drn_ctx r) w)) \<noteq> None"
    "\<exists>outp s'. dcx_dispatch (drn_ctx r) kind b step ctx s = (Inr outp, s') \<and>
       dst_ledger s' = dst_ledger s \<and> clock r (dst_world s) \<le> clock r (dst_world s')"
    "dcx_validator (drn_ctx r) = None" "dcx_wiring (drn_ctx r) = None" "dcx_recovery_loop (drn_ctx r) = None"
    "\<forall>step \<in> set (drn_steps r). wfs_step_kind step \<noteq> POST_JOIN_SYNTHESIS"
  using assms unfolding calm_def by blast+

text \<open>The last entry is not in the future.\<close>

definition past :: "'w driver_run \<Rightarrow> 'w \<Rightarrow> ledger_entry list \<Rightarrow> bool" where
  "past r w es \<longleftrightarrow>
     (es \<noteq> [] \<longrightarrow> dtm_offset (len_timestamp (last es)) \<noteq> None \<and> datetime_micros (len_timestamp (last es)) \<le> clock r w)"

definition calm_inv :: "'w driver_run \<Rightarrow> 'w driver_state \<Rightarrow> bool" where
  "calm_inv r s \<longleftrightarrow>
     clean_journal (dcx_output_env (drn_ctx r)) (dst_outputs s) (journal_path r) \<and>
     (\<exists>es. ledger_at r s es \<and> past r (dst_world s) es)"

lemma past_mono: "past r w es \<Longrightarrow> clock r w \<le> clock r w' \<Longrightarrow> past r w' es"
  by (auto simp: past_def)

lemma calm_inv_later:
  assumes "calm_inv r s" "clock r (dst_world s) \<le> clock r (dst_world s')" "dst_ledger s' = dst_ledger s"
    "contents (dst_outputs s') (journal_path r) = contents (dst_outputs s) (journal_path r)"
  shows "calm_inv r s'"
proof -
  obtain es where "ledger_at r s es" "past r (dst_world s) es" using assms(1) unfolding calm_inv_def by blast
  then have "ledger_at r s' es" "past r (dst_world s') es" using assms(2,3) past_mono by (simp_all add: ledger_at_def)
  moreover have "clean_journal (dcx_output_env (drn_ctx r)) (dst_outputs s') (journal_path r)"
    using assms(1,4) by (simp add: calm_inv_def clean_journal_def)
  ultimately show ?thesis unfolding calm_inv_def by blast
qed

text \<open>From a calm state in \<open>P\<close> to a calm state in \<open>Q\<close>; with \<open>F\<close>, there may be a failing replay instead.\<close>

definition calmly ::
  "bool \<Rightarrow> 'w driver_run \<Rightarrow> ('w driver_state \<Rightarrow> bool) \<Rightarrow> ('w, run_result \<times> nat, 'a) driver \<Rightarrow> ('a \<Rightarrow> 'w driver_state \<Rightarrow> bool) \<Rightarrow> bool" where
  "calmly F r P m Q \<longleftrightarrow>
     triple (\<lambda>s. calm_inv r s \<and> P s) m (\<lambda>x s. calm_inv r s \<and> Q x s) (\<lambda>y s. F \<and> replay_failure (rrs_fail_class (fst y))) (\<lambda>_. False)"

lemma calmly_andthen: "calmly F r P m Q \<Longrightarrow> (\<And>x. calmly F r (Q x) (f x) Q') \<Longrightarrow> calmly F r P (andthen m f) Q'"
  unfolding calmly_def by (rule triple_andthen)

lemma calmly_go: "(\<And>s. P s \<Longrightarrow> Q x s) \<Longrightarrow> calmly F r P (go x) Q"
  unfolding calmly_def by (rule triple_go) simp

lemma calmly_pure: "(b \<Longrightarrow> calmly F r P m Q) \<Longrightarrow> calmly F r (\<lambda>s. P s \<and> b) m Q"
  by (cases b) (simp_all add: calmly_def triple_def)

lemma calmly_fact: "(b \<Longrightarrow> calmly F r (\<lambda>_. True) m Q) \<Longrightarrow> calmly F r (\<lambda>_. b) m Q"
  by (cases b) (simp_all add: calmly_def triple_def)

text \<open>What is known of a piece without calm can be added.\<close>

lemma calmly_also:
  assumes "calmly F r P m Q" "piece r b P' m Q'"
  shows "calmly F r (\<lambda>s. P s \<and> P' s) m (\<lambda>x s. Q x s \<and> Q' x s)"
  unfolding calmly_def triple_def
proof (intro allI impI)
  fix s
  assume s: "calm_inv r s \<and> P s \<and> P' s"
  have a: "case m s of (Go x, s') \<Rightarrow> calm_inv r s' \<and> Q x s' | (Return y, s') \<Rightarrow> F \<and> replay_failure (rrs_fail_class (fst y))
      | (Raise e, s') \<Rightarrow> False"
    by (rule triple_use [OF assms(1) [unfolded calmly_def]]) (use s in simp)
  have "case m s of (Go x, s') \<Rightarrow> Q' x s' | (Return y, s') \<Rightarrow> ret_ok r b y s' | (Raise e, s') \<Rightarrow> some_inv r s'"
    by (rule triple_use [OF assms(2)]) (use s in simp)
  with a show "case m s of (Go x, s') \<Rightarrow> calm_inv r s' \<and> Q x s' \<and> Q' x s' | (Return y, s') \<Rightarrow> F \<and> replay_failure (rrs_fail_class (fst y))
      | (Raise e, s') \<Rightarrow> False" by (cases "m s"; cases "fst (m s)") simp_all
qed

lemma calmly_world:
  assumes "\<And>w. clock r w \<le> clock r (snd (f w))" "\<And>w. Q (fst (f w))"
  shows "calmly F r (\<lambda>_. True) (world f) (\<lambda>x _. Q x)"
  unfolding calmly_def
proof (rule triple_world)
  fix s w x
  assume s: "calm_inv r s \<and> True" and f: "f (dst_world s) = (x, w)"
  have "clock r (dst_world s) \<le> clock r w" "Q x" using assms [of "dst_world s"] f by simp_all
  then show "calm_inv r (s\<lparr>dst_world := w\<rparr>) \<and> Q x" using s by (auto intro: calm_inv_later)
qed

lemma calmly_emit: "calmly F r (\<lambda>_. True) (emit e) (\<lambda>_ _. True)"
  by (auto simp: calmly_def triple_def emit_def note_event_def intro: calm_inv_later)

section \<open>A step\<close>

text \<open>A flag that is never up.\<close>

lemma calmly_flag:
  assumes "\<And>w. clock r w \<le> clock r (snd (f w))" "\<And>w. \<not> fst (f w)"
  shows "calmly F r (\<lambda>_. True) (andthen (world f) (\<lambda>up. if up then m else go ())) (\<lambda>_ _. True)"
proof (rule calmly_andthen [OF calmly_world [where Q = Not, OF assms]])
  fix up
  show "calmly F r (\<lambda>_. \<not> up) (if up then m else go ()) (\<lambda>_ _. True)"
    by (cases up) (simp_all add: calmly_def triple_def go_def)
qed

lemma calmly_drain_check: "calm r \<Longrightarrow> calmly F r (\<lambda>_. True) (drain_check r terminal acc n) (\<lambda>_ _. True)"
  unfolding drain_check_def by (rule calmly_flag [OF calmD(3) calmD(1)])

lemma calmly_protocol_pause:
  assumes "calm r"
  shows "calmly F r (\<lambda>_. True) (protocol_pause r i acc n) (\<lambda>_ _. True)"
proof (cases "dcx_protocol (drn_ctx r)")
  case None
  show ?thesis unfolding protocol_pause_def None option.case by (rule calmly_go) simp
next
  case (Some protocol)
  show ?thesis unfolding protocol_pause_def Some option.case by (rule calmly_flag [OF calmD(4) calmD(2)]) (rule assms)+
qed

lemma calmly_engine_pause: "calm r \<Longrightarrow> calmly F r (\<lambda>_. True) (engine_pause r i acc n) (\<lambda>_ _. True)"
  by (simp add: engine_pause_def calmD calmly_go)

lemma calmly_bind_step: "calm r \<Longrightarrow> calmly F r (\<lambda>_. True) (bind_step r step) (\<lambda>_ _. True)"
  by (auto simp: bind_step_def emit_override_entry_def calmD(10) Let_def intro: calmly_go calmly_andthen [OF calmly_go])

lemma calmly_dispatch:
  assumes r: "run_ok r" and c: "calm r"
  shows "calmly F r (\<lambda>_. True) (attempt (dispatch_step r b step ctx))
    (\<lambda>res _. \<exists>outp. res = Inr outp \<and> wf_json (oue_floats (dcx_output_env (drn_ctx r))) (JObj outp))"
  unfolding calmly_def
proof (rule triple_attempt)
  fix s s' res
  assume s: "calm_inv r s \<and> True" and d: "dispatch_step r b step ctx s = (res, s')"
  let ?s = "note_event (DISPATCHED (sec_step_index ctx)) s" and ?c = "dcx_dispatch (drn_ctx r) (wfs_step_kind step) b step ctx"
  have d: "?c ?s = (res, s')" using d by (simp add: dispatch_step_def)
  obtain outp where o: "res = Inr outp" "dst_ledger s' = dst_ledger ?s" "clock r (dst_world ?s) \<le> clock r (dst_world s')"
    using calmD(8) [OF c, of "wfs_step_kind step" b step ctx ?s] d by auto
  have q: "quiet r ?s (snd (?c ?s))" using dispatch_quiet [OF r] by (simp only: quiet_call_def)
  have "calm_inv r s'"
  proof (rule calm_inv_later [OF conjunct1 [OF s]])
    have "map_of (dst_outputs s') (journal_path r) = map_of (dst_outputs s) (journal_path r)"
      using quiet_outputs [OF q] unfolding d by (simp add: note_event_def)
    then show "contents (dst_outputs s') (journal_path r) = contents (dst_outputs s) (journal_path r)"
      by (simp add: contents_def)
  qed (use o in \<open>simp_all add: note_event_def\<close>)
  moreover have "wf_json (oue_floats (dcx_output_env (drn_ctx r))) (JObj outp)"
    by (rule dispatch_wf [OF r, of "wfs_step_kind step" b step ctx ?s]) (simp add: d o(1))
  ultimately show "calm_inv r s' \<and> (\<exists>outp. res = Inr outp \<and> wf_json (oue_floats (dcx_output_env (drn_ctx r))) (JObj outp))"
    using o(1) by simp
qed

lemma calmly_store:
  assumes r: "run_ok r" and k: "k < length (drn_steps r)"
    and wf: "wf_json (oue_floats (dcx_output_env (drn_ctx r))) (JObj outp)"
  shows "calmly F r (\<lambda>_. True) (record_durable_step_output r (int k) (wfs_step_id (drn_steps r ! k)) outp) (\<lambda>_ _. True)"
  unfolding calmly_def triple_def
proof (intro allI impI)
  fix s
  assume s: "calm_inv r s \<and> True"
  let ?sid = "wfs_step_id (drn_steps r ! k)" and ?env = "dcx_output_env (drn_ctx r)"
  have t: "texts_ok r" using r by (simp add: run_ok_def)
  have sid: "list_all valid_cp ?sid" "printable_floats (oue_floats ?env)" using t k by (simp_all add: texts_ok_def)
  have c: "clean_journal ?env (dst_outputs s) (journal_path r)" using s by (simp add: calm_inv_def)
  obtain files where f: "record_output ?env (drn_run_key r) (int k) ?sid outp (dst_outputs s) = (files, True)"
      "clean_journal ?env files (journal_path r)"
    using record_output_stored [OF run_key_valid [OF r] c wf sid] by blast
  have "calm_inv r (note_event (STORED (int k)) (s\<lparr>dst_outputs := files\<rparr>))"
    using s f(2) by (auto simp: calm_inv_def ledger_at_def note_event_def)
  then show "case record_durable_step_output r (int k) ?sid outp s of
      (Raise e, s') \<Rightarrow> False | (Return y, s') \<Rightarrow> F \<and> replay_failure (rrs_fail_class (fst y)) | (Go x, s') \<Rightarrow> calm_inv r s' \<and> True"
    using s f(1) by (simp add: record_durable_step_output_def)
qed

lemma ledger_at_unique:
  assumes "env_ok (dcx_ledger_env (drn_ctx r))" "ledger_at r s es" "ledger_at r s es'"
  shows "es = es'"
  using ledger_ok_read [OF assms(1), of "dst_ledger s" es] ledger_ok_read [OF assms(1), of "dst_ledger s" es'] assms(2,3)
  by (simp add: ledger_at_def)

text \<open>The step's entry is written, or is there already: the clock is past the last entry.\<close>

lemma append_step_calm:
  assumes r: "run_ok r" and s: "calm_inv r s" and p: "plain_payload p" "epl_idempotency_key p = wky_idempotency_key wk"
    and t: "dtm_offset (epl_timestamp p) \<noteq> None" "\<And>es. ledger_at r s es \<Longrightarrow> past r (dst_world s) es \<Longrightarrow> es \<noteq> [] \<Longrightarrow>
      datetime_micros (len_timestamp (last es)) \<le> datetime_micros (epl_timestamp p)"
      "datetime_micros (epl_timestamp p) \<le> clock r (dst_world s)"
    and a: "append_entry (drn_ctx r) p wk s = (res, s')"
  shows "calm_inv r s' \<and> (\<exists>ok. res = Inr ok)"
proof -
  obtain es where es: "ledger_at r s es" "past r (dst_world s) es"
    and c: "clean_journal (dcx_output_env (drn_ctx r)) (dst_outputs s) (journal_path r)"
    using s unfolding calm_inv_def by blast
  have env: "env_ok (dcx_ledger_env (drn_ctx r))" using r by (simp add: run_ok_def texts_ok_def)
  obtain fl where fl: "append_ledger_entry (dcx_ledger_env (drn_ctx r)) (dst_ledger s) p wk = (fl, res)"
      "s' = s\<lparr>dst_ledger := fl\<rparr>"
    using a by (auto simp: append_entry_def split: prod.splits)
  have o: "write_outcome (dcx_ledger_env (drn_ctx r)) (dst_ledger s) es p wk (fl, res)"
    using append_outcome [OF env, of "dst_ledger s" es p wk] es(1) plain_payload_ok [OF p(1)] fl(1) by (simp add: ledger_at_def)
  have less: "es \<noteq> [] \<Longrightarrow> datetime_less (epl_timestamp p) (len_timestamp (last es)) = Some False"
    using t(1) t(2) [OF es] es(2) by (auto simp: datetime_less_def past_def)
  show ?thesis
  proof (cases res)
    case (Inl err)
    then show ?thesis using o less p(2) by (cases err) (auto simp: write_outcome_def)
  next
    case (Inr ok)
    show ?thesis
    proof (cases ok)
      case APPENDED
      then obtain e where e: "entry_of p e" "ledger_at r s' (es @ [e])"
        using o Inr fl(2) by (auto simp: write_outcome_def ledger_at_def)
      then have "past r (dst_world s') (es @ [e])"
        using t(1,3) entry_of_fields [OF e(1)] fl(2) by (simp add: past_def)
      then show ?thesis using Inr e(2) c fl(2) unfolding calm_inv_def by auto
    next
      case IDEMPOTENT_NOOP
      then have "fl = dst_ledger s" using o Inr by (simp add: write_outcome_def)
      then show ?thesis using Inr s fl(2) by simp
    qed
  qed
qed

lemma calmly_append:
  assumes r: "run_ok r" and c: "calm r" and key: "plain_text key"
  shows "calmly F r (\<lambda>_. True) (append_step_ledger_entry r i key) (\<lambda>res _. \<exists>ok. res = Inr ok)"
proof -
  let ?wk = "\<lparr>wky_thread_id = wme_workflow_id (drn_manifest r), wky_step_id = dec_int i, wky_idempotency_key = key\<rparr>"
  let ?m = "\<lambda>ref. andthen (world (dcx_now (drn_ctx r))) (\<lambda>now s.
       case append_entry (drn_ctx r) (step_payload r i key now ref) ?wk s of
         (res, s') \<Rightarrow> (Go res, if res = Inr APPENDED then note_event (COMMITTED i) s' else s'))"
  have main: "calmly F r (\<lambda>_. True) (?m ref) (\<lambda>res _. \<exists>ok. res = Inr ok)" if ref: "\<forall>x \<in> set_option ref. plain_text x" for ref
    unfolding calmly_def triple_def
  proof (intro allI impI)
    fix s
    assume s: "calm_inv r s \<and> True"
    obtain now w where now: "dcx_now (drn_ctx r) (dst_world s) = (now, w)" by fastforce
    let ?s = "s\<lparr>dst_world := w\<rparr>" and ?p = "step_payload r i key now ref"
    obtain res s' where a: "append_entry (drn_ctx r) ?p ?wk ?s = (res, s')" by fastforce
    have micros: "datetime_micros now = clock r (dst_world s)" by (simp add: clock_def now)
    have later: "clock r (dst_world s) \<le> clock r w" using calmD(5) [OF c, of "dst_world s"] by (simp add: now)
    have s1: "calm_inv r ?s" by (rule calm_inv_later [OF conjunct1 [OF s]]) (simp_all add: later)
    have "calm_inv r s' \<and> (\<exists>ok. res = Inr ok)"
    proof (rule append_step_calm [OF r s1 _ _ _ _ _ a])
      show "plain_payload ?p" using step_payload_plain [OF r key ref, of i "dst_world s"] by (simp add: now)
      show "epl_idempotency_key ?p = wky_idempotency_key ?wk" by (simp add: step_payload_def)
      show "dtm_offset (epl_timestamp ?p) \<noteq> None" using calmD(7) [OF c, of "dst_world s"] by (simp add: now step_payload_def)
      show "datetime_micros (epl_timestamp ?p) \<le> clock r (dst_world ?s)" using later by (simp add: step_payload_def micros)
    next
      fix es
      assume "ledger_at r ?s es"
      moreover obtain es' where "ledger_at r s es'" "past r (dst_world s) es'" using s unfolding calm_inv_def by blast
      moreover have "env_ok (dcx_ledger_env (drn_ctx r))" using r by (simp add: run_ok_def texts_ok_def)
      ultimately have "past r (dst_world s) es" using ledger_at_unique [of r s es es'] by (simp add: ledger_at_def)
      then show "es \<noteq> [] \<Longrightarrow> datetime_micros (len_timestamp (last es)) \<le> datetime_micros (epl_timestamp ?p)"
        by (simp add: past_def step_payload_def micros)
    qed
    then have "calm_inv r (if res = Inr APPENDED then note_event (COMMITTED i) s' else s') \<and> (\<exists>ok. res = Inr ok)"
      by (auto intro: calm_inv_later simp: note_event_def)
    then show "case ?m ref s of
        (Raise e, s') \<Rightarrow> False | (Return y, s') \<Rightarrow> F \<and> replay_failure (rrs_fail_class (fst y))
      | (Go x, s') \<Rightarrow> calm_inv r s' \<and> (\<exists>ok. x = Inr ok)"
      by (simp add: andthen_def world_def now a)
  qed
  show ?thesis
  proof (cases "dcx_snapshot_ref (drn_ctx r)")
    case None
    show ?thesis unfolding append_step_ledger_entry_def None option.case
      by (rule calmly_andthen [where Q = "\<lambda>ref _. ref = None"], rule calmly_go, simp, rule calmly_fact) (use main [of None] in simp)
  next
    case (Some f)
    have pl: "plain_text (fst (f w))" for w using r Some by (auto simp: run_ok_def texts_ok_def)
    have "calmly F r (\<lambda>_. True) (andthen (world f) (\<lambda>ref. go (Some ref))) (\<lambda>ref _. \<forall>x \<in> set_option ref. plain_text x)"
      by (rule calmly_andthen [OF calmly_world [OF calmD(6) [OF c Some], where Q = plain_text]]) (auto intro: pl calmly_go)
    then show ?thesis unfolding append_step_ledger_entry_def Some option.case
      by (rule calmly_andthen) (rule calmly_fact, rule main)
  qed
qed

lemma calmly_linear_step:
  assumes r: "run_ok r" and c: "calm r" and k: "k < length (drn_steps r)"
  shows "calmly F r (\<lambda>_. True) (linear_step r directive (drn_steps r ! k) (int k) acc n) (\<lambda>_ _. True)"
  unfolding linear_step_def
proof (intro calmly_andthen [OF calmly_drain_check [OF c]] calmly_andthen [OF calmly_engine_pause [OF c]]
    calmly_andthen [OF calmly_protocol_pause [OF c]] calmly_andthen [OF calmly_bind_step [OF c]])
  fix b
  let ?step = "drn_steps r ! k"
  obtain key where key: "compute_step_idempotency_key (drn_run_key r) (int k) None = Some key"
    using run_key_valid [OF r] utf8_encode_valid [of "drn_run_key r"] utf8_encode_valid [of "dec_int (int k)"] dec_int_plain [of "int k"]
    by (auto simp: compute_step_idempotency_key_def nul_key_def plain_text_def list_all_iff)
  note plain = step_key_some(2) [OF key]
  let ?ctx = "step_context_for r b directive key (int k)"
  have commit: "calmly F r (\<lambda>_. True) (commit_step r (int k) key ?step outp acc n) (\<lambda>_ _. True)"
    if "wf_json (oue_floats (dcx_output_env (drn_ctx r))) (JObj outp)" for outp
    unfolding commit_step_def
  proof (intro calmly_andthen [OF _ calmly_andthen [OF calmly_append [OF r c plain] calmly_fact]])
    show "calmly F r (\<lambda>_. True) (if wme_engine_class (drn_manifest r) \<in> set FINAL_STATE_RECONSTRUCT_ENGINE_CLASSES
        then record_durable_step_output r (int k) (wfs_step_id ?step) outp else go ()) (\<lambda>_ _. True)"
      by (simp add: calmly_store [OF r k that] calmly_go)
  qed (auto intro: calmly_go)
  have rec: "calmly F r (\<lambda>_. True) (\<lambda>s. (Go (), record_inter_step_output (drn_ctx r) sid outp s)) (\<lambda>_ _. True)" for sid outp
    by (auto simp: calmly_def triple_def record_inter_step_output_def intro: calm_inv_later)
  have valid: "calmly F r (\<lambda>_. True) (validate_step r ?step ctx outp acc n) (\<lambda>_ _. True)" for ctx outp
    by (simp add: validate_step_def calmD(9) [OF c] calmly_go)
  show "calmly F r (\<lambda>_. True)
    (case compute_step_idempotency_key (drn_run_key r) (int k) None of
       None \<Rightarrow> fail (raised ''UnicodeEncodeError'')
     | Some sk \<Rightarrow>
         let ctx = step_context_for r b directive sk (int k) in
         andthen (attempt (dispatch_step r b ?step ctx)) (\<lambda>res.
           case res of
             Inl exc \<Rightarrow> dispatch_failed r (int k) acc n exc
           | Inr outp \<Rightarrow>
               andthen (emit STEP_BOUNDARY) (\<lambda>_.
               andthen (validate_step r ?step ctx outp acc n) (\<lambda>_.
               andthen (commit_step r (int k) sk ?step outp acc n) (\<lambda>_.
               andthen (\<lambda>s. (Go (), record_inter_step_output (drn_ctx r) (wfs_step_id ?step) outp s)) (\<lambda>_.
               andthen (drain_check r (Some (int k)) (AList.update (wfs_step_id ?step) outp acc) (Suc n)) (\<lambda>_.
                 go (AList.update (wfs_step_id ?step) outp acc))))))))
    (\<lambda>_ _. True)"
    unfolding key option.case Let_def
  proof (rule calmly_andthen [OF calmly_dispatch [OF r c] calmly_fact], elim exE conjE)
    fix res :: "step_exception + json_object" and outp
    assume res: "res = Inr outp" and wf: "wf_json (oue_floats (dcx_output_env (drn_ctx r))) (JObj outp)"
    show "calmly F r (\<lambda>_. True)
      (case res of
         Inl exc \<Rightarrow> dispatch_failed r (int k) acc n exc
       | Inr outp \<Rightarrow>
           andthen (emit STEP_BOUNDARY) (\<lambda>_.
           andthen (validate_step r ?step ?ctx outp acc n) (\<lambda>_.
           andthen (commit_step r (int k) key ?step outp acc n) (\<lambda>_.
           andthen (\<lambda>s. (Go (), record_inter_step_output (drn_ctx r) (wfs_step_id ?step) outp s)) (\<lambda>_.
           andthen (drain_check r (Some (int k)) (AList.update (wfs_step_id ?step) outp acc) (Suc n)) (\<lambda>_.
             go (AList.update (wfs_step_id ?step) outp acc)))))))
      (\<lambda>_ _. True)"
      unfolding res sum.case
      by (intro calmly_andthen [OF calmly_emit] calmly_andthen [OF valid] calmly_andthen [OF commit [OF wf]] calmly_andthen [OF rec]
          calmly_andthen [OF calmly_drain_check [OF c]] calmly_go) simp
  qed
qed

lemma calmly_linear_loop:
  assumes r: "run_ok r" and c: "calm r"
  shows "steps = drop k (drn_steps r) \<Longrightarrow> calmly F r (\<lambda>_. True) (linear_loop r directive steps (int k) acc n) (\<lambda>_ _. True)"
proof (induction steps arbitrary: k directive acc n)
  case Nil
  then show ?case by (auto intro: calmly_go)
next
  case (Cons step rest)
  then have k: "k < length (drn_steps r)" by (metis drop_all list.distinct(1) not_less)
  then have step: "step = drn_steps r ! k" and rest: "rest = drop (Suc k) (drn_steps r)"
    using Cons.prems by (simp_all add: Cons_nth_drop_Suc [symmetric])
  have idx: "int k + 1 = int (Suc k)" by simp
  show ?case
    unfolding linear_loop.simps step idx by (intro calmly_andthen [OF calmly_linear_step [OF r c k]] Cons.IH [OF rest])
qed

section \<open>An attempt\<close>

lemma replay_prefix_ends:
  "j + n \<le> length (drn_steps r) \<Longrightarrow>
   (case replay_prefix r m ra j n acc of Go x \<Rightarrow> True | Return y \<Rightarrow> replay_failure (rrs_fail_class (fst y)) | Raise e \<Rightarrow> False)"
  by (induction r m ra j n acc rule: replay_prefix.induct)
    (auto simp: replay_failure_def answer_def split: option.splits)

lemma calmly_read_prefix:
  assumes r: "run_ok r" and F: "F \<or> i = 0"
  shows "calmly F r (going_on r i) (read_durable_replay_prefix r i) (\<lambda>_ _. True)"
  unfolding calmly_def triple_def
proof (intro allI impI)
  fix s
  assume s: "calm_inv r s \<and> going_on r i s"
  then obtain k where k: "i = int k" "k \<le> length (drn_steps r)" unfolding going_on_def by blast
  then have e: "case replay_prefix r (stored r s) i 0 (nat i) [] of
      Go x \<Rightarrow> True | Return y \<Rightarrow> replay_failure (rrs_fail_class (fst y)) | Raise e \<Rightarrow> False" by (intro replay_prefix_ends) simp
  have u: "replay_failure (rrs_fail_class (failed_at r 0 None (REPLAY_UNREADABLE_STORE i)))"
    by (simp add: replay_failure_def answer_def)
  show "case read_durable_replay_prefix r i s of
      (Raise e, s') \<Rightarrow> False | (Return y, s') \<Rightarrow> F \<and> replay_failure (rrs_fail_class (fst y)) | (Go x, s') \<Rightarrow> calm_inv r s' \<and> True"
    using s e u F by (cases "replay_prefix r (stored r s) i 0 (nat i) []")
      (auto simp: read_durable_replay_prefix_def read_outputs_total [OF r] split: prod.split)
qed

lemma calmly_rehydrate:
  assumes r: "run_ok r" and e: "durable_engine r" and F: "F \<or> i = 0"
  shows "calmly F r (going_on r i) (if 0 < i then rehydrate_channel r i else go ()) (\<lambda>_. going_on r i)"
proof -
  have "calmly F r (\<lambda>_. True) (\<lambda>s. (Go (), s\<lparr>dst_channel := dst_channel s @ outs\<rparr>)) (\<lambda>_ _. True)" for outs
    by (auto simp: calmly_def triple_def intro: calm_inv_later)
  then have "calmly F r (going_on r i) (if 0 < i then rehydrate_channel r i else go ()) (\<lambda>_ _. True)"
    unfolding rehydrate_channel_def by (auto intro: calmly_andthen [OF calmly_read_prefix [OF r F]] calmly_go)
  from calmly_also [OF this piece_rehydrate_if [OF r e [unfolded durable_engine_def]]] show ?thesis by simp
qed

lemma first_missing_total: "(\<And>j. f j \<noteq> None) \<Longrightarrow> first_missing f i n \<noteq> None"
proof (induction n arbitrary: i)
  case (Suc n)
  obtain v where "f i = Some v" using Suc.prems by blast
  then show ?case using Suc by (cases v) simp_all
qed simp

lemma resume_cursor_total:
  assumes r: "run_ok r" and es: "ledger_at r s es"
  shows "\<exists>i. determine_resume_at r (dst_ledger s) = Some i"
proof -
  have env: "env_ok (dcx_ledger_env (drn_ctx r))" using r by (simp add: run_ok_def texts_ok_def)
  have read: "read_ledger (dcx_ledger_env (drn_ctx r)) (dst_ledger s) = Some es"
    using es env by (auto intro: ledger_ok_read simp: ledger_at_def)
  have "\<exists>k. compute_step_idempotency_key (drn_run_key r) (int j) None = Some k" for j
    using run_key_valid [OF r] utf8_encode_valid [of "drn_run_key r"] utf8_encode_valid [of "dec_int (int j)"] dec_int_plain [of "int j"]
    by (auto simp: compute_step_idempotency_key_def nul_key_def plain_text_def list_all_iff)
  moreover have "map_option (\<lambda>res. lrr_entries res \<noteq> []) (read_by_idempotency_key es k (max 1 (dcx_entry_count (drn_ctx r)))) \<noteq> None" for k
    using read_by_key [of "max 1 (dcx_entry_count (drn_ctx r))" es k] by auto
  ultimately have "Option.bind (compute_step_idempotency_key (drn_run_key r) (int j) None) (\<lambda>k.
      map_option (\<lambda>res. lrr_entries res \<noteq> []) (read_by_idempotency_key es k (max 1 (dcx_entry_count (drn_ctx r))))) \<noteq> None" for j
    by (metis bind.bind_lunit)
  then show ?thesis unfolding determine_resume_at_def read option.case by (intro not_None_eq [THEN iffD1] first_missing_total)
qed

text \<open>Without \<open>F\<close>, the run starts at the first step.\<close>

definition at_start :: "bool \<Rightarrow> 'w driver_run \<Rightarrow> 'w driver_state \<Rightarrow> bool" where
  "at_start F r s \<longleftrightarrow> (F \<or> determine_resume_at r (dst_ledger s) = Some 0) \<and> some_inv r s"

definition from_here :: "bool \<Rightarrow> 'w driver_run \<Rightarrow> int \<Rightarrow> 'w driver_state \<Rightarrow> bool" where
  "from_here F r i s \<longleftrightarrow> (F \<or> i = 0) \<and> going_on r i s"

lemma calmly_from_here:
  "(F \<or> i = 0 \<Longrightarrow> calmly F r (going_on r i) m Q) \<Longrightarrow> calmly F r (from_here F r i) m Q"
  by (cases "F \<or> i = 0") (auto simp: calmly_def triple_def from_here_def)

lemma calmly_resume_cursor:
  assumes r: "run_ok r"
  shows "calmly F r (at_start F r) (resume_cursor r) (from_here F r)"
proof -
  have "\<exists>i. determine_resume_at r (dst_ledger s) = Some i" if "calm_inv r s" for s
    using that resume_cursor_total [OF r] unfolding calm_inv_def by blast
  then have "calmly F r (\<lambda>s. F \<or> determine_resume_at r (dst_ledger s) = Some 0) (resume_cursor r) (\<lambda>i _. F \<or> i = 0)"
    by (fastforce simp: calmly_def triple_def resume_cursor_def split: option.split)
  from calmly_also [OF this piece_resume_cursor [OF r]] show ?thesis
    by (simp only: at_start_def [abs_def] from_here_def [abs_def])
qed

lemma calmly_emit_going_on: "calmly F r (going_on r i) (emit e) (\<lambda>_. going_on r i)"
  using calmly_also [OF calmly_emit going_on_keeps [OF keeps_emit]] by simp

lemma calmly_emit_if: "calmly F r (going_on r i) (emit_if c e) (\<lambda>_. going_on r i)"
  by (simp add: emit_if_def calmly_emit_going_on calmly_go)

lemma calmly_linear_resume:
  assumes r: "run_ok r" and c: "calm r" and e: "durable_engine r"
  shows "calmly F r (at_start F r) (linear_resume r None) (from_here F r)"
proof -
  note cursor = calmly_andthen [OF calmly_resume_cursor [OF r] calmly_from_here]
  have last: "calmly F r (going_on r i) (go i) (from_here F r)" if "F \<or> i = 0" for i
    by (rule calmly_go) (simp add: from_here_def that)
  note emit = calmly_andthen [OF calmly_emit_if]
  have plain: "calmly F r (at_start F r) (andthen (resume_cursor r) (\<lambda>i. andthen (emit_if (0 < i) RESUMPTION) (\<lambda>_. go i)))
      (from_here F r)" by (intro cursor emit last)
  have channel: "calmly F r (at_start F r) (andthen (resume_cursor r) (\<lambda>i. andthen (emit_if (0 < i) RESUMPTION) (\<lambda>_.
      andthen (if 0 < i then rehydrate_channel r i else go ()) (\<lambda>_. go i)))) (from_here F r)"
    by (intro cursor emit calmly_andthen [OF calmly_rehydrate [OF r e]] last)
  note unf = linear_resume_def option.case calmD(11) [OF c]
  show ?thesis
  proof (cases "wme_engine_class (drn_manifest r)")
    case EVENT_SOURCED_REPLAY
    show ?thesis unfolding unf EVENT_SOURCED_REPLAY engine_class.case by (rule channel)
  next
    case SAVE_POINT_CHECKPOINT
    show ?thesis unfolding unf SAVE_POINT_CHECKPOINT engine_class.case by (rule plain)
  next
    case RECONCILER_LOOP
    show ?thesis unfolding unf RECONCILER_LOOP engine_class.case by (rule plain)
  next
    case WAL_SEGMENT
    show ?thesis unfolding unf WAL_SEGMENT engine_class.case by (rule channel)
  qed (use e in \<open>simp add: durable_engine_def FINAL_STATE_RECONSTRUCT_ENGINE_CLASSES_def\<close>)
qed

lemma calmly_linear_body:
  assumes r: "run_ok r" and c: "calm r" and e: "durable_engine r"
  shows "calmly F r (at_start F r) (linear_body r None snapshot reconstruct) (\<lambda>y _. rrs_status (fst y) = RUN_SUCCESS)"
  unfolding linear_body_def
proof (intro calmly_andthen [OF calmly_linear_resume [OF r c e] calmly_from_here] calmly_andthen [OF calmly_emit_going_on])
  fix i :: int
  assume F: "F \<or> i = 0"
  let ?loop = "\<lambda>acc. andthen (linear_loop r (fence_directive_for r snapshot) (steps_from i (drn_steps r)) i acc 0)
      (\<lambda>(final, executed). go (answer r RUN_SUCCESS None None (Some final) None None, executed))"
  have seed: "calmly F r (going_on r i) (seed_final_state r reconstruct i) (\<lambda>_ _. \<exists>k. i = int k)"
  proof -
    have "calmly F r (going_on r i) (seed_final_state r reconstruct i) (\<lambda>_ _. True)"
      unfolding seed_final_state_def by (auto intro: calmly_andthen [OF calmly_read_prefix [OF r F]] calmly_go)
    then show ?thesis unfolding calmly_def triple_def going_on_def by (fastforce split: prod.splits flow.splits)
  qed
  have loop: "calmly F r (\<lambda>_. \<exists>k. i = int k) (?loop acc) (\<lambda>y _. rrs_status (fst y) = RUN_SUCCESS)" for acc
  proof (rule calmly_fact, elim exE)
    fix k
    assume i: "i = int k"
    show "calmly F r (\<lambda>_. True) (?loop acc) (\<lambda>y _. rrs_status (fst y) = RUN_SUCCESS)"
      unfolding i steps_from_nat
      by (rule calmly_andthen [OF calmly_linear_loop [OF r c refl]]) (auto intro: calmly_go simp: answer_def split: prod.split)
  qed
  show "calmly F r (going_on r i) (andthen (seed_final_state r reconstruct i) ?loop) (\<lambda>y _. rrs_status (fst y) = RUN_SUCCESS)"
    by (rule calmly_andthen [OF seed loop])
qed

lemma calm_body_guard:
  assumes "calm r"
  shows "body_guard r strategy None = None"
proof -
  have "synthesis_positions (drn_steps r) = []"
    using calmD(12) [OF assms] by (auto simp: synthesis_positions_def filter_empty_conv)
  then show ?thesis by (simp add: body_guard_def)
qed

lemma andthen_go: "andthen (go x) f = f x"
  by (rule ext) (simp add: andthen_def go_def)

lemma calm_attempt:
  assumes l: "linear_run r" and c: "calm r" and s: "at_start F r s" "calm_inv r s"
  shows "\<exists>res s'. execute_workflow strategies r None reconstruct s = (Inr res, s') \<and>
    (rrs_status res = RUN_SUCCESS \<and> calm_inv r s' \<or> F \<and> replay_failure (rrs_fail_class res))"
proof -
  note r = linear_runD(1) [OF l] and key = linear_runD(4) [OF l]
  let ?m = "andthen (world (dcx_drained (drn_ctx r))) (\<lambda>drained.
      if drained then leave (answer r RUN_DRAINED None None None None None, 0)
      else andthen (resume_paused r None) (\<lambda>cursor.
        case compute_run_idempotency_key (drn_run_id r) (wme_workflow_id (drn_manifest r))
               [dec_int (wme_entry_version (drn_manifest r))] of
          None \<Rightarrow> fail (raised ''UnicodeEncodeError'')
        | Some key \<Rightarrow>
            execute_workflow_body strategies (r\<lparr>drn_run_key := key\<rparr>) cursor
              (if cursor = None then None else None) reconstruct))"
  have id: "r\<lparr>drn_run_key := drn_run_key r\<rparr> = r" by simp
  have w: "calmly F r (at_start F r) (world (dcx_drained (drn_ctx r))) (\<lambda>drained s. at_start F r s \<and> \<not> drained)"
    unfolding calmly_def
  proof (rule triple_world)
    fix s w x
    assume s: "calm_inv r s \<and> at_start F r s" and f: "dcx_drained (drn_ctx r) (dst_world s) = (x, w)"
    have "clock r (dst_world s) \<le> clock r w" "\<not> x" using calmD(1,3) [OF c, of "dst_world s"] by (simp_all add: f)
    then show "calm_inv r (s\<lparr>dst_world := w\<rparr>) \<and> at_start F r (s\<lparr>dst_world := w\<rparr>) \<and> \<not> x"
      using s by (auto intro: calm_inv_later simp: some_inv_def at_start_def)
  qed
  have body: "execute_workflow_body strategies r None None reconstruct = linear_body r None None reconstruct"
    by (simp add: execute_workflow_body_def linear_runD(3) [OF l] engine_class_in_scope calm_body_guard [OF c])
  have "calmly F r (at_start F r) ?m (\<lambda>y _. rrs_status (fst y) = RUN_SUCCESS)"
    unfolding key option.case id
  proof (rule calmly_andthen [OF w calmly_pure])
    fix drained
    assume "\<not> drained"
    then show "calmly F r (at_start F r)
      (if drained then leave (answer r RUN_DRAINED None None None None None, 0)
       else andthen (resume_paused r None) (\<lambda>cursor.
         execute_workflow_body strategies r cursor (if cursor = None then None else None) reconstruct))
      (\<lambda>y _. rrs_status (fst y) = RUN_SUCCESS)"
      using calmly_linear_body [OF r c linear_runD(2) [OF l], of F None reconstruct]
      by (simp add: resume_paused_def andthen_go body)
  qed
  from triple_use [OF this [unfolded calmly_def], of s] s show ?thesis
    unfolding execute_workflow_def by (auto split: prod.splits flow.splits)
qed

end
