(* ===== verification/Linear_Properties.thy ===== *)
theory Linear_Properties
  imports Linear_Progress
begin

text \<open>
  The properties of linear runs over any history of attempts: no committed step runs again, outputs are stored before
  commits, results fit what is durable, replays do not fail, an undisturbed attempt succeeds, from a pause it goes on to
  the end, and an attempt with an old snapshot dispatches committed steps again.
\<close>

section \<open>What holds unless keys collide\<close>

text \<open>The ledger is in order, and \<open>P\<close> holds of its entries; or an entry of another action carries the key of a step.\<close>

definition settled :: "'w driver_run \<Rightarrow> 'w driver_state \<Rightarrow> (ledger_entry list \<Rightarrow> bool) \<Rightarrow> bool" where
  "settled r s P \<longleftrightarrow> (\<exists>es. ledger_at r s es \<and> (owned r es \<longrightarrow> P es))"

lemma settledI: "ledger_at r s es \<Longrightarrow> (owned r es \<Longrightarrow> P es) \<Longrightarrow> settled r s P"
  unfolding settled_def by blast

lemma settled_mono: "settled r s P \<Longrightarrow> (\<And>es. P es \<Longrightarrow> Q es) \<Longrightarrow> settled r s Q"
  unfolding settled_def by blast

section \<open>A first attempt\<close>

lemma fresh_resume:
  assumes r: "run_ok r" and f: "fresh r s"
  shows "determine_resume_at r (dst_ledger s) = Some 0"
proof -
  obtain es where es: "ledger_at r s es" "\<forall>i < length (drn_steps r). \<not> in_log r es i" using f unfolding fresh_def by blast
  have "\<exists>i. determine_resume_at r (dst_ledger s) = Some i" by (rule resume_cursor_total [OF r es(1)])
  then obtain i where i: "determine_resume_at r (dst_ledger s) = Some i" by blast
  note c = determine_resume_at_counts [OF r es(1) i]
  have "i = 0"
  proof (rule ccontr)
    assume "i \<noteq> 0"
    then have "in_log r es 0" "0 < length (drn_steps r)" using c(1,2) by auto
    then show False using es(2) by blast
  qed
  then show ?thesis using i by simp
qed

lemma fresh_attempt_succeeds:
  assumes l: "linear_run r" and c: "calm r" and f: "fresh r s" and p: "\<And>es. ledger_at r s es \<Longrightarrow> past r (dst_world s) es"
  shows "\<exists>res s'. execute_workflow strategies r None reconstruct s = (Inr res, s') \<and> rrs_status res = RUN_SUCCESS \<and> calm_inv r s'"
proof -
  have i: "some_inv r s" using fresh_inv [OF f] by (simp add: history_inv_def start_inv_def)
  have "at_start False r s" using i fresh_resume [OF linear_runD(1) [OF l] f] by (simp add: at_start_def)
  moreover have "calm_inv r s" using f p unfolding calm_inv_def fresh_def by blast
  ultimately show ?thesis using calm_attempt [OF l c, of False s] by simp
qed

section \<open>A concrete run\<close>

definition sample_linear_run :: "unit driver_run" where
  "sample_linear_run =
     \<lparr>drn_ctx =
        \<lparr>dcx_ledger_env = Ledger_Correctness.sample_env, dcx_output_env = sample_output_env,
         dcx_actor = \<lparr>act_actor_class = ACTOR_AGENT, act_actor_id = lit ''driver''\<rparr>, dcx_tenant_id = None, dcx_entry_count = 10,
         dcx_now = (\<lambda>w. (epl_timestamp (sample_payload [] []), w)), dcx_drained = Pair False, dcx_pause_requested = Pair False,
         dcx_output_store = True, dcx_channel = True, dcx_protocol = Some (Pair Pause_Resume.sample_context), dcx_wiring = None,
         dcx_snapshot_ref = None, dcx_recovery_loop = None, dcx_resolution = None, dcx_validator = None,
         dcx_escalation_gate = None, dcx_dispatch = (\<lambda>_ _ _ _ s. (Inr [(lit ''done'', JBool True)], s))\<rparr>,
      drn_manifest =
        \<lparr>wme_workflow_id = lit ''w'', wme_workload_class = PIPELINE_AUTOMATION, wme_persona_tier = SOLO_DEVELOPER,
         wme_engine_class = EVENT_SOURCED_REPLAY, wme_topology_pattern = SINGLE_THREADED_LINEAR, wme_layer_budgets = [],
         wme_fallback_chain =
           \<lparr>fc_primary = \<lparr>pc_provider = lit ''p'', pc_model = lit ''m'', pc_family = ANTHROPIC\<rparr>, fc_same_family = [], fc_cross_family = [], fc_terminal = None\<rparr>, wme_hitl_placements = [], wme_sub_agent_briefs = None,
         wme_per_step_overrides = Map.empty, wme_entry_version = 1, wme_default_gate_level = None,
         wme_fanout_timeout_disposition = FAIL_CLOSED\<rparr>,
      drn_steps =
        [\<lparr>wfs_step_id = lit ''a'', wfs_step_kind = TOOL_STEP, wfs_step_payload = []\<rparr>,
         \<lparr>wfs_step_id = lit ''b'', wfs_step_kind = TOOL_STEP, wfs_step_payload = []\<rparr>],
      drn_run_id = lit ''r'',
      drn_run_key = the (compute_run_idempotency_key (lit ''r'') (lit ''w'') [dec_int 1]),
      drn_default_binding = \<lparr>mb_provider = lit ''p'', mb_model = lit ''m''\<rparr>\<rparr>"

definition sample_linear_start :: "unit driver_state" where
  "sample_linear_start = \<lparr>dst_ledger = None, dst_outputs = [], dst_channel = [], dst_trace = [], dst_world = ()\<rparr>"

lemma quiet_self: "quiet r s s"
  unfolding quiet_def by (intro conjI allI impI refl) (rule exI [of _ "[]"], simp)

lemma sample_run_key: "\<exists>k. compute_run_idempotency_key (lit ''r'') (lit ''w'') [dec_int 1] = Some k \<and> plain_text k"
proof -
  have "\<exists>k. compute_run_idempotency_key (lit ''r'') (lit ''w'') [dec_int 1] = Some k"
    using utf8_encode_valid [of "dec_int 1"] dec_int_plain [of 1]
    by (auto simp: compute_run_idempotency_key_def nul_key_def utf8_encode_ascii plain_text_def)
  then show ?thesis using nul_key_plain by (auto simp: compute_run_idempotency_key_def)
qed

lemma sample_run_ok: "run_ok sample_linear_run"
proof -
  have "collaborators_ok sample_linear_run"
    by (simp add: collaborators_ok_def quiet_call_def sample_linear_run_def quiet_self) (auto simp: valid_cp_def)
  moreover have "texts_ok sample_linear_run"
  proof -
    obtain k where k: "compute_run_idempotency_key (lit ''r'') (lit ''w'') [dec_int 1] = Some k" "plain_text k"
      using sample_run_key by blast
    have key: "drn_run_key sample_linear_run = k" by (simp add: sample_linear_run_def k(1) del: lit_Cons)
    have ctx: "dcx_ledger_env (drn_ctx sample_linear_run) = Ledger_Correctness.sample_env"
      "printable_floats (oue_floats (dcx_output_env (drn_ctx sample_linear_run)))"
      "valid_datetime (fst (dcx_now (drn_ctx sample_linear_run) w))"
      "dcx_snapshot_ref (drn_ctx sample_linear_run) = None" "dcx_wiring (drn_ctx sample_linear_run) = None" for w
      by (simp_all add: sample_linear_run_def sample_output_env_def printable_floats_def sample_payload_def valid_datetime_def
          days_in_month_def)
    have texts: "plain_text (wme_workflow_id (drn_manifest sample_linear_run))"
      "plain_text (act_actor_id (dcx_actor (drn_ctx sample_linear_run)))"
      "\<forall>step \<in> set (drn_steps sample_linear_run). list_all valid_cp (wfs_step_id step)"
      by (simp_all add: sample_linear_run_def plain_text_def valid_cp_def)
    show ?thesis
      unfolding texts_ok_def key ctx(1,4,5) using sample_env_ok ctx(2,3) texts k(2) by (simp add: plain_text_def list_all_iff)
  qed
  ultimately show ?thesis by (simp add: run_ok_def)
qed

lemma sample_linear: "linear_run sample_linear_run"
  using sample_run_ok sample_run_key
  by (auto simp: linear_run_def durable_engine_def sample_linear_run_def FINAL_STATE_RECONSTRUCT_ENGINE_CLASSES_def
      resolve_driver_strategy_def)

lemma sample_linear_fresh: "fresh sample_linear_run sample_linear_start"
  using empty_ledger
  by (auto simp: fresh_def sample_linear_start_def sample_linear_run_def ledger_at_def in_log_def clean_journal_def
      sample_output_env_def contents_def journal_text_def intro!: exI [of _ "[]"])

lemma sample_stores: "stores sample_linear_run"
  by (simp add: stores_def sample_linear_run_def FINAL_STATE_RECONSTRUCT_ENGINE_CLASSES_def)

text \<open>An attempt from the start, whatever the other strategies do, and the attempt after it.\<close>

definition sample_attempt :: "unit strategies \<Rightarrow> (step_exception + run_result) \<times> unit driver_state" where
  "sample_attempt strategies = execute_workflow strategies sample_linear_run None True sample_linear_start"

definition sample_returned :: "unit strategies \<Rightarrow> pause_snapshot option" where
  "sample_returned strategies =
     (case fst (sample_attempt strategies) of Inl e \<Rightarrow> None | Inr res \<Rightarrow> rrs_pause_snapshot res)"

lemma same_work_refl: "same_work r r"
  by (simp add: same_work_def)

lemma sample_linear_history:
  "history strategies sample_linear_run sample_linear_start (sample_returned strategies) (snd (sample_attempt strategies))"
  unfolding sample_returned_def
  by (rule history_attempt [OF history_start same_work_refl sample_linear disjI1 [OF refl]])
    (simp add: sample_attempt_def)

lemma sample_calm: "calm sample_linear_run"
  by (simp add: calm_def sample_linear_run_def clock_def sample_payload_def)

lemma sample_start_past: "ledger_at sample_linear_run sample_linear_start es \<Longrightarrow> past sample_linear_run w es"
proof -
  assume "ledger_at sample_linear_run sample_linear_start es"
  moreover have "ledger_at sample_linear_run sample_linear_start []"
    using empty_ledger by (simp add: ledger_at_def sample_linear_run_def sample_linear_start_def)
  moreover have "env_ok (dcx_ledger_env (drn_ctx sample_linear_run))"
    using sample_run_ok by (simp add: run_ok_def texts_ok_def)
  ultimately have "es = []" using ledger_at_unique by blast
  then show ?thesis by (simp add: past_def)
qed

lemma sample_succeeds:
  "\<exists>res s. sample_attempt strategies = (Inr res, s) \<and> rrs_status res = RUN_SUCCESS \<and> calm_inv sample_linear_run s"
  unfolding sample_attempt_def
  by (rule fresh_attempt_succeeds [OF sample_linear sample_calm sample_linear_fresh sample_start_past])

text \<open>Strategies for the topologies that are no concern here.\<close>

definition no_strategies :: "unit strategies" where
  "no_strategies = (\<lambda>_ _ _. fail (raised ''NotImplementedError''))"

section \<open>A run that is paused\<close>

lemma world_pair: "world (Pair x) = go x"
  by (rule ext) (simp add: world_def go_def)

lemma andthen_leave: "andthen (leave y) f = leave y"
  by (rule ext) (simp add: andthen_def leave_def)

lemma fresh_pauses:
  assumes l: "linear_run r" and f: "fresh r s" and e: "wme_engine_class (drn_manifest r) = EVENT_SOURCED_REPLAY"
    and c: "dcx_drained (drn_ctx r) = Pair False" "dcx_pause_requested (drn_ctx r) = Pair True"
      "dcx_protocol (drn_ctx r) = Some (Pair pctx)" "dcx_recovery_loop (drn_ctx r) = None" "dcx_wiring (drn_ctx r) = None"
    and g: "body_guard r LINEAR_INLINE None = None" and steps: "drn_steps r = step # rest"
    and sn: "capture_pause_snapshot (lge_floats (dcx_ledger_env (drn_ctx r))) pctx (wme_workflow_id (drn_manifest r))
      (drn_run_id r) 0 EXPLICIT_OPERATOR no_carriers = Some sn"
  shows "execute_workflow strategies r None reconstruct s =
    (Inr (answer r RUN_PAUSED None (Some []) None None (Some sn)), note_event (EMITTED WORKFLOW_START) s)"
proof -
  let ?a = "answer r RUN_PAUSED None (Some []) None None (Some sn)"
  have d: "determine_resume_at r (dst_ledger s) = Some 0" by (rule fresh_resume [OF linear_runD(1) [OF l] f])
  have resume: "linear_resume r None s = (Go 0, s)"
    by (simp add: linear_resume_def e andthen_def [of "resume_cursor r"] resume_cursor_def d emit_if_def andthen_go go_def)
  have step: "linear_step r directive step 0 [] 0 = leave (?a, 0)" for directive
    by (simp add: linear_step_def drain_check_def engine_pause_def protocol_pause_def pause_here_def emit_protocol_entry_def
        world_pair andthen_go andthen_leave c sn prev_index_def)
  have loop: "linear_loop r directive (steps_from 0 (drn_steps r)) 0 [] 0 = leave (?a, 0)" for directive
    by (simp add: steps_from_def steps step andthen_leave)
  have "linear_body r None None reconstruct s = (Return (?a, 0), note_event (EMITTED WORKFLOW_START) s)"
    by (simp add: linear_body_def andthen_def [of "linear_resume r None"] resume andthen_def [of "emit WORKFLOW_START"] emit_def
        seed_final_state_def andthen_go loop andthen_leave leave_def)
  moreover have "execute_workflow_body strategies r None None reconstruct = linear_body r None None reconstruct"
    by (simp add: execute_workflow_body_def linear_runD(3) [OF l] engine_class_in_scope g)
  moreover have "r\<lparr>drn_run_key := drn_run_key r\<rparr> = r" by simp
  ultimately show ?thesis
    by (simp add: execute_workflow_def c(1) world_pair andthen_go resume_paused_def linear_runD(4) [OF l])
qed

definition sample_pausing_run :: "unit driver_run" where
  "sample_pausing_run = sample_linear_run\<lparr>drn_ctx := (drn_ctx sample_linear_run)\<lparr>dcx_pause_requested := Pair True\<rparr>\<rparr>"

lemma sample_pausing: "linear_run sample_pausing_run" "same_work sample_linear_run sample_pausing_run"
proof -
  have q: "quiet sample_pausing_run s s' = quiet sample_linear_run s s'" for s s'
    by (simp add: quiet_def ledger_at_def journal_path_def step_action_id_def sample_pausing_run_def)
  have "collaborators_ok sample_pausing_run = collaborators_ok sample_linear_run"
    by (simp add: collaborators_ok_def quiet_call_def q) (simp add: sample_pausing_run_def)
  moreover have "texts_ok sample_pausing_run = texts_ok sample_linear_run" by (simp add: texts_ok_def sample_pausing_run_def)
  ultimately show "linear_run sample_pausing_run"
    using sample_linear by (simp add: linear_run_def run_ok_def durable_engine_def) (simp add: sample_pausing_run_def)
  show "same_work sample_linear_run sample_pausing_run" by (simp add: same_work_def sample_pausing_run_def)
qed

lemma sample_pauses:
  "\<exists>sn. capture_pause_snapshot no_floats Pause_Resume.sample_context (lit ''w'') (lit ''r'') 0 EXPLICIT_OPERATOR no_carriers = Some sn \<and>
     execute_workflow no_strategies sample_pausing_run None True sample_linear_start =
       (Inr (answer sample_pausing_run RUN_PAUSED None (Some []) None None (Some sn)), note_event (EMITTED WORKFLOW_START) sample_linear_start)"
proof -
  obtain sn where sn: "capture_pause_snapshot no_floats Pause_Resume.sample_context (lit ''w'') (lit ''r'') 0 EXPLICIT_OPERATOR
      no_carriers = Some sn" using sample_capture_at by blast
  have "fresh sample_pausing_run sample_linear_start" using sample_linear_fresh
    by (simp add: fresh_def ledger_at_def in_log_def step_key_def journal_path_def sample_pausing_run_def)
  from fresh_pauses [OF sample_pausing(1) this, of "Pause_Resume.sample_context" "drn_steps sample_linear_run ! 0"
      "tl (drn_steps sample_linear_run)" sn no_strategies True] sn
  show ?thesis
    by (auto simp: sample_pausing_run_def sample_linear_run_def Ledger_Correctness.sample_env_def body_guard_def
        synthesis_positions_def simp del: lit_Cons)
qed

section \<open>The properties\<close>

lemma history_state:
  assumes "linear_run r" "fresh r s0" "history strategies r s0 prev s"
  shows "settled r s (\<lambda>es. \<exists>k ph. on_track r (\<lambda>_. True) k ph es s)"
proof -
  have "some_inv r s" using start_inv_some history_keeps [OF assms] unfolding history_inv_def by blast
  then show ?thesis unfolding some_inv_def linear_inv_def settled_def by blast
qed

text \<open>
  Property C1. However often a linear run on a durable engine is attempted, interrupted, paused and resumed, each time
  afresh or with the snapshot it last returned, and whatever else is written to the ledger: the ledger stays in order,
  the steps with an entry are the first ones of the workflow, their commits came in that order, each once, and no
  committed step was dispatched, stored or committed again; or an entry of another action carries the key of a step.
\<close>

theorem no_committed_step_reruns:
  assumes "linear_run r" "fresh r s0" "history strategies r s0 prev s"
  shows "settled r s (\<lambda>es.
     at_most_once (dst_trace s) \<and>
     (\<exists>k \<le> length (drn_steps r). commits (dst_trace s) = map int [0..<k] \<and>
        (\<forall>i < length (drn_steps r). in_log r es i \<longleftrightarrow> i < k)))"
proof (rule settled_mono [OF history_state [OF assms]], elim exE)
  fix es k ph
  assume t: "on_track r (\<lambda>_. True) k ph es s"
  then have p: "protocol_run (stores r) (0, IDLE) (dst_trace s) = Some (k, ph)" by (simp only: on_track_def)
  show "at_most_once (dst_trace s) \<and> (\<exists>k \<le> length (drn_steps r). commits (dst_trace s) = map int [0..<k] \<and>
      (\<forall>i < length (drn_steps r). in_log r es i \<longleftrightarrow> i < k))"
    using protocol_at_most_once [OF p] protocol_commits [OF p] t by (auto simp: on_track_def)
qed

theorem no_committed_step_reruns_witness:
  "settled sample_linear_run (snd (sample_attempt no_strategies)) (\<lambda>es. at_most_once (dst_trace (snd (sample_attempt no_strategies))))"
  by (rule settled_mono [OF no_committed_step_reruns [OF sample_linear sample_linear_fresh sample_linear_history]]) simp

text \<open>A commit of a run that keeps outputs follows the storing of the output.\<close>

lemma protocol_kept:
  "protocol_run kept (k, ph) tr = Some (k', KEPT) \<Longrightarrow> k' = k \<and> ph = KEPT \<or> STORED (int k') \<in> set tr"
proof (induction tr arbitrary: k ph)
  case (Cons e tr)
  then obtain k1 ph1 where s: "protocol_step kept (k, ph) e = Some (k1, ph1)" "protocol_run kept (k1, ph1) tr = Some (k', KEPT)"
    by (auto split: bind_splits)
  then show ?case using Cons.IH [OF s(2)] by (cases e) (auto split: if_splits)
qed simp

lemma protocol_stored_first:
  assumes "protocol_run True (0, IDLE) (xs @ COMMITTED i # ys) = Some q"
  shows "STORED i \<in> set xs"
proof -
  obtain k ph where "protocol_run True (0, IDLE) xs = Some (k, ph)" "protocol_step True (k, ph) (COMMITTED i) \<noteq> None"
    using assms by (auto simp: protocol_run_append split: bind_splits)
  then show ?thesis using protocol_kept [of True 0 IDLE xs k] by (auto split: if_splits)
qed

text \<open>
  Property C3. Over any history, a step is committed only after its output is stored, and the store has, under its
  index, the id and an output of every step the ledger has an entry for, also after torn writes.
\<close>

theorem committed_outputs_stored:
  assumes "linear_run r" "fresh r s0" "history strategies r s0 prev s" "stores r"
  shows "settled r s (\<lambda>es.
     (\<forall>xs i ys. dst_trace s = xs @ COMMITTED i # ys \<longrightarrow> STORED i \<in> set xs) \<and>
     (\<forall>i < length (drn_steps r). in_log r es i \<longrightarrow>
        (\<exists>outp. stored r s (int i) = Some (wfs_step_id (drn_steps r ! i), outp))))"
proof (rule settled_mono [OF history_state [OF assms(1-3)]], elim exE)
  fix es k ph
  assume t: "on_track r (\<lambda>_. True) k ph es s"
  have first: "STORED i \<in> set xs" if "dst_trace s = xs @ COMMITTED i # ys" for xs i ys
  proof -
    have "protocol_run True (0, IDLE) (xs @ COMMITTED i # ys) = Some (k, ph)"
      using t that assms(4) by (simp add: on_track_def)
    then show ?thesis by (rule protocol_stored_first)
  qed
  have "\<exists>outp. stored r s (int i) = Some (wfs_step_id (drn_steps r ! i), outp)"
    if "i < length (drn_steps r)" "in_log r es i" for i
  proof -
    have "i < k" "store_covers r k (stored r s)" using t that by (simp_all add: on_track_def)
    then show ?thesis using assms(4) unfolding store_covers_def has_output_def by blast
  qed
  with first show "(\<forall>xs i ys. dst_trace s = xs @ COMMITTED i # ys \<longrightarrow> STORED i \<in> set xs) \<and>
     (\<forall>i < length (drn_steps r). in_log r es i \<longrightarrow>
        (\<exists>outp. stored r s (int i) = Some (wfs_step_id (drn_steps r ! i), outp)))" by blast
qed

text \<open>What the witness looks at: the second step has an output in the store once it has an entry.\<close>

definition second_output :: "unit strategies \<Rightarrow> ledger_entry list \<Rightarrow> bool" where
  "second_output strategies es \<longleftrightarrow>
     (in_log sample_linear_run es 1 \<longrightarrow> stored sample_linear_run (snd (sample_attempt strategies)) 1 \<noteq> None)"

theorem committed_outputs_stored_witness:
  "settled sample_linear_run (snd (sample_attempt no_strategies)) (second_output no_strategies)"
proof (rule settled_mono [OF committed_outputs_stored [OF sample_linear sample_linear_fresh sample_linear_history sample_stores]],
    elim conjE)
  fix es
  assume "\<forall>i < length (drn_steps sample_linear_run). in_log sample_linear_run es i \<longrightarrow>
    (\<exists>outp. stored sample_linear_run (snd (sample_attempt no_strategies)) (int i) =
       Some (wfs_step_id (drn_steps sample_linear_run ! i), outp))"
  from this [rule_format, of 1] show "second_output no_strategies es"
    by (auto simp: second_output_def sample_linear_run_def)
qed

lemma attempt_result:
  assumes "linear_run r" "fresh r s0" "history strategies r s0 prev s" "same_work r r'" "linear_run r'"
    "snapshot = None \<or> snapshot = prev" "b \<longrightarrow> stores r \<and> reconstruct"
    "execute_workflow strategies r' snapshot reconstruct s = (Inr res, s')"
  shows "\<exists>k ph acc. result_fits r k acc res \<and>
     settled r s' (\<lambda>es. on_track r (\<lambda>m. acc_is r b k acc m \<and> \<not> replay_failure (rrs_fail_class res)) k ph es s')"
proof -
  have "attempt_ok r b (Inr res, s')"
    using attempt_history [OF history_keeps [OF assms(1-3)] assms(4,5,7,6), of strategies] by (simp only: assms(8))
  then obtain k ph acc where "result_fits r k acc res"
      "linear_inv r (\<lambda>m. acc_is r b k acc m \<and> \<not> replay_failure (rrs_fail_class res)) k ph s'"
    by (auto simp: attempt_ok_def ret_ok_def)
  then show ?thesis unfolding linear_inv_def settled_def by blast
qed

lemma on_track_result:
  assumes "on_track r (\<lambda>m. acc_is r True k acc m \<and> \<not> replay_failure fc) k ph es s"
  shows "commits (dst_trace s) = map int [0..<k]" "sorted_outputs acc = outputs_by_step_id (outputs_prefix r k (stored r s))"
proof -
  have p: "protocol_run (stores r) (0, IDLE) (dst_trace s) = Some (k, ph)" and "acc_is r True k acc (stored r s)"
    using assms unfolding on_track_def by blast+
  then show "commits (dst_trace s) = map int [0..<k]" "sorted_outputs acc = outputs_by_step_id (outputs_prefix r k (stored r s))"
    using protocol_commits [OF p] by (simp_all add: acc_is_def)
qed

text \<open>
  Property C2. When an attempt answers success, all steps are committed, in order, and its final state is, up to the
  order of keys, what the store has for the steps, the last output of a step id winning: whatever earlier attempts
  did, the result is that of one uninterrupted run over the stored outputs.
\<close>

theorem success_is_durable:
  assumes "linear_run r" "fresh r s0" "history strategies r s0 prev s" "same_work r r'" "linear_run r'"
    "snapshot = None \<or> snapshot = prev" "stores r"
    "execute_workflow strategies r' snapshot True s = (Inr res, s')" "rrs_status res = RUN_SUCCESS"
  shows "\<exists>final. rrs_final_state res = Some final \<and>
     settled r s' (\<lambda>_. commits (dst_trace s') = map int [0..<length (drn_steps r)] \<and>
       sorted_outputs final = outputs_by_step_id (outputs_prefix r (length (drn_steps r)) (stored r s')))"
proof -
  obtain k ph acc where f: "result_fits r k acc res"
    and t: "settled r s' (\<lambda>es. on_track r (\<lambda>m. acc_is r True k acc m \<and> \<not> replay_failure (rrs_fail_class res)) k ph es s')"
    using attempt_result [OF assms(1-6) _ assms(8), of True] assms(7) by blast
  have k: "k = length (drn_steps r)" "rrs_final_state res = Some acc" using f assms(9) by (simp_all add: result_fits_def)
  have "settled r s' (\<lambda>_. commits (dst_trace s') = map int [0..<k] \<and>
      sorted_outputs acc = outputs_by_step_id (outputs_prefix r k (stored r s')))"
    by (rule settled_mono [OF t]) (intro conjI on_track_result)
  then show ?thesis using k by blast
qed

theorem success_is_durable_witness:
  "\<exists>final s'. settled sample_linear_run s' (\<lambda>_. commits (dst_trace s') = map int [0..<length (drn_steps sample_linear_run)] \<and>
     sorted_outputs final =
       outputs_by_step_id (outputs_prefix sample_linear_run (length (drn_steps sample_linear_run)) (stored sample_linear_run s')))"
proof -
  obtain res s' where a: "execute_workflow no_strategies sample_linear_run None True sample_linear_start = (Inr res, s')"
      "rrs_status res = RUN_SUCCESS" using sample_succeeds unfolding sample_attempt_def by blast
  show ?thesis
    using success_is_durable [OF sample_linear sample_linear_fresh history_start same_work_refl sample_linear disjI1 [OF refl]
      sample_stores a] by blast
qed

text \<open>
  Property C4. When an attempt answers that the run is paused, drained or failed, its partial state and its index
  fit what is durable: the index is that of the last committed step, for a failure that of the step after it, which
  is also the index of the snapshot of a pause; the partial state is, up to the order of keys, the stored outputs of
  the committed steps.
\<close>

theorem partial_result_fits:
  assumes "linear_run r" "fresh r s0" "history strategies r s0 prev s" "same_work r r'" "linear_run r'"
    "snapshot = None \<or> snapshot = prev" "stores r"
    "execute_workflow strategies r' snapshot True s = (Inr res, s')" "rrs_partial_state res = Some partial"
  shows "\<exists>k.
     rrs_terminal_step_index res = (if rrs_status res = RUN_FAILED then Some (int k) else prev_index (int k)) \<and>
     (\<forall>sn. rrs_pause_snapshot res = Some sn \<longrightarrow> psn_step_index sn = int k) \<and>
     settled r s' (\<lambda>_. commits (dst_trace s') = map int [0..<k] \<and>
       sorted_outputs partial = outputs_by_step_id (outputs_prefix r k (stored r s')))"
proof -
  obtain k ph acc where f: "result_fits r k acc res"
    and t: "settled r s' (\<lambda>es. on_track r (\<lambda>m. acc_is r True k acc m \<and> \<not> replay_failure (rrs_fail_class res)) k ph es s')"
    using attempt_result [OF assms(1-6) _ assms(8), of True] assms(7) by blast
  have k: "partial = acc" "rrs_terminal_step_index res = (if rrs_status res = RUN_FAILED then Some (int k) else prev_index (int k))"
    "\<forall>sn. rrs_pause_snapshot res = Some sn \<longrightarrow> psn_step_index sn = int k"
    using f assms(9) by (cases "rrs_status res"; simp add: result_fits_def)+
  have "settled r s' (\<lambda>_. commits (dst_trace s') = map int [0..<k] \<and>
      sorted_outputs acc = outputs_by_step_id (outputs_prefix r k (stored r s')))"
    by (rule settled_mono [OF t]) (intro conjI on_track_result)
  then show ?thesis using k by blast
qed

theorem partial_result_fits_witness:
  "\<exists>res s'. execute_workflow no_strategies sample_pausing_run None True sample_linear_start = (Inr res, s') \<and>
     (\<exists>k. settled sample_linear_run s' (\<lambda>_. commits (dst_trace s') = map int [0..<k] \<and>
       sorted_outputs [] = outputs_by_step_id (outputs_prefix sample_linear_run k (stored sample_linear_run s'))))"
proof -
  obtain res s' where a: "execute_workflow no_strategies sample_pausing_run None True sample_linear_start = (Inr res, s')"
      "rrs_partial_state res = Some []" using sample_pauses by (fastforce simp: answer_def)
  show ?thesis
    using partial_result_fits [OF sample_linear sample_linear_fresh history_start sample_pausing(2,1) disjI1 [OF refl]
      sample_stores a] a(1) by blast
qed

text \<open>
  Property C5. No attempt of a history fails because the store is unreadable, lacks the output of a committed step or
  has it under another step id: these three answers of the replay come only from files changed from outside.
\<close>

theorem replay_never_fails:
  assumes "linear_run r" "fresh r s0" "history strategies r s0 prev s" "same_work r r'" "linear_run r'"
    "snapshot = None \<or> snapshot = prev"
    "execute_workflow strategies r' snapshot reconstruct s = (Inr res, s')"
  shows "settled r s' (\<lambda>_. \<not> replay_failure (rrs_fail_class res))"
proof -
  obtain k ph acc where
    t: "settled r s' (\<lambda>es. on_track r (\<lambda>m. acc_is r False k acc m \<and> \<not> replay_failure (rrs_fail_class res)) k ph es s')"
    using attempt_result [OF assms(1-6) _ assms(7), of False] by blast
  show ?thesis by (rule settled_mono [OF t]) (simp add: on_track_def)
qed

theorem replay_never_fails_witness:
  "\<exists>res s'. sample_attempt no_strategies = (Inr res, s') \<and> settled sample_linear_run s' (\<lambda>_. \<not> replay_failure (rrs_fail_class res))"
proof -
  obtain res s' where a: "execute_workflow no_strategies sample_linear_run None True sample_linear_start = (Inr res, s')"
    using sample_succeeds unfolding sample_attempt_def by blast
  show ?thesis
    using replay_never_fails [OF sample_linear sample_linear_fresh history_start same_work_refl sample_linear disjI1 [OF refl] a] a
    by (auto simp: sample_attempt_def)
qed

text \<open>
  Property C6. From whatever state a history of attempts left, one attempt that nothing disturbs returns success, so a
  linear run always comes to an end; or an entry of another action carries the key of a step. Nothing disturbs an attempt
  when no drain or pause is asked for, every dispatch answers and leaves the ledger alone, the clock has a time zone and
  does not go back behind the last entry, and the run has no validator, no wiring, no recovery loop and no synthesis step.
\<close>

theorem undisturbed_attempt_succeeds:
  assumes "linear_run r" "fresh r s0" "history strategies r s0 prev s" "same_work r r'" "linear_run r'" "calm r'"
    "\<And>es. ledger_at r s es \<Longrightarrow> past r' (dst_world s) es"
  shows "\<exists>res s'. execute_workflow strategies r' None reconstruct s = (Inr res, s') \<and>
     settled r s' (\<lambda>_. rrs_status res = RUN_SUCCESS)"
proof -
  have i: "some_inv r s" using start_inv_some history_keeps [OF assms(1-3)] unfolding history_inv_def by blast
  have j: "some_inv r' s" using i by (simp add: some_inv_def same_work_inv [OF assms(4)])
  have at: "ledger_at r' s es = ledger_at r s es" for es using assms(4) by (simp add: ledger_at_def same_work_def)
  have "clean_journal (dcx_output_env (drn_ctx r')) (dst_outputs s) (journal_path r')" "\<exists>es. ledger_at r' s es"
    using j unfolding some_inv_def linear_inv_def by blast+
  then have "calm_inv r' s" using assms(7) unfolding calm_inv_def at by blast
  moreover have "at_start True r' s" using j by (simp add: at_start_def)
  ultimately obtain res s' where e: "execute_workflow strategies r' None reconstruct s = (Inr res, s')"
      "rrs_status res = RUN_SUCCESS \<or> replay_failure (rrs_fail_class res)"
    using calm_attempt [OF assms(5,6), of True s] by blast
  obtain k ph acc where
    t: "settled r s' (\<lambda>es. on_track r (\<lambda>m. acc_is r False k acc m \<and> \<not> replay_failure (rrs_fail_class res)) k ph es s')"
    using attempt_result [OF assms(1-5) disjI1 [OF refl] _ e(1), of False] by blast
  have "settled r s' (\<lambda>_. rrs_status res = RUN_SUCCESS)" by (rule settled_mono [OF t]) (use e(2) in \<open>auto simp: on_track_def\<close>)
  then show ?thesis using e(1) by blast
qed

theorem undisturbed_attempt_succeeds_witness:
  "\<exists>res s'. execute_workflow no_strategies sample_linear_run None True sample_linear_start = (Inr res, s') \<and>
     settled sample_linear_run s' (\<lambda>_. rrs_status res = RUN_SUCCESS)"
  by (rule undisturbed_attempt_succeeds [OF sample_linear sample_linear_fresh history_start same_work_refl sample_linear
      sample_calm]) (simp add: sample_start_past)

section \<open>What an attempt dispatches and returns\<close>

lemma andthen_assoc: "andthen (andthen m f) g = andthen m (\<lambda>x. andthen (f x) g)"
  by (rule ext) (simp add: andthen_def split: prod.split flow.split)

text \<open>A snapshot that a linear run has captured.\<close>

definition captured :: "'w driver_run \<Rightarrow> pause_snapshot \<Rightarrow> bool" where
  "captured r sn \<longleftrightarrow>
     (\<exists>pctx i reason fence.
        capture_pause_snapshot (lge_floats (dcx_ledger_env (drn_ctx r))) pctx (wme_workflow_id (drn_manifest r)) (drn_run_id r)
          i reason (no_carriers\<lparr>rca_effect_fence_resume := fence\<rparr>) = Some sn)"

text \<open>A result other than success, with no snapshot or one the run has captured.\<close>

definition unfinished :: "'w driver_run \<Rightarrow> run_result \<Rightarrow> bool" where
  "unfinished r res \<longleftrightarrow>
     rrs_status res \<noteq> RUN_SUCCESS \<and> (\<forall>sn. rrs_pause_snapshot res = Some sn \<longrightarrow> captured r sn)"

text \<open>A computation that goes on has dispatched the steps in \<open>I\<close>; one that returns is unfinished.\<close>

definition goes_on :: "int set \<Rightarrow> 'w driver_run \<Rightarrow> ('w, run_result \<times> nat, 'a) driver \<Rightarrow> bool" where
  "goes_on I r m \<longleftrightarrow>
     (\<forall>s. case m s of
        (Go x, s') \<Rightarrow> (\<exists>new. dst_trace s' = dst_trace s @ new \<and> DISPATCHED ` I \<subseteq> set new)
      | (Return y, s') \<Rightarrow> unfinished r (fst y)
      | (Raise e, s') \<Rightarrow> True)"

lemma goes_on_andthen:
  assumes "goes_on I r m" "\<And>x. goes_on J r (f x)"
  shows "goes_on (I \<union> J) r (andthen m f)"
  unfolding goes_on_def
proof
  fix s
  show "case andthen m f s of
      (Go x, s') \<Rightarrow> (\<exists>new. dst_trace s' = dst_trace s @ new \<and> DISPATCHED ` (I \<union> J) \<subseteq> set new)
    | (Return y, s') \<Rightarrow> unfinished r (fst y) | (Raise e, s') \<Rightarrow> True"
  proof (cases "m s")
    case (Pair x s1)
    show ?thesis
    proof (cases x)
      case (Go a)
      obtain xs where xs: "dst_trace s1 = dst_trace s @ xs" "DISPATCHED ` I \<subseteq> set xs"
        using assms(1) [unfolded goes_on_def, THEN spec [of _ s]] by (auto simp: Pair Go)
      show ?thesis
      proof (cases "f a s1")
        case (Pair y s2)
        have "case f a s1 of
            (Go x, s') \<Rightarrow> (\<exists>new. dst_trace s' = dst_trace s1 @ new \<and> DISPATCHED ` J \<subseteq> set new)
          | (Return y, s') \<Rightarrow> unfinished r (fst y) | (Raise e, s') \<Rightarrow> True"
          by (rule assms(2) [unfolded goes_on_def, THEN spec])
        then show ?thesis
          using xs \<open>m s = (x, s1)\<close> by (cases y) (auto simp: andthen_def Go Pair image_Un, blast+)
      qed
    next
      case (Return y)
      then show ?thesis using assms(1) [unfolded goes_on_def, THEN spec [of _ s]] by (simp add: andthen_def Pair)
    next
      case (Raise e)
      then show ?thesis by (simp add: andthen_def Pair)
    qed
  qed
qed

lemma goes_on_before: "goes_on {} r m \<Longrightarrow> (\<And>x. goes_on J r (f x)) \<Longrightarrow> goes_on J r (andthen m f)"
  using goes_on_andthen [of "{}" r m J f] by simp

lemma goes_on_after: "goes_on I r m \<Longrightarrow> (\<And>x. goes_on {} r (f x)) \<Longrightarrow> goes_on I r (andthen m f)"
  using goes_on_andthen [of I r m "{}" f] by simp

lemma goes_on_basic:
  "goes_on {} r (go x)" "goes_on {} r (world f)" "goes_on {} r (emit ev)" "goes_on I r (fail exc)"
  by (simp_all add: goes_on_def go_def world_def emit_def note_event_def fail_def split: prod.split)

lemma goes_on_leave: "unfinished r res \<Longrightarrow> goes_on I r (leave (res, n))"
  by (simp add: goes_on_def leave_def)

lemma unfinished_answer: "status \<noteq> RUN_SUCCESS \<Longrightarrow> unfinished r (answer r status terminal partial final fc None)"
  by (simp add: unfinished_def answer_def)

lemma goes_on_leave_answer:
  "status \<noteq> RUN_SUCCESS \<Longrightarrow> goes_on I r (leave (answer r status terminal partial final fc None, n))"
  by (rule goes_on_leave) (rule unfinished_answer)

lemma goes_on_if: "(b \<Longrightarrow> goes_on I r m) \<Longrightarrow> (\<not> b \<Longrightarrow> goes_on I r m') \<Longrightarrow> goes_on I r (if b then m else m')"
  by simp

lemma quiet_call_trace: "quiet_call r c \<Longrightarrow> dst_trace (snd (c s)) = dst_trace s"
  by (rule quiet_events [of r]) (simp only: quiet_call_def)

lemma goes_on_attempt: "quiet_call r c \<Longrightarrow> goes_on {} r' (attempt c)"
  using quiet_call_trace [of r c] by (simp add: goes_on_def attempt_def split_beta)

lemma goes_on_invoke: "quiet_call r c \<Longrightarrow> goes_on {} r' (invoke c)"
  using quiet_call_trace [of r c] by (simp add: goes_on_def invoke_def split_beta split: sum.split)

lemma goes_on_wiring: "goes_on {} r (wiring_append dc t st p)"
  by (auto simp: wiring_append_def goes_on_basic goes_on_def fail_def append_entry_def split: option.split prod.splits sum.split)

lemma goes_on_protocol_entry: "goes_on {} r (emit_protocol_entry r' st kind n j)"
  unfolding emit_protocol_entry_def by (auto split: option.split intro!: goes_on_basic goes_on_before goes_on_wiring)

lemma goes_on_override_entry: "goes_on {} r (emit_override_entry r' st b)"
  unfolding emit_override_entry_def by (auto split: option.split intro!: goes_on_basic goes_on_before goes_on_wiring)

lemma goes_on_pause_here:
  assumes "carriers = no_carriers\<lparr>rca_effect_fence_resume := fence\<rparr>"
  shows "goes_on I r (pause_here r protocol i reason carriers low acc n)"
  unfolding pause_here_def
proof (rule goes_on_before [OF goes_on_basic(2)])
  fix pctx
  let ?c = "capture_pause_snapshot (lge_floats (dcx_ledger_env (drn_ctx r))) pctx (wme_workflow_id (drn_manifest r)) (drn_run_id r)
      i reason carriers"
  show "goes_on I r (case ?c of
      None \<Rightarrow> fail (raised ''UnicodeEncodeError'')
    | Some snapshot \<Rightarrow>
        andthen (emit_protocol_entry r (dec_int i) PAUSE_CAPTURED (4 * i + low) (pause_snapshot_json snapshot)) (\<lambda>_.
          leave (answer r RUN_PAUSED (prev_index i) (Some acc) None None (Some snapshot), n)))"
  proof (cases ?c)
    case (Some sn)
    then have "captured r sn" unfolding captured_def assms by blast
    then have "unfinished r (answer r RUN_PAUSED (prev_index i) (Some acc) None None (Some sn))"
      by (simp add: unfinished_def answer_def)
    then show ?thesis by (simp add: Some goes_on_before [OF goes_on_protocol_entry goes_on_leave])
  qed (simp add: goes_on_basic)
qed

lemma no_carriers_fence: "no_carriers = no_carriers\<lparr>rca_effect_fence_resume := None\<rparr>"
  by (simp add: no_carriers_def)

lemma goes_on_dispatch_failed: "goes_on I r (dispatch_failed r i acc n exc)"
  unfolding dispatch_failed_def Let_def
  by (auto split: option.split intro!: goes_on_basic goes_on_before [OF goes_on_basic(2)] goes_on_leave_answer
      goes_on_pause_here [OF no_carriers_fence] goes_on_pause_here [OF refl])

lemma goes_on_drain_check: "goes_on {} r (drain_check r t acc n)"
  unfolding drain_check_def by (intro goes_on_before goes_on_basic goes_on_if goes_on_leave_answer) simp

lemma goes_on_protocol_pause: "goes_on {} r (protocol_pause r i acc n)"
  unfolding protocol_pause_def
  by (auto split: option.split intro!: goes_on_basic goes_on_before [OF goes_on_basic(2)] goes_on_pause_here [OF no_carriers_fence])

lemma goes_on_bind_step: "goes_on {} r (bind_step r' step)"
  unfolding bind_step_def Let_def by (intro goes_on_before goes_on_basic goes_on_if goes_on_override_entry)

lemma loop_quiet:
  assumes "run_ok r" "dcx_recovery_loop (drn_ctx r) = Some loop"
  shows "quiet_call r (elp_capture_pause loop ec w i st)" "quiet_call r (elp_attempt_resume loop ec w i st)"
    "quiet_call r (elp_has_pause_record loop ec w i)"
  using assms unfolding run_ok_def collaborators_ok_def by blast+

lemma goes_on_engine_pause: "run_ok r \<Longrightarrow> goes_on {} r (engine_pause r i acc n)"
  unfolding engine_pause_def
  by (auto split: option.split intro!: goes_on_basic goes_on_before [OF goes_on_basic(2)]
      goes_on_before [OF goes_on_invoke [OF loop_quiet(1)]] goes_on_leave_answer)

lemma goes_on_validate_step: "run_ok r \<Longrightarrow> goes_on {} r (validate_step r step ctx outp acc n)"
  unfolding validate_step_def Let_def
  by (auto split: option.split sum.split intro!: goes_on_basic goes_on_before [OF goes_on_attempt [OF validator_quiet]]
      goes_on_before [OF goes_on_attempt [OF gate_quiet]] goes_on_leave_answer)

lemma goes_on_commit_step: "goes_on {} r (commit_step r i key step outp acc n)"
proof -
  have "goes_on {} r (record_durable_step_output r i sid outp)" for sid
    by (auto simp: goes_on_def record_durable_step_output_def note_event_def split: prod.split)
  moreover have "goes_on {} r (append_step_ledger_entry r i key)"
  proof -
    have "goes_on {} r (\<lambda>s. case append_entry dc p wk s of (res, s') \<Rightarrow> (Go res, if res = Inr APPENDED then note_event ev s' else s'))"
      for dc p wk ev by (auto simp: goes_on_def append_entry_def note_event_def split: prod.splits)
    then show ?thesis
      unfolding append_step_ledger_entry_def by (auto split: option.split intro!: goes_on_before goes_on_basic)
  qed
  ultimately show ?thesis
    unfolding commit_step_def by (auto split: sum.split intro!: goes_on_before goes_on_basic goes_on_leave_answer)
qed

lemma goes_on_dispatch: "run_ok r \<Longrightarrow> sec_step_index ctx = i \<Longrightarrow> goes_on {i} r (attempt (dispatch_step r b step ctx))"
proof -
  assume "run_ok r" and i: "sec_step_index ctx = i"
  note q = quiet_call_trace [OF dispatch_quiet [OF \<open>run_ok r\<close>]]
  show ?thesis by (simp add: goes_on_def attempt_def dispatch_step_def split_beta q i note_event_def)
qed

lemma goes_on_linear_step:
  assumes r: "run_ok r"
  shows "goes_on {i} r (linear_step r directive step i acc n)"
  unfolding linear_step_def
proof (intro goes_on_before [OF goes_on_drain_check] goes_on_before [OF goes_on_engine_pause [OF r]]
    goes_on_before [OF goes_on_protocol_pause] goes_on_before [OF goes_on_bind_step])
  fix b
  have rec: "goes_on {} r (\<lambda>s. (Go (), record_inter_step_output dc sid outp s))" for dc sid outp
    by (simp add: goes_on_def record_inter_step_output_def)
  have after: "goes_on {} r (case res of
       Inl exc \<Rightarrow> dispatch_failed r i acc n exc
     | Inr outp \<Rightarrow>
         andthen (emit STEP_BOUNDARY) (\<lambda>_.
         andthen (validate_step r step ctx outp acc n) (\<lambda>_.
         andthen (commit_step r i key step outp acc n) (\<lambda>_.
         andthen (\<lambda>s. (Go (), record_inter_step_output (drn_ctx r) (wfs_step_id step) outp s)) (\<lambda>_.
         andthen (drain_check r (Some i) (AList.update (wfs_step_id step) outp acc) (Suc n)) (\<lambda>_.
           go (AList.update (wfs_step_id step) outp acc)))))))" for res ctx key
    by (auto split: sum.split intro!: goes_on_dispatch_failed goes_on_before goes_on_basic goes_on_validate_step [OF r]
        goes_on_commit_step rec goes_on_drain_check)
  show "goes_on {i} r (case compute_step_idempotency_key (drn_run_key r) i None of
       None \<Rightarrow> fail (raised ''UnicodeEncodeError'')
     | Some sk \<Rightarrow>
         let ctx = step_context_for r b directive sk i in
         andthen (attempt (dispatch_step r b step ctx)) (\<lambda>res.
           case res of
             Inl exc \<Rightarrow> dispatch_failed r i acc n exc
           | Inr outp \<Rightarrow>
               andthen (emit STEP_BOUNDARY) (\<lambda>_.
               andthen (validate_step r step ctx outp acc n) (\<lambda>_.
               andthen (commit_step r i sk step outp acc n) (\<lambda>_.
               andthen (\<lambda>s. (Go (), record_inter_step_output (drn_ctx r) (wfs_step_id step) outp s)) (\<lambda>_.
               andthen (drain_check r (Some i) (AList.update (wfs_step_id step) outp acc) (Suc n)) (\<lambda>_.
                 go (AList.update (wfs_step_id step) outp acc))))))))"
  proof (cases "compute_step_idempotency_key (drn_run_key r) i None")
    case (Some key)
    have "sec_step_index (step_context_for r b directive key i) = i" by (simp add: step_context_for_def)
    then show ?thesis
      unfolding Some option.case Let_def by (intro goes_on_after [OF goes_on_dispatch [OF r] after])
  qed (simp add: goes_on_basic)
qed

lemma goes_on_linear_loop:
  "run_ok r \<Longrightarrow> goes_on {i..<i + int (length steps)} r (linear_loop r directive steps i acc n)"
proof (induction steps arbitrary: directive i acc n)
  case Nil
  then show ?case by (simp add: goes_on_basic)
next
  case (Cons step rest)
  have indexes: "{i..<i + int (length (step # rest))} = {i} \<union> {i + 1..<i + 1 + int (length rest)}" by auto
  show ?case
    unfolding linear_loop.simps indexes
    by (rule goes_on_andthen [OF goes_on_linear_step [OF Cons.prems] Cons.IH [OF Cons.prems]])
qed

lemma goes_on_read_prefix: "goes_on {} r (read_durable_replay_prefix r i)"
  by (auto simp: goes_on_def read_durable_replay_prefix_def unfinished_answer split: option.split flow.split
      dest!: replay_prefix_fails)

lemma goes_on_rehydrate: "goes_on {} r (rehydrate_channel r i)"
proof -
  have "goes_on {} r (\<lambda>s. (Go (), s\<lparr>dst_channel := dst_channel s @ outs\<rparr>))" for outs by (simp add: goes_on_def)
  then show ?thesis
    unfolding rehydrate_channel_def by (auto intro: goes_on_basic goes_on_before [OF goes_on_read_prefix])
qed

lemma goes_on_seed: "goes_on {} r (seed_final_state r reconstruct i)"
  unfolding seed_final_state_def by (intro goes_on_if goes_on_before [OF goes_on_read_prefix] goes_on_basic)

lemma goes_on_resume_cursor: "goes_on {} r (resume_cursor r)"
  by (simp add: goes_on_def resume_cursor_def split: option.split)

lemma goes_on_emit_if: "goes_on {} r (emit_if b e)"
  by (simp add: emit_if_def goes_on_basic)

lemma goes_on_engine_resume: "run_ok r \<Longrightarrow> dcx_recovery_loop (drn_ctx r) = Some loop \<Longrightarrow> goes_on {} r (engine_resume r loop i)"
  unfolding engine_resume_def
  by (auto split: option.split intro!: goes_on_basic goes_on_before [OF goes_on_invoke [OF loop_quiet(2)]] goes_on_leave_answer)

lemma goes_on_has_engine_pause:
  "run_ok r \<Longrightarrow> dcx_recovery_loop (drn_ctx r) = Some loop \<Longrightarrow> goes_on {} r (has_engine_pause r loop)"
  unfolding has_engine_pause_def by (rule goes_on_invoke [OF loop_quiet(3)])

lemma goes_on_linear_resume: "run_ok r \<Longrightarrow> goes_on {} r (linear_resume r override)"
  unfolding linear_resume_def
  by (auto split: option.split engine_class.split intro!: goes_on_basic goes_on_before goes_on_emit_if goes_on_resume_cursor
      goes_on_rehydrate goes_on_engine_resume goes_on_has_engine_pause)

lemma goes_on_linear_body:
  assumes r: "run_ok r"
  shows "goes_on (case override of None \<Rightarrow> {} | Some i \<Rightarrow> {i..<i + int (length (steps_from i (drn_steps r)))}) r
    (linear_body r override snapshot reconstruct)"
proof -
  have tail: "goes_on {} r (case x of (final, executed) \<Rightarrow> go (answer r RUN_SUCCESS None None (Some final) None None, executed))"
    for x by (simp add: goes_on_basic split: prod.split)
  have loop: "goes_on {i..<i + int (length (steps_from i (drn_steps r)))} r
      (andthen (emit WORKFLOW_START) (\<lambda>_. andthen (seed_final_state r reconstruct i) (\<lambda>acc.
        andthen (linear_loop r (fence_directive_for r snapshot) (steps_from i (drn_steps r)) i acc 0)
          (\<lambda>(final, executed). go (answer r RUN_SUCCESS None None (Some final) None None, executed)))))" for i
    by (intro goes_on_before [OF goes_on_basic(3)] goes_on_before [OF goes_on_seed] goes_on_after [OF goes_on_linear_loop [OF r]] tail)
  show ?thesis
  proof (cases override)
    case None
    have "goes_on {} r m" if "goes_on I r m" for I and m :: "('a, run_result \<times> nat, run_result \<times> nat) driver"
      using that by (fastforce simp: goes_on_def split: prod.splits flow.splits)
    from this [OF loop] show ?thesis
      unfolding None option.case linear_body_def by (intro goes_on_before [OF goes_on_linear_resume [OF r]])
  next
    case (Some i)
    then show ?thesis
      using goes_on_before [OF goes_on_emit_if loop] by (simp add: linear_body_def linear_resume_def andthen_assoc andthen_go)
  qed
qed

text \<open>The attempt as one computation, without the strategies it does not use.\<close>

definition linear_attempt ::
  "'w driver_run \<Rightarrow> pause_snapshot option \<Rightarrow> bool \<Rightarrow> ('w, run_result \<times> nat, run_result \<times> nat) driver" where
  "linear_attempt r snapshot reconstruct =
     andthen (world (dcx_drained (drn_ctx r))) (\<lambda>drained.
       if drained then leave (answer r RUN_DRAINED None None None None None, 0)
       else andthen (resume_paused r snapshot) (\<lambda>cursor.
         case body_guard r LINEAR_INLINE (if cursor = None then None else snapshot) of
           Some result \<Rightarrow> leave (result, 0)
         | None \<Rightarrow> linear_body r cursor (if cursor = None then None else snapshot) reconstruct))"

lemma execute_linear:
  assumes l: "linear_run r"
  shows "execute_workflow strategies r snapshot reconstruct s =
    (case linear_attempt r snapshot reconstruct s of
       (Raise e, s') \<Rightarrow> (Inl e, s') | (Return res, s') \<Rightarrow> (Inr (fst res), s') | (Go res, s') \<Rightarrow> (Inr (fst res), s'))"
proof -
  have id: "r\<lparr>drn_run_key := drn_run_key r\<rparr> = r" by simp
  have body: "execute_workflow_body strategies r cursor sn reconstruct =
      (case body_guard r LINEAR_INLINE sn of Some result \<Rightarrow> leave (result, 0) | None \<Rightarrow> linear_body r cursor sn reconstruct)" for cursor sn
    by (simp add: execute_workflow_body_def linear_runD(3) [OF l] engine_class_in_scope)
  show ?thesis unfolding execute_workflow_def linear_attempt_def linear_runD(4) [OF l] option.case id body ..
qed

text \<open>The index at which an attempt goes on that a snapshot is given to.\<close>

definition given_index :: "'w driver_run \<Rightarrow> pause_snapshot option \<Rightarrow> int option" where
  "given_index r snapshot = (if dcx_protocol (drn_ctx r) = None then None else map_option psn_step_index snapshot)"

lemma goes_on_resume_paused:
  assumes "goes_on I r (f (given_index r snapshot))"
  shows "goes_on I r (andthen (resume_paused r snapshot) f)"
proof (cases "given_index r snapshot")
  case None
  then have "resume_paused r snapshot = go None"
    by (cases snapshot; cases "dcx_protocol (drn_ctx r)") (simp_all add: resume_paused_def given_index_def)
  then show ?thesis using assms None by (simp add: andthen_go)
next
  case (Some i)
  then obtain sn protocol where sn: "snapshot = Some sn" "dcx_protocol (drn_ctx r) = Some protocol" "i = psn_step_index sn"
    by (auto simp: given_index_def split: if_splits)
  have accepted: "goes_on I r (andthen (if rsr_resumed res then go (Some (psn_step_index sn))
      else leave (answer r RUN_FAILED (Some (psn_step_index sn)) None None (map_option PROTOCOL_FAILURE (rsr_fail_class res)) None, 0)) f)"
    for res
    using assms Some by (auto simp: andthen_go andthen_leave sn(3) intro: goes_on_leave_answer)
  have step: "goes_on I r (andthen (case x of
        None \<Rightarrow> fail (raised ''UnicodeEncodeError'')
      | Some res \<Rightarrow>
          let sequence = (case psn_evaluator_optimizer_resume sn of
               Some eo \<Rightarrow> int (length (eor_completed_steps eo)) | None \<Rightarrow> psn_step_index sn)
          in andthen (emit_protocol_entry r (dec_int sequence) RESUME_ATTEMPTED (4 * sequence) (Some (resume_result_json res))) (\<lambda>_.
               if rsr_resumed res then go (Some (psn_step_index sn))
               else leave (answer r RUN_FAILED (Some (psn_step_index sn)) None None
                             (map_option PROTOCOL_FAILURE (rsr_fail_class res)) None, 0))) f)" for x
  proof (cases x)
    case None
    have "andthen (fail e) f = fail e" for e by (rule ext) (simp add: andthen_def fail_def)
    then show ?thesis by (simp add: None goes_on_basic)
  next
    case (Some res)
    show ?thesis
      unfolding Some option.case Let_def andthen_assoc by (intro goes_on_before [OF goes_on_protocol_entry] accepted)
  qed
  show ?thesis
    unfolding resume_paused_def sn(1,2) option.case prod.case andthen_assoc by (rule goes_on_before [OF goes_on_basic(2) step])
qed

lemma goes_on_linear_attempt:
  assumes l: "linear_run r"
  shows "goes_on (case given_index r snapshot of None \<Rightarrow> {} | Some i \<Rightarrow> {i..<i + int (length (steps_from i (drn_steps r)))}) r
    (linear_attempt r snapshot reconstruct)"
proof -
  have guard: "unfinished r res" if "body_guard r LINEAR_INLINE sn = Some res" for sn res
    using that by (auto simp: body_guard_def unfinished_answer Let_def split: option.splits list.splits if_splits)
  note body = goes_on_linear_body [OF linear_runD(1) [OF l], of None, unfolded option.case]
    goes_on_linear_body [OF linear_runD(1) [OF l], of "Some _", unfolded option.case]
  show ?thesis
    unfolding linear_attempt_def
    by (intro goes_on_before [OF goes_on_basic(2)] goes_on_if goes_on_leave_answer goes_on_resume_paused)
      (auto split: option.split intro!: goes_on_leave guard body)
qed

lemma linear_body_success:
  "linear_body r override snapshot reconstruct s = (Go y, s') \<Longrightarrow>
   rrs_pause_snapshot (fst y) = None \<and> rrs_status (fst y) = RUN_SUCCESS"
  by (auto simp: linear_body_def andthen_def [of "linear_loop _ _ _ _ _ _"] go_def answer_def andthen_def
      split: prod.splits flow.splits)

lemma linear_attempt_success:
  "linear_attempt r snapshot reconstruct s = (Go y, s') \<Longrightarrow>
   rrs_pause_snapshot (fst y) = None \<and> rrs_status (fst y) = RUN_SUCCESS"
  by (auto simp: linear_attempt_def andthen_def [of "world _"] andthen_def [of "resume_paused _ _"] leave_def
      split: prod.splits flow.splits if_splits option.splits dest: linear_body_success)

lemma attempt_outcome:
  assumes l: "linear_run r" and x: "execute_workflow strategies r snapshot reconstruct s = (Inr res, s')"
  obtains (finished) new where "rrs_status res = RUN_SUCCESS" "rrs_pause_snapshot res = None" "dst_trace s' = dst_trace s @ new"
      "DISPATCHED ` (case given_index r snapshot of None \<Rightarrow> {} | Some i \<Rightarrow> {i..<i + int (length (steps_from i (drn_steps r)))}) \<subseteq> set new"
    | (stopped) "unfinished r res"
proof -
  let ?I = "case given_index r snapshot of None \<Rightarrow> {} | Some i \<Rightarrow> {i..<i + int (length (steps_from i (drn_steps r)))}"
  note g = goes_on_linear_attempt [OF l, of snapshot reconstruct, unfolded goes_on_def, THEN spec [of _ s]]
  show thesis
  proof (cases "linear_attempt r snapshot reconstruct s")
    case (Pair fl s1)
    then show thesis
    proof (cases fl)
      case (Go y)
      then have "linear_attempt r snapshot reconstruct s = (Go y, s1)" by (simp add: Pair)
      note y = linear_attempt_success [OF this]
      have "res = fst y" "s' = s1" using x by (simp_all add: execute_linear [OF l] Pair Go)
      then show thesis using y g finished by (auto simp: Pair Go)
    next
      case (Return y)
      then show thesis using x g stopped by (simp add: execute_linear [OF l] Pair)
    next
      case (Raise e)
      then show thesis using x by (simp add: execute_linear [OF l] Pair)
    qed
  qed
qed

section \<open>A resume with the snapshot of a pause\<close>

lemma history_captured:
  "history strategies r s0 prev s \<Longrightarrow> prev = Some sn \<Longrightarrow> captured r sn"
proof (induction arbitrary: sn rule: history.induct)
  case (history_attempt prev s r' snapshot reconstruct out s')
  then obtain res where res: "out = Inr res" "rrs_pause_snapshot res = Some sn" by (auto split: sum.splits)
  have "captured r' sn"
    by (rule attempt_outcome [OF history_attempt.hyps(3) history_attempt.hyps(5) [unfolded res(1)]])
      (use res(2) in \<open>auto simp: unfinished_def\<close>)
  then show ?case using history_attempt.hyps(2) by (simp add: captured_def same_work_def)
qed simp_all

lemma captured_facts:
  assumes "captured r sn"
  shows "compute_snapshot_hash (lge_floats (dcx_ledger_env (drn_ctx r))) sn = Some (psn_snapshot_hash sn)"
    "psn_fan_out_resume sn = None" "psn_peer_fan_out_resume sn = None" "psn_handoff_resume sn = None"
    "psn_evaluator_optimizer_resume sn = None" "psn_orchestrator_effect_fence_resume sn = None"
proof -
  obtain pctx i reason fence where c:
    "capture_pause_snapshot (lge_floats (dcx_ledger_env (drn_ctx r))) pctx (wme_workflow_id (drn_manifest r)) (drn_run_id r)
          i reason (no_carriers\<lparr>rca_effect_fence_resume := fence\<rparr>) = Some sn"
    using assms unfolding captured_def by blast
  show "compute_snapshot_hash (lge_floats (dcx_ledger_env (drn_ctx r))) sn = Some (psn_snapshot_hash sn)"
    by (rule capture_hash(1) [OF c])
  show "psn_fan_out_resume sn = None" "psn_peer_fan_out_resume sn = None" "psn_handoff_resume sn = None"
    "psn_evaluator_optimizer_resume sn = None" "psn_orchestrator_effect_fence_resume sn = None"
    using c by (auto simp: capture_pause_snapshot_def no_carriers_def Let_def)
qed

lemma captured_guard:
  assumes "captured r sn" "\<forall>step \<in> set (drn_steps r). wfs_step_kind step \<noteq> POST_JOIN_SYNTHESIS"
  shows "body_guard r LINEAR_INLINE (Some sn) = None"
proof -
  have "synthesis_positions (drn_steps r) = []" using assms(2) by (auto simp: synthesis_positions_def filter_empty_conv)
  moreover have "snd (split_synthesis (drn_steps r)) = None"
    using assms(2) by (auto simp: split_synthesis_def last_step_def split: option.split)
  ultimately show ?thesis
    by (simp add: body_guard_def Let_def resume_carrier_topology_mismatch_def resume_carrier_strategies_def
        synthesis_resume_material_diff_def captured_facts [OF assms(1)])
qed

lemma strict_resume:
  assumes "ascii_floats fc" "compute_snapshot_hash fc sn = Some (psn_snapshot_hash sn)"
  obtains h where "attempt_resume fc ctx sn POLICY_STRICT =
    Some (if psn_state_ledger_anchor sn = pct_anchor ctx then clean_answer else diff_answer POLICY_STRICT h)"
  using attempt_resume_valid [OF assms] by blast

text \<open>An undisturbed attempt with a captured snapshot, in a state \<open>P\<close> that no clock or flag changes.\<close>

lemma calmly_world_keeping:
  assumes "\<And>w. clock r w \<le> clock r (snd (f w))" "\<And>w. Q (fst (f w))" "\<And>s w. P s \<Longrightarrow> P (s\<lparr>dst_world := w\<rparr>)"
  shows "calmly F r P (world f) (\<lambda>x s. P s \<and> Q x)"
  unfolding calmly_def
proof (rule triple_world)
  fix s w x
  assume s: "calm_inv r s \<and> P s" and f: "f (dst_world s) = (x, w)"
  have "clock r (dst_world s) \<le> clock r w" "Q x" using assms(1,2) [of "dst_world s"] f by simp_all
  then show "calm_inv r (s\<lparr>dst_world := w\<rparr>) \<and> P (s\<lparr>dst_world := w\<rparr>) \<and> Q x"
    using s assms(3) by (auto intro: calm_inv_later)
qed

lemma calmly_body_at:
  assumes r: "run_ok r" and c: "calm r" and P: "\<And>e. calmly F r P (emit e) (\<lambda>_. P)"
    and seed: "calmly F r P (seed_final_state r reconstruct (int k)) (\<lambda>_ _. True)"
  shows "calmly F r P (linear_body r (Some (int k)) snapshot reconstruct) (\<lambda>y _. rrs_status (fst y) = RUN_SUCCESS)"
proof -
  have loop: "calmly F r (\<lambda>_. True) (andthen (linear_loop r (fence_directive_for r snapshot) (steps_from (int k) (drn_steps r)) (int k) acc 0)
      (\<lambda>(final, executed). go (answer r RUN_SUCCESS None None (Some final) None None, executed)))
    (\<lambda>y _. rrs_status (fst y) = RUN_SUCCESS)" for acc
    unfolding steps_from_nat
    by (rule calmly_andthen [OF calmly_linear_loop [OF r c refl]]) (auto intro: calmly_go simp: answer_def split: prod.split)
  have resumption: "calmly F r P (emit_if b e) (\<lambda>_. P)" for b e using P by (simp add: emit_if_def calmly_go)
  show ?thesis
    unfolding linear_body_def linear_resume_def option.case andthen_assoc andthen_go
    by (intro calmly_andthen [OF resumption] calmly_andthen [OF P] calmly_andthen [OF seed loop])
qed

lemma calmly_resumed_attempt:
  assumes r: "run_ok r" and c: "calm r" and P: "\<And>e. calmly F r P (emit e) (\<lambda>_. P)" "\<And>s w. P s \<Longrightarrow> P (s\<lparr>dst_world := w\<rparr>)"
    and seed: "calmly F r P (seed_final_state r reconstruct (int k)) (\<lambda>_ _. True)"
    and sn: "captured r sn" "psn_step_index sn = int k"
    and p: "dcx_protocol (drn_ctx r) = Some protocol" "\<And>w. clock r w \<le> clock r (snd (protocol w))"
      "\<And>w. pct_anchor (fst (protocol w)) = psn_state_ledger_anchor sn"
  shows "calmly F r P (linear_attempt r (Some sn) reconstruct) (\<lambda>y _. rrs_status (fst y) = RUN_SUCCESS)"
proof -
  have "ascii_floats (lge_floats (dcx_ledger_env (drn_ctx r)))"
    using r by (fastforce simp: run_ok_def texts_ok_def env_ok_def printable_floats_def ascii_floats_def)
  note resume = strict_resume [OF this captured_facts(1) [OF sn(1)]]
  let ?after = "\<lambda>pctx. andthen (case attempt_resume (lge_floats (dcx_ledger_env (drn_ctx r))) pctx sn POLICY_STRICT of
              None \<Rightarrow> fail (raised ''UnicodeEncodeError'')
            | Some res \<Rightarrow>
                let sequence =
                  (case psn_evaluator_optimizer_resume sn of
                     Some eo \<Rightarrow> int (length (eor_completed_steps eo))
                   | None \<Rightarrow> psn_step_index sn)
                in andthen (emit_protocol_entry r (dec_int sequence) RESUME_ATTEMPTED (4 * sequence)
                     (Some (resume_result_json res))) (\<lambda>_.
                   if rsr_resumed res then go (Some (psn_step_index sn))
                   else leave (answer r RUN_FAILED (Some (psn_step_index sn)) None None
                                 (map_option PROTOCOL_FAILURE (rsr_fail_class res)) None, 0)))
       (\<lambda>cursor. case body_guard r LINEAR_INLINE (if cursor = None then None else Some sn) of
           Some result \<Rightarrow> leave (result, 0)
         | None \<Rightarrow> linear_body r cursor (if cursor = None then None else Some sn) reconstruct)"
  have accepted: "calmly F r (\<lambda>s. P s \<and> pct_anchor pctx = psn_state_ledger_anchor sn) (?after pctx)
     (\<lambda>y _. rrs_status (fst y) = RUN_SUCCESS)" for pctx
  proof (rule calmly_pure)
    assume a: "pct_anchor pctx = psn_state_ledger_anchor sn"
    obtain h where h: "attempt_resume (lge_floats (dcx_ledger_env (drn_ctx r))) pctx sn POLICY_STRICT =
        Some (if psn_state_ledger_anchor sn = pct_anchor pctx then clean_answer else diff_answer POLICY_STRICT h)"
      using resume by blast
    show "calmly F r P (?after pctx) (\<lambda>y _. rrs_status (fst y) = RUN_SUCCESS)"
      using calmly_body_at [OF r c P(1) seed, of "Some sn"]
      by (simp add: h a clean_answer_def emit_protocol_entry_def calmD(10) [OF c] andthen_go sn(2)
          captured_guard [OF sn(1) calmD(12) [OF c]])
  qed
  have drained: "calmly F r P (world (dcx_drained (drn_ctx r))) (\<lambda>drained s. P s \<and> \<not> drained)"
    by (rule calmly_world_keeping [where P = P and Q = Not, OF calmD(3) [OF c] calmD(1) [OF c] P(2)])
  have read: "calmly F r P (world protocol) (\<lambda>pctx s. P s \<and> pct_anchor pctx = psn_state_ledger_anchor sn)"
    by (rule calmly_world_keeping [where P = P and Q = "\<lambda>pctx. pct_anchor pctx = psn_state_ledger_anchor sn", OF p(2,3) P(2)])
  show ?thesis
    unfolding linear_attempt_def
  proof (rule calmly_andthen [OF drained calmly_pure])
    fix drained
    assume "\<not> drained"
    then show "calmly F r P
      (if drained then leave (answer r RUN_DRAINED None None None None None, 0)
       else andthen (resume_paused r (Some sn)) (\<lambda>cursor.
         case body_guard r LINEAR_INLINE (if cursor = None then None else Some sn) of
           Some result \<Rightarrow> leave (result, 0)
         | None \<Rightarrow> linear_body r cursor (if cursor = None then None else Some sn) reconstruct))
      (\<lambda>y _. rrs_status (fst y) = RUN_SUCCESS)"
      unfolding resume_paused_def p(1) option.case prod.case andthen_assoc
      by (simp only: if_False) (rule calmly_andthen [OF read accepted])
  qed
qed

lemma commits_member: "i \<in> set (commits tr) \<Longrightarrow> COMMITTED i \<in> set tr"
  by (induction tr) (auto simp: commits_def List.map_filter_def split: driver_event.splits if_splits)

lemma calmly_returns:
  assumes "linear_run r" "calmly F r P (linear_attempt r snapshot reconstruct) (\<lambda>y _. rrs_status (fst y) = RUN_SUCCESS)"
    and "calm_inv r s" "P s"
  shows "\<exists>res s'. execute_workflow strategies r snapshot reconstruct s = (Inr res, s') \<and>
    (rrs_status res = RUN_SUCCESS \<or> F \<and> replay_failure (rrs_fail_class res))"
  using triple_use [OF assms(2) [unfolded calmly_def], of s] assms(3,4)
  by (auto simp: execute_linear [OF assms(1)] split: prod.splits flow.splits)

lemma same_work_calm_inv:
  assumes "same_work r r'" "some_inv r s" "\<And>es. ledger_at r s es \<Longrightarrow> past r' (dst_world s) es"
  shows "calm_inv r' s"
proof -
  have j: "some_inv r' s" using assms(2) by (simp add: some_inv_def same_work_inv [OF assms(1)])
  have at: "ledger_at r' s es = ledger_at r s es" for es using assms(1) by (simp add: ledger_at_def same_work_def)
  have "clean_journal (dcx_output_env (drn_ctx r')) (dst_outputs s) (journal_path r')" "\<exists>es. ledger_at r' s es"
    using j unfolding some_inv_def linear_inv_def by blast+
  then show ?thesis using assms(3) unfolding calm_inv_def at by blast
qed

text \<open>With another anchor than at the pause the resume is refused before anything is done.\<close>

lemma refused_resume:
  assumes l: "linear_run r" and c: "calm r" and sn: "captured r sn"
    and p: "dcx_protocol (drn_ctx r) = Some protocol" "\<And>w. pct_anchor (fst (protocol w)) \<noteq> psn_state_ledger_anchor sn"
  shows "\<exists>res s'. execute_workflow strategies r (Some sn) reconstruct s = (Inr res, s') \<and> rrs_status res = RUN_FAILED \<and>
    rrs_fail_class res = Some (PROTOCOL_FAILURE CP_FAIL_RESUME_MATERIAL_DIFF_DETECTED) \<and> dst_trace s' = dst_trace s"
proof -
  have r: "run_ok r" by (rule linear_runD(1) [OF l])
  have "ascii_floats (lge_floats (dcx_ledger_env (drn_ctx r)))"
    using r by (fastforce simp: run_ok_def texts_ok_def env_ok_def printable_floats_def ascii_floats_def)
  note resume = strict_resume [OF this captured_facts(1) [OF sn]]
  obtain w1 where w1: "dcx_drained (drn_ctx r) (dst_world s) = (False, w1)"
    using calmD(1) [OF c, of "dst_world s"] by (cases "dcx_drained (drn_ctx r) (dst_world s)") simp
  obtain pctx w2 where w2: "protocol w1 = (pctx, w2)" by fastforce
  have a: "psn_state_ledger_anchor sn \<noteq> pct_anchor pctx" using p(2) [of w1] by (simp add: w2)
  obtain h where h: "attempt_resume (lge_floats (dcx_ledger_env (drn_ctx r))) pctx sn POLICY_STRICT = Some (diff_answer POLICY_STRICT h)"
    using resume [of pctx] a by metis
  have "linear_attempt r (Some sn) reconstruct s =
      (Return (answer r RUN_FAILED (Some (psn_step_index sn)) None None
         (Some (PROTOCOL_FAILURE CP_FAIL_RESUME_MATERIAL_DIFF_DETECTED)) None, 0), s\<lparr>dst_world := w2\<rparr>)"
    unfolding linear_attempt_def resume_paused_def p(1) option.case prod.case
    by (simp add: andthen_def world_def w1 w2 h diff_answer_def emit_protocol_entry_def calmD(10) [OF c] go_def leave_def)
  then show ?thesis by (simp add: execute_linear [OF l] answer_def)
qed

text \<open>
  Property C36. An undisturbed attempt (in the sense of C6, with a context reader of the pause protocol that answers with
  one anchor throughout and does not turn the clock back) that is given the snapshot the last attempt of a history
  returned: if the anchor is the one in the snapshot, the attempt succeeds, with every step committed once, in order; or
  an entry of another action carries the key of a step. If the anchor is another, the attempt fails with the
  material difference and has dispatched, stored and committed nothing.
\<close>

theorem pause_resume_continues:
  assumes "linear_run r" "fresh r s0" "history strategies r s0 (Some sn) s" "same_work r r'" "linear_run r'" "calm r'"
    "\<And>es. ledger_at r s es \<Longrightarrow> past r' (dst_world s) es"
    "dcx_protocol (drn_ctx r') = Some protocol" "\<And>w. clock r' w \<le> clock r' (snd (protocol w))"
    "\<And>w. pct_anchor (fst (protocol w)) = anchor"
  shows "\<exists>res s'. execute_workflow strategies r' (Some sn) reconstruct s = (Inr res, s') \<and>
    (if anchor = psn_state_ledger_anchor sn
     then settled r s' (\<lambda>_. rrs_status res = RUN_SUCCESS \<and> commits (dst_trace s') = map int [0..<length (drn_steps r)])
     else rrs_status res = RUN_FAILED \<and> rrs_fail_class res = Some (PROTOCOL_FAILURE CP_FAIL_RESUME_MATERIAL_DIFF_DETECTED) \<and>
       dst_trace s' = dst_trace s)"
proof -
  have sn: "captured r' sn" using history_captured [OF assms(3) refl] assms(4) by (simp add: captured_def same_work_def)
  show ?thesis
  proof (cases "anchor = psn_state_ledger_anchor sn")
    case False
    then show ?thesis using refused_resume [OF assms(5,6) sn assms(8)] assms(10) by simp
  next
    case True
    note h = history_keeps [OF assms(1-3)]
    have i: "going_on r' (psn_step_index sn) s"
      using h by (simp add: history_inv_def going_on_start [symmetric] same_work_start [OF assms(4)])
    then obtain k where k: "psn_step_index sn = int k" unfolding going_on_def by blast
    have calm: "calm_inv r' s"
      using same_work_calm_inv [OF assms(4) start_inv_some assms(7)] h by (simp add: history_inv_def)
    have seed: "calmly True r' (going_on r' (int k)) (seed_final_state r' reconstruct (int k)) (\<lambda>_ _. True)"
      unfolding seed_final_state_def
      by (auto intro: calmly_andthen [OF calmly_read_prefix [OF linear_runD(1) [OF assms(5)]]] calmly_go)
    have "calmly True r' (going_on r' (int k)) (linear_attempt r' (Some sn) reconstruct) (\<lambda>y _. rrs_status (fst y) = RUN_SUCCESS)"
      by (rule calmly_resumed_attempt [OF linear_runD(1) [OF assms(5)] assms(6) calmly_emit_going_on _ seed sn k assms(8,9)])
        (auto simp: going_on_def assms(10) True)
    from calmly_returns [OF assms(5) this calm, of strategies] i [unfolded k]
    obtain res s' where e: "execute_workflow strategies r' (Some sn) reconstruct s = (Inr res, s')"
        "rrs_status res = RUN_SUCCESS \<or> replay_failure (rrs_fail_class res)" by blast
    obtain k' ph acc where f: "result_fits r k' acc res" and
      t: "settled r s' (\<lambda>es. on_track r (\<lambda>m. acc_is r False k' acc m \<and> \<not> replay_failure (rrs_fail_class res)) k' ph es s')"
      using attempt_result [OF assms(1-5) disjI2 [OF refl] _ e(1), of False] by blast
    have "settled r s' (\<lambda>_. rrs_status res = RUN_SUCCESS \<and> commits (dst_trace s') = map int [0..<length (drn_steps r)])"
    proof (rule settled_mono [OF t])
      fix es
      assume t: "on_track r (\<lambda>m. acc_is r False k' acc m \<and> \<not> replay_failure (rrs_fail_class res)) k' ph es s'"
      then have p: "protocol_run (stores r) (0, IDLE) (dst_trace s') = Some (k', ph)" and s: "rrs_status res = RUN_SUCCESS"
        using e(2) by (auto simp: on_track_def)
      then show "rrs_status res = RUN_SUCCESS \<and> commits (dst_trace s') = map int [0..<length (drn_steps r)]"
        using protocol_commits [OF p] f by (simp add: result_fits_def)
    qed
    then show ?thesis using e(1) True by auto
  qed
qed

text \<open>The witness: the sample run is paused before its first step and goes on with the snapshot.\<close>

theorem pause_resume_continues_witness:
  "\<exists>sn paused s1 res s2.
     execute_workflow no_strategies sample_pausing_run None True sample_linear_start = (Inr paused, s1) \<and>
     rrs_pause_snapshot paused = Some sn \<and>
     execute_workflow no_strategies sample_linear_run (Some sn) True s1 = (Inr res, s2) \<and>
     settled sample_linear_run s2 (\<lambda>_. rrs_status res = RUN_SUCCESS)"
proof -
  obtain sn paused s1 where sn: "capture_pause_snapshot no_floats Pause_Resume.sample_context (lit ''w'') (lit ''r'') 0 EXPLICIT_OPERATOR
        no_carriers = Some sn"
      and pause: "execute_workflow no_strategies sample_pausing_run None True sample_linear_start = (Inr paused, s1)"
        "rrs_pause_snapshot paused = Some sn" and s1: "dst_ledger s1 = dst_ledger sample_linear_start"
    using sample_pauses by (fastforce simp: answer_def note_event_def)
  have "history no_strategies sample_linear_run sample_linear_start (Some sn) s1"
    using history_attempt [OF history_start sample_pausing(2,1) disjI1 [OF refl] pause(1)] by (simp add: pause(2))
  note resumed = pause_resume_continues [OF sample_linear sample_linear_fresh this same_work_refl sample_linear sample_calm,
      where protocol = "Pair Pause_Resume.sample_context" and anchor = "lit ''anchor''" and reconstruct = True]
  have "past sample_linear_run (dst_world s1) es" if "ledger_at sample_linear_run s1 es" for es
    using that sample_start_past by (simp add: ledger_at_def s1)
  moreover have "dcx_protocol (drn_ctx sample_linear_run) = Some (Pair Pause_Resume.sample_context)" by (simp add: sample_linear_run_def)
  moreover have "pct_anchor Pause_Resume.sample_context = lit ''anchor''" by (simp add: Pause_Resume.sample_context_def)
  ultimately obtain res s2 where "execute_workflow no_strategies sample_linear_run (Some sn) True s1 = (Inr res, s2)"
      "settled sample_linear_run s2 (\<lambda>_. rrs_status res = RUN_SUCCESS \<and>
         commits (dst_trace s2) = map int [0..<length (drn_steps sample_linear_run)])"
    using resumed capture_hash(2) [OF sn] by auto
  then show ?thesis using pause by (blast intro: settled_mono)
qed

section \<open>A snapshot that is not the last\<close>

text \<open>
  Property C7. An attempt trusts the index of the snapshot it is given, whatever the ledger holds: if a linear run on a
  durable engine, with a pause protocol, is given any snapshot with an index that is not negative and answers success, it
  has dispatched every step from that index on; if one of them was committed before, a committed step has been dispatched
  again. This holds for every wiring, validator and flag, and whether or not the final state is reconstructed from the
  store. So C1 needs the snapshot to be the last one; an older one passes the checks of the resume when the
  anchor has not changed, as it never does with the constant anchor of the production factory.
\<close>

theorem stale_snapshot_redispatches:
  assumes "linear_run r" "dcx_protocol (drn_ctx r) \<noteq> None" "0 \<le> psn_step_index sn"
    "execute_workflow strategies r (Some sn) reconstruct s = (Inr res, s')" "rrs_status res = RUN_SUCCESS"
  shows "\<exists>new. dst_trace s' = dst_trace s @ new \<and>
    (\<forall>i. psn_step_index sn \<le> i \<and> i < int (length (drn_steps r)) \<longrightarrow>
       DISPATCHED i \<in> set new \<and> (COMMITTED i \<in> set (dst_trace s) \<longrightarrow> \<not> at_most_once (dst_trace s')))"
proof -
  obtain j where j: "psn_step_index sn = int j" using assms(3) nonneg_int_cases by blast
  have given: "given_index r (Some sn) = Some (int j)" using assms(2) j by (auto simp: given_index_def)
  have upto: "{int j..<int (length (drn_steps r))} \<subseteq> {int j..<int j + int (length (drop j (drn_steps r)))}" by auto
  obtain new where new: "dst_trace s' = dst_trace s @ new" "DISPATCHED ` {int j..<int (length (drn_steps r))} \<subseteq> set new"
  proof (cases rule: attempt_outcome [OF assms(1,4), case_names finished stopped])
    case (finished new)
    then show ?thesis
      using that [OF finished(3)] image_mono [OF upto, of DISPATCHED] by (simp only: given option.case steps_from_nat)
  next
    case stopped
    then show ?thesis using assms(5) by (simp add: unfinished_def)
  qed
  have "DISPATCHED i \<in> set new \<and> (COMMITTED i \<in> set (dst_trace s) \<longrightarrow> \<not> at_most_once (dst_trace s'))"
    if "int j \<le> i" "i < int (length (drn_steps r))" for i
  proof (intro conjI impI)
    show d: "DISPATCHED i \<in> set new" using new(2) that by auto
    assume "COMMITTED i \<in> set (dst_trace s)"
    then obtain us vs where "dst_trace s = us @ COMMITTED i # vs" by (meson split_list)
    then have "dst_trace s' = us @ COMMITTED i # (vs @ new)" using new(1) by simp
    moreover have "DISPATCHED i \<in> set (vs @ new)" using d by simp
    ultimately show "\<not> at_most_once (dst_trace s')" unfolding at_most_once_def by blast
  qed
  then show ?thesis using new(1) j by auto
qed

text \<open>The witness: the sample run has been paused before its first step and has come to its end without the snapshot; an
  attempt with the snapshot then answers success again, having dispatched the first step again.\<close>

theorem stale_snapshot_redispatches_witness:
  "\<exists>sn res s'. capture_pause_snapshot no_floats Pause_Resume.sample_context (lit ''w'') (lit ''r'') 0 EXPLICIT_OPERATOR no_carriers = Some sn \<and>
     execute_workflow no_strategies sample_linear_run (Some sn) True (snd (sample_attempt no_strategies)) = (Inr res, s') \<and>
     rrs_status res = RUN_SUCCESS \<and>
     settled sample_linear_run (snd (sample_attempt no_strategies)) (\<lambda>_. \<not> at_most_once (dst_trace s'))"
proof -
  obtain first s where first: "sample_attempt no_strategies = (Inr first, s)" "rrs_status first = RUN_SUCCESS" "calm_inv sample_linear_run s"
    using sample_succeeds by blast
  obtain sn where sn: "capture_pause_snapshot no_floats Pause_Resume.sample_context (lit ''w'') (lit ''r'') 0 EXPLICIT_OPERATOR
      no_carriers = Some sn" using sample_capture_at by blast
  have idx: "psn_step_index sn = int 0" using sn by (auto simp: capture_pause_snapshot_def Let_def)
  have cap: "captured sample_linear_run sn"
    using sn no_carriers_fence unfolding captured_def
    by (simp add: sample_linear_run_def Ledger_Correctness.sample_env_def del: lit_Cons) metis
  have p: "dcx_protocol (drn_ctx sample_linear_run) = Some (Pair Pause_Resume.sample_context)" by (simp add: sample_linear_run_def)
  have seed: "calmly False sample_linear_run (\<lambda>_. True) (seed_final_state sample_linear_run True (int 0)) (\<lambda>_ _. True)"
    by (simp add: seed_final_state_def calmly_go)
  have "calmly False sample_linear_run (\<lambda>_. True) (linear_attempt sample_linear_run (Some sn) True) (\<lambda>y _. rrs_status (fst y) = RUN_SUCCESS)"
    by (rule calmly_resumed_attempt [OF sample_run_ok sample_calm calmly_emit _ seed cap idx p]) (simp_all add: capture_hash(2) [OF sn])
  from calmly_returns [OF sample_linear this first(3)]
  obtain res s' where x: "execute_workflow no_strategies sample_linear_run (Some sn) True s = (Inr res, s')" "rrs_status res = RUN_SUCCESS"
    by blast
  have "dcx_protocol (drn_ctx sample_linear_run) \<noteq> None" "0 \<le> psn_step_index sn" using p idx by simp_all
  note again = stale_snapshot_redispatches [OF sample_linear this x]
  obtain k ph acc where f: "result_fits sample_linear_run k acc first" and
    t: "settled sample_linear_run s (\<lambda>es. on_track sample_linear_run (\<lambda>m. acc_is sample_linear_run False k acc m \<and>
      \<not> replay_failure (rrs_fail_class first)) k ph es s)"
    using attempt_result [OF sample_linear sample_linear_fresh history_start same_work_refl sample_linear disjI1 [OF refl] _
      first(1) [unfolded sample_attempt_def], of False] by blast
  have "settled sample_linear_run s (\<lambda>_. \<not> at_most_once (dst_trace s'))"
  proof (rule settled_mono [OF t])
    fix es
    assume "on_track sample_linear_run (\<lambda>m. acc_is sample_linear_run False k acc m \<and> \<not> replay_failure (rrs_fail_class first)) k ph es s"
    then have "protocol_run (stores sample_linear_run) (0, IDLE) (dst_trace s) = Some (k, ph)" by (simp add: on_track_def)
    from protocol_commits [OF this] have "commits (dst_trace s) = map int [0..<2]"
      using f first(2) by (simp add: result_fits_def sample_linear_run_def numeral_2_eq_2)
    then have "COMMITTED 0 \<in> set (dst_trace s)" using commits_member [of 0] by simp
    then show "\<not> at_most_once (dst_trace s')" using again idx by (auto simp: sample_linear_run_def)
  qed
  then show ?thesis using sn x by (auto simp: first(1) simp del: lit_Cons)
qed

end
