(* ===== verification/Spec2Isabelle.thy ===== *)
theory Spec2Isabelle
  imports Deployment_Matrix Sandbox_Composition Gate_Levels Dispatch_Correctness Fence_Machine Ledger_Read Snapshot_Hash Linear_Properties
begin

text \<open>
  The harness runs agent workflows: it calls language models and tools, decides in which sandbox and behind which
  human gate a call may run, and keeps a tamper-evident ledger from which a crashed or paused run resumes. The
  repository is split by concern: \<open>harness-core\<close> (shared enumerations), \<open>harness-is\<close> (the state ledger),
  \<open>harness-as\<close> (action surface: sandboxes, secrets), \<open>harness-cp\<close> (control plane: routing, gates, pause and
  resume, the workflow driver) and \<open>harness-runtime\<close> (the dispatchers that do the work). This library models the
  parts below; every definition follows one function, class or table of the source and keeps its name, and
  \<open>PROJECT.json\<close> gives the file and the lines of each.

  \<^bold>\<open>Foundations.\<close> \<open>Prelude\<close> holds the error monad, \<open>list.index\<close>, \<open>next\<close> and \<open>max\<close> as the code uses them.
  \<open>Core_Types\<close> has the enumerations of \<open>harness-core\<close>; texts are lists of code points (\<open>lit\<close> reads a literal).
  \<open>Py_Strings\<close>, \<open>Py_Time\<close>, \<open>Json\<close>, \<open>Json_Codec\<close>, \<open>Utf8\<close> and \<open>Sha256\<close> define what the code uses of the Python
  standard library (\<open>str\<close> methods, \<open>datetime\<close>, \<open>json\<close>, codecs, \<open>hashlib\<close>) with the round trips that the other
  theories need. \<open>json.loads\<close> runs with the fuel \<open>2 * length + 2\<close>; \<open>parse_fuel\<close> shows that more fuel
  changes nothing. The text of a float is an argument (\<open>float_codec\<close>).

  \<^bold>\<open>Sandboxes and gates.\<close> \<open>Sandbox_Tiers\<close>, \<open>Deployment_Matrix\<close> and \<open>Sandbox_Composition\<close> model
  the tiers, the floor a call needs, the deployment matrix, the composition of five floors and the tiers along chains
  of sub-agents; \<open>Gate_Levels\<close> the five-axis gate level, its persona floors and the monotonicity checks of
  sub-agent dispatch. They show that the composed level is the exact maximum and never falls.

  \<^bold>\<open>Calling a model.\<close> \<open>Fallback_Chain\<close>, \<open>Routing\<close>, \<open>Staircase\<close>, \<open>Retry_Breaker\<close>,
  \<open>Provider_Capabilities\<close> and \<open>Engine_Classes\<close> model the pieces, \<open>LLM_Dispatch\<close> the dispatcher that
  composes them (\<open>retry_breaker_fallback.py\<close>): a loop over candidates with a breaker and jittered retries for
  each. A call returns, raises an \<open>Exception\<close> or another \<open>BaseException\<close> (the pause signal of the human gate is one),
  or is cancelled. The loop is a \<open>partial_function (option)\<close>. \<open>Dispatch_Correctness\<close> refines it to a walk over the
  chain, bounds its calls, accounts for every error and breaker update, and shows that it runs for ever on a chain
  that names a candidate twice.

  \<^bold>\<open>Calling a tool.\<close> \<open>Server_Trust\<close>, \<open>Fail_Classes\<close>, \<open>Provider_Secrets\<close> and \<open>Effect_Fence\<close> model trust,
  failure taxonomies, secret resolution and the files of the effect fence; \<open>Tool_Dispatch\<close> composes them as
  \<open>runtime_tool_dispatcher.py\<close> does. \<open>Fence_Machine\<close> interleaves any number of processes at one fence, with
  crashes, as a step relation: its invariants show at-most-once effects and genuine responses, and the sequential
  dispatch is one of its runs. A step of a process is one file operation, or the call of the tool with the validation of
  its response. Publishing a file by a hard link is one step: a crash between writing the temporary file and linking
  it leaves an orphan that nothing reads. The schema validator accepts or rejects; an invalid schema is not
  represented. The locales \<open>secret_resolver\<close> and \<open>effect_fence\<close> state the interfaces and are
  interpreted on the models of the code.

  \<^bold>\<open>The ledger.\<close> \<open>Ledger_Entry\<close> models the entry, its canonical bytes and its hash, \<open>Ledger_Chain\<close> what
  verification shows, \<open>Ledger_Store\<close> the JSONL file and the idempotent append, \<open>Ledger_Correctness\<close> runs of
  writes, \<open>Ledger_Read\<close> bounded reads and the structural check. Unicode normalisation and pydantic's lax integers
  are arguments with their documented behaviour as hypotheses (\<open>env_ok\<close>). SHA-256 is defined, not assumed
  injective: where the code relies on it, the statement offers a collision as the alternative.

  \<^bold>\<open>Pausing.\<close> \<open>Pause_Resume\<close> models snapshots, their hash, capture, the resume decision and the keys and
  payloads of the protocol's ledger entries (\<open>pause_resume_protocol.py\<close>): a captured snapshot is never taken for
  corrupted. \<open>Snapshot_Hash\<close> shows what the hash binds: two snapshots with one hash agree in every hashed field of
  their records. The hash has no key, so a snapshot that was changed and hashed anew is accepted.

  \<^bold>\<open>The output store.\<close> \<open>Engine_Output_Store\<close> models \<open>engine_output_store.py\<close> on a map of files;
  \<open>Text_Lines\<close> and \<open>Json_Prefix\<close> hold what cutting a text of JSON lines does. A crash leaves a prefix of an
  append; \<open>Engine_Output_Journal\<close> follows one file through such writes and \<open>Engine_Output_Correctness\<close> all
  files of a run: every reader returns what the writes that reached the disk whole say. The locale
  \<open>journal_reader\<close> states when a reader takes what a writer wrote, with an interpretation for each kind of record.

  \<^bold>\<open>The workflow driver.\<close> \<open>Topology\<close> and \<open>Workflow_Types\<close> hold the tables, the manifest, steps, contexts,
  bindings and keys. \<open>Driver_State\<close> sets up computations of the driver: they read and change ledger, store,
  channel, a trace of what was done and a world that stands for everything the driver calls, and end with a value, an
  early return or an exception. \<open>Workflow_Driver\<close> is \<open>execute_workflow\<close> with its linear topology
  (\<open>workflow_driver.py\<close>). \<open>Linear_Invariant\<close> specifies a run as an automaton over the trace and ties it to the
  ledger and the store by an invariant, carried through each piece by triples; \<open>Linear_Correctness\<close> takes it through
  the loop, the resume and any history of attempts in which other processes write to the ledger, memory is lost and
  writes are torn; \<open>Linear_Progress\<close> shows that an undisturbed attempt succeeds; \<open>Linear_Properties\<close> has the
  properties: no committed step runs again, outputs are stored before commits, results fit what is durable, replays do
  not fail, a paused run goes on from its snapshot, and an old snapshot makes committed steps run again. What the driver calls is required to leave this run's step entries and
  its journal alone (\<open>collaborators_ok\<close>); the alternative of each statement is an entry of another action with the
  key of a step, which takes two texts with one SHA-256 digest.

  \<^bold>\<open>Not modelled.\<close> The concurrent, hand-off and evaluator topologies of the workflow driver, the human-gate composers, sub-agent and
  child-workflow dispatch, the memory subsystem, provider adapters, MCP hosts, bootstrap, configuration, the command
  line, dashboards and telemetry exporters: mostly glue, I/O and wiring. \<open>PROJECT.json\<close> lists them.
\<close>

end
